(* ===== verification/Prelude.thy ===== *)
theory Prelude
  imports Main "HOL-Library.Word"
begin

text \<open>
  Shared vocabulary of the development: the result type of operations that can stop the
  kernel, checked array access, rounding division, the generic allocation loop, and the
  generic lemmas on lists and words that the components use.

  A C++ operation that can fail in a way the caller cannot observe (an \<^verbatim>\<open>ASSERT\<close> that
  calls \<^verbatim>\<open>Abort()\<close>, an access outside an array) returns \<open>fault + 'a\<close>; \<open>Inl\<close>
  carries the reason, \<open>Inr\<close> the value. A C++ \<^verbatim>\<open>int\<close> that is used as a number is an
  \<^typ>\<open>int\<close>: signed overflow is undefined in C++, so every execution that has a meaning
  agrees with it. Where bits or wrap-around matter, the value is a \<open>32 word\<close>.
\<close>

unbundle bit_operations_syntax

named_theorems nachos_wf
named_theorems abs_simps

type_synonym byte = "8 word"
type_synonym u32 = "32 word"

section \<open>Faults and results\<close>

datatype fault =
    AssertFailed     \<comment> \<open>\<^verbatim>\<open>ASSERT(c)\<close> with \<open>c\<close> false: the kernel aborts\<close>
  | OutOfBounds      \<comment> \<open>an array is read or written outside its bounds\<close>
  | BadPointer       \<comment> \<open>a null or dangling pointer is followed\<close>
  | HostTrap         \<comment> \<open>the host processor traps: \<^verbatim>\<open>INT_MIN / -1\<close>\<close>

type_synonym 'a result = "fault + 'a"

fun bindR :: "'a result \<Rightarrow> ('a \<Rightarrow> 'b result) \<Rightarrow> 'b result" where
  "bindR (Inl e) f = Inl e"
| "bindR (Inr x) f = f x"

definition ASSERT :: "bool \<Rightarrow> unit result" where
  "ASSERT c = (if c then Inr () else Inl AssertFailed)"

lemma ASSERT_True [simp]: "c \<Longrightarrow> ASSERT c = Inr ()"
  by (simp add: ASSERT_def)

lemma ASSERT_False [simp]: "\<not> c \<Longrightarrow> ASSERT c = Inl AssertFailed"
  by (simp add: ASSERT_def)

lemma ASSERT_eq_Inr [simp]: "(ASSERT c = Inr u) = c"
  by (simp add: ASSERT_def)

lemma bindR_cong [fundef_cong]:
  "m = m' \<Longrightarrow> (\<And>x. m' = Inr x \<Longrightarrow> f x = f' x) \<Longrightarrow> bindR m f = bindR m' f'"
  by (cases m') auto

lemma bindR_eq_Inr: "(bindR m f = Inr y) = (\<exists>x. m = Inr x \<and> f x = Inr y)"
  by (cases m) auto

lemma bindR_eq_Inl: "(bindR m f = Inl e) = (m = Inl e \<or> (\<exists>x. m = Inr x \<and> f x = Inl e))"
  by (cases m) auto

section \<open>Checked arrays\<close>

definition rd :: "'a list \<Rightarrow> int \<Rightarrow> 'a result" where
  "rd xs i = (if 0 \<le> i \<and> i < int (length xs) then Inr (xs ! nat i) else Inl OutOfBounds)"

definition wr :: "'a list \<Rightarrow> int \<Rightarrow> 'a \<Rightarrow> 'a list result" where
  "wr xs i v = (if 0 \<le> i \<and> i < int (length xs) then Inr (xs[nat i := v]) else Inl OutOfBounds)"

lemma rd_int [simp]: "i < length xs \<Longrightarrow> rd xs (int i) = Inr (xs ! i)"
  by (simp add: rd_def)

lemma wr_int [simp]: "i < length xs \<Longrightarrow> wr xs (int i) v = Inr (xs[i := v])"
  by (simp add: wr_def)

lemma wr_length: "wr xs i v = Inr ys \<Longrightarrow> length ys = length xs"
  by (auto simp: wr_def split: if_splits)

section \<open>The rounding macros of utility.h\<close>

text \<open>C division and remainder truncate towards zero.\<close>

definition c_div :: "int \<Rightarrow> int \<Rightarrow> int" where
  "c_div x y = sgn x * sgn y * (\<bar>x\<bar> div \<bar>y\<bar>)"

definition c_mod :: "int \<Rightarrow> int \<Rightarrow> int" where
  "c_mod x y = x - y * c_div x y"

definition divRoundDown :: "int \<Rightarrow> int \<Rightarrow> int" where
  "divRoundDown n s = c_div n s"

definition divRoundUp :: "int \<Rightarrow> int \<Rightarrow> int" where
  "divRoundUp n s = c_div n s + (if c_mod n s > 0 then 1 else 0)"

lemma c_div_nonneg [simp]: "0 \<le> n \<Longrightarrow> 0 < s \<Longrightarrow> c_div n s = n div s"
  by (cases "n = 0") (simp_all add: c_div_def)

lemma c_mod_nonneg [simp]: "0 \<le> n \<Longrightarrow> 0 < s \<Longrightarrow> c_mod n s = n mod s"
  by (simp add: c_mod_def minus_mult_div_eq_mod)

lemma divRoundUp_eq: "0 \<le> n \<Longrightarrow> 0 < s \<Longrightarrow> divRoundUp n s = n div s + (if n mod s > 0 then 1 else 0)"
  by (simp add: divRoundUp_def)

lemma divRoundUp_nonneg: "0 \<le> n \<Longrightarrow> 0 < s \<Longrightarrow> 0 \<le> divRoundUp n s"
  by (simp add: divRoundUp_eq pos_imp_zdiv_nonneg_iff)

lemma divRoundUp_covers: "0 \<le> n \<Longrightarrow> 0 < s \<Longrightarrow> n \<le> divRoundUp n s * s"
proof -
  assume n0: "0 \<le> n" and s: "0 < s"
  have n: "n div s * s + n mod s = n" by simp
  show ?thesis
  proof (cases "n mod s > 0")
    case True
    then have "divRoundUp n s * s = n div s * s + s"
      by (simp add: divRoundUp_eq n0 s distrib_right)
    moreover have "n mod s < s" using s by simp
    ultimately show ?thesis using n by linarith
  next
    case False
    then have "divRoundUp n s * s = n div s * s" by (simp add: divRoundUp_eq n0 s)
    with False n show ?thesis by linarith
  qed
qed

lemma divRoundUp_least: "0 \<le> n \<Longrightarrow> 0 < s \<Longrightarrow> n \<le> k * s \<Longrightarrow> divRoundUp n s \<le> k"
proof -
  assume n0: "0 \<le> n" and s: "0 < s" and le: "n \<le> k * s"
  have n: "n = n div s * s + n mod s" by simp
  show ?thesis
  proof (cases "n mod s > 0")
    case True
    with n le have "n div s * s < k * s" by linarith
    then have "n div s < k" using s by simp
    with True show ?thesis by (simp add: divRoundUp_eq n0 s)
  next
    case False
    have "n div s \<le> k * s div s" using s le by (intro zdiv_mono1) auto
    with False s show ?thesis by (simp add: divRoundUp_eq n0)
  qed
qed

lemma div_lt_divRoundUp: "0 \<le> i \<Longrightarrow> i < n \<Longrightarrow> 0 < s \<Longrightarrow> i div s < divRoundUp n s"
proof -
  assume i: "0 \<le> i" "i < n" "0 < s"
  have "i < divRoundUp n s * s" using divRoundUp_covers [of n s] i by linarith
  moreover have "i div s * s \<le> i" using i by (simp add: minus_mod_eq_div_mult [symmetric])
  ultimately have "i div s * s < divRoundUp n s * s" by linarith
  then show ?thesis using i by simp
qed

section \<open>Repeated allocation\<close>

text \<open>
  The loop \<^verbatim>\<open>for (i = 0; i < n; i++) a[i] = m->Find();\<close> over an allocator: the slots in
  the order they were returned, and the allocator after the loop.
\<close>

fun repeat_find :: "('b \<Rightarrow> (int \<times> 'b) result) \<Rightarrow> nat \<Rightarrow> 'b \<Rightarrow> (int list \<times> 'b) result" where
  "repeat_find fnd 0 b = Inr ([], b)"
| "repeat_find fnd (Suc n) b =
     bindR (fnd b) (\<lambda>(k, b').
     bindR (repeat_find fnd n b') (\<lambda>(ks, b''). Inr (k # ks, b'')))"

text \<open>The loop that tests that each slot is taken and clears it.\<close>

fun clear_all :: "('b \<Rightarrow> int \<Rightarrow> bool result) \<Rightarrow> ('b \<Rightarrow> int \<Rightarrow> 'b result) \<Rightarrow>
    int list \<Rightarrow> 'b \<Rightarrow> 'b result" where
  "clear_all test clear [] b = Inr b"
| "clear_all test clear (k # ks) b =
     bindR (test b k) (\<lambda>t.
     bindR (ASSERT t) (\<lambda>_.
     bindR (clear b k) (\<lambda>b'. clear_all test clear ks b')))"

section \<open>Lists\<close>

lemma length_filter_Not_conv:
  "length (filter Not bs) = length bs - card {i. i < length bs \<and> bs ! i}"
proof -
  have "length (filter Not bs) + length (filter (\<lambda>b. b) bs) = length bs"
    by (induction bs) auto
  moreover have "length (filter (\<lambda>b. b) bs) = card {i. i < length bs \<and> bs ! i}"
    by (rule length_filter_conv_card)
  ultimately show ?thesis by simp
qed

section \<open>Words\<close>

lemma unat_byte_lt: "unat (b :: byte) < 256"
proof -
  have "unat b < 2 ^ LENGTH(8)" by (rule unsigned_less)
  then show ?thesis by simp
qed

lemma unat_short_lt: "unat (b :: 16 word) < 65536"
proof -
  have "unat b < 2 ^ LENGTH(16)" by (rule unsigned_less)
  then show ?thesis by simp
qed

lemma unat_u32_lt: "unat (b :: u32) < 4294967296"
proof -
  have "unat b < 2 ^ LENGTH(32)" by (rule unsigned_less)
  then show ?thesis by simp
qed

lemma sint_u32_bounds: "- 2147483648 \<le> sint w" "sint w < 2147483648" for w :: u32
  using sint_ge [of w] sint_lt [of w] by simp_all

end
