(* ===== verification/Allocator.thy ===== *)
theory Allocator
  imports Prelude
begin

text \<open>
  The contract between an allocator of numbered slots and the code that allocates many
  slots in a loop: the file header (data sectors), the address space (physical pages), the
  process table and the semaphore table. The operations are those a client calls; \<open>used\<close>
  is the set of slots taken. The client lemmas about the two loops of the prelude are
  proved here once, and reach the components through the interpretation on \<open>BitMap\<close>.
\<close>

locale slot_allocator =
  fixes fnd :: "'b \<Rightarrow> (int \<times> 'b) result"
    and clear :: "'b \<Rightarrow> int \<Rightarrow> 'b result"
    and test :: "'b \<Rightarrow> int \<Rightarrow> bool result"
    and num_clear :: "'b \<Rightarrow> int result"
    and wf :: "'b \<Rightarrow> bool"
    and cap :: "'b \<Rightarrow> nat"
    and used :: "'b \<Rightarrow> nat set"
  assumes used_sub: "wf b \<Longrightarrow> used b \<subseteq> {..<cap b}"
    and fnd_full: "wf b \<Longrightarrow> used b = {..<cap b} \<Longrightarrow> fnd b = Inr (-1, b)"
    and fnd_free: "wf b \<Longrightarrow> used b \<noteq> {..<cap b} \<Longrightarrow>
      \<exists>k b'. fnd b = Inr (int k, b') \<and> k < cap b \<and> k \<notin> used b \<and> (\<forall>j<k. j \<in> used b) \<and>
        wf b' \<and> cap b' = cap b \<and> used b' = insert k (used b)"
    and test_slot: "wf b \<Longrightarrow> k < cap b \<Longrightarrow> test b (int k) = Inr (k \<in> used b)"
    and clear_slot: "wf b \<Longrightarrow> k < cap b \<Longrightarrow>
      \<exists>b'. clear b (int k) = Inr b' \<and> wf b' \<and> cap b' = cap b \<and> used b' = used b - {k}"
    and num_clear_slots: "wf b \<Longrightarrow> num_clear b = Inr (int (cap b) - int (card (used b)))"
begin

lemma used_finite: "wf b \<Longrightarrow> finite (used b)"
  using used_sub finite_subset by blast

lemma card_used_le: "wf b \<Longrightarrow> card (used b) \<le> cap b"
  using card_mono [OF _ used_sub] by fastforce

lemma repeat_find_ok:
  "wf b \<Longrightarrow> n + card (used b) \<le> cap b \<Longrightarrow>
   \<exists>ks b'. repeat_find fnd n b = Inr (map int ks, b') \<and> length ks = n \<and> distinct ks \<and>
     set ks \<inter> used b = {} \<and> set ks \<subseteq> {..<cap b} \<and> wf b' \<and> cap b' = cap b \<and>
     used b' = used b \<union> set ks"
proof (induction n arbitrary: b)
  case 0
  then show ?case by simp
next
  case (Suc n)
  then have "used b \<noteq> {..<cap b}" by auto
  with Suc.prems(1) obtain k b1 where k: "fnd b = Inr (int k, b1)" "k < cap b" "k \<notin> used b"
    "wf b1" "cap b1 = cap b" "used b1 = insert k (used b)"
    using fnd_free by blast
  have "n + card (used b1) \<le> cap b1"
    using Suc.prems k used_finite by simp
  with Suc.IH k(4) obtain ks b2 where ks: "repeat_find fnd n b1 = Inr (map int ks, b2)"
    "length ks = n" "distinct ks" "set ks \<inter> used b1 = {}" "set ks \<subseteq> {..<cap b1}" "wf b2"
    "cap b2 = cap b1" "used b2 = used b1 \<union> set ks" by blast
  show ?case
    by (rule exI [of _ "k # ks"], rule exI [of _ b2]) (use k ks in auto)
qed

lemma clear_all_ok:
  "wf b \<Longrightarrow> distinct ks \<Longrightarrow> set ks \<subseteq> used b \<Longrightarrow>
   \<exists>b'. clear_all test clear (map int ks) b = Inr b' \<and> wf b' \<and> cap b' = cap b \<and>
     used b' = used b - set ks"
proof (induction ks arbitrary: b)
  case Nil
  then show ?case by simp
next
  case (Cons k ks)
  then have k: "k \<in> used b" "k < cap b" using used_sub by auto
  with Cons.prems(1) obtain b1 where b1: "clear b (int k) = Inr b1" "wf b1" "cap b1 = cap b"
    "used b1 = used b - {k}" using clear_slot by blast
  from Cons.prems b1 have "distinct ks" "set ks \<subseteq> used b1" by auto
  with Cons.IH b1(2) obtain b2 where b2: "clear_all test clear (map int ks) b1 = Inr b2" "wf b2"
    "cap b2 = cap b1" "used b2 = used b1 - set ks" by blast
  from k Cons.prems(1) have "test b (int k) = Inr True" by (simp add: test_slot)
  with b1 b2 show ?case by auto
qed

text \<open>Freeing a slot that is not taken stops the kernel.\<close>

lemma clear_all_unused:
  assumes "wf b" and "k < cap b" and "k \<notin> used b"
  shows "clear_all test clear (int k # ks) b = Inl AssertFailed"
  using assms by (simp add: test_slot)

text \<open>Allocating and freeing again gives back the set of taken slots.\<close>

lemma alloc_free:
  assumes "wf b" and "n + card (used b) \<le> cap b"
  shows "\<exists>ks b1 b2. repeat_find fnd n b = Inr (map int ks, b1) \<and>
    clear_all test clear (map int ks) b1 = Inr b2 \<and> wf b2 \<and> cap b2 = cap b \<and> used b2 = used b"
proof -
  obtain ks b1 where ks: "repeat_find fnd n b = Inr (map int ks, b1)" "distinct ks"
    "set ks \<inter> used b = {}" "wf b1" "cap b1 = cap b" "used b1 = used b \<union> set ks"
    using repeat_find_ok [OF assms] by blast
  from ks obtain b2 where "clear_all test clear (map int ks) b1 = Inr b2" "wf b2"
    "cap b2 = cap b1" "used b2 = used b1 - set ks"
    using clear_all_ok [of b1 ks] by auto
  with ks show ?thesis by auto
qed

end

end
