(* ===== verification/Bitmap.thy ===== *)
theory Bitmap
  imports Prelude Allocator
begin

text \<open>
  The class \<^verbatim>\<open>BitMap\<close> of \<^verbatim>\<open>userprog/bitmap.{h,cc}\<close>: an array of 32-bit words in which
  bit \<open>n\<close> is bit \<open>n mod 32\<close> of word \<open>n div 32\<close>. It allocates disk sectors, physical
  pages, process slots and semaphore slots. The abstraction is the set of marked bits;
  the interface its clients rely on is the locale \<open>slot_allocator\<close>, interpreted on the
  operations of the class at the end of the theory.
\<close>

section \<open>The class\<close>

definition BitsInByte :: int where
  "BitsInByte = 8"

definition BitsInWord :: int where
  "BitsInWord = 32"

record BitMap =
  numBits :: int
  numWords :: int
  bmap :: "u32 list"

definition bit_mask :: "int \<Rightarrow> u32" where
  "bit_mask which = push_bit (nat (which mod BitsInWord)) 1"

definition BitMap_Mark :: "BitMap \<Rightarrow> int \<Rightarrow> BitMap result" where
  "BitMap_Mark bm which =
     bindR (ASSERT (which \<ge> 0 \<and> which < numBits bm)) (\<lambda>_.
     bindR (rd (bmap bm) (which div BitsInWord)) (\<lambda>w.
     bindR (wr (bmap bm) (which div BitsInWord) (w OR bit_mask which)) (\<lambda>m.
     Inr (bm\<lparr>bmap := m\<rparr>))))"

definition BitMap_Clear :: "BitMap \<Rightarrow> int \<Rightarrow> BitMap result" where
  "BitMap_Clear bm which =
     bindR (ASSERT (which \<ge> 0 \<and> which < numBits bm)) (\<lambda>_.
     bindR (rd (bmap bm) (which div BitsInWord)) (\<lambda>w.
     bindR (wr (bmap bm) (which div BitsInWord) (w AND NOT (bit_mask which))) (\<lambda>m.
     Inr (bm\<lparr>bmap := m\<rparr>))))"

definition BitMap_Test :: "BitMap \<Rightarrow> int \<Rightarrow> bool result" where
  "BitMap_Test bm which =
     bindR (ASSERT (which \<ge> 0 \<and> which < numBits bm)) (\<lambda>_.
     bindR (rd (bmap bm) (which div BitsInWord)) (\<lambda>w.
     Inr (w AND bit_mask which \<noteq> 0)))"

text \<open>The constructor: \<open>junk\<close> is what \<^verbatim>\<open>new unsigned int[numWords]\<close> finds in memory.\<close>

fun BitMap_clear_upto :: "BitMap \<Rightarrow> nat \<Rightarrow> BitMap result" where
  "BitMap_clear_upto bm 0 = Inr bm"
| "BitMap_clear_upto bm (Suc n) =
     bindR (BitMap_clear_upto bm n) (\<lambda>bm'. BitMap_Clear bm' (int n))"

definition BitMap_BitMap :: "(nat \<Rightarrow> u32) \<Rightarrow> int \<Rightarrow> BitMap result" where
  "BitMap_BitMap junk nitems =
     (let nw = divRoundUp nitems BitsInWord in
      BitMap_clear_upto
        \<lparr>numBits = nitems, numWords = nw, bmap = map junk [0..<nat nw]\<rparr> (nat nitems))"

text \<open>\<^verbatim>\<open>Find\<close> and \<^verbatim>\<open>FindFreeSlot\<close> have the same body; the loop runs from \<open>i\<close> upwards.\<close>

function BitMap_Find_from :: "BitMap \<Rightarrow> int \<Rightarrow> (int \<times> BitMap) result" where
  "BitMap_Find_from bm i =
     (if i < numBits bm then
        bindR (BitMap_Test bm i) (\<lambda>t.
        if \<not> t then bindR (BitMap_Mark bm i) (\<lambda>bm'. Inr (i, bm'))
        else BitMap_Find_from bm (i + 1))
      else Inr (-1, bm))"
  by pat_completeness auto
termination
  by (relation "measure (\<lambda>(bm, i). nat (numBits bm - i))") auto

declare BitMap_Find_from.simps [simp del]

definition BitMap_Find :: "BitMap \<Rightarrow> (int \<times> BitMap) result" where
  "BitMap_Find bm = BitMap_Find_from bm 0"

definition BitMap_FindFreeSlot :: "BitMap \<Rightarrow> (int \<times> BitMap) result" where
  "BitMap_FindFreeSlot bm = BitMap_Find_from bm 0"

fun BitMap_count_upto :: "BitMap \<Rightarrow> nat \<Rightarrow> int result" where
  "BitMap_count_upto bm 0 = Inr 0"
| "BitMap_count_upto bm (Suc n) =
     bindR (BitMap_count_upto bm n) (\<lambda>count.
     bindR (BitMap_Test bm (int n)) (\<lambda>t.
     Inr (if \<not> t then count + 1 else count)))"

definition BitMap_NumClear :: "BitMap \<Rightarrow> int result" where
  "BitMap_NumClear bm = BitMap_count_upto bm (nat (numBits bm))"

text \<open>\<^verbatim>\<open>Print\<close> lists the numbers of the set bits.\<close>

fun BitMap_print_upto :: "BitMap \<Rightarrow> nat \<Rightarrow> int list result" where
  "BitMap_print_upto bm 0 = Inr []"
| "BitMap_print_upto bm (Suc n) =
     bindR (BitMap_print_upto bm n) (\<lambda>out.
     bindR (BitMap_Test bm (int n)) (\<lambda>t.
     Inr (if t then out @ [int n] else out)))"

definition BitMap_Print :: "BitMap \<Rightarrow> int list result" where
  "BitMap_Print bm = BitMap_print_upto bm (nat (numBits bm))"

section \<open>Invariant and abstraction\<close>

definition wf_bitmap :: "BitMap \<Rightarrow> bool" where
  "wf_bitmap bm \<longleftrightarrow> 0 \<le> numBits bm \<and> numWords bm = divRoundUp (numBits bm) BitsInWord \<and>
     int (length (bmap bm)) = numWords bm"

definition capacity :: "BitMap \<Rightarrow> nat" where
  "capacity bm = nat (numBits bm)"

definition bit_at :: "BitMap \<Rightarrow> nat \<Rightarrow> bool" where
  "bit_at bm i = bit (bmap bm ! (i div 32)) (i mod 32)"

definition marked :: "BitMap \<Rightarrow> nat set" where
  "marked bm = {i. i < capacity bm \<and> bit_at bm i}"

lemma marked_finite [simp]: "finite (marked bm)"
  by (simp add: marked_def)

lemma marked_lt: "i \<in> marked bm \<Longrightarrow> i < capacity bm"
  by (simp add: marked_def)

lemma wf_numBits: "wf_bitmap bm \<Longrightarrow> numBits bm = int (capacity bm)"
  by (simp add: wf_bitmap_def capacity_def)

lemma bit_mask_nat: "bit_mask (int i) = push_bit (i mod 32) 1"
  by (simp add: bit_mask_def BitsInWord_def nat_mod_distrib)

lemma bit_bit_mask [simp]: "bit (bit_mask (int i)) n = (n = i mod 32)"
  by (auto simp: bit_mask_nat bit_exp_iff)

lemma and_bit_mask_eq_0: "(w AND bit_mask (int i) = 0) = (\<not> bit w (i mod 32))"
proof
  assume "w AND bit_mask (int i) = 0"
  then have "\<not> bit (w AND bit_mask (int i)) (i mod 32)" by simp
  then show "\<not> bit w (i mod 32)" by (simp add: bit_and_iff)
next
  assume "\<not> bit w (i mod 32)"
  then show "w AND bit_mask (int i) = 0"
    by (intro bit_word_eqI) (auto simp: bit_and_iff)
qed

lemma wf_bitmap_word: "wf_bitmap bm \<Longrightarrow> i < capacity bm \<Longrightarrow> i div 32 < length (bmap bm)"
proof -
  assume wf: "wf_bitmap bm" and i: "i < capacity bm"
  have "int i div 32 < divRoundUp (numBits bm) 32"
    using i by (intro div_lt_divRoundUp) (auto simp: capacity_def)
  with wf have "int (i div 32) < int (length (bmap bm))"
    by (simp add: wf_bitmap_def BitsInWord_def zdiv_int)
  then show ?thesis by simp
qed

lemma index_div: "int i div BitsInWord = int (i div 32)"
  by (simp add: BitsInWord_def zdiv_int)

text \<open>What each access does, on a well-formed map: the guard decides, and the word is in range.\<close>

lemma Test_ok [abs_simps]:
  "wf_bitmap bm \<Longrightarrow> i < capacity bm \<Longrightarrow> BitMap_Test bm (int i) = Inr (bit_at bm i)"
  by (simp add: BitMap_Test_def index_div wf_bitmap_word and_bit_mask_eq_0 bit_at_def
      capacity_def)

lemma Mark_eq:
  "wf_bitmap bm \<Longrightarrow> i < capacity bm \<Longrightarrow>
   BitMap_Mark bm (int i) =
     Inr (bm\<lparr>bmap := (bmap bm)[i div 32 := bmap bm ! (i div 32) OR bit_mask (int i)]\<rparr>)"
  by (simp add: BitMap_Mark_def index_div wf_bitmap_word) (simp add: capacity_def)

lemma Clear_eq:
  "wf_bitmap bm \<Longrightarrow> i < capacity bm \<Longrightarrow>
   BitMap_Clear bm (int i) =
     Inr (bm\<lparr>bmap := (bmap bm)[i div 32 := bmap bm ! (i div 32) AND NOT (bit_mask (int i))]\<rparr>)"
  by (simp add: BitMap_Clear_def index_div wf_bitmap_word) (simp add: capacity_def)

lemma wf_bitmap_update [nachos_wf]:
  "wf_bitmap bm \<Longrightarrow> wf_bitmap (bm\<lparr>bmap := (bmap bm)[k := w]\<rparr>)"
  by (simp add: wf_bitmap_def)

lemma capacity_update [simp]: "capacity (bm\<lparr>bmap := m\<rparr>) = capacity bm"
  by (simp add: capacity_def)

lemma div_mod_32_inject: "i div 32 = j div 32 \<Longrightarrow> i mod 32 = j mod 32 \<Longrightarrow> i = (j::nat)"
  by (metis div_mult_mod_eq)

lemma bit_at_Mark:
  "k div 32 < length (bmap bm) \<Longrightarrow>
   bit_at (bm\<lparr>bmap := (bmap bm)[k div 32 := bmap bm ! (k div 32) OR bit_mask (int k)]\<rparr>) i
     = (bit_at bm i \<or> i = k)"
  by (auto simp: bit_at_def nth_list_update bit_or_iff dest: div_mod_32_inject)

lemma bit_at_Clear:
  "k div 32 < length (bmap bm) \<Longrightarrow>
   bit_at (bm\<lparr>bmap := (bmap bm)[k div 32 := bmap bm ! (k div 32) AND NOT (bit_mask (int k))]\<rparr>) i
     = (bit_at bm i \<and> i \<noteq> k)"
  by (auto simp: bit_at_def nth_list_update bit_and_iff bit_not_iff dest: div_mod_32_inject)

lemma Mark_ok:
  assumes "wf_bitmap bm" and "k < capacity bm"
  obtains bm' where "BitMap_Mark bm (int k) = Inr bm'" and "wf_bitmap bm'"
    and "capacity bm' = capacity bm" and "marked bm' = insert k (marked bm)"
proof
  let ?bm = "bm\<lparr>bmap := (bmap bm)[k div 32 := bmap bm ! (k div 32) OR bit_mask (int k)]\<rparr>"
  show "BitMap_Mark bm (int k) = Inr ?bm" using assms by (rule Mark_eq)
  show "wf_bitmap ?bm" using assms(1) by (rule wf_bitmap_update)
  show "capacity ?bm = capacity bm" by simp
  show "marked ?bm = insert k (marked bm)"
    using assms by (auto simp: marked_def bit_at_Mark wf_bitmap_word)
qed

lemma Clear_ok:
  assumes "wf_bitmap bm" and "k < capacity bm"
  obtains bm' where "BitMap_Clear bm (int k) = Inr bm'" and "wf_bitmap bm'"
    and "capacity bm' = capacity bm" and "marked bm' = marked bm - {k}"
proof
  let ?bm = "bm\<lparr>bmap := (bmap bm)[k div 32 := bmap bm ! (k div 32) AND NOT (bit_mask (int k))]\<rparr>"
  show "BitMap_Clear bm (int k) = Inr ?bm" using assms by (rule Clear_eq)
  show "wf_bitmap ?bm" using assms(1) by (rule wf_bitmap_update)
  show "capacity ?bm = capacity bm" by simp
  show "marked ?bm = marked bm - {k}"
    using assms by (auto simp: marked_def bit_at_Clear wf_bitmap_word)
qed

text \<open>Out of range, every access fails the assertion: no word is touched.\<close>

lemma access_out_of_range:
  assumes "\<not> (0 \<le> which \<and> which < numBits bm)"
  shows "BitMap_Mark bm which = Inl AssertFailed"
    and "BitMap_Clear bm which = Inl AssertFailed"
    and "BitMap_Test bm which = Inl AssertFailed"
  using assms by (auto simp: BitMap_Mark_def BitMap_Clear_def BitMap_Test_def)

lemma clear_upto_ok:
  "wf_bitmap bm \<Longrightarrow> n \<le> capacity bm \<Longrightarrow>
   \<exists>bm'. BitMap_clear_upto bm n = Inr bm' \<and> wf_bitmap bm' \<and> capacity bm' = capacity bm \<and>
     numBits bm' = numBits bm \<and> marked bm' = marked bm - {..<n}"
proof (induction n)
  case 0
  then show ?case by simp
next
  case (Suc n)
  then obtain b where b: "BitMap_clear_upto bm n = Inr b" "wf_bitmap b" "capacity b = capacity bm"
    "numBits b = numBits bm" "marked b = marked bm - {..<n}" by auto
  from b Suc.prems obtain b' where b': "BitMap_Clear b (int n) = Inr b'" "wf_bitmap b'"
    "capacity b' = capacity b" "marked b' = marked b - {n}"
    by (auto intro: Clear_ok [of b n])
  have "numBits b' = numBits b"
    using b'(2,3) b(2) by (simp add: wf_numBits)
  with b b' show ?case by (auto simp: lessThan_Suc)
qed

lemma BitMap_new_ok:
  assumes "0 \<le> nitems"
  shows "\<exists>bm. BitMap_BitMap junk nitems = Inr bm \<and> wf_bitmap bm \<and>
    numBits bm = nitems \<and> capacity bm = nat nitems \<and> marked bm = {}"
proof -
  let ?b = "\<lparr>numBits = nitems, numWords = divRoundUp nitems BitsInWord,
    bmap = map junk [0..<nat (divRoundUp nitems BitsInWord)]\<rparr>"
  have wf: "wf_bitmap ?b"
    using assms by (simp add: wf_bitmap_def divRoundUp_nonneg BitsInWord_def)
  have cap: "capacity ?b = nat nitems" by (simp add: capacity_def)
  obtain bm where bm: "BitMap_clear_upto ?b (nat nitems) = Inr bm" "wf_bitmap bm"
    "capacity bm = capacity ?b" "numBits bm = nitems"
    "marked bm = marked ?b - {..<nat nitems}"
    using clear_upto_ok [OF wf, of "nat nitems"] cap by auto
  have "marked bm = {}" using bm(5) cap by (auto simp: marked_def)
  with bm cap show ?thesis by (simp add: BitMap_BitMap_def Let_def)
qed

section \<open>Find and NumClear\<close>

lemma Find_from_free:
  assumes "wf_bitmap bm" and "i \<le> k" and "k < capacity bm" and "k \<notin> marked bm"
    and "\<forall>j. i \<le> j \<and> j < k \<longrightarrow> j \<in> marked bm"
  shows "BitMap_Find_from bm (int i) = bindR (BitMap_Mark bm (int k)) (\<lambda>bm'. Inr (int k, bm'))"
  using assms
proof (induction "k - i" arbitrary: i)
  case 0
  then have "i = k" by simp
  with 0 show ?case
    by (subst BitMap_Find_from.simps) (auto simp: Test_ok marked_def capacity_def)
next
  case (Suc d)
  then have "i \<in> marked bm" by auto
  then have "BitMap_Test bm (int i) = Inr True" and "int i < numBits bm"
    using Suc.prems by (auto simp: Test_ok marked_def capacity_def)
  then have "BitMap_Find_from bm (int i) = BitMap_Find_from bm (int (Suc i))"
    by (subst BitMap_Find_from.simps) (simp add: add.commute)
  also have "\<dots> = bindR (BitMap_Mark bm (int k)) (\<lambda>bm'. Inr (int k, bm'))"
    by (rule Suc.hyps) (use Suc.hyps(2) Suc.prems in auto)
  finally show ?case .
qed

lemma Find_from_full:
  assumes "wf_bitmap bm" and "\<forall>j. i \<le> j \<and> j < capacity bm \<longrightarrow> j \<in> marked bm"
  shows "BitMap_Find_from bm (int i) = Inr (-1, bm)"
  using assms
proof (induction "capacity bm - i" arbitrary: i)
  case 0
  then have "\<not> int i < numBits bm" by (simp add: wf_numBits)
  then show ?case by (subst BitMap_Find_from.simps) simp
next
  case (Suc d)
  then have "i \<in> marked bm" by auto
  then have "BitMap_Test bm (int i) = Inr True" and "int i < numBits bm"
    using Suc.prems by (auto simp: Test_ok marked_def capacity_def)
  then have "BitMap_Find_from bm (int i) = BitMap_Find_from bm (int (Suc i))"
    by (subst BitMap_Find_from.simps) (simp add: add.commute)
  also have "\<dots> = Inr (-1, bm)"
    by (rule Suc.hyps) (use Suc.hyps(2) Suc.prems in auto)
  finally show ?case .
qed

lemma Find_full:
  "wf_bitmap bm \<Longrightarrow> marked bm = {..<capacity bm} \<Longrightarrow> BitMap_Find bm = Inr (-1, bm)"
  using Find_from_full [of bm 0] by (simp add: BitMap_Find_def)

lemma Find_free:
  assumes wf: "wf_bitmap bm" and free: "marked bm \<noteq> {..<capacity bm}"
  shows "\<exists>k bm'. BitMap_Find bm = Inr (int k, bm') \<and> k < capacity bm \<and> k \<notin> marked bm \<and>
    (\<forall>j<k. j \<in> marked bm) \<and> wf_bitmap bm' \<and> capacity bm' = capacity bm \<and>
    marked bm' = insert k (marked bm)"
proof -
  let ?P = "\<lambda>k. k < capacity bm \<and> k \<notin> marked bm"
  define k where "k = (LEAST k. ?P k)"
  have "\<exists>k. ?P k" using free marked_lt by blast
  then have k: "?P k" unfolding k_def by (rule LeastI_ex)
  have least: "\<forall>j<k. j \<in> marked bm"
    using k not_less_Least [of _ ?P] unfolding k_def by (meson less_trans)
  obtain bm' where bm': "BitMap_Mark bm (int k) = Inr bm'" "wf_bitmap bm'"
    "capacity bm' = capacity bm" "marked bm' = insert k (marked bm)"
    using wf k by (auto intro: Mark_ok [of bm k])
  have "BitMap_Find bm = Inr (int k, bm')"
    using Find_from_free [of bm 0 k] wf k least bm'(1) by (simp add: BitMap_Find_def)
  with k least bm' show ?thesis by blast
qed

lemma count_upto_ok:
  "wf_bitmap bm \<Longrightarrow> n \<le> capacity bm \<Longrightarrow>
   BitMap_count_upto bm n = Inr (int n - int (card (marked bm \<inter> {..<n})))"
proof (induction n)
  case 0
  then show ?case by simp
next
  case (Suc n)
  have "marked bm \<inter> {..<Suc n} =
      (if n \<in> marked bm then insert n (marked bm \<inter> {..<n}) else marked bm \<inter> {..<n})"
    by (auto simp: lessThan_Suc)
  with Suc show ?case by (auto simp: Test_ok marked_def)
qed

lemma NumClear_ok:
  "wf_bitmap bm \<Longrightarrow> BitMap_NumClear bm = Inr (int (capacity bm) - int (card (marked bm)))"
proof -
  assume wf: "wf_bitmap bm"
  have "marked bm \<inter> {..<capacity bm} = marked bm" using marked_lt by auto
  with count_upto_ok [OF wf, of "capacity bm"] show ?thesis
    by (simp add: BitMap_NumClear_def capacity_def)
qed

lemma print_upto_ok:
  "wf_bitmap bm \<Longrightarrow> n \<le> capacity bm \<Longrightarrow>
   BitMap_print_upto bm n = Inr (map int (filter (\<lambda>i. i \<in> marked bm) [0..<n]))"
  by (induction n) (auto simp: Test_ok marked_def)

lemma Print_ok:
  "wf_bitmap bm \<Longrightarrow>
   BitMap_Print bm = Inr (map int (filter (\<lambda>i. i \<in> marked bm) [0..<capacity bm]))"
  using print_upto_ok [of bm "capacity bm"] by (simp add: BitMap_Print_def capacity_def)

section \<open>The class provides the allocator's contract\<close>

interpretation bm: slot_allocator BitMap_Find BitMap_Clear BitMap_Test BitMap_NumClear
  wf_bitmap capacity marked
proof unfold_locales
  fix b :: BitMap and k :: nat
  assume wf: "wf_bitmap b"
  show "marked b \<subseteq> {..<capacity b}" using marked_lt by auto
  show "BitMap_NumClear b = Inr (int (capacity b) - int (card (marked b)))"
    using wf by (rule NumClear_ok)
  show "marked b = {..<capacity b} \<Longrightarrow> BitMap_Find b = Inr (-1, b)"
    using wf by (rule Find_full)
  show "marked b \<noteq> {..<capacity b} \<Longrightarrow>
    \<exists>k b'. BitMap_Find b = Inr (int k, b') \<and> k < capacity b \<and> k \<notin> marked b \<and>
      (\<forall>j<k. j \<in> marked b) \<and> wf_bitmap b' \<and> capacity b' = capacity b \<and>
      marked b' = insert k (marked b)"
    using wf by (rule Find_free)
  show "k < capacity b \<Longrightarrow> BitMap_Test b (int k) = Inr (k \<in> marked b)"
    using wf by (simp add: Test_ok marked_def)
  show "k < capacity b \<Longrightarrow>
    \<exists>b'. BitMap_Clear b (int k) = Inr b' \<and> wf_bitmap b' \<and> capacity b' = capacity b \<and>
      marked b' = marked b - {k}"
    using wf by (auto intro: Clear_ok [of b k])
qed

lemma FindFreeSlot_eq: "BitMap_FindFreeSlot bm = BitMap_Find bm"
  by (simp add: BitMap_FindFreeSlot_def BitMap_Find_def)

section \<open>Properties\<close>

text \<open>
  C20: \<^verbatim>\<open>Find\<close> returns the least clear bit and marks exactly that bit, or returns -1 and
  leaves the map as it is when every bit is set; it never fails an assertion or an array
  bound on a well-formed map.
\<close>

theorem BitMap_Find_least:
  assumes "wf_bitmap bm"
  shows "if marked bm = {..<capacity bm} then BitMap_Find bm = Inr (-1, bm)
    else \<exists>k bm'. BitMap_Find bm = Inr (int k, bm') \<and> k < capacity bm \<and> k \<notin> marked bm \<and>
      {..<k} \<subseteq> marked bm \<and> wf_bitmap bm' \<and> capacity bm' = capacity bm \<and>
      marked bm' = insert k (marked bm)"
  using Find_full [OF assms] Find_free [OF assms] by (auto simp: subset_iff)

lemma BitMap_Find_least_witness:
  "\<exists>bm'. BitMap_Find \<lparr>numBits = 3, numWords = 1, bmap = [5]\<rparr> = Inr (1, bm') \<and>
    marked bm' = {0, 1, 2}"
proof -
  let ?b = "\<lparr>numBits = 3, numWords = 1, bmap = [5]\<rparr>"
  have wf: "wf_bitmap ?b" by (simp add: wf_bitmap_def divRoundUp_def BitsInWord_def)
  have cap: "capacity ?b = 3" by (simp add: capacity_def)
  have "bit_at ?b 0" "\<not> bit_at ?b 1" "bit_at ?b 2" by (simp_all add: bit_at_def bit_numeral_rec)
  then have m: "marked ?b = {0, 2}"
    by (auto simp: marked_def cap numeral_3_eq_3 less_Suc_eq numeral_2_eq_2)
  have "1 \<notin> marked ?b" "1 \<in> {..<capacity ?b}" by (simp_all add: m cap)
  then have "marked ?b \<noteq> {..<capacity ?b}" by blast
  then obtain k bm' where k: "BitMap_Find ?b = Inr (int k, bm')" "k < 3" "k \<notin> {0, 2}"
    "marked bm' = insert k {0, 2}"
    using BitMap_Find_least [OF wf, unfolded m cap] by (auto simp only: m cap if_False)
  then have "k = 1" by auto
  with k show ?thesis by auto
qed

text \<open>
  The constructor yields a well-formed map with every bit clear, whatever the freshly
  allocated words held.
\<close>

lemma BitMap_new_all_clear:
  assumes "0 \<le> nitems"
  shows "\<exists>bm. BitMap_BitMap junk nitems = Inr bm \<and> wf_bitmap bm \<and> numBits bm = nitems \<and>
    marked bm = {} \<and> BitMap_NumClear bm = Inr nitems"
  using BitMap_new_ok [OF assms, of junk] assms by (auto simp: NumClear_ok)

end
