(* ===== verification/LinkedList.thy ===== *)
theory LinkedList
  imports Prelude "HOL-Library.Multiset"
begin

text \<open>
  The class \<^verbatim>\<open>List\<close> of \<^verbatim>\<open>threads/list.{h,cc}\<close>, at the level of pointers: a heap of
  \<^verbatim>\<open>ListElement\<close> cells and a list object that holds a pointer to the first and to the last
  cell. The operations update the heap as the code does, following a dangling or null
  pointer is the fault \<open>BadPointer\<close>, and the loops are partial functions whose
  termination on a well-formed list is proved. The theory shows that the operations
  implement a plain sequence of (key, item) pairs; the components that use the class
  (ready list, semaphore queues, pending interrupts) are modelled over that sequence.
\<close>

section \<open>Cells, heap and list object\<close>

record 'a ListElement =
  nxt :: "nat option"
  key :: int
  item :: 'a

type_synonym 'a lheap = "nat \<Rightarrow> 'a ListElement option"

record NList =
  first :: "nat option"
  lst :: "nat option"

definition ListElement_ListElement :: "'a \<Rightarrow> int \<Rightarrow> 'a ListElement" where
  "ListElement_ListElement itemPtr sortKey =
     \<lparr>nxt = None, key = sortKey, item = itemPtr\<rparr>"

definition List_List :: NList where
  "List_List = \<lparr>first = None, lst = None\<rparr>"

definition deref :: "'a lheap \<Rightarrow> nat option \<Rightarrow> 'a ListElement result" where
  "deref h p = (case p of None \<Rightarrow> Inl BadPointer
     | Some a \<Rightarrow> (case h a of None \<Rightarrow> Inl BadPointer | Some e \<Rightarrow> Inr e))"

definition set_next :: "'a lheap \<Rightarrow> nat option \<Rightarrow> nat option \<Rightarrow> 'a lheap result" where
  "set_next h p q = (case p of None \<Rightarrow> Inl BadPointer
     | Some a \<Rightarrow> bindR (deref h p) (\<lambda>e. Inr (h(a \<mapsto> e\<lparr>nxt := q\<rparr>))))"

section \<open>Operations\<close>

text \<open>The argument \<open>a\<close> is the address that \<^verbatim>\<open>new ListElement\<close> returns.\<close>

definition List_IsEmpty :: "NList \<Rightarrow> bool" where
  "List_IsEmpty l = (first l = None)"

definition List_Append :: "nat \<Rightarrow> 'a \<Rightarrow> 'a lheap \<times> NList \<Rightarrow> ('a lheap \<times> NList) result" where
  "List_Append a itm s = (case s of (h, l) \<Rightarrow>
     let h1 = h(a \<mapsto> ListElement_ListElement itm 0) in
     if List_IsEmpty l then Inr (h1, \<lparr>first = Some a, lst = Some a\<rparr>)
     else bindR (set_next h1 (lst l) (Some a)) (\<lambda>h2. Inr (h2, l\<lparr>lst := Some a\<rparr>)))"

definition List_Prepend :: "nat \<Rightarrow> 'a \<Rightarrow> 'a lheap \<times> NList \<Rightarrow> ('a lheap \<times> NList) result" where
  "List_Prepend a itm s = (case s of (h, l) \<Rightarrow>
     let h1 = h(a \<mapsto> ListElement_ListElement itm 0) in
     if List_IsEmpty l then Inr (h1, \<lparr>first = Some a, lst = Some a\<rparr>)
     else bindR (set_next h1 (Some a) (first l)) (\<lambda>h2. Inr (h2, l\<lparr>first := Some a\<rparr>)))"

text \<open>
  The search of \<^verbatim>\<open>SortedInsert\<close>, from the cell \<open>ptr\<close>. It links the new cell before the
  first later cell with a bigger key and yields \<open>Some h'\<close>, or reaches the end: \<open>None\<close>.
\<close>

partial_function (option) insert_walk ::
    "'a lheap \<Rightarrow> nat \<Rightarrow> int \<Rightarrow> nat option \<Rightarrow> ('a lheap option) result option" where
  "insert_walk h a sortKey ptr =
     (case deref h ptr of Inl e \<Rightarrow> Some (Inl e)
      | Inr p \<Rightarrow>
          if nxt p = None then Some (Inr None)
          else (case deref h (nxt p) of Inl e \<Rightarrow> Some (Inl e)
            | Inr q \<Rightarrow>
                if sortKey < key q then
                  Some (bindR (set_next h (Some a) (nxt p)) (\<lambda>h1.
                        bindR (set_next h1 ptr (Some a)) (\<lambda>h2. Inr (Some h2))))
                else insert_walk h a sortKey (nxt p)))"

definition List_SortedInsert ::
    "nat \<Rightarrow> 'a \<Rightarrow> int \<Rightarrow> 'a lheap \<times> NList \<Rightarrow> ('a lheap \<times> NList) result option" where
  "List_SortedInsert a itm sortKey s = (case s of (h, l) \<Rightarrow>
     let h1 = h(a \<mapsto> ListElement_ListElement itm sortKey) in
     if List_IsEmpty l then Some (Inr (h1, \<lparr>first = Some a, lst = Some a\<rparr>))
     else (case deref h1 (first l) of Inl e \<Rightarrow> Some (Inl e)
       | Inr f \<Rightarrow>
           if sortKey < key f then
             Some (bindR (set_next h1 (Some a) (first l)) (\<lambda>h2. Inr (h2, l\<lparr>first := Some a\<rparr>)))
           else (case insert_walk h1 a sortKey (first l) of None \<Rightarrow> None
             | Some (Inl e) \<Rightarrow> Some (Inl e)
             | Some (Inr (Some h2)) \<Rightarrow> Some (Inr (h2, l))
             | Some (Inr None) \<Rightarrow>
                 Some (bindR (set_next h1 (lst l) (Some a)) (\<lambda>h2.
                       Inr (h2, l\<lparr>lst := Some a\<rparr>))))))"

text \<open>
  \<^verbatim>\<open>SortedRemove\<close> yields the removed item with its key, \<open>None\<close> for an empty list; the cell
  is deleted. \<^verbatim>\<open>Remove\<close> is the same without the key.
\<close>

definition List_SortedRemove ::
    "'a lheap \<times> NList \<Rightarrow> ((int \<times> 'a) option \<times> ('a lheap \<times> NList)) result" where
  "List_SortedRemove s = (case s of (h, l) \<Rightarrow>
     (case first l of None \<Rightarrow> Inr (None, s)
      | Some f \<Rightarrow> bindR (deref h (Some f)) (\<lambda>e.
          let l' = (if first l = lst l then \<lparr>first = None, lst = None\<rparr>
                    else l\<lparr>first := nxt e\<rparr>) in
          Inr (Some (key e, item e), (h(f := None), l')))))"

definition List_Remove ::
    "'a lheap \<times> NList \<Rightarrow> ('a option \<times> ('a lheap \<times> NList)) result" where
  "List_Remove s = bindR (List_SortedRemove s) (\<lambda>(r, s'). Inr (map_option snd r, s'))"

text \<open>\<^verbatim>\<open>Mapcar\<close>: the items \<^verbatim>\<open>func\<close> is called on, in order.\<close>

partial_function (option) mapcar_walk ::
    "'a lheap \<Rightarrow> nat option \<Rightarrow> 'a list \<Rightarrow> 'a list result option" where
  "mapcar_walk h ptr acc =
     (if ptr = None then Some (Inr (rev acc))
      else (case deref h ptr of Inl e \<Rightarrow> Some (Inl e)
        | Inr p \<Rightarrow> mapcar_walk h (nxt p) (item p # acc)))"

definition List_Mapcar :: "'a lheap \<times> NList \<Rightarrow> 'a list result option" where
  "List_Mapcar s = mapcar_walk (fst s) (first (snd s)) []"

text \<open>The destructor removes cells until \<^verbatim>\<open>Remove\<close> returns null.\<close>

partial_function (option) List_destroy ::
    "'a lheap \<times> NList \<Rightarrow> ('a lheap \<times> NList) result option" where
  "List_destroy s =
     (case List_Remove s of Inl e \<Rightarrow> Some (Inl e)
      | Inr (r, s') \<Rightarrow> if r = None then Some (Inr s') else List_destroy s')"

section \<open>Representation\<close>

text \<open>\<open>lseg h p as q\<close>: the cells at the addresses \<open>as\<close> are linked from \<open>p\<close> to \<open>q\<close>.\<close>

fun lseg :: "'a lheap \<Rightarrow> nat option \<Rightarrow> nat list \<Rightarrow> nat option \<Rightarrow> bool" where
  "lseg h p [] q = (p = q)"
| "lseg h p (a # as) q = (p = Some a \<and> (\<exists>e. h a = Some e \<and> lseg h (nxt e) as q))"

definition cell :: "'a lheap \<Rightarrow> nat \<Rightarrow> int \<times> 'a" where
  "cell h a = (key (the (h a)), item (the (h a)))"

definition represents :: "'a lheap \<times> NList \<Rightarrow> nat list \<Rightarrow> (int \<times> 'a) list \<Rightarrow> bool" where
  "represents s as xs = (case s of (h, l) \<Rightarrow>
     lseg h (first l) as None \<and> distinct as \<and>
     (as \<noteq> [] \<longrightarrow> lst l = Some (last as)) \<and> xs = map (cell h) as)"

definition seq_insert :: "int \<Rightarrow> 'a \<Rightarrow> (int \<times> 'a) list \<Rightarrow> (int \<times> 'a) list" where
  "seq_insert k x xs =
     takeWhile (\<lambda>y. fst y \<le> k) xs @ (k, x) # dropWhile (\<lambda>y. fst y \<le> k) xs"

lemma lseg_append:
  "lseg h p (as @ bs) q = (\<exists>r. lseg h p as r \<and> lseg h r bs q)"
  by (induction as arbitrary: p) auto

lemma lseg_upd [simp]: "a \<notin> set as \<Longrightarrow> lseg (h(a := c)) p as q = lseg h p as q"
  by (induction as arbitrary: p) auto

lemma lseg_dom: "lseg h p as q \<Longrightarrow> set as \<subseteq> dom h"
  by (induction as arbitrary: p) auto

lemma map_cell_upd [simp]: "a \<notin> set as \<Longrightarrow> map (cell (h(a := c))) as = map (cell h) as"
  by (auto simp: cell_def)

lemma cell_same [simp]: "cell (h(a \<mapsto> e)) a = (key e, item e)"
  by (simp add: cell_def)

lemma cell_other [simp]: "b \<noteq> a \<Longrightarrow> cell (h(a := c)) b = cell h b"
  by (simp add: cell_def)

lemma deref_Some [simp]: "h a = Some e \<Longrightarrow> deref h (Some a) = Inr e"
  by (simp add: deref_def)

lemma set_next_Some [simp]:
  "h a = Some e \<Longrightarrow> set_next h (Some a) q = Inr (h(a \<mapsto> e\<lparr>nxt := q\<rparr>))"
  by (simp add: set_next_def)

lemma represents_Nil: "represents (h, l) [] xs = (first l = None \<and> xs = [])"
  by (auto simp: represents_def)

lemma represents_snoc:
  "represents (h, l) (as @ [b]) xs =
     (\<exists>e. lseg h (first l) as (Some b) \<and> h b = Some e \<and> nxt e = None \<and> distinct as \<and>
        b \<notin> set as \<and> lst l = Some b \<and> xs = map (cell h) as @ [(key e, item e)])"
  by (auto simp: represents_def lseg_append cell_def)

lemma represents_Cons:
  "represents (h, l) (a # as) xs =
     (\<exists>e. first l = Some a \<and> h a = Some e \<and> lseg h (nxt e) as None \<and> distinct as \<and>
        a \<notin> set as \<and> lst l = Some (last (a # as)) \<and>
        xs = (key e, item e) # map (cell h) as)"
  by (auto simp: represents_def cell_def)

section \<open>Linking a new cell\<close>

abbreviation new_cell :: "'a lheap \<Rightarrow> nat \<Rightarrow> 'a \<Rightarrow> int \<Rightarrow> 'a lheap" where
  "new_cell h a x k \<equiv> h(a \<mapsto> ListElement_ListElement x k)"

lemma represents_dom: "represents (h, l) as xs \<Longrightarrow> set as \<subseteq> dom h"
  by (auto simp: represents_def dest: lseg_dom)

lemma represents_single:
  "h a = None \<Longrightarrow>
   represents (new_cell h a x k, \<lparr>first = Some a, lst = Some a\<rparr>) [a] [(k, x)]"
  by (simp add: represents_def ListElement_ListElement_def)

lemma link_end:
  assumes r: "represents (h, l) (bs @ [b]) xs" and a: "h a = None"
  shows "\<exists>h2. set_next (new_cell h a x k) (lst l) (Some a) = Inr h2 \<and>
    represents (h2, l\<lparr>lst := Some a\<rparr>) ((bs @ [b]) @ [a]) (xs @ [(k, x)]) \<and>
    dom h2 = insert a (dom h)"
proof -
  from r obtain e where e: "lseg h (first l) bs (Some b)" "h b = Some e" "nxt e = None"
    "distinct bs" "b \<notin> set bs" "lst l = Some b" "xs = map (cell h) bs @ [(key e, item e)]"
    by (auto simp: represents_snoc)
  have na: "a \<notin> set bs" "a \<noteq> b" using lseg_dom [OF e(1)] e(2) a by auto
  let ?h2 = "(new_cell h a x k)(b \<mapsto> e\<lparr>nxt := Some a\<rparr>)"
  have "set_next (new_cell h a x k) (lst l) (Some a) = Inr ?h2"
    using e na by simp
  moreover have "represents (?h2, l\<lparr>lst := Some a\<rparr>) ((bs @ [b]) @ [a]) (xs @ [(k, x)])"
    using e na by (auto simp: represents_def lseg_append ListElement_ListElement_def cell_def)
  moreover have "dom ?h2 = insert a (dom h)" using e(2) by auto
  ultimately show ?thesis by blast
qed

lemma link_front:
  assumes r: "represents (h, l) (b # bs) xs" and a: "h a = None"
  shows "\<exists>h2. set_next (new_cell h a x k) (Some a) (first l) = Inr h2 \<and>
    represents (h2, l\<lparr>first := Some a\<rparr>) (a # b # bs) ((k, x) # xs) \<and>
    dom h2 = insert a (dom h)"
proof -
  have na: "a \<notin> set (b # bs)" using represents_dom [OF r] a by auto
  let ?h2 = "h(a \<mapsto> (ListElement_ListElement x k)\<lparr>nxt := first l\<rparr>)"
  have "set_next (new_cell h a x k) (Some a) (first l) = Inr ?h2" by simp
  moreover have "represents (?h2, l\<lparr>first := Some a\<rparr>) (a # b # bs) ((k, x) # xs)"
    using r na by (auto simp: represents_Cons ListElement_ListElement_def cell_def)
  moreover have "dom ?h2 = insert a (dom h)" by auto
  ultimately show ?thesis by blast
qed

lemma link_middle:
  assumes r: "represents (h, l) (bs @ [p] @ d # ds) xs" and a: "h a = None"
    and e: "h p = Some e"
  shows "represents (h(a \<mapsto> (ListElement_ListElement x k)\<lparr>nxt := Some d\<rparr>,
      p \<mapsto> e\<lparr>nxt := Some a\<rparr>), l) (bs @ [p] @ a # d # ds)
      (map (cell h) (bs @ [p]) @ (k, x) # map (cell h) (d # ds))"
proof -
  have na: "a \<notin> set (bs @ [p] @ d # ds)" using represents_dom [OF r] a by auto
  then show ?thesis
    using r e by (auto simp: represents_def lseg_append ListElement_ListElement_def cell_def)
qed

section \<open>The search of SortedInsert\<close>

lemma insert_walk_end:
  "lseg h (Some b) (b # bs) None \<Longrightarrow> \<forall>c\<in>set bs. fst (cell h c) \<le> k \<Longrightarrow>
   insert_walk h a k (Some b) = Some (Inr None)"
proof (induction bs arbitrary: b)
  case Nil
  then show ?case by (subst insert_walk.simps) auto
next
  case (Cons c bs)
  then show ?case by (subst insert_walk.simps) (auto simp: cell_def)
qed

lemma insert_walk_middle:
  "lseg h (Some b) (b # cs @ d # ds) None \<Longrightarrow> \<forall>c\<in>set cs. fst (cell h c) \<le> k \<Longrightarrow>
   k < fst (cell h d) \<Longrightarrow> h a = Some ea \<Longrightarrow> a \<notin> set (b # cs) \<Longrightarrow> h (last (b # cs)) = Some e \<Longrightarrow>
   insert_walk h a k (Some b) =
     Some (Inr (Some (h(a \<mapsto> ea\<lparr>nxt := Some d\<rparr>, last (b # cs) \<mapsto> e\<lparr>nxt := Some a\<rparr>))))"
proof (induction cs arbitrary: b)
  case Nil
  then show ?case by (subst insert_walk.simps) (auto simp: cell_def)
next
  case (Cons c cs)
  then show ?case by (subst insert_walk.simps) (auto simp: cell_def simp del: fun_upd_apply)
qed

section \<open>The operations on a represented sequence\<close>

lemma Append_ok:
  assumes r: "represents (h, l) as xs" and a: "h a = None"
  shows "\<exists>h2 l2. List_Append a x (h, l) = Inr (h2, l2) \<and>
    represents (h2, l2) (as @ [a]) (xs @ [(0, x)]) \<and> dom h2 = insert a (dom h)"
proof (cases as rule: rev_cases)
  case Nil
  with r a show ?thesis
    by (auto simp: List_Append_def List_IsEmpty_def represents_Nil represents_single)
next
  case (snoc bs b)
  with r have "\<not> List_IsEmpty l"
    by (cases bs) (auto simp: represents_def List_IsEmpty_def)
  with link_end [OF r [unfolded snoc] a, of x 0] snoc show ?thesis
    by (auto simp: List_Append_def Let_def)
qed

lemma Prepend_ok:
  assumes r: "represents (h, l) as xs" and a: "h a = None"
  shows "\<exists>h2 l2. List_Prepend a x (h, l) = Inr (h2, l2) \<and>
    represents (h2, l2) (a # as) ((0, x) # xs) \<and> dom h2 = insert a (dom h)"
proof (cases as)
  case Nil
  with r a show ?thesis
    by (auto simp: List_Prepend_def List_IsEmpty_def represents_Nil represents_single)
next
  case (Cons b bs)
  with r have "\<not> List_IsEmpty l" by (auto simp: represents_def List_IsEmpty_def)
  with link_front [OF r [unfolded Cons] a, of x 0] Cons show ?thesis
    by (auto simp: List_Prepend_def Let_def)
qed

lemma seq_insert_split:
  "(\<forall>y\<in>set ys. fst y \<le> k) \<Longrightarrow> (zs = [] \<or> k < fst (hd zs)) \<Longrightarrow>
   seq_insert k x (ys @ zs) = ys @ (k, x) # zs"
  by (cases zs) (auto simp: seq_insert_def)

text \<open>\<^verbatim>\<open>SortedInsert\<close> links the new cell at the front, at the end, or between two cells.\<close>

lemma SortedInsert_front:
  assumes r: "represents (h, l) (b # bs) xs" and a: "h a = None" and k: "k < fst (cell h b)"
  shows "\<exists>h2 l2 as2. List_SortedInsert a x k (h, l) = Some (Inr (h2, l2)) \<and>
    represents (h2, l2) as2 ((k, x) # xs) \<and> dom h2 = insert a (dom h)"
proof -
  have "a \<noteq> b" using represents_dom [OF r] a by auto
  with r k obtain e where "first l = Some b" "h b = Some e" "k < key e" "b \<noteq> a"
    by (auto simp: represents_Cons cell_def)
  then show ?thesis
    using link_front [OF r a, of x k]
    by (auto simp: List_SortedInsert_def List_IsEmpty_def Let_def)
qed

lemma SortedInsert_end:
  assumes r: "represents (h, l) (b # cs) xs" and a: "h a = None"
    and k: "\<forall>c\<in>set (b # cs). fst (cell h c) \<le> k"
  shows "\<exists>h2 l2 as2. List_SortedInsert a x k (h, l) = Some (Inr (h2, l2)) \<and>
    represents (h2, l2) as2 (xs @ [(k, x)]) \<and> dom h2 = insert a (dom h)"
proof -
  have na: "a \<notin> set (b # cs)" using represents_dom [OF r] a by auto
  obtain e where e: "first l = Some b" "h b = Some e" "lseg h (nxt e) cs None" "key e \<le> k"
    using r k by (auto simp: represents_Cons cell_def)
  have "insert_walk (new_cell h a x k) a k (Some b) = Some (Inr None)"
    by (rule insert_walk_end [of _ _ cs]) (use e k na in \<open>auto simp: cell_def\<close>)
  moreover have "represents (h, l) (butlast (b # cs) @ [last (b # cs)]) xs"
    using r by (metis append_butlast_last_id list.distinct(1))
  then obtain h2 where "set_next (new_cell h a x k) (lst l) (Some a) = Inr h2"
    "represents (h2, l\<lparr>lst := Some a\<rparr>) ((butlast (b # cs) @ [last (b # cs)]) @ [a]) (xs @ [(k, x)])"
    "dom h2 = insert a (dom h)" using a link_end [of h l _ _ xs a x k] by blast
  moreover have "b \<noteq> a" using na by auto
  ultimately show ?thesis
    using e by (auto simp: List_SortedInsert_def List_IsEmpty_def Let_def)
qed

lemma SortedInsert_middle:
  assumes r: "represents (h, l) (b # cs @ d # ds) xs" and a: "h a = None"
    and k: "\<forall>c\<in>set (b # cs). fst (cell h c) \<le> k" "k < fst (cell h d)"
  shows "\<exists>h2 l2 as2. List_SortedInsert a x k (h, l) = Some (Inr (h2, l2)) \<and>
    represents (h2, l2) as2 (map (cell h) (b # cs) @ (k, x) # map (cell h) (d # ds)) \<and>
    dom h2 = insert a (dom h)"
proof -
  define p where "p = last (b # cs)"
  have bc: "butlast (b # cs) @ [p] = b # cs"
    unfolding p_def by (rule append_butlast_last_id) simp
  then have split: "b # cs @ d # ds = butlast (b # cs) @ [p] @ d # ds"
    by (metis append_Cons append_assoc)
  have na: "a \<notin> set (b # cs @ d # ds)" using represents_dom [OF r] a by auto
  have "p \<in> set (b # cs)" by (simp add: p_def)
  then have p: "p \<noteq> a" "p \<in> dom h" using na represents_dom [OF r] by auto
  then obtain ep where ep: "h p = Some ep" by auto
  let ?h2 = "h(a \<mapsto> (ListElement_ListElement x k)\<lparr>nxt := Some d\<rparr>, p \<mapsto> ep\<lparr>nxt := Some a\<rparr>)"
  obtain e where e: "first l = Some b" "h b = Some e" "lseg h (nxt e) (cs @ d # ds) None"
    "key e \<le> k" using r k by (auto simp: represents_Cons cell_def)
  have "insert_walk (new_cell h a x k) a k (Some b) =
      Some (Inr (Some ((new_cell h a x k)(a \<mapsto> (ListElement_ListElement x k)\<lparr>nxt := Some d\<rparr>,
        p \<mapsto> ep\<lparr>nxt := Some a\<rparr>))))"
    unfolding p_def
    by (rule insert_walk_middle [where ds = ds])
      (use e k na ep [unfolded p_def] p(1) [unfolded p_def] in \<open>auto simp: cell_def\<close>)
  moreover have "represents (?h2, l) (butlast (b # cs) @ [p] @ a # d # ds)
      (map (cell h) (b # cs) @ (k, x) # map (cell h) (d # ds))"
    using link_middle [OF r [unfolded split] a ep, of x k] by (simp only: bc)
  moreover have "b \<noteq> a" using na by auto
  moreover have "dom ?h2 = insert a (dom h)" using ep by auto
  ultimately show ?thesis
    using e by (auto simp: List_SortedInsert_def List_IsEmpty_def Let_def)
qed

lemma SortedInsert_ok:
  assumes r: "represents (h, l) as xs" and a: "h a = None"
  shows "\<exists>h2 l2 as2. List_SortedInsert a x k (h, l) = Some (Inr (h2, l2)) \<and>
    represents (h2, l2) as2 (seq_insert k x xs) \<and> dom h2 = insert a (dom h)"
proof -
  let ?le = "\<lambda>c. fst (cell h c) \<le> k"
  define ts us where "ts = takeWhile ?le as" and "us = dropWhile ?le as"
  have as: "as = ts @ us" by (simp add: ts_def us_def)
  have le: "\<forall>c\<in>set ts. ?le c" by (auto simp: ts_def dest: set_takeWhileD)
  have gt: "us = [] \<or> k < fst (cell h (hd us))"
    using hd_dropWhile [of ?le as] by (auto simp only: us_def not_le)
  have xs: "xs = map (cell h) as" using r by (simp add: represents_def)
  have ins: "seq_insert k x xs = map (cell h) ts @ (k, x) # map (cell h) us"
    unfolding xs as map_append using le gt
    by (intro seq_insert_split) (cases us; auto)+
  show ?thesis
  proof (cases ts)
    case Nil
    with ins xs as r a gt show ?thesis
      using SortedInsert_front [of h l _ _ xs a k x]
      by (cases us) (auto simp: List_SortedInsert_def List_IsEmpty_def represents_Nil
          intro!: exI [of _ "[a]"] represents_single)
  next
    case (Cons b cs)
    with ins xs as r a gt le show ?thesis
      using SortedInsert_end [of h l b cs xs a k x] SortedInsert_middle [of h l b cs _ _ xs a k x]
      by (cases us) auto
  qed
qed

lemma SortedRemove_ok:
  assumes "represents (h, l) as xs"
  shows "\<exists>h2 l2. List_SortedRemove (h, l) =
      Inr (case xs of [] \<Rightarrow> None | y # _ \<Rightarrow> Some y, (h2, l2)) \<and>
    represents (h2, l2) (tl as) (tl xs) \<and> dom h2 = dom h - set (take 1 as)"
proof (cases as)
  case Nil
  with assms show ?thesis by (auto simp: List_SortedRemove_def represents_Nil)
next
  case (Cons a bs)
  with assms obtain e where e: "first l = Some a" "h a = Some e" "lseg h (nxt e) bs None"
    "distinct bs" "a \<notin> set bs" "lst l = Some (last (a # bs))"
    "xs = (key e, item e) # map (cell h) bs" by (auto simp: represents_Cons)
  show ?thesis
  proof (cases "bs = []")
    case True
    with e Cons show ?thesis
      by (auto simp: List_SortedRemove_def represents_Nil Let_def)
  next
    case False
    then have "last bs \<noteq> a" using e(5) last_in_set by metis
    with e Cons False show ?thesis
      by (auto simp: List_SortedRemove_def Let_def represents_def cell_def)
  qed
qed

lemma Remove_ok:
  assumes "represents (h, l) as xs"
  shows "\<exists>h2 l2. List_Remove (h, l) =
      Inr (case xs of [] \<Rightarrow> None | y # _ \<Rightarrow> Some (snd y), (h2, l2)) \<and>
    represents (h2, l2) (tl as) (tl xs) \<and> dom h2 = dom h - set (take 1 as)"
  using SortedRemove_ok [OF assms] by (auto simp: List_Remove_def split: list.splits)

lemma IsEmpty_ok: "represents (h, l) as xs \<Longrightarrow> List_IsEmpty l = (xs = [])"
  by (cases as) (auto simp: represents_def List_IsEmpty_def)

lemma mapcar_walk_ok:
  "lseg h p as None \<Longrightarrow> mapcar_walk h p acc = Some (Inr (rev acc @ map (snd \<circ> cell h) as))"
proof (induction as arbitrary: p acc)
  case Nil
  then show ?case by (subst mapcar_walk.simps) simp
next
  case (Cons a as)
  then show ?case by (subst mapcar_walk.simps) (auto simp: cell_def)
qed

lemma Mapcar_ok: "represents s as xs \<Longrightarrow> List_Mapcar s = Some (Inr (map snd xs))"
  by (cases s) (simp add: List_Mapcar_def represents_def mapcar_walk_ok [of _ _ as])

lemma destroy_ok:
  "represents (h, l) as xs \<Longrightarrow>
   \<exists>h2 l2. List_destroy (h, l) = Some (Inr (h2, l2)) \<and> represents (h2, l2) [] [] \<and>
     dom h2 = dom h - set as"
proof (induction as arbitrary: h l xs)
  case Nil
  then have "xs = []" by (simp add: represents_Nil)
  with Remove_ok [OF Nil] show ?case
    by (subst List_destroy.simps) fastforce
next
  case (Cons a as)
  then obtain y ys where xs: "xs = y # ys" by (auto simp: represents_Cons)
  with Remove_ok [OF Cons.prems] obtain h2 l2 where
    r: "List_Remove (h, l) = Inr (Some (snd y), (h2, l2))" "represents (h2, l2) as ys"
      "dom h2 = dom h - {a}" by auto
  with Cons.IH [OF r(2)] show ?case
    by (subst List_destroy.simps) auto
qed

section \<open>The interface: a queue and a priority queue\<close>

text \<open>
  The clients of the class use it in two ways: as a queue (\<^verbatim>\<open>Append\<close>, \<^verbatim>\<open>Remove\<close>) and as a
  priority queue (\<^verbatim>\<open>SortedInsert\<close>, \<^verbatim>\<open>SortedRemove\<close>). The loops below are such clients.
\<close>

fun append_all :: "(nat \<Rightarrow> 'a \<Rightarrow> 's \<Rightarrow> 's result) \<Rightarrow> (nat \<times> 'a) list \<Rightarrow> 's \<Rightarrow> 's result" where
  "append_all app [] s = Inr s"
| "append_all app ((a, x) # r) s = bindR (app a x s) (append_all app r)"

fun insert_all :: "(nat \<Rightarrow> 'a \<Rightarrow> int \<Rightarrow> 's \<Rightarrow> 's result option) \<Rightarrow> (nat \<times> int \<times> 'a) list \<Rightarrow> 's \<Rightarrow>
    's result option" where
  "insert_all ins [] s = Some (Inr s)"
| "insert_all ins ((a, k, x) # r) s = (case ins a x k s of None \<Rightarrow> None
     | Some (Inl e) \<Rightarrow> Some (Inl e) | Some (Inr s') \<Rightarrow> insert_all ins r s')"

fun remove_all :: "('s \<Rightarrow> ('b option \<times> 's) result) \<Rightarrow> nat \<Rightarrow> 's \<Rightarrow> ('b option list \<times> 's) result" where
  "remove_all rem 0 s = Inr ([], s)"
| "remove_all rem (Suc n) s = bindR (rem s) (\<lambda>(r, s').
     bindR (remove_all rem n s') (\<lambda>(rs, s''). Inr (r # rs, s'')))"

lemma sorted_seq_insert:
  "sorted (map fst xs) \<Longrightarrow> sorted (map fst (seq_insert k x xs))"
  by (induction xs) (auto simp: seq_insert_def dest: set_takeWhileD set_dropWhileD)

lemma seq_insert_stable:
  "seq_insert k x (sort_key fst xs) = sort_key fst (xs @ [(k, x)])"
proof (rule properties_for_sort_key [symmetric])
  let ?t = "takeWhile (\<lambda>y. fst y \<le> k) (sort_key fst xs)"
  let ?d = "dropWhile (\<lambda>y. fst y \<le> k) (sort_key fst xs)"
  have td: "?t @ ?d = sort_key fst xs" by simp
  have "mset (seq_insert k x (sort_key fst xs)) = mset (?t @ ?d) + {#(k, x)#}"
    unfolding seq_insert_def mset_append by simp
  then show "mset (seq_insert k x (sort_key fst xs)) = mset (xs @ [(k, x)])" by simp
  show "sorted (map fst (seq_insert k x (sort_key fst xs)))"
    by (rule sorted_seq_insert) simp
  fix z :: "int \<times> 'a"
  assume "z \<in> set (seq_insert k x (sort_key fst xs))"
  have no: "filter (\<lambda>y. fst y = k) ?d = []"
  proof (cases ?d)
    case (Cons y ys)
    then have "k < fst y" using hd_dropWhile [of "\<lambda>y. fst y \<le> k" "sort_key fst xs"] by auto
    moreover have "sorted (map fst ?d)"
      using td sorted_append by (metis map_append sorted_sort_key)
    ultimately have "\<forall>w\<in>set ?d. k < fst w" using Cons by fastforce
    then show ?thesis by (auto simp: filter_empty_conv)
  next
    case Nil
    then show ?thesis by (simp only: filter.simps)
  qed
  have "filter (\<lambda>y. fst z = fst y) (seq_insert k x (sort_key fst xs)) =
      filter (\<lambda>y. fst z = fst y) (?t @ ?d) @ (if fst z = k then [(k, x)] else [])"
    using no by (auto simp: seq_insert_def eq_commute simp del: takeWhile_dropWhile_id)
  also have "filter (\<lambda>y. fst z = fst y) (?t @ ?d) = filter (\<lambda>y. fst z = fst y) xs"
    unfolding td using sort_key_stable [of fst "fst z" xs] by (simp add: eq_commute)
  finally show "filter (\<lambda>y. fst z = fst y) (seq_insert k x (sort_key fst xs)) =
      filter (\<lambda>y. fst z = fst y) (xs @ [(k, x)])" by auto
qed

locale item_list =
  fixes rep :: "'s \<Rightarrow> (int \<times> 'a) list \<Rightarrow> bool"
    and cells :: "'s \<Rightarrow> nat set"
    and app :: "nat \<Rightarrow> 'a \<Rightarrow> 's \<Rightarrow> 's result"
    and ins :: "nat \<Rightarrow> 'a \<Rightarrow> int \<Rightarrow> 's \<Rightarrow> 's result option"
    and rem :: "'s \<Rightarrow> ((int \<times> 'a) option \<times> 's) result"
  assumes app_law: "rep s xs \<Longrightarrow> a \<notin> cells s \<Longrightarrow>
      \<exists>s'. app a x s = Inr s' \<and> rep s' (xs @ [(0, x)]) \<and> cells s' = insert a (cells s)"
    and ins_law: "rep s xs \<Longrightarrow> a \<notin> cells s \<Longrightarrow>
      \<exists>s'. ins a x k s = Some (Inr s') \<and> rep s' (seq_insert k x xs) \<and>
        cells s' = insert a (cells s)"
    and rem_law: "rep s xs \<Longrightarrow>
      \<exists>s'. rem s = Inr (case xs of [] \<Rightarrow> None | y # _ \<Rightarrow> Some y, s') \<and> rep s' (tl xs)"
begin

lemma append_all_ok:
  "rep s xs \<Longrightarrow> distinct (map fst r) \<Longrightarrow> fst ` set r \<inter> cells s = {} \<Longrightarrow>
   \<exists>s'. append_all app r s = Inr s' \<and> rep s' (xs @ map (\<lambda>(a, x). (0, x)) r)"
proof (induction r arbitrary: s xs)
  case Nil
  then show ?case by simp
next
  case (Cons ax r)
  obtain a x where ax: "ax = (a, x)" by (cases ax)
  with Cons.prems app_law [of s xs a x] obtain s1 where
    "app a x s = Inr s1" "rep s1 (xs @ [(0, x)])" "cells s1 = insert a (cells s)" by auto
  with Cons.IH [of s1 "xs @ [(0, x)]"] Cons.prems ax show ?case by auto
qed

lemma insert_all_ok:
  "rep s (sort_key fst xs) \<Longrightarrow> distinct (map fst r) \<Longrightarrow> fst ` set r \<inter> cells s = {} \<Longrightarrow>
   \<exists>s'. insert_all ins r s = Some (Inr s') \<and> rep s' (sort_key fst (xs @ map snd r))"
proof (induction r arbitrary: s xs)
  case Nil
  then show ?case by simp
next
  case (Cons akx r)
  obtain a k x where akx: "akx = (a, k, x)" by (cases akx)
  with Cons.prems ins_law [OF Cons.prems(1), of a x k] obtain s1 where
    s1: "ins a x k s = Some (Inr s1)" "rep s1 (sort_key fst (xs @ [(k, x)]))"
      "cells s1 = insert a (cells s)" by (auto simp: seq_insert_stable)
  with Cons.IH [OF s1(2)] Cons.prems akx show ?case by auto
qed

lemma remove_all_ok:
  "rep s xs \<Longrightarrow>
   \<exists>s'. remove_all rem (length xs) s = Inr (map Some xs, s') \<and> rep s' []"
proof (induction xs arbitrary: s)
  case Nil
  then show ?case by simp
next
  case (Cons y ys)
  with rem_law [OF Cons.prems] obtain s1 where "rem s = Inr (Some y, s1)" "rep s1 ys" by auto
  with Cons.IH [of s1] show ?case by auto
qed

end

definition list_rep :: "'a lheap \<times> NList \<Rightarrow> (int \<times> 'a) list \<Rightarrow> bool" where
  "list_rep s xs = (\<exists>as. represents s as xs)"

definition list_cells :: "'a lheap \<times> NList \<Rightarrow> nat set" where
  "list_cells s = dom (fst s)"

lemma list_rep_new: "list_rep (h, List_List) []"
  by (auto simp: list_rep_def List_List_def represents_Nil intro: exI [of _ "[]"])

interpretation nl: item_list list_rep list_cells List_Append List_SortedInsert List_SortedRemove
proof unfold_locales
  fix s :: "'a lheap \<times> NList" and xs :: "(int \<times> 'a) list" and a :: nat and x :: 'a and k :: int
  obtain h l where s: "s = (h, l)" by (cases s)
  assume "list_rep s xs"
  then obtain as where r: "represents (h, l) as xs" using s by (auto simp: list_rep_def)
  show "\<exists>s'. List_SortedRemove s = Inr (case xs of [] \<Rightarrow> None | y # _ \<Rightarrow> Some y, s') \<and>
      list_rep s' (tl xs)"
    using SortedRemove_ok [OF r] s by (auto simp: list_rep_def)
  assume "a \<notin> list_cells s"
  then have a: "h a = None" using s by (auto simp: list_cells_def)
  show "\<exists>s'. List_Append a x s = Inr s' \<and> list_rep s' (xs @ [(0, x)]) \<and>
      list_cells s' = insert a (list_cells s)"
    using Append_ok [OF r a, of x] s unfolding list_rep_def list_cells_def by auto
  show "\<exists>s'. List_SortedInsert a x k s = Some (Inr s') \<and> list_rep s' (seq_insert k x xs) \<and>
      list_cells s' = insert a (list_cells s)"
    using SortedInsert_ok [OF r a, of x k] s unfolding list_rep_def list_cells_def by auto
qed

section \<open>Properties\<close>

text \<open>
  C9: \<^verbatim>\<open>SortedInsert\<close> on the pointer structure terminates without following a bad pointer
  and implements insertion after every element whose key is at most the new key; exactly
  one cell is added.
\<close>

theorem SortedInsert_refines:
  assumes "represents (h, l) as xs" and "h a = None"
  shows "\<exists>h2 l2 as2. List_SortedInsert a x k (h, l) = Some (Inr (h2, l2)) \<and>
    represents (h2, l2) as2 (seq_insert k x xs) \<and> dom h2 = insert a (dom h)"
  by (rule SortedInsert_ok [OF assms])

lemma SortedInsert_refines_witness:
  "represents ([0 \<mapsto> \<lparr>nxt = None, key = 5, item = ''a''\<rparr>], \<lparr>first = Some 0, lst = Some 0\<rparr>)
    [0] [(5, ''a'')] \<and>
   (\<exists>h2 l2 as2. List_SortedInsert 1 ''b'' 3
      ([0 \<mapsto> \<lparr>nxt = None, key = 5, item = ''a''\<rparr>], \<lparr>first = Some 0, lst = Some 0\<rparr>) =
        Some (Inr (h2, l2)) \<and>
    represents (h2, l2) as2 [(3, ''b''), (5, ''a'')])"
proof -
  let ?h = "[0 \<mapsto> \<lparr>nxt = None, key = 5, item = ''a''\<rparr>]" and ?l = "\<lparr>first = Some 0, lst = Some 0\<rparr>"
  have r: "represents (?h, ?l) [0] [(5, ''a'')]" by (simp add: represents_def cell_def)
  have "seq_insert 3 ''b'' [(5, ''a'')] = [(3, ''b''), (5, ''a'')]" by (simp add: seq_insert_def)
  with SortedInsert_refines [OF r, of 1 "''b''" 3] r show ?thesis by auto
qed

text \<open>
  C29: Items put on a new list with \<^verbatim>\<open>SortedInsert\<close> come off with \<^verbatim>\<open>SortedRemove\<close> in the
  order of their keys, and items with equal keys in the order they were inserted: the
  removals yield the stable sort of the insertions.
\<close>

theorem list_priority_order:
  assumes "distinct (map fst r)" and "fst ` set r \<inter> dom h = {}"
  shows "\<exists>s s'. insert_all List_SortedInsert r (h, List_List) = Some (Inr s) \<and>
    remove_all List_SortedRemove (length r) s =
      Inr (map Some (sort_key fst (map snd r)), s')"
proof -
  have "list_rep (h, List_List) (sort_key fst [])" by (simp add: list_rep_new)
  with assms nl.insert_all_ok [of "(h, List_List)" "[]" r] obtain s where
    s: "insert_all List_SortedInsert r (h, List_List) = Some (Inr s)"
      "list_rep s (sort_key fst (map snd r))" by (auto simp: list_cells_def)
  from nl.remove_all_ok [OF s(2)] s(1) show ?thesis by auto
qed

lemma list_priority_order_witness:
  "\<exists>s s'. insert_all List_SortedInsert [(10, 7, ''x''), (11, 2, ''y''), (12, 7, ''z'')]
      (Map.empty, List_List) = Some (Inr s) \<and>
    remove_all List_SortedRemove 3 s =
      Inr ([Some (2, ''y''), Some (7, ''x''), Some (7, ''z'')], s')"
  using list_priority_order [of "[(10, 7, ''x''), (11, 2, ''y''), (12, 7, ''z'')]" "Map.empty"]
  by (simp add: numeral_3_eq_3)

text \<open>
  The list is a first-in first-out queue under \<^verbatim>\<open>Append\<close> and \<^verbatim>\<open>SortedRemove\<close>: items
  appended to a new list are removed in the order they were appended.
\<close>

lemma list_fifo_order:
  assumes "distinct (map fst r)" and "fst ` set r \<inter> dom h = {}"
  shows "\<exists>s s'. append_all List_Append r (h, List_List) = Inr s \<and>
    remove_all List_SortedRemove (length r) s = Inr (map (\<lambda>(a, x). Some (0, x)) r, s')"
proof -
  from assms nl.append_all_ok [OF list_rep_new, of r h] obtain s where
    s: "append_all List_Append r (h, List_List) = Inr s" "list_rep s (map (\<lambda>(a, x). (0, x)) r)"
    by (auto simp: list_cells_def)
  have "map Some (map (\<lambda>(a, x). (0, x)) r) = map (\<lambda>(a, x). Some (0, x)) r" by auto
  with nl.remove_all_ok [OF s(2)] s(1) show ?thesis by auto
qed

text \<open>
  The destructor terminates, frees exactly the cells of the list and leaves every other
  cell of the heap allocated.
\<close>

lemma list_destroy_frees:
  assumes "represents (h, l) as xs"
  shows "\<exists>h2 l2. List_destroy (h, l) = Some (Inr (h2, l2)) \<and> List_IsEmpty l2 \<and>
    dom h2 = dom h - set as"
  using destroy_ok [OF assms] by (auto dest: IsEmpty_ok)

end
