(* ===== verification/Machine.thy ===== *)
theory Machine
  imports Prelude
begin

text \<open>
  The simulated workstation of \<^verbatim>\<open>machine/machine.{h,cc}\<close> and
  \<^verbatim>\<open>machine/translate.{h,cc}\<close>: CPU registers, physical memory, address translation by
  a linear page table or a TLB, and memory access of 1, 2 and 4 bytes. Registers and
  addresses are 32-bit words and memory is a list of bytes; the host is little endian, as
  in the build files (\<^verbatim>\<open>HOST_i386\<close>), so the conversion routines are the identity.

  A memory access that traps calls \<^verbatim>\<open>RaiseException\<close>. Its first half (the faulting address
  and the pending load) is part of the access here; the exception itself is the left value
  of the outcome, which the kernel's handler consumes: every caller in the simulator returns
  immediately after it.
\<close>

section \<open>Constants of machine.h\<close>

definition SectorSize :: int where "SectorSize = 512"
definition PageSize :: int where "PageSize = SectorSize"
definition NumPhysPages :: int where "NumPhysPages = 128"
definition MemorySize :: int where "MemorySize = NumPhysPages * PageSize"
definition TLBSize :: nat where "TLBSize = 4"

definition StackReg :: nat where "StackReg = 29"
definition RetAddrReg :: nat where "RetAddrReg = 31"
definition NumGPRegs :: nat where "NumGPRegs = 32"
definition HiReg :: nat where "HiReg = 32"
definition LoReg :: nat where "LoReg = 33"
definition PCReg :: nat where "PCReg = 34"
definition NextPCReg :: nat where "NextPCReg = 35"
definition PrevPCReg :: nat where "PrevPCReg = 36"
definition LoadReg :: nat where "LoadReg = 37"
definition LoadValueReg :: nat where "LoadValueReg = 38"
definition BadVAddrReg :: nat where "BadVAddrReg = 39"
definition NumTotalRegs :: nat where "NumTotalRegs = 40"

lemmas machine_consts = SectorSize_def PageSize_def NumPhysPages_def MemorySize_def TLBSize_def
lemmas reg_nums [simp] = StackReg_def RetAddrReg_def NumGPRegs_def HiReg_def LoReg_def PCReg_def
  NextPCReg_def PrevPCReg_def LoadReg_def LoadValueReg_def BadVAddrReg_def NumTotalRegs_def

datatype ExceptionType =
    NoException | SyscallException | PageFaultException | ReadOnlyException
  | BusErrorException | AddressErrorException | OverflowException | IllegalInstrException

record TranslationEntry =
  virtualPage :: u32
  physicalPage :: u32
  valid :: bool
  readOnly :: bool
  use :: bool
  dirty :: bool

record Machine =
  registers :: "u32 list"
  mainMemory :: "byte list"
  tlb :: "TranslationEntry list option"
  pageTable :: "TranslationEntry list option"
  pageTableSize :: u32
  singleStep :: bool
  runUntilTime :: int

section \<open>Registers\<close>

text \<open>The constructor leaves \<^verbatim>\<open>pageTableSize\<close> and \<^verbatim>\<open>runUntilTime\<close> as it finds them.\<close>

definition Machine_Machine :: "u32 \<Rightarrow> int \<Rightarrow> bool \<Rightarrow> Machine" where
  "Machine_Machine junkSize junkTime debug =
     \<lparr>registers = replicate NumTotalRegs 0, mainMemory = replicate (nat MemorySize) 0,
      tlb = None, pageTable = None, pageTableSize = junkSize, singleStep = debug, runUntilTime = junkTime\<rparr>"

definition ReadRegister :: "Machine \<Rightarrow> int \<Rightarrow> u32 result" where
  "ReadRegister m num =
     bindR (ASSERT (num \<ge> 0 \<and> num < int NumTotalRegs)) (\<lambda>_. rd (registers m) num)"

definition WriteRegister :: "Machine \<Rightarrow> int \<Rightarrow> u32 \<Rightarrow> Machine result" where
  "WriteRegister m num v =
     bindR (ASSERT (num \<ge> 0 \<and> num < int NumTotalRegs)) (\<lambda>_.
     bindR (wr (registers m) num v) (\<lambda>rs. Inr (m\<lparr>registers := rs\<rparr>)))"

text \<open>Reads and writes of \<^verbatim>\<open>registers[...]\<close> inside the simulator, at indices it fixes.\<close>

definition reg :: "Machine \<Rightarrow> nat \<Rightarrow> u32" where
  "reg m r = registers m ! r"

definition set_reg :: "Machine \<Rightarrow> nat \<Rightarrow> u32 \<Rightarrow> Machine" where
  "set_reg m r v = m\<lparr>registers := (registers m)[r := v]\<rparr>"

definition DelayedLoad :: "Machine \<Rightarrow> u32 \<Rightarrow> u32 \<Rightarrow> Machine" where
  "DelayedLoad m nextReg nextValue =
     (let m1 = set_reg m (unat (reg m LoadReg)) (reg m LoadValueReg);
          m2 = set_reg m1 LoadReg nextReg;
          m3 = set_reg m2 LoadValueReg nextValue
      in set_reg m3 0 0)"

text \<open>\<^verbatim>\<open>RaiseException\<close> up to the call of the kernel's handler.\<close>

definition RaiseException :: "Machine \<Rightarrow> u32 \<Rightarrow> Machine" where
  "RaiseException m badVAddr = DelayedLoad (set_reg m BadVAddrReg badVAddr) 0 0"

section \<open>Byte order\<close>

definition WordToHost :: "u32 \<Rightarrow> u32" where "WordToHost w = w"
definition ShortToHost :: "16 word \<Rightarrow> 16 word" where "ShortToHost w = w"
definition WordToMachine :: "u32 \<Rightarrow> u32" where "WordToMachine w = WordToHost w"
definition ShortToMachine :: "16 word \<Rightarrow> 16 word" where "ShortToMachine w = ShortToHost w"

text \<open>A little-endian host reads a word through a pointer as its bytes, lowest first.\<close>

fun bytes_value :: "byte list \<Rightarrow> nat" where
  "bytes_value [] = 0"
| "bytes_value (b # bs) = unat b + 256 * bytes_value bs"

fun value_bytes :: "nat \<Rightarrow> nat \<Rightarrow> byte list" where
  "value_bytes 0 v = []"
| "value_bytes (Suc n) v = of_nat v # value_bytes n (v div 256)"

definition mem_read :: "byte list \<Rightarrow> nat \<Rightarrow> nat \<Rightarrow> byte list result" where
  "mem_read mem a n = (if a + n \<le> length mem then Inr (take n (drop a mem)) else Inl OutOfBounds)"

definition mem_write :: "byte list \<Rightarrow> nat \<Rightarrow> byte list \<Rightarrow> byte list result" where
  "mem_write mem a bs = (if a + length bs \<le> length mem
     then Inr (take a mem @ bs @ drop (a + length bs) mem) else Inl OutOfBounds)"

section \<open>Translation\<close>

definition set_entry :: "TranslationEntry list \<Rightarrow> nat \<Rightarrow> bool \<Rightarrow> TranslationEntry list" where
  "set_entry t i writing =
     t[i := (t ! i)\<lparr>use := True, dirty := (writing \<or> dirty (t ! i))\<rparr>]"

text \<open>The search of the TLB, from entry \<open>i\<close>: its index, or none.\<close>

fun tlb_find :: "TranslationEntry list \<Rightarrow> u32 \<Rightarrow> nat \<Rightarrow> nat \<Rightarrow> nat option" where
  "tlb_find t vpn i 0 = None"
| "tlb_find t vpn i (Suc n) =
     (if valid (t ! i) \<and> virtualPage (t ! i) = vpn then Some i else tlb_find t vpn (Suc i) n)"

text \<open>
  The entry for a virtual page, or the exception. Out-of-range access to the page table
  array itself, which \<open>pageTableSize\<close> must exclude, is the fault \<open>OutOfBounds\<close>.
\<close>

definition translate_lookup :: "Machine \<Rightarrow> u32 \<Rightarrow> (ExceptionType + nat) result" where
  "translate_lookup m vpn = (case tlb m of
     None \<Rightarrow> (case pageTable m of None \<Rightarrow> Inl AssertFailed
       | Some pt \<Rightarrow>
           if vpn \<ge> pageTableSize m then Inr (Inl AddressErrorException)
           else if unat vpn \<ge> length pt then Inl OutOfBounds
           else if \<not> valid (pt ! unat vpn) then Inr (Inl PageFaultException)
           else Inr (Inr (unat vpn)))
   | Some t \<Rightarrow>
       if length t < TLBSize then Inl OutOfBounds
       else (case tlb_find t vpn 0 TLBSize of None \<Rightarrow> Inr (Inl PageFaultException)
         | Some i \<Rightarrow> Inr (Inr i)))"

definition current_table :: "Machine \<Rightarrow> TranslationEntry list" where
  "current_table m = (case tlb m of Some t \<Rightarrow> t
     | None \<Rightarrow> (case pageTable m of Some pt \<Rightarrow> pt | None \<Rightarrow> []))"

definition touch_entry :: "Machine \<Rightarrow> nat \<Rightarrow> bool \<Rightarrow> Machine" where
  "touch_entry m i writing = (case tlb m of
     Some t \<Rightarrow> m\<lparr>tlb := Some (set_entry t i writing)\<rparr>
   | None \<Rightarrow> m\<lparr>pageTable := map_option (\<lambda>pt. set_entry pt i writing) (pageTable m)\<rparr>)"

text \<open>The part of \<^verbatim>\<open>Translate\<close> after the entry \<open>i\<close> has been found.\<close>

definition translate_entry ::
    "Machine \<Rightarrow> nat \<Rightarrow> u32 \<Rightarrow> nat \<Rightarrow> bool \<Rightarrow> ((ExceptionType + u32) \<times> Machine) result" where
  "translate_entry m i offset sz writing =
     (let entry = current_table m ! i; pageFrame = physicalPage entry in
      if readOnly entry \<and> writing then Inr (Inl ReadOnlyException, m)
      else if pageFrame \<ge> of_int NumPhysPages then Inr (Inl BusErrorException, m)
      else let m' = touch_entry m i writing;
               physAddr = pageFrame * of_int PageSize + offset
           in bindR (ASSERT (sint physAddr \<ge> 0 \<and> sint physAddr + int sz \<le> MemorySize))
                (\<lambda>_. Inr (Inr physAddr, m')))"

definition Translate ::
    "Machine \<Rightarrow> u32 \<Rightarrow> nat \<Rightarrow> bool \<Rightarrow> ((ExceptionType + u32) \<times> Machine) result" where
  "Translate m virtAddr sz writing =
     (if sz = 4 \<and> virtAddr AND 3 \<noteq> 0 \<or> sz = 2 \<and> virtAddr AND 1 \<noteq> 0
      then Inr (Inl AddressErrorException, m)
      else bindR (ASSERT (tlb m = None \<or> pageTable m = None)) (\<lambda>_.
        bindR (ASSERT (tlb m \<noteq> None \<or> pageTable m \<noteq> None)) (\<lambda>_.
        let vpn = virtAddr div of_int PageSize;
            offset = virtAddr mod of_int PageSize
        in bindR (translate_lookup m vpn) (\<lambda>r. case r of
             Inl e \<Rightarrow> Inr (Inl e, m)
           | Inr i \<Rightarrow> translate_entry m i offset sz writing))))"

section \<open>Memory access\<close>

text \<open>The value is what the C code stores in \<^verbatim>\<open>*value\<close>: a signed char, or an unsigned short or word.\<close>

definition load_value :: "nat \<Rightarrow> byte list \<Rightarrow> u32 result" where
  "load_value sz bs =
     (if sz = 1 then Inr (scast (of_nat (bytes_value bs) :: byte))
      else if sz = 2 then Inr (ucast (ShortToHost (of_nat (bytes_value bs))))
      else if sz = 4 then Inr (WordToHost (of_nat (bytes_value bs)))
      else Inl AssertFailed)"

definition store_bytes :: "nat \<Rightarrow> u32 \<Rightarrow> byte list result" where
  "store_bytes sz v =
     (if sz = 1 then Inr (value_bytes 1 (unat (v AND 0xff)))
      else if sz = 2 then Inr (value_bytes 2 (unat (ShortToMachine (ucast (v AND 0xffff)))))
      else if sz = 4 then Inr (value_bytes 4 (unat (WordToMachine v)))
      else Inl AssertFailed)"

definition ReadMem :: "Machine \<Rightarrow> u32 \<Rightarrow> nat \<Rightarrow> ((ExceptionType + u32) \<times> Machine) result" where
  "ReadMem m addr sz =
     bindR (Translate m addr sz False) (\<lambda>(r, m'). case r of
       Inl e \<Rightarrow> Inr (Inl e, RaiseException m' addr)
     | Inr pa \<Rightarrow>
         bindR (mem_read (mainMemory m') (unat pa) sz) (\<lambda>bs.
         bindR (load_value sz bs) (\<lambda>v. Inr (Inr v, m'))))"

definition WriteMem ::
    "Machine \<Rightarrow> u32 \<Rightarrow> nat \<Rightarrow> u32 \<Rightarrow> ((ExceptionType + unit) \<times> Machine) result" where
  "WriteMem m addr sz v =
     bindR (Translate m addr sz True) (\<lambda>(r, m'). case r of
       Inl e \<Rightarrow> Inr (Inl e, RaiseException m' addr)
     | Inr pa \<Rightarrow>
         bindR (store_bytes sz v) (\<lambda>bs.
         bindR (mem_write (mainMemory m') (unat pa) bs) (\<lambda>mem.
         Inr (Inr (), m'\<lparr>mainMemory := mem\<rparr>))))"

section \<open>The abstract translation\<close>

text \<open>
  \<open>xlate\<close> says, in unbounded arithmetic and without side effects, what an access of
  \<open>sz\<close> bytes at virtual address \<open>va\<close> means: a physical address or an exception.
\<close>

definition wf_machine :: "Machine \<Rightarrow> bool" where
  "wf_machine m \<longleftrightarrow> length (registers m) = NumTotalRegs \<and> length (mainMemory m) = nat MemorySize \<and>
     unat (reg m LoadReg) < NumGPRegs \<and>
     (case tlb m of None \<Rightarrow> \<exists>pt. pageTable m = Some pt \<and> unat (pageTableSize m) \<le> length pt
      | Some t \<Rightarrow> pageTable m = None \<and> length t = TLBSize)"

definition aligned :: "nat \<Rightarrow> nat \<Rightarrow> bool" where
  "aligned sz va \<longleftrightarrow> (sz = 4 \<longrightarrow> 4 dvd va) \<and> (sz = 2 \<longrightarrow> 2 dvd va)"

definition entry_index :: "Machine \<Rightarrow> nat \<Rightarrow> nat option" where
  "entry_index m vpn = (case tlb m of
     None \<Rightarrow> if vpn < unat (pageTableSize m) \<and> valid (current_table m ! vpn) then Some vpn else None
   | Some t \<Rightarrow> tlb_find t (of_nat vpn) 0 TLBSize)"

definition miss :: "Machine \<Rightarrow> nat \<Rightarrow> ExceptionType" where
  "miss m vpn = (if tlb m = None \<and> unat (pageTableSize m) \<le> vpn then AddressErrorException
     else PageFaultException)"

definition xlate :: "Machine \<Rightarrow> nat \<Rightarrow> nat \<Rightarrow> bool \<Rightarrow> ExceptionType + nat" where
  "xlate m va sz w =
     (if \<not> aligned sz va then Inl AddressErrorException
      else case entry_index m (va div 512) of None \<Rightarrow> Inl (miss m (va div 512))
        | Some i \<Rightarrow> let e = current_table m ! i in
            if readOnly e \<and> w then Inl ReadOnlyException
            else if 128 \<le> unat (physicalPage e) then Inl BusErrorException
            else Inr (unat (physicalPage e) * 512 + va mod 512))"

lemma unat_and_low:
  "(w AND 3 = 0) = (4 dvd unat w)" "(w AND 1 = 0) = (2 dvd unat w)" for w :: u32
proof -
  have "w AND 3 = take_bit 2 w" "w AND 1 = take_bit 1 w"
    by (simp_all add: take_bit_eq_mask mask_eq_exp_minus_1)
  then show "(w AND 3 = 0) = (4 dvd unat w)" "(w AND 1 = 0) = (2 dvd unat w)"
    by (simp_all add: unat_eq_0 [symmetric] take_bit_eq_mod dvd_eq_mod_eq_0 unat_mod_distrib)
qed

lemma unat_div_mod_512:
  "unat (w div 512) = unat w div 512" "unat (w mod 512) = unat w mod 512" for w :: u32
  by (simp_all add: unat_div_distrib unat_mod_distrib)

lemma phys_addr_unat:
  assumes "unat (f :: u32) < 128"
  shows "f * 512 + w mod 512 = (of_nat (unat f * 512 + unat w mod 512) :: u32)"
proof -
  have "(of_nat (unat f * 512 + unat w mod 512) :: u32) = f * 512 + of_nat (unat w mod 512)"
    by simp
  also have "(of_nat (unat w mod 512) :: u32) = w mod 512"
    by (simp add: unat_div_mod_512(2) [symmetric])
  finally show ?thesis by simp
qed

lemma unat_of_nat_small: "n < 2 ^ 32 \<Longrightarrow> unat (of_nat n :: u32) = n"
  by (simp add: unat_of_nat take_bit_eq_mod)

lemma sint_of_nat_small: "n < 2 ^ 31 \<Longrightarrow> sint (of_nat n :: u32) = int n"
proof -
  assume n: "n < 2 ^ 31"
  then have "int n < 2 ^ 31" by simp
  then show ?thesis by (simp add: signed_of_nat signed_take_bit_int_eq_self_iff)
qed

text \<open>An aligned access of 1, 2 or 4 bytes does not cross the end of its page.\<close>

lemma aligned_in_page:
  assumes "aligned sz va" and "sz \<in> {1, 2, 4}"
  shows "va mod 512 + sz \<le> 512"
proof -
  have "va mod 512 < 512" by simp
  moreover have "sz dvd va" using assms by (auto simp: aligned_def)
  then have "sz dvd va mod 512" using assms(2) by (auto intro: dvd_mod)
  ultimately show ?thesis using assms(2) by (auto elim!: dvdE)
qed

lemma xlate_bound:
  "xlate m va sz w = Inr pa \<Longrightarrow> sz \<in> {1, 2, 4} \<Longrightarrow> pa + sz \<le> 65536 \<and> pa mod 512 = va mod 512"
  using aligned_in_page [of sz va]
  by (auto simp: xlate_def Let_def split: if_splits option.splits)

lemma set_entry_length [simp]: "length (set_entry t i w) = length t"
  by (simp add: set_entry_def)

lemma set_entry_eq:
  "set_entry t i w ! j = (if j = i \<and> i < length t
     then (t ! i)\<lparr>use := True, dirty := (w \<or> dirty (t ! i))\<rparr> else t ! j)"
  by (cases "i < length t") (simp_all add: set_entry_def list_update_beyond)

lemma set_entry_nth [simp]:
  "physicalPage (set_entry t i w ! j) = physicalPage (t ! j)"
  "virtualPage (set_entry t i w ! j) = virtualPage (t ! j)"
  "readOnly (set_entry t i w ! j) = readOnly (t ! j)"
  "valid (set_entry t i w ! j) = valid (t ! j)"
  by (simp_all add: set_entry_eq)

lemma tlb_find_set_entry [simp]: "tlb_find (set_entry t i w) vpn j n = tlb_find t vpn j n"
  by (induction n arbitrary: j) auto

lemma touch_entry_simps [simp]:
  "registers (touch_entry m i w) = registers m"
  "mainMemory (touch_entry m i w) = mainMemory m"
  "pageTableSize (touch_entry m i w) = pageTableSize m"
  "tlb (touch_entry m i w) = map_option (\<lambda>t. set_entry t i w) (tlb m)"
  "reg (touch_entry m i w) r = reg m r"
  by (auto simp: touch_entry_def reg_def split: option.splits)

lemma wf_touch_entry [nachos_wf]: "wf_machine m \<Longrightarrow> wf_machine (touch_entry m i w)"
  by (auto simp: wf_machine_def touch_entry_def reg_def split: option.splits)

lemma current_table_touch:
  "wf_machine m \<Longrightarrow> current_table (touch_entry m i w) = set_entry (current_table m) i w"
  by (auto simp: current_table_def touch_entry_def wf_machine_def split: option.splits)

lemma entry_index_touch: "wf_machine m \<Longrightarrow> entry_index (touch_entry m i w) = entry_index m"
proof
  fix vpn
  assume wf: "wf_machine m"
  show "entry_index (touch_entry m i w) vpn = entry_index m vpn"
  proof (cases "tlb m")
    case None
    then show ?thesis by (simp add: entry_index_def current_table_touch [OF wf])
  next
    case (Some t)
    then show ?thesis by (simp add: entry_index_def)
  qed
qed

lemma miss_touch: "miss (touch_entry m i w) = miss m"
  by (auto simp: miss_def fun_eq_iff)

lemma xlate_touch: "wf_machine m \<Longrightarrow> xlate (touch_entry m i w) = xlate m"
  by (simp add: fun_eq_iff xlate_def entry_index_touch miss_touch current_table_touch
      Let_def split: option.split)

lemma lookup_entry_index:
  assumes wf: "wf_machine m"
  shows "translate_lookup m vpn = Inr (case entry_index m (unat vpn) of
      None \<Rightarrow> Inl (miss m (unat vpn)) | Some i \<Rightarrow> Inr i)"
proof (cases "tlb m")
  case None
  with wf obtain pt where pt: "pageTable m = Some pt" "unat (pageTableSize m) \<le> length pt"
    by (auto simp: wf_machine_def)
  have "(vpn \<ge> pageTableSize m) = (unat (pageTableSize m) \<le> unat vpn)"
    by (simp add: word_le_nat_alt)
  with None pt show ?thesis
    by (auto simp: translate_lookup_def entry_index_def miss_def current_table_def)
next
  case (Some t)
  with wf show ?thesis
    by (auto simp: translate_lookup_def entry_index_def miss_def wf_machine_def
        split: option.splits)
qed

text \<open>
  \<^verbatim>\<open>Translate\<close> computes \<open>xlate\<close>, passes its assertions, and changes nothing but the use
  and dirty bits.
\<close>

definition same_memory :: "Machine \<Rightarrow> Machine \<Rightarrow> bool" where
  "same_memory m m' \<longleftrightarrow> registers m' = registers m \<and> mainMemory m' = mainMemory m \<and>
     xlate m' = xlate m \<and> (tlb m' = None \<longleftrightarrow> tlb m = None) \<and> wf_machine m'"

lemma translate_entry_xlate:
  assumes wf: "wf_machine m" and sz: "sz \<in> {1, 2, 4}" and al: "aligned sz (unat va)"
    and i: "entry_index m (unat va div 512) = Some i"
  shows "\<exists>m'. translate_entry m i (va mod 512) sz w =
      Inr (map_sum id of_nat (xlate m (unat va) sz w), m') \<and> same_memory m m'"
proof -
  define e where "e = current_table m ! i"
  have big: "(physicalPage e \<ge> of_int NumPhysPages) = (128 \<le> unat (physicalPage e))"
    by (simp add: machine_consts word_le_nat_alt)
  have X: "xlate m (unat va) sz w = (if readOnly e \<and> w then Inl ReadOnlyException
      else if 128 \<le> unat (physicalPage e) then Inl BusErrorException
      else Inr (unat (physicalPage e) * 512 + unat va mod 512))"
    using al i by (simp add: xlate_def e_def Let_def)
  show ?thesis
  proof (cases "readOnly e \<and> w \<or> 128 \<le> unat (physicalPage e)")
    case True
    with wf X big show ?thesis
      by (auto simp: translate_entry_def e_def [symmetric] same_memory_def Let_def)
  next
    case False
    let ?n = "unat (physicalPage e) * 512 + unat va mod 512"
    have n: "?n + sz \<le> 65536"
      using xlate_bound [of m "unat va" sz w ?n] X False sz by simp
    then have "sint (of_nat ?n :: u32) = int ?n" using sz by (intro sint_of_nat_small) auto
    moreover have "physicalPage e * 512 + va mod 512 = (of_nat ?n :: u32)"
      using False by (intro phys_addr_unat) simp
    ultimately have "translate_entry m i (va mod 512) sz w = Inr (Inr (of_nat ?n), touch_entry m i w)"
      using False big n
      by (simp add: translate_entry_def e_def [symmetric] Let_def machine_consts
          del: of_nat_add of_nat_mult)
    with X False wf show ?thesis
      by (simp add: same_memory_def xlate_touch wf_touch_entry del: of_nat_add of_nat_mult)
  qed
qed

lemma Translate_xlate:
  assumes wf: "wf_machine m" and sz: "sz \<in> {1, 2, 4}"
  shows "\<exists>m'. Translate m va sz w = Inr (map_sum id of_nat (xlate m (unat va) sz w), m') \<and>
    same_memory m m'"
proof (cases "aligned sz (unat va)")
  case False
  then have "sz = 4 \<and> va AND 3 \<noteq> 0 \<or> sz = 2 \<and> va AND 1 \<noteq> 0"
    by (auto simp: aligned_def unat_and_low)
  then have "Translate m va sz w = Inr (Inl AddressErrorException, m)"
    unfolding Translate_def by (rule if_P)
  with False wf show ?thesis by (simp add: xlate_def same_memory_def)
next
  case al: True
  then have "\<not> (sz = 4 \<and> va AND 3 \<noteq> 0 \<or> sz = 2 \<and> va AND 1 \<noteq> 0)"
    by (auto simp: aligned_def unat_and_low)
  moreover have "tlb m = None \<or> pageTable m = None" "tlb m \<noteq> None \<or> pageTable m \<noteq> None"
    using wf by (auto simp: wf_machine_def split: option.splits)
  ultimately have T: "Translate m va sz w =
     bindR (translate_lookup m (va div 512)) (\<lambda>r. case r of
             Inl e \<Rightarrow> Inr (Inl e, m)
           | Inr i \<Rightarrow> translate_entry m i (va mod 512) sz w)"
    unfolding Translate_def
    by (simp only: if_False ASSERT_True bindR.simps Let_def machine_consts of_int_numeral)
  show ?thesis
  proof (cases "entry_index m (unat va div 512)")
    case None
    with T wf al show ?thesis
      by (simp add: lookup_entry_index unat_div_mod_512 xlate_def same_memory_def)
  next
    case (Some i)
    with T wf have "Translate m va sz w = translate_entry m i (va mod 512) sz w"
      by (simp add: lookup_entry_index unat_div_mod_512)
    with translate_entry_xlate [OF wf sz al Some, of w] show ?thesis by simp
  qed
qed

section \<open>Loads and stores\<close>

lemma length_value_bytes [simp]: "length (value_bytes n v) = n"
  by (induction n arbitrary: v) auto

lemma bytes_value_bytes: "bytes_value (value_bytes n v) = v mod 256 ^ n"
  by (induction n arbitrary: v)
    (simp_all add: unat_of_nat take_bit_eq_mod mod_mult2_eq add.commute)

lemma bytes_value_bound: "bytes_value bs < 256 ^ length bs"
proof (induction bs)
  case (Cons b bs)
  have "unat b < 256" by (rule unat_byte_lt)
  moreover have "256 * (bytes_value bs + 1) \<le> 256 * 256 ^ length bs"
    using Cons by (intro mult_le_mono) auto
  ultimately show ?case by simp
qed simp

lemma mem_read_write_same:
  "mem_write mem a bs = Inr mem' \<Longrightarrow> mem_read mem' a (length bs) = Inr bs"
  by (auto simp: mem_write_def mem_read_def split: if_splits)

lemma mem_read_write_other:
  assumes "mem_write mem a bs = Inr mem'" and "b + n \<le> a \<or> a + length bs \<le> b"
  shows "mem_read mem' b n = mem_read mem b n"
proof -
  from assms(1) have mem': "mem' = take a mem @ bs @ drop (a + length bs) mem"
    "a + length bs \<le> length mem" by (auto simp: mem_write_def split: if_splits)
  show ?thesis
  proof (cases "b + n \<le> length mem")
    case True
    then have "take n (drop b mem') = take n (drop b mem)"
      using mem' assms(2) by (intro nth_equalityI) (auto simp: nth_append)
    with mem' True show ?thesis by (simp add: mem_read_def)
  qed (use mem' in \<open>simp add: mem_read_def\<close>)
qed

lemma mem_write_length: "mem_write mem a bs = Inr mem' \<Longrightarrow> length mem' = length mem"
  by (auto simp: mem_write_def split: if_splits)

text \<open>What a load returns after a store of \<open>v\<close> of the same size.\<close>

definition truncated :: "nat \<Rightarrow> u32 \<Rightarrow> u32" where
  "truncated sz v = (if sz = 1 then scast (ucast v :: byte)
     else if sz = 2 then ucast (ucast v :: 16 word) else v)"

lemma mask_ucast:
  "unat (v AND 0xff) mod 256 = unat (ucast v :: byte)"
  "ucast (v AND 0xffff) = (ucast v :: 16 word)" for v :: u32
proof -
  have a: "v AND 0xff = take_bit 8 v" and b: "v AND 0xffff = take_bit 16 v"
    by (simp_all add: take_bit_eq_mask mask_eq_exp_minus_1)
  show "unat (v AND 0xff) mod 256 = unat (ucast v :: byte)"
    unfolding a by (simp add: unsigned_ucast_eq take_bit_eq_mod unat_mod_distrib)
  show "ucast (v AND 0xffff) = (ucast v :: 16 word)"
    unfolding b by (rule bit_word_eqI) (simp add: bit_simps)
qed

lemma load_store:
  assumes "sz \<in> {1, 2, 4}"
  obtains bs where "store_bytes sz v = Inr bs" and "length bs = sz"
    and "load_value sz bs = Inr (truncated sz v)"
proof -
  have "unat x mod 4294967296 = unat x" for x :: u32
    by (intro mod_less unat_u32_lt)
  moreover have "unat x mod 65536 = unat x" for x :: "16 word"
    by (intro mod_less unat_short_lt)
  moreover have "ucast (v AND 0xff) = (ucast v :: byte)"
    by (rule bit_word_eqI) (auto simp: bit_simps less_Suc_eq numeral_eq_Suc)
  ultimately have "\<exists>bs. store_bytes sz v = Inr bs \<and> length bs = sz \<and>
      load_value sz bs = Inr (truncated sz v)"
    using assms
    by (auto simp: store_bytes_def load_value_def truncated_def ShortToMachine_def
        ShortToHost_def WordToMachine_def WordToHost_def bytes_value_bytes mask_ucast)
  then show ?thesis using that by blast
qed

lemma set_reg_simps [simp]:
  "mainMemory (set_reg m r v) = mainMemory m" "tlb (set_reg m r v) = tlb m"
  "pageTable (set_reg m r v) = pageTable m" "pageTableSize (set_reg m r v) = pageTableSize m"
  "length (registers (set_reg m r v)) = length (registers m)"
  by (simp_all add: set_reg_def)

lemma reg_set_reg:
  "r < length (registers m) \<Longrightarrow> reg (set_reg m r v) q = (if q = r then v else reg m q)"
  by (simp add: reg_def set_reg_def)

lemma DelayedLoad_simps [simp]:
  "mainMemory (DelayedLoad m r v) = mainMemory m" "tlb (DelayedLoad m r v) = tlb m"
  "pageTable (DelayedLoad m r v) = pageTable m"
  "pageTableSize (DelayedLoad m r v) = pageTableSize m"
  "length (registers (DelayedLoad m r v)) = length (registers m)"
  by (simp_all add: DelayedLoad_def Let_def)

lemma reg_DelayedLoad:
  assumes "length (registers m) = 40" and "unat (reg m LoadReg) < 32"
  shows "reg (DelayedLoad m nr nv) q =
    (if q = 0 then 0 else if q = LoadValueReg then nv else if q = LoadReg then nr
     else if q = unat (reg m LoadReg) then reg m LoadValueReg else reg m q)"
  using assms by (simp add: DelayedLoad_def Let_def reg_set_reg)

lemma wf_machine_regs:
  "wf_machine m \<Longrightarrow> length (registers m) = 40 \<and> unat (reg m LoadReg) < 32"
  by (simp add: wf_machine_def)

lemma wf_set_reg [nachos_wf]:
  "wf_machine m \<Longrightarrow> r \<noteq> LoadReg \<or> unat v < 32 \<Longrightarrow> wf_machine (set_reg m r v)"
  by (cases "r < length (registers m)")
    (auto simp: wf_machine_def reg_def set_reg_def list_update_beyond nth_list_update
      split: option.splits)

lemma wf_DelayedLoad [nachos_wf]:
  "wf_machine m \<Longrightarrow> unat nr < 32 \<Longrightarrow> wf_machine (DelayedLoad m nr nv)"
  using wf_machine_regs [of m] reg_DelayedLoad [of m nr nv LoadReg]
  by (simp add: wf_machine_def split: option.splits)

lemma wf_RaiseException [nachos_wf]: "wf_machine m \<Longrightarrow> wf_machine (RaiseException m a)"
  by (simp add: RaiseException_def nachos_wf)

lemma RaiseException_mem [simp]: "mainMemory (RaiseException m a) = mainMemory m"
  by (simp add: RaiseException_def)

lemma reg_RaiseException_BadVAddr:
  "wf_machine m \<Longrightarrow> reg (RaiseException m a) BadVAddrReg = a"
  using wf_machine_regs [of m]
  by (simp add: RaiseException_def reg_DelayedLoad reg_set_reg)

lemma wf_mainMemory [nachos_wf]:
  "wf_machine m \<Longrightarrow> length mem = length (mainMemory m) \<Longrightarrow> wf_machine (m\<lparr>mainMemory := mem\<rparr>)"
  by (auto simp: wf_machine_def reg_def split: option.splits)

lemma xlate_cong:
  assumes "tlb m' = tlb m" and "pageTable m' = pageTable m" and "pageTableSize m' = pageTableSize m"
  shows "xlate m' = xlate m"
proof -
  have c: "current_table m' = current_table m" unfolding current_table_def assms ..
  have e: "entry_index m' = entry_index m" unfolding entry_index_def assms c ..
  have m: "miss m' = miss m" unfolding miss_def assms ..
  show ?thesis unfolding xlate_def c e m ..
qed

lemma xlate_mainMemory [simp]: "xlate (m\<lparr>mainMemory := mem\<rparr>) = xlate m"
  by (rule xlate_cong) simp_all

text \<open>The two accesses in terms of \<open>xlate\<close>.\<close>

lemma ReadMem_trap:
  assumes "wf_machine m" and "sz \<in> {1, 2, 4}" and "xlate m (unat a) sz False = Inl e"
  shows "\<exists>m'. ReadMem m a sz = Inr (Inl e, RaiseException m' a) \<and> same_memory m m'"
  using Translate_xlate [OF assms(1,2), of a False] assms(3) by (auto simp: ReadMem_def)

lemma WriteMem_trap:
  assumes "wf_machine m" and "sz \<in> {1, 2, 4}" and "xlate m (unat a) sz True = Inl e"
  shows "\<exists>m'. WriteMem m a sz v = Inr (Inl e, RaiseException m' a) \<and> same_memory m m'"
  using Translate_xlate [OF assms(1,2), of a True] assms(3) by (auto simp: WriteMem_def)

lemma load_value_total: "sz \<in> {1, 2, 4} \<Longrightarrow> \<exists>v. load_value sz bs = Inr v"
  by (auto simp: load_value_def)

lemma xlate_in_memory:
  assumes "wf_machine m" and "sz \<in> {1, 2, 4}" and "xlate m va sz w = Inr pa"
  shows "pa + sz \<le> length (mainMemory m)" and "unat (of_nat pa :: u32) = pa"
proof -
  have "pa + sz \<le> 65536" using xlate_bound [OF assms(3,2)] by simp
  then show "pa + sz \<le> length (mainMemory m)"
    using assms(1) by (simp add: wf_machine_def machine_consts)
  show "unat (of_nat pa :: u32) = pa"
    using \<open>pa + sz \<le> 65536\<close> by (intro unat_of_nat_small) simp
qed

lemma ReadMem_value:
  assumes "wf_machine m" and "sz \<in> {1, 2, 4}" and "xlate m (unat a) sz False = Inr pa"
  shows "\<exists>v m'. ReadMem m a sz = Inr (Inr v, m') \<and> same_memory m m' \<and>
    load_value sz (take sz (drop pa (mainMemory m))) = Inr v"
proof -
  obtain m' where T: "Translate m a sz False = Inr (Inr (of_nat pa), m')" "same_memory m m'"
    using Translate_xlate [OF assms(1,2), of a False] assms(3) by auto
  obtain v where v: "load_value sz (take sz (drop pa (mainMemory m))) = Inr v"
    using load_value_total [OF assms(2)] by blast
  have "mem_read (mainMemory m') (unat (of_nat pa :: u32)) sz
      = Inr (take sz (drop pa (mainMemory m)))"
    using T(2) xlate_in_memory [OF assms] by (simp add: same_memory_def mem_read_def)
  with T v show ?thesis by (auto simp: ReadMem_def)
qed

lemma WriteMem_value:
  assumes "wf_machine m" and "sz \<in> {1, 2, 4}" and "xlate m (unat a) sz True = Inr pa"
  shows "\<exists>bs mem m1. WriteMem m a sz v = Inr (Inr (), m1\<lparr>mainMemory := mem\<rparr>) \<and>
    same_memory m m1 \<and> length bs = sz \<and> mem_write (mainMemory m) pa bs = Inr mem \<and>
    load_value sz bs = Inr (truncated sz v)"
proof -
  obtain m' where T: "Translate m a sz True = Inr (Inr (of_nat pa), m')" "same_memory m m'"
    using Translate_xlate [OF assms(1,2), of a True] assms(3) by auto
  obtain bs where bs: "store_bytes sz v = Inr bs" "length bs = sz"
    "load_value sz bs = Inr (truncated sz v)" using load_store [OF assms(2)] by blast
  obtain mem where mem: "mem_write (mainMemory m) pa bs = Inr mem"
    using xlate_in_memory [OF assms] bs(2) by (simp add: mem_write_def)
  then have "mem_write (mainMemory m') (unat (of_nat pa :: u32)) bs = Inr mem"
    using T(2) xlate_in_memory [OF assms] by (simp add: same_memory_def)
  with T bs mem show ?thesis by (auto simp: WriteMem_def)
qed

lemma xlate_frame:
  assumes "wf_machine m" and "sz \<in> {1, 2, 4}" and "tlb m = None" and "pageTable m = Some pt"
    and "xlate m va sz w = Inr pa"
  shows "\<exists>i<length pt. valid (pt ! i) \<and> pa = unat (physicalPage (pt ! i)) * 512 + va mod 512 \<and>
    va mod 512 + sz \<le> 512"
  using assms aligned_in_page [of sz va]
  by (auto simp: xlate_def entry_index_def current_table_def wf_machine_def Let_def
      split: if_splits option.splits intro!: exI [of _ "va div 512"])

section \<open>Properties\<close>

text \<open>
  On a well-formed machine \<^verbatim>\<open>Translate\<close> never fails an assertion, and when it yields a
  physical address the whole access lies inside one page frame of physical memory, at the
  same page offset; registers and memory are unchanged.
\<close>

lemma Translate_in_frame:
  assumes "wf_machine m" and "sz \<in> {1, 2, 4}"
  shows "\<exists>r m'. Translate m va sz w = Inr (r, m') \<and> registers m' = registers m \<and>
    mainMemory m' = mainMemory m \<and> wf_machine m' \<and>
    (\<forall>pa. r = Inr pa \<longrightarrow> unat pa div 512 < 128 \<and> unat pa mod 512 = unat va mod 512 \<and>
       unat pa mod 512 + sz \<le> 512)"
proof -
  obtain m' where T: "Translate m va sz w = Inr (map_sum id of_nat (xlate m (unat va) sz w), m')"
    "same_memory m m'" using Translate_xlate [OF assms] by blast
  have "unat (of_nat pa :: u32) = pa \<and> pa div 512 < 128 \<and> pa mod 512 = unat va mod 512 \<and>
      unat va mod 512 + sz \<le> 512" if "xlate m (unat va) sz w = Inr pa" for pa
    using that xlate_in_memory [OF assms that] xlate_bound [OF that assms(2)]
      aligned_in_page [OF _ assms(2), of "unat va"] assms(2)
    by (auto simp: xlate_def Let_def split: if_splits)
  with T show ?thesis
    by (cases "xlate m (unat va) sz w") (auto simp: same_memory_def)
qed

definition demo_machine :: Machine where
  "demo_machine = (Machine_Machine 1 0 False)\<lparr>pageTable :=
     Some [\<lparr>virtualPage = 0, physicalPage = 3, valid = True, readOnly = False,
            use = False, dirty = False\<rparr>]\<rparr>"

lemma demo_wf: "wf_machine demo_machine"
  by (simp add: wf_machine_def demo_machine_def Machine_Machine_def reg_def)

lemma demo_xlate: "xlate demo_machine 8 4 w = Inr 1544"
  by (simp add: xlate_def aligned_def entry_index_def current_table_def demo_machine_def
      Machine_Machine_def)

text \<open>
  C30: A load that follows a successful store of the same size at the same virtual address
  returns the stored value, sign-extended from a byte, zero-extended from a half word, whole
  for a word.
\<close>

theorem ReadMem_after_WriteMem:
  assumes "wf_machine m" and "sz \<in> {1, 2, 4}" and "WriteMem m a sz v = Inr (Inr (), m')"
  shows "\<exists>m''. ReadMem m' a sz = Inr (Inr (truncated sz v), m'')"
proof -
  obtain pa where pa: "xlate m (unat a) sz True = Inr pa"
    using WriteMem_trap [OF assms(1,2), of a _ v] assms(3)
    by (cases "xlate m (unat a) sz True") fastforce+
  then obtain bs mem m1 where w: "m' = m1\<lparr>mainMemory := mem\<rparr>" "same_memory m m1" "length bs = sz"
    "mem_write (mainMemory m) pa bs = Inr mem" "load_value sz bs = Inr (truncated sz v)"
    using WriteMem_value [OF assms(1,2) pa, of v] assms(3) by auto
  have wf: "wf_machine m'"
    using w mem_write_length [OF w(4)] by (auto simp: same_memory_def intro: wf_mainMemory)
  have xr: "xlate m' (unat a) sz False = Inr pa"
    using pa w(1,2) by (auto simp: same_memory_def xlate_def Let_def split: if_splits option.splits)
  have "take sz (drop pa mem) = bs"
    using mem_read_write_same [OF w(4)] w(3) by (auto simp: mem_read_def split: if_splits)
  with ReadMem_value [OF wf assms(2) xr] w show ?thesis by auto
qed

lemma ReadMem_after_WriteMem_witness:
  "\<exists>m' m''. WriteMem demo_machine 8 4 305419896 = Inr (Inr (), m') \<and>
    ReadMem m' 8 4 = Inr (Inr 305419896, m'')"
proof -
  have x: "xlate demo_machine (unat (8 :: u32)) 4 True = Inr 1544" using demo_xlate by simp
  obtain m' where "WriteMem demo_machine 8 4 305419896 = Inr (Inr (), m')"
    using WriteMem_value [OF demo_wf _ x, of 305419896] by auto
  with ReadMem_after_WriteMem [OF demo_wf _ this] show ?thesis by (auto simp: truncated_def)
qed

text \<open>
  C6: Address spaces are isolated. Let \<open>A\<close> and \<open>B\<close> be page tables whose valid entries name
  different frames. A store made through \<open>A\<close> leaves every load through \<open>B\<close> with the result
  it had before, the value or the exception.
\<close>

theorem address_spaces_isolated:
  assumes wf: "wf_machine m" and A: "pageTable m = Some A"
    and B: "unat nB \<le> length B"
    and disj: "\<forall>i<length A. \<forall>j<length B. valid (A ! i) \<and> valid (B ! j) \<longrightarrow>
      physicalPage (A ! i) \<noteq> physicalPage (B ! j)"
    and sz: "sz \<in> {1, 2, 4}" "sz' \<in> {1, 2, 4}"
    and W: "WriteMem m a sz v = Inr (Inr (), m')"
  shows "\<exists>r m1 m2. ReadMem (m\<lparr>pageTable := Some B, pageTableSize := nB\<rparr>) b sz' = Inr (r, m1) \<and>
    ReadMem (m'\<lparr>pageTable := Some B, pageTableSize := nB\<rparr>) b sz' = Inr (r, m2)"
proof -
  let ?sw = "\<lambda>m. m\<lparr>pageTable := Some B, pageTableSize := nB\<rparr>"
  have tlb: "tlb m = None" using wf A by (auto simp: wf_machine_def split: option.splits)
  obtain pa where pa: "xlate m (unat a) sz True = Inr pa"
    using WriteMem_trap [OF wf sz(1), of a _ v] W
    by (cases "xlate m (unat a) sz True") fastforce+
  then obtain bs mem m1 where w: "m' = m1\<lparr>mainMemory := mem\<rparr>" "same_memory m m1" "length bs = sz"
    "mem_write (mainMemory m) pa bs = Inr mem"
    using WriteMem_value [OF wf sz(1) pa, of v] W by auto
  have wfB: "wf_machine (?sw m)" using wf tlb B by (simp add: wf_machine_def reg_def)
  have wfB': "wf_machine (?sw m')" and x: "xlate (?sw m') = xlate (?sw m)"
    using w mem_write_length [OF w(4)] tlb B
    by (auto simp: same_memory_def wf_machine_def reg_def intro!: xlate_cong)
  show ?thesis
  proof (cases "xlate (?sw m) (unat b) sz' False")
    case (Inl e)
    then show ?thesis
      using ReadMem_trap [OF wfB sz(2)] ReadMem_trap [OF wfB' sz(2), unfolded x] by blast
  next
    case (Inr pb)
    obtain i where i: "i < length A" "valid (A ! i)"
      "pa = unat (physicalPage (A ! i)) * 512 + unat a mod 512" "unat a mod 512 + sz \<le> 512"
      using xlate_frame [OF wf sz(1) tlb A pa] by blast
    obtain j where j: "j < length B" "valid (B ! j)"
      "pb = unat (physicalPage (B ! j)) * 512 + unat b mod 512" "unat b mod 512 + sz' \<le> 512"
      using xlate_frame [OF wfB sz(2) _ _ Inr] tlb by auto
    have "unat (physicalPage (A ! i)) \<noteq> unat (physicalPage (B ! j))"
      using disj i(1,2) j(1,2) by (metis word_unat_eq_iff)
    with i(3,4) j(3,4) w(3) have "pb + sz' \<le> pa \<or> pa + length bs \<le> pb" by linarith
    then have "mem_read mem pb sz' = mem_read (mainMemory m) pb sz'"
      by (rule mem_read_write_other [OF w(4)])
    then have "take sz' (drop pb mem) = take sz' (drop pb (mainMemory m))"
      using xlate_in_memory [OF wfB sz(2) Inr] mem_write_length [OF w(4)]
      by (simp add: mem_read_def)
    with ReadMem_value [OF wfB sz(2) Inr] ReadMem_value [OF wfB' sz(2), unfolded x, OF Inr] w(1)
    show ?thesis by auto
  qed
qed

text \<open>Two address spaces of one page each, in frames 3 and 5.\<close>

lemma address_spaces_isolated_witness:
  "\<exists>m' r m1 m2. WriteMem demo_machine 8 4 7 = Inr (Inr (), m') \<and>
    ReadMem (demo_machine\<lparr>pageTable := Some [\<lparr>virtualPage = 0, physicalPage = 5, valid = True,
      readOnly = False, use = False, dirty = False\<rparr>], pageTableSize := 1\<rparr>) 8 4 = Inr (r, m1) \<and>
    ReadMem (m'\<lparr>pageTable := Some [\<lparr>virtualPage = 0, physicalPage = 5, valid = True,
      readOnly = False, use = False, dirty = False\<rparr>], pageTableSize := 1\<rparr>) 8 4 = Inr (r, m2)"
proof -
  have x: "xlate demo_machine (unat (8 :: u32)) 4 True = Inr 1544" using demo_xlate by simp
  have A: "pageTable demo_machine = Some [\<lparr>virtualPage = 0, physicalPage = 3, valid = True,
      readOnly = False, use = False, dirty = False\<rparr>]"
    by (simp add: demo_machine_def Machine_Machine_def)
  obtain m' where w: "WriteMem demo_machine 8 4 7 = Inr (Inr (), m')"
    using WriteMem_value [OF demo_wf _ x, of 7] by auto
  show ?thesis
    using address_spaces_isolated [OF demo_wf A _ _ _ _ w, of 1 "[\<lparr>virtualPage = 0,
      physicalPage = 5, valid = True, readOnly = False, use = False, dirty = False\<rparr>]" 4 8] w
    by auto
qed

end
