(* ===== verification/MipsSim.thy ===== *)
theory MipsSim
  imports Machine
begin

text \<open>
  The MIPS R2/3000 simulator of \<^verbatim>\<open>machine/mipssim.{h,cc}\<close>: decoding with the tables of the
  header, one execution function per group of opcodes, the double-word multiplication, the
  delayed load and branch slots. Registers are 32-bit words: the additions of the source
  are meant to wrap and test for overflow afterwards, and \<^verbatim>\<open>>>\<close> on its \<^verbatim>\<open>int\<close> registers is
  the arithmetic shift. \<^verbatim>\<open>DebugIsEnabled\<close> output is left out.
\<close>

section \<open>Tables and decoding\<close>

datatype (plugins only: size) mips_op =
    OP_ADD | OP_ADDI | OP_ADDIU | OP_ADDU | OP_AND | OP_ANDI | OP_BEQ
  | OP_BGEZ | OP_BGEZAL | OP_BGTZ | OP_BLEZ | OP_BLTZ | OP_BLTZAL | OP_BNE
  | OP_DIV | OP_DIVU | OP_J | OP_JAL | OP_JALR | OP_JR | OP_LB
  | OP_LBU | OP_LH | OP_LHU | OP_LUI | OP_LW | OP_LWL | OP_LWR
  | OP_MFHI | OP_MFLO | OP_MTHI | OP_MTLO | OP_MULT | OP_MULTU | OP_NOR
  | OP_OR | OP_ORI | OP_RFE | OP_SB | OP_SH | OP_SLL | OP_SLLV
  | OP_SLT | OP_SLTI | OP_SLTIU | OP_SLTU | OP_SRA | OP_SRAV | OP_SRL
  | OP_SRLV | OP_SUB | OP_SUBU | OP_SW | OP_SWL | OP_SWR | OP_XOR
  | OP_XORI | OP_SYSCALL | OP_UNIMP | OP_RES | SPECIAL | BCOND

datatype format = IFMT | JFMT | RFMT

definition opTable :: "(mips_op \<times> format) list" where
  "opTable = [
     (SPECIAL, RFMT), (BCOND, IFMT), (OP_J, JFMT), (OP_JAL, JFMT),
     (OP_BEQ, IFMT), (OP_BNE, IFMT), (OP_BLEZ, IFMT), (OP_BGTZ, IFMT),
     (OP_ADDI, IFMT), (OP_ADDIU, IFMT), (OP_SLTI, IFMT), (OP_SLTIU, IFMT),
     (OP_ANDI, IFMT), (OP_ORI, IFMT), (OP_XORI, IFMT), (OP_LUI, IFMT),
     (OP_UNIMP, IFMT), (OP_UNIMP, IFMT), (OP_UNIMP, IFMT), (OP_UNIMP, IFMT),
     (OP_RES, IFMT), (OP_RES, IFMT), (OP_RES, IFMT), (OP_RES, IFMT),
     (OP_RES, IFMT), (OP_RES, IFMT), (OP_RES, IFMT), (OP_RES, IFMT),
     (OP_RES, IFMT), (OP_RES, IFMT), (OP_RES, IFMT), (OP_RES, IFMT),
     (OP_LB, IFMT), (OP_LH, IFMT), (OP_LWL, IFMT), (OP_LW, IFMT),
     (OP_LBU, IFMT), (OP_LHU, IFMT), (OP_LWR, IFMT), (OP_RES, IFMT),
     (OP_SB, IFMT), (OP_SH, IFMT), (OP_SWL, IFMT), (OP_SW, IFMT),
     (OP_RES, IFMT), (OP_RES, IFMT), (OP_SWR, IFMT), (OP_RES, IFMT),
     (OP_UNIMP, IFMT), (OP_UNIMP, IFMT), (OP_UNIMP, IFMT), (OP_UNIMP, IFMT),
     (OP_RES, IFMT), (OP_RES, IFMT), (OP_RES, IFMT), (OP_RES, IFMT),
     (OP_UNIMP, IFMT), (OP_UNIMP, IFMT), (OP_UNIMP, IFMT), (OP_UNIMP, IFMT),
     (OP_RES, IFMT), (OP_RES, IFMT), (OP_RES, IFMT), (OP_RES, IFMT)]"

definition specialTable :: "mips_op list" where
  "specialTable = [
     OP_SLL, OP_RES, OP_SRL, OP_SRA, OP_SLLV, OP_RES, OP_SRLV, OP_SRAV,
     OP_JR, OP_JALR, OP_RES, OP_RES, OP_SYSCALL, OP_UNIMP, OP_RES, OP_RES,
     OP_MFHI, OP_MTHI, OP_MFLO, OP_MTLO, OP_RES, OP_RES, OP_RES, OP_RES,
     OP_MULT, OP_MULTU, OP_DIV, OP_DIVU, OP_RES, OP_RES, OP_RES, OP_RES,
     OP_ADD, OP_ADDU, OP_SUB, OP_SUBU, OP_AND, OP_OR, OP_XOR, OP_NOR,
     OP_RES, OP_RES, OP_SLT, OP_SLTU, OP_RES, OP_RES, OP_RES, OP_RES,
     OP_RES, OP_RES, OP_RES, OP_RES, OP_RES, OP_RES, OP_RES, OP_RES,
     OP_RES, OP_RES, OP_RES, OP_RES, OP_RES, OP_RES, OP_RES, OP_RES]"

record Instruction =
  ivalue :: u32
  opCode :: mips_op
  irs :: nat
  irt :: nat
  ird :: nat
  extra :: u32

definition IndexToAddr :: "u32 \<Rightarrow> u32" where
  "IndexToAddr x = push_bit 2 x"

definition SIGN_BIT :: u32 where
  "SIGN_BIT = 0x80000000"

definition R31 :: nat where
  "R31 = 31"

definition decode_bcond :: "u32 \<Rightarrow> mips_op" where
  "decode_bcond v = (let i = v AND 0x1f0000 in
     if i = 0 then OP_BLTZ else if i = 0x10000 then OP_BGEZ
     else if i = 0x100000 then OP_BLTZAL else if i = 0x110000 then OP_BGEZAL
     else OP_UNIMP)"

definition decode_extra :: "format \<Rightarrow> u32 \<Rightarrow> u32" where
  "decode_extra f v = (case f of
     IFMT \<Rightarrow> (let e = v AND 0xffff in if e AND 0x8000 \<noteq> 0 then e OR 0xffff0000 else e)
   | RFMT \<Rightarrow> drop_bit 6 v AND 0x1f
   | JFMT \<Rightarrow> v AND 0x3ffffff)"

definition Decode :: "u32 \<Rightarrow> Instruction" where
  "Decode v = (let opPtr = opTable ! unat (drop_bit 26 v AND 0x3f) in
     \<lparr>ivalue = v,
      opCode = (if fst opPtr = SPECIAL then specialTable ! unat (v AND 0x3f)
        else if fst opPtr = BCOND then decode_bcond v else fst opPtr),
      irs = unat (drop_bit 21 v AND 0x1f), irt = unat (drop_bit 16 v AND 0x1f),
      ird = unat (drop_bit 11 v AND 0x1f), extra = decode_extra (snd opPtr) v\<rparr>)"

section \<open>Multiplication\<close>

text \<open>The main loop of \<^verbatim>\<open>Mult\<close>, with \<open>n\<close> iterations left; it yields (hi, lo).\<close>

fun mult_loop :: "nat \<Rightarrow> u32 \<Rightarrow> u32 \<Rightarrow> u32 \<Rightarrow> u32 \<Rightarrow> u32 \<Rightarrow> u32 \<times> u32" where
  "mult_loop 0 a bHi bLo hi lo = (hi, lo)"
| "mult_loop (Suc n) a bHi bLo hi lo =
     (let odd = a AND 1 \<noteq> 0;
          lo' = (if odd then lo + bLo else lo);
          hi1 = (if odd \<and> lo' < bLo then hi + 1 else hi);
          hi' = (if odd then hi1 + bHi else hi1)
      in if odd \<and> a AND 0xfffffffe = 0 then (hi', lo')
         else let bHi1 = push_bit 1 bHi;
                  bHi' = (if bLo AND 0x80000000 \<noteq> 0 then bHi1 OR 1 else bHi1)
              in mult_loop n (signed_drop_bit 1 a) bHi' (push_bit 1 bLo) hi' lo')"

definition Mult :: "u32 \<Rightarrow> u32 \<Rightarrow> bool \<Rightarrow> u32 \<times> u32" where
  "Mult a b signedArith =
     (if a = 0 \<or> b = 0 then (0, 0)
      else let na = signedArith \<and> sint a < 0; nb = signedArith \<and> sint b < 0;
               a' = (if na then - a else a); b' = (if nb then - b else b);
               (hi, lo) = mult_loop 32 a' 0 b' 0 0
           in if na \<noteq> nb then
                let lo' = NOT lo + 1 in (if lo' = 0 then NOT hi + 1 else NOT hi, lo')
              else (hi, lo))"

section \<open>Execution\<close>

text \<open>
  The switch of \<^verbatim>\<open>OneInstruction\<close> ends in one of two ways: it raises an exception and
  returns, or it goes on with \<^verbatim>\<open>pcAfter\<close>, \<^verbatim>\<open>nextLoadReg\<close> and \<^verbatim>\<open>nextLoadValue\<close>.
\<close>

datatype exec = Trap ExceptionType Machine | Cont Machine u32 u32 u32

definition raise :: "Machine \<Rightarrow> ExceptionType \<Rightarrow> u32 \<Rightarrow> exec result" where
  "raise m e badVAddr = Inr (Trap e (RaiseException m badVAddr))"

definition cont :: "Machine \<Rightarrow> u32 \<Rightarrow> exec result" where
  "cont m pcAfter = Inr (Cont m pcAfter 0 0)"

definition signs_differ :: "u32 \<Rightarrow> u32 \<Rightarrow> bool" where
  "signs_differ x y \<longleftrightarrow> (x XOR y) AND SIGN_BIT \<noteq> 0"

definition exec_add :: "Instruction \<Rightarrow> Machine \<Rightarrow> u32 \<Rightarrow> exec result" where
  "exec_add i m pc = (let a = reg m (irs i); b = reg m (irt i); sum = a + b in
     if \<not> signs_differ a b \<and> signs_differ a sum then raise m OverflowException 0
     else cont (set_reg m (ird i) sum) pc)"

definition exec_addi :: "Instruction \<Rightarrow> Machine \<Rightarrow> u32 \<Rightarrow> exec result" where
  "exec_addi i m pc = (let a = reg m (irs i); sum = a + extra i in
     if \<not> signs_differ a (extra i) \<and> signs_differ (extra i) sum
     then raise m OverflowException 0
     else cont (set_reg m (irt i) sum) pc)"

definition exec_sub :: "Instruction \<Rightarrow> Machine \<Rightarrow> u32 \<Rightarrow> exec result" where
  "exec_sub i m pc = (let a = reg m (irs i); b = reg m (irt i); diff = a - b in
     if signs_differ a b \<and> signs_differ a diff then raise m OverflowException 0
     else cont (set_reg m (ird i) diff) pc)"

text \<open>A conditional branch, with the link register written first where the code does so.\<close>

definition branch :: "bool \<Rightarrow> Instruction \<Rightarrow> Machine \<Rightarrow> u32 \<Rightarrow> exec result" where
  "branch c i m pc = cont m (if c then reg m NextPCReg + IndexToAddr (extra i) else pc)"

definition link :: "nat \<Rightarrow> Machine \<Rightarrow> Machine" where
  "link r m = set_reg m r (reg m NextPCReg + 4)"

definition exec_bgez :: "Instruction \<Rightarrow> Machine \<Rightarrow> u32 \<Rightarrow> exec result" where
  "exec_bgez i m pc = branch (reg m (irs i) AND SIGN_BIT = 0) i m pc"

definition exec_bltz :: "Instruction \<Rightarrow> Machine \<Rightarrow> u32 \<Rightarrow> exec result" where
  "exec_bltz i m pc = branch (reg m (irs i) AND SIGN_BIT \<noteq> 0) i m pc"

text \<open>\<^verbatim>\<open>INT_MIN / -1\<close> traps on the host: the simulator itself stops.\<close>

definition exec_div :: "Instruction \<Rightarrow> Machine \<Rightarrow> u32 \<Rightarrow> exec result" where
  "exec_div i m pc = (let a = reg m (irs i); b = reg m (irt i) in
     if b = 0 then cont (set_reg (set_reg m LoReg 0) HiReg 0) pc
     else if sint a = - (2 ^ 31) \<and> sint b = -1 then Inl HostTrap
     else cont (set_reg (set_reg m LoReg (word_of_int (c_div (sint a) (sint b))))
                  HiReg (word_of_int (c_mod (sint a) (sint b)))) pc)"

definition exec_divu :: "Instruction \<Rightarrow> Machine \<Rightarrow> u32 \<Rightarrow> exec result" where
  "exec_divu i m pc = (let a = reg m (irs i); b = reg m (irt i) in
     if b = 0 then cont (set_reg (set_reg m LoReg 0) HiReg 0) pc
     else cont (set_reg (set_reg m LoReg (a div b)) HiReg (a mod b)) pc)"

definition exec_j :: "Instruction \<Rightarrow> Machine \<Rightarrow> u32 \<Rightarrow> exec result" where
  "exec_j i m pc = cont m ((pc AND 0xf0000000) OR IndexToAddr (extra i))"

definition exec_jr :: "Instruction \<Rightarrow> Machine \<Rightarrow> u32 \<Rightarrow> exec result" where
  "exec_jr i m pc = cont m (reg m (irs i))"

text \<open>A load: on an exception the instruction ends, otherwise \<open>f\<close> gives the delayed value.\<close>

definition load_with :: "Machine \<Rightarrow> u32 \<Rightarrow> nat \<Rightarrow> (u32 \<Rightarrow> Machine \<Rightarrow> exec result) \<Rightarrow> exec result" where
  "load_with m a sz f = bindR (ReadMem m a sz) (\<lambda>(r, m'). case r of
     Inl e \<Rightarrow> Inr (Trap e m') | Inr v \<Rightarrow> f v m')"

definition store_with :: "Machine \<Rightarrow> u32 \<Rightarrow> nat \<Rightarrow> u32 \<Rightarrow> u32 \<Rightarrow> exec result" where
  "store_with m a sz v pc = bindR (WriteMem m a sz v) (\<lambda>(r, m'). case r of
     Inl e \<Rightarrow> Inr (Trap e m') | Inr u \<Rightarrow> cont m' pc)"

definition exec_lb :: "bool \<Rightarrow> Instruction \<Rightarrow> Machine \<Rightarrow> u32 \<Rightarrow> exec result" where
  "exec_lb isLB i m pc = (let tmp = reg m (irs i) + extra i in
     load_with m tmp 1 (\<lambda>v m'. Inr (Cont m' pc (of_nat (irt i))
       (if v AND 0x80 \<noteq> 0 \<and> isLB then v OR 0xffffff00 else v AND 0xff))))"

definition exec_lh :: "bool \<Rightarrow> Instruction \<Rightarrow> Machine \<Rightarrow> u32 \<Rightarrow> exec result" where
  "exec_lh isLH i m pc = (let tmp = reg m (irs i) + extra i in
     if tmp AND 1 \<noteq> 0 then raise m AddressErrorException tmp
     else load_with m tmp 2 (\<lambda>v m'. Inr (Cont m' pc (of_nat (irt i))
       (if v AND 0x8000 \<noteq> 0 \<and> isLH then v OR 0xffff0000 else v AND 0xffff))))"

definition exec_lw :: "Instruction \<Rightarrow> Machine \<Rightarrow> u32 \<Rightarrow> exec result" where
  "exec_lw i m pc = (let tmp = reg m (irs i) + extra i in
     if tmp AND 3 \<noteq> 0 then raise m AddressErrorException tmp
     else load_with m tmp 4 (\<lambda>v m'. Inr (Cont m' pc (of_nat (irt i)) v)))"

definition pending_value :: "Machine \<Rightarrow> nat \<Rightarrow> u32" where
  "pending_value m r = (if reg m LoadReg = of_nat r then reg m LoadValueReg else reg m r)"

definition exec_lwl :: "Instruction \<Rightarrow> Machine \<Rightarrow> u32 \<Rightarrow> exec result" where
  "exec_lwl i m pc = (let tmp = reg m (irs i) + extra i; k = tmp AND 3 in
     bindR (ASSERT (k = 0)) (\<lambda>_.
     load_with m tmp 4 (\<lambda>v m'. let n = pending_value m' (irt i) in
       Inr (Cont m' pc (of_nat (irt i))
         (if k = 0 then v
          else if k = 1 then (n AND 0xff) OR push_bit 8 v
          else if k = 2 then (n AND 0xffff) OR push_bit 16 v
          else (n AND 0xffffff) OR push_bit 24 v)))))"

definition exec_lwr :: "Instruction \<Rightarrow> Machine \<Rightarrow> u32 \<Rightarrow> exec result" where
  "exec_lwr i m pc = (let tmp = reg m (irs i) + extra i; k = tmp AND 3 in
     bindR (ASSERT (k = 0)) (\<lambda>_.
     load_with m tmp 4 (\<lambda>v m'. let n = pending_value m' (irt i) in
       Inr (Cont m' pc (of_nat (irt i))
         (if k = 0 then (n AND 0xffffff00) OR (signed_drop_bit 24 v AND 0xff)
          else if k = 1 then (n AND 0xffff0000) OR (signed_drop_bit 16 v AND 0xffff)
          else if k = 2 then (n AND 0xff000000) OR (signed_drop_bit 8 v AND 0xffffff)
          else v)))))"

definition exec_mult :: "bool \<Rightarrow> Instruction \<Rightarrow> Machine \<Rightarrow> u32 \<Rightarrow> exec result" where
  "exec_mult s i m pc = (case Mult (reg m (irs i)) (reg m (irt i)) s of (hi, lo) \<Rightarrow>
     cont (set_reg (set_reg m HiReg hi) LoReg lo) pc)"

definition exec_store :: "nat \<Rightarrow> Instruction \<Rightarrow> Machine \<Rightarrow> u32 \<Rightarrow> exec result" where
  "exec_store sz i m pc = store_with m (reg m (irs i) + extra i) sz (reg m (irt i)) pc"

definition exec_swl :: "Instruction \<Rightarrow> Machine \<Rightarrow> u32 \<Rightarrow> exec result" where
  "exec_swl i m pc = (let tmp = reg m (irs i) + extra i; k = tmp AND 3 in
     bindR (ASSERT (k = 0)) (\<lambda>_.
     load_with m (tmp AND NOT 3) 4 (\<lambda>v m'. let t = reg m' (irt i) in
       store_with m' (tmp AND NOT 3) 4
         (if k = 0 then t
          else if k = 1 then (v AND 0xff000000) OR (signed_drop_bit 8 t AND 0xffffff)
          else if k = 2 then (v AND 0xffff0000) OR (signed_drop_bit 16 t AND 0xffff)
          else (v AND 0xffffff00) OR (signed_drop_bit 24 t AND 0xff)) pc)))"

definition exec_swr :: "Instruction \<Rightarrow> Machine \<Rightarrow> u32 \<Rightarrow> exec result" where
  "exec_swr i m pc = (let tmp = reg m (irs i) + extra i; k = tmp AND 3 in
     bindR (ASSERT (k = 0)) (\<lambda>_.
     load_with m (tmp AND NOT 3) 4 (\<lambda>v m'. let t = reg m' (irt i) in
       store_with m' (tmp AND NOT 3) 4
         (if k = 0 then (v AND 0xffffff) OR push_bit 24 t
          else if k = 1 then (v AND 0xffff) OR push_bit 16 t
          else if k = 2 then (v AND 0xff) OR push_bit 8 t
          else t) pc)))"

text \<open>Register-to-register and immediate operations that write one register and go on.\<close>

definition set_rd :: "Instruction \<Rightarrow> Machine \<Rightarrow> u32 \<Rightarrow> u32 \<Rightarrow> exec result" where
  "set_rd i m pc v = cont (set_reg m (ird i) v) pc"

definition set_rt :: "Instruction \<Rightarrow> Machine \<Rightarrow> u32 \<Rightarrow> u32 \<Rightarrow> exec result" where
  "set_rt i m pc v = cont (set_reg m (irt i) v) pc"

definition bool_word :: "bool \<Rightarrow> u32" where
  "bool_word c = (if c then 1 else 0)"

primrec exec_op :: "mips_op \<Rightarrow> Instruction \<Rightarrow> Machine \<Rightarrow> u32 \<Rightarrow> exec result" where
  "exec_op OP_ADD i m pc = exec_add i m pc"
| "exec_op OP_ADDI i m pc = exec_addi i m pc"
| "exec_op OP_ADDIU i m pc = set_rt i m pc (reg m (irs i) + extra i)"
| "exec_op OP_ADDU i m pc = set_rd i m pc (reg m (irs i) + reg m (irt i))"
| "exec_op OP_AND i m pc = set_rd i m pc (reg m (irs i) AND reg m (irt i))"
| "exec_op OP_ANDI i m pc = set_rt i m pc (reg m (irs i) AND (extra i AND 0xffff))"
| "exec_op OP_BEQ i m pc = branch (reg m (irs i) = reg m (irt i)) i m pc"
| "exec_op OP_BGEZ i m pc = exec_bgez i m pc"
| "exec_op OP_BGEZAL i m pc = exec_bgez i (link R31 m) pc"
| "exec_op OP_BGTZ i m pc = branch (sint (reg m (irs i)) > 0) i m pc"
| "exec_op OP_BLEZ i m pc = branch (sint (reg m (irs i)) \<le> 0) i m pc"
| "exec_op OP_BLTZ i m pc = exec_bltz i m pc"
| "exec_op OP_BLTZAL i m pc = exec_bltz i (link R31 m) pc"
| "exec_op OP_BNE i m pc = branch (reg m (irs i) \<noteq> reg m (irt i)) i m pc"
| "exec_op OP_DIV i m pc = exec_div i m pc"
| "exec_op OP_DIVU i m pc = exec_divu i m pc"
| "exec_op OP_J i m pc = exec_j i m pc"
| "exec_op OP_JAL i m pc = exec_j i (link R31 m) pc"
| "exec_op OP_JALR i m pc = exec_jr i (link (ird i) m) pc"
| "exec_op OP_JR i m pc = exec_jr i m pc"
| "exec_op OP_LB i m pc = exec_lb True i m pc"
| "exec_op OP_LBU i m pc = exec_lb False i m pc"
| "exec_op OP_LH i m pc = exec_lh True i m pc"
| "exec_op OP_LHU i m pc = exec_lh False i m pc"
| "exec_op OP_LUI i m pc = set_rt i m pc (push_bit 16 (extra i))"
| "exec_op OP_LW i m pc = exec_lw i m pc"
| "exec_op OP_LWL i m pc = exec_lwl i m pc"
| "exec_op OP_LWR i m pc = exec_lwr i m pc"
| "exec_op OP_MFHI i m pc = set_rd i m pc (reg m HiReg)"
| "exec_op OP_MFLO i m pc = set_rd i m pc (reg m LoReg)"
| "exec_op OP_MTHI i m pc = cont (set_reg m HiReg (reg m (irs i))) pc"
| "exec_op OP_MTLO i m pc = cont (set_reg m LoReg (reg m (irs i))) pc"
| "exec_op OP_MULT i m pc = exec_mult True i m pc"
| "exec_op OP_MULTU i m pc = exec_mult False i m pc"
| "exec_op OP_NOR i m pc = set_rd i m pc (NOT (reg m (irs i) OR reg m (irt i)))"
| "exec_op OP_OR i m pc = set_rd i m pc (reg m (irs i) OR reg m (irs i))"
| "exec_op OP_ORI i m pc = set_rt i m pc (reg m (irs i) OR (extra i AND 0xffff))"
| "exec_op OP_RFE i m pc = Inl AssertFailed"
| "exec_op OP_SB i m pc = exec_store 1 i m pc"
| "exec_op OP_SH i m pc = exec_store 2 i m pc"
| "exec_op OP_SLL i m pc = set_rd i m pc (push_bit (unat (extra i)) (reg m (irt i)))"
| "exec_op OP_SLLV i m pc =
     set_rd i m pc (push_bit (unat (reg m (irs i) AND 0x1f)) (reg m (irt i)))"
| "exec_op OP_SLT i m pc = set_rd i m pc (bool_word (sint (reg m (irs i)) < sint (reg m (irt i))))"
| "exec_op OP_SLTI i m pc = set_rt i m pc (bool_word (sint (reg m (irs i)) < sint (extra i)))"
| "exec_op OP_SLTIU i m pc = set_rt i m pc (bool_word (reg m (irs i) < extra i))"
| "exec_op OP_SLTU i m pc = set_rd i m pc (bool_word (reg m (irs i) < reg m (irt i)))"
| "exec_op OP_SRA i m pc = set_rd i m pc (signed_drop_bit (unat (extra i)) (reg m (irt i)))"
| "exec_op OP_SRAV i m pc =
     set_rd i m pc (signed_drop_bit (unat (reg m (irs i) AND 0x1f)) (reg m (irt i)))"
| "exec_op OP_SRL i m pc = set_rd i m pc (signed_drop_bit (unat (extra i)) (reg m (irt i)))"
| "exec_op OP_SRLV i m pc =
     set_rd i m pc (signed_drop_bit (unat (reg m (irs i) AND 0x1f)) (reg m (irt i)))"
| "exec_op OP_SUB i m pc = exec_sub i m pc"
| "exec_op OP_SUBU i m pc = set_rd i m pc (reg m (irs i) - reg m (irt i))"
| "exec_op OP_SW i m pc = exec_store 4 i m pc"
| "exec_op OP_SWL i m pc = exec_swl i m pc"
| "exec_op OP_SWR i m pc = exec_swr i m pc"
| "exec_op OP_XOR i m pc = set_rd i m pc (reg m (irs i) XOR reg m (irt i))"
| "exec_op OP_XORI i m pc = set_rt i m pc (reg m (irs i) XOR (extra i AND 0xffff))"
| "exec_op OP_SYSCALL i m pc = raise m SyscallException 0"
| "exec_op OP_UNIMP i m pc = raise m IllegalInstrException 0"
| "exec_op OP_RES i m pc = raise m IllegalInstrException 0"
| "exec_op SPECIAL i m pc = Inl AssertFailed"
| "exec_op BCOND i m pc = Inl AssertFailed"

definition advance_pc :: "Machine \<Rightarrow> u32 \<Rightarrow> Machine" where
  "advance_pc m pcAfter =
     (let m1 = set_reg m PrevPCReg (reg m PCReg);
          m2 = set_reg m1 PCReg (reg m1 NextPCReg)
      in set_reg m2 NextPCReg pcAfter)"

text \<open>
  One instruction. The result is the exception that was raised, if any, and the machine the
  kernel's handler finds, or the machine after the instruction.
\<close>

definition OneInstruction :: "Machine \<Rightarrow> (ExceptionType option \<times> Machine) result" where
  "OneInstruction m =
     bindR (ReadMem m (reg m PCReg) 4) (\<lambda>(r, m1). case r of
       Inl e \<Rightarrow> Inr (Some e, m1)
     | Inr raw \<Rightarrow>
         let i = Decode raw; pcAfter = reg m1 NextPCReg + 4 in
         bindR (exec_op (opCode i) i m1 pcAfter) (\<lambda>x. case x of
           Trap e m2 \<Rightarrow> Inr (Some e, m2)
         | Cont m2 pc nextLoadReg nextLoadValue \<Rightarrow>
             Inr (None, advance_pc (DelayedLoad m2 nextLoadReg nextLoadValue) pc)))"

section \<open>The multiplication computes the 64-bit product\<close>

definition dword :: "u32 \<Rightarrow> u32 \<Rightarrow> 64 word" where
  "dword hi lo = of_int (uint hi * 2 ^ 32 + uint lo)"

lemma dword_of_int: "dword (of_int x) lo = of_int (x * 2 ^ 32 + uint lo)"
proof -
  have "x mod 2 ^ 32 * 2 ^ 32 = (x * 2 ^ 32) mod 2 ^ 64"
    using mult_mod_left [of x "2 ^ 32" "2 ^ 32"] by simp
  then have "(x mod 2 ^ 32 * 2 ^ 32 + uint lo) mod 2 ^ 64 = (x * 2 ^ 32 + uint lo) mod 2 ^ 64"
    by (metis mod_add_left_eq)
  then have "take_bit LENGTH(64) (x mod 2 ^ 32 * 2 ^ 32 + uint lo)
      = take_bit LENGTH(64) (x * 2 ^ 32 + uint lo)" by (simp add: take_bit_eq_mod)
  moreover have "uint (of_int x :: u32) = x mod 2 ^ 32" by (simp add: uint_word_of_int)
  ultimately show ?thesis unfolding dword_def word_of_int_eq_iff by (simp only:)
qed

lemma mod_wrap: "0 \<le> s \<Longrightarrow> s < 2 * M \<Longrightarrow> s mod M = (if s < M then s else s - M)" for s M :: int
proof (cases "s < M")
  case False
  assume "0 \<le> s" "s < 2 * M"
  with False have "s mod M = (s - M) mod M" by (intro mod_pos_geq) auto
  also have "\<dots> = s - M" using False \<open>s < 2 * M\<close> by (intro mod_pos_pos_trivial) auto
  finally show ?thesis using False by simp
qed (simp add: mod_pos_pos_trivial)

lemma uint_u32_bounds: "0 \<le> uint w" "uint w < 4294967296" for w :: u32
  using uint_lt2p [of w] by simp_all

lemma dword_add:
  "dword (hi + (if lo + bLo < bLo then 1 else 0) + bHi) (lo + bLo) = dword hi lo + dword bHi bLo"
proof -
  let ?c = "if lo + bLo < bLo then 1 else (0 :: int)"
  have "uint (lo + bLo) = (uint lo + uint bLo) mod 4294967296"
    using uint_word_ariths(1) [of lo bLo] by simp
  then have lo: "uint (lo + bLo) = uint lo + uint bLo - ?c * 4294967296"
    using uint_u32_bounds [of lo] uint_u32_bounds [of bLo]
    by (auto simp: word_less_def mod_wrap)
  have hi: "hi + (if lo + bLo < bLo then 1 else 0) + bHi = of_int (uint hi + ?c + uint bHi)"
    by simp
  show ?thesis
    unfolding hi dword_of_int lo by (simp add: dword_def algebra_simps)
qed

lemma and_sign_bit: "(w AND 0x80000000 \<noteq> 0) = (2147483648 \<le> uint w)" for w :: u32
proof -
  have "(w AND 0x80000000 \<noteq> 0) = bit w 31"
    using and_exp_eq_0_iff_not_bit [of w 31] by simp
  also have "\<dots> = (2147483648 \<le> uint w)"
  proof -
    have "bit w 31 = bit (uint w) 31" by (simp add: bit_unsigned_iff)
    also have "\<dots> = odd (uint w div 2 ^ 31)" by (simp only: bit_iff_odd)
    finally have "bit w 31 = odd (uint w div 2 ^ 31)" .
    moreover have "uint w div 2 ^ 31 = (if 2147483648 \<le> uint w then 1 else 0)"
      using uint_u32_bounds [of w] by (auto simp: div_pos_pos_trivial div_pos_geq)
    ultimately show ?thesis by simp
  qed
  finally show ?thesis .
qed

lemma dword_shift:
  "dword (if bLo AND 0x80000000 \<noteq> 0 then push_bit 1 bHi OR 1 else push_bit 1 bHi) (push_bit 1 bLo)
     = 2 * dword bHi bLo"
proof -
  let ?c = "if 2147483648 \<le> uint bLo then 1 else (0 :: int)"
  have "push_bit 1 bHi OR 1 = push_bit 1 bHi + 1"
    by (rule disjunctive_add [symmetric]) (metis bit_1_iff bit_push_bit_iff not_one_le_zero)
  then have hi: "(if bLo AND 0x80000000 \<noteq> 0 then push_bit 1 bHi OR 1 else push_bit 1 bHi)
      = of_int (2 * uint bHi + ?c)"
    by (simp add: and_sign_bit push_bit_eq_mult)
  have "uint (push_bit 1 bLo) = (2 * uint bLo) mod 4294967296"
    using uint_word_ariths(3) [of bLo 2] by (simp add: push_bit_eq_mult mult.commute)
  then have lo: "uint (push_bit 1 bLo) = 2 * uint bLo - ?c * 4294967296"
    using uint_u32_bounds [of bLo] by (auto simp: mod_wrap)
  show ?thesis unfolding hi dword_of_int lo by (simp add: dword_def algebra_simps)
qed

lemma dword_minus:
  "dword (if NOT lo + 1 = 0 then NOT hi + 1 else NOT hi) (NOT lo + 1) = - dword hi lo"
proof -
  let ?z = "if lo = 0 then 0 else (1 :: int)"
  have n: "NOT lo + 1 = - lo" "(NOT lo + 1 = 0) = (lo = 0)" by (simp_all add: not_eq_complement)
  have hi: "(if NOT lo + 1 = 0 then NOT hi + 1 else NOT hi) = of_int (- uint hi - ?z)"
    unfolding n by (simp add: not_eq_complement)
  have "uint (- lo) = (- uint lo) mod 4294967296" using uint_word_ariths(4) [of lo] by simp
  also have "\<dots> = (4294967296 - uint lo) mod 4294967296"
    using minus_mod_self1 [of 4294967296 "- uint lo"] by (simp add: algebra_simps)
  also have "\<dots> = ?z * 4294967296 - uint lo"
  proof (cases "lo = 0")
    case False
    then have "0 < uint lo" using uint_u32_bounds(1) [of lo] uint_0_iff [of lo] by linarith
    then have "(4294967296 - uint lo) mod 4294967296 = 4294967296 - uint lo"
      using uint_u32_bounds [of lo] by (intro mod_pos_pos_trivial) linarith+
    with False show ?thesis by simp
  qed simp
  finally have lo: "uint (- lo) = ?z * 4294967296 - uint lo" .
  show ?thesis
    unfolding hi unfolding n(1) unfolding dword_of_int lo by (simp add: dword_def algebra_simps)
qed

lemma signed_drop_bit_low:
  assumes "n \<le> 31"
  shows "uint (signed_drop_bit 1 a :: u32) mod 2 ^ n = uint a div 2 mod 2 ^ n"
proof -
  have "take_bit n (uint (signed_drop_bit 1 a)) = take_bit n (drop_bit 1 (uint a))"
    using assms by (intro bit_eqI) (auto simp: bit_simps)
  then show ?thesis by (simp add: take_bit_eq_mod drop_bit_eq_div)
qed

lemma mod_exp_Suc: "x mod 2 ^ Suc n = x mod 2 + 2 * (x div 2 mod 2 ^ n)" for x :: int
  using zmod_zmult2_eq [of "2 ^ n" x 2] by simp

lemma and_1_odd: "(a AND 1 \<noteq> 0) = (uint a mod 2 = 1)" for a :: u32
proof -
  have "(a AND 1 \<noteq> 0) = odd a" by (simp add: and_one_eq odd_iff_mod_2_eq_one)
  also have "\<dots> = bit (uint a) 0" by (simp only: bit_0 [symmetric] bit_unsigned_iff) simp
  also have "\<dots> = odd (uint a)" by (simp only: bit_0)
  finally show ?thesis by (simp add: odd_iff_mod_2_eq_one)
qed

lemma odd_only: "(a :: u32) AND 1 \<noteq> 0 \<Longrightarrow> a AND 0xfffffffe = 0 \<Longrightarrow> a = 1"
proof -
  assume a: "a AND 1 \<noteq> 0" "a AND 0xfffffffe = 0"
  have "\<not> bit a n" if "n \<noteq> 0" for n
  proof
    assume n: "bit a n"
    have m: "(0xfffffffe :: u32) = NOT 1" by simp
    have "bit (a AND NOT 1) n" using n that bit_imp_le_length [OF n] by (simp add: bit_simps)
    with a(2) show False by (simp only: m) simp
  qed
  moreover have "bit a 0" using a(1) by (simp add: and_one_eq odd_iff_mod_2_eq_one bit_0)
  ultimately show "a = 1" by (intro bit_word_eqI) (metis bit_1_iff)
qed

lemma mult_loop_ok:
  "n \<le> 32 \<Longrightarrow> mult_loop n a bHi bLo hi lo = (h, l) \<Longrightarrow>
   dword h l = dword hi lo + of_int (uint a mod 2 ^ n) * dword bHi bLo"
proof (induction n arbitrary: a bHi bLo hi lo)
  case 0
  then show ?case by simp
next
  case (Suc n)
  define od where "od = (a AND 1 \<noteq> 0)"
  define lo' where "lo' = (if od then lo + bLo else lo)"
  define hi' where "hi' = (if od then (if lo' < bLo then hi + 1 else hi) + bHi else hi)"
  have acc: "dword hi' lo' = dword hi lo + of_int (uint a mod 2) * dword bHi bLo"
    using dword_add [of hi lo bLo bHi] and_1_odd [of a]
    by (auto simp: hi'_def lo'_def od_def)
  show ?case
  proof (cases "od \<and> a AND 0xfffffffe = 0")
    case True
    then have "a = 1" using odd_only by (simp add: od_def)
    moreover from True Suc.prems have "h = hi'" "l = lo'"
      by (auto simp: od_def hi'_def lo'_def Let_def)
    moreover have "1 mod 2 ^ Suc n = (1 :: int)"
      using one_less_power [of "2 :: int" "Suc n"] by (intro mod_pos_pos_trivial) auto
    ultimately show ?thesis using acc by (simp only: uint_1) simp
  next
    case False
    define bHi' where "bHi' = (if bLo AND 0x80000000 \<noteq> 0 then push_bit 1 bHi OR 1 else push_bit 1 bHi)"
    have "mult_loop n (signed_drop_bit 1 a) bHi' (push_bit 1 bLo) hi' lo' = (h, l)"
      using Suc.prems(2) False
      by (auto simp: od_def hi'_def lo'_def bHi'_def Let_def split: if_splits)
    then have "dword h l = dword hi' lo' +
        of_int (uint (signed_drop_bit 1 a) mod 2 ^ n) * dword bHi' (push_bit 1 bLo)"
      using Suc.IH Suc.prems(1) by simp
    also have "dword bHi' (push_bit 1 bLo) = 2 * dword bHi bLo"
      unfolding bHi'_def by (rule dword_shift)
    also have "uint (signed_drop_bit 1 a) mod 2 ^ n = uint a div 2 mod 2 ^ n"
      using Suc.prems(1) by (intro signed_drop_bit_low) simp
    finally show ?thesis
      unfolding acc mod_exp_Suc by (simp add: algebra_simps)
  qed
qed


lemma dword_value:
  assumes "dword hi lo = of_int x"
  shows "uint hi * 2 ^ 32 + uint lo = x mod 2 ^ 64"
proof -
  have "0 \<le> uint hi * 2 ^ 32 + uint lo" "uint hi * 2 ^ 32 + uint lo < 2 ^ 64"
    using uint_u32_bounds [of hi] uint_u32_bounds [of lo] by simp_all
  then have "uint (dword hi lo) = uint hi * 2 ^ 32 + uint lo"
    unfolding dword_def uint_word_of_int by (simp add: mod_pos_pos_trivial)
  moreover have "uint (of_int x :: 64 word) = x mod 2 ^ 64" by (simp add: uint_word_of_int)
  ultimately show ?thesis using assms by simp
qed

lemma uint_sint_mod: "uint w = sint w mod 4294967296" for w :: u32
  using uint_sint [of w] by (simp add: take_bit_eq_mod)

lemma uint_abs:
  "uint (if sint w < 0 then - w else w) = \<bar>sint w\<bar>" for w :: u32
proof (cases "sint w < 0")
  case True
  have "uint (- w) = (- uint w) mod 4294967296" using uint_word_ariths(4) [of w] by simp
  also have "\<dots> = (- sint w) mod 4294967296"
    unfolding uint_sint_mod [of w] by (rule mod_minus_eq)
  also have "\<dots> = - sint w"
    using True sint_u32_bounds [of w] by (intro mod_pos_pos_trivial) linarith+
  finally show ?thesis using True by simp
next
  case False
  then show ?thesis
    using sint_u32_bounds [of w] by (simp add: uint_sint_mod mod_pos_pos_trivial)
qed

lemma mult_loop_32:
  assumes "mult_loop 32 a 0 b 0 0 = (h, l)"
  shows "dword h l = of_int (uint a * uint b)"
proof -
  have "uint a mod 2 ^ 32 = uint a" using uint_idem [of a] by simp
  then show ?thesis using mult_loop_ok [OF _ assms] by (simp add: dword_def)
qed

lemma Mult_dword:
  assumes "Mult a b s = (hi, lo)"
  shows "dword hi lo = of_int (if s then sint a * sint b else uint a * uint b)"
proof (cases "a = 0 \<or> b = 0")
  case True
  with assms show ?thesis by (auto simp: Mult_def dword_def)
next
  case nz: False
  define na nb where "na = (s \<and> sint a < 0)" and "nb = (s \<and> sint b < 0)"
  define a' b' where "a' = (if na then - a else a)" and "b' = (if nb then - b else b)"
  obtain h l where hl: "mult_loop 32 a' 0 b' 0 0 = (h, l)"
    by (cases "mult_loop 32 a' 0 b' 0 0")
  have M: "(hi, lo) = (if na \<noteq> nb then
      (if NOT l + 1 = 0 then NOT h + 1 else NOT h, NOT l + 1) else (h, l))"
    using assms nz hl
    by (simp add: Mult_def na_def [symmetric] nb_def [symmetric] a'_def [symmetric]
        b'_def [symmetric] Let_def split: if_splits)
  have D: "dword hi lo = (if na \<noteq> nb then - of_int (uint a' * uint b') else of_int (uint a' * uint b'))"
    using M dword_minus [of l h] mult_loop_32 [OF hl] by (auto simp del: of_int_mult split: if_splits)
  show ?thesis
  proof (cases s)
    case True
    then have "uint a' = \<bar>sint a\<bar>" "uint b' = \<bar>sint b\<bar>"
      using uint_abs [of a] uint_abs [of b] by (simp_all add: a'_def b'_def na_def nb_def)
    moreover have "sint a * sint b = (if na \<noteq> nb then - (\<bar>sint a\<bar> * \<bar>sint b\<bar>) else \<bar>sint a\<bar> * \<bar>sint b\<bar>)"
      using True by (auto simp: na_def nb_def abs_mult [symmetric] abs_if mult_less_0_iff)
    ultimately show ?thesis using D True by simp
  next
    case False
    then show ?thesis using D by (simp add: a'_def b'_def na_def nb_def)
  qed
qed

section \<open>Overflow detection\<close>

lemma sint_of_int_cong: "\<exists>k. sint (of_int x :: u32) = x + k * 4294967296"
proof -
  have "sint (of_int x :: u32) mod 4294967296 = x mod 4294967296"
    using uint_sint_mod [of "of_int x"] uint_word_of_int [of x, where ?'a = 32] by simp
  then have "4294967296 dvd sint (of_int x :: u32) - x" by (simp add: mod_eq_dvd_iff)
  then obtain k where "sint (of_int x :: u32) - x = 4294967296 * k" by (auto elim: dvdE)
  then show ?thesis by (intro exI [of _ k]) simp
qed

lemma sign_bit_sint: "(w AND SIGN_BIT \<noteq> 0) = (sint w < 0)" for w :: u32
proof -
  have "uint w = sint w mod 4294967296" by (rule uint_sint_mod)
  moreover have "sint w mod 4294967296 = (if sint w < 0 then sint w + 4294967296 else sint w)"
    using sint_u32_bounds [of w] mod_wrap [of "sint w + 4294967296" 4294967296]
    by (auto simp: mod_pos_pos_trivial)
  ultimately show ?thesis
    using sint_u32_bounds [of w] by (auto simp: SIGN_BIT_def and_sign_bit)
qed

lemma signs_differ_sint: "signs_differ x y = ((sint x < 0) \<noteq> (sint y < 0))"
proof -
  have "((x XOR y) AND SIGN_BIT \<noteq> 0) = ((x AND SIGN_BIT \<noteq> 0) \<noteq> (y AND SIGN_BIT \<noteq> 0))"
    using and_exp_eq_0_iff_not_bit [of _ 31, where ?'a = "32 word"]
    by (auto simp: SIGN_BIT_def bit_xor_iff)
  then show ?thesis by (simp add: signs_differ_def sign_bit_sint)
qed

definition fits :: "int \<Rightarrow> bool" where
  "fits x \<longleftrightarrow> - 2147483648 \<le> x \<and> x < 2147483648"

lemma sint_of_int_fits: "fits x \<Longrightarrow> sint (of_int x :: u32) = x"
  using sint_of_int_cong [of x] sint_u32_bounds [of "of_int x"] by (auto simp: fits_def)

lemma add_overflow:
  "(\<not> signs_differ a b \<and> signs_differ a (a + b)) = (\<not> fits (sint a + sint b))"
proof -
  have ab: "a + b = of_int (sint a + sint b)" by simp
  obtain k where k: "sint (a + b) = sint a + sint b + k * 4294967296"
    using sint_of_int_cong [of "sint a + sint b"] unfolding ab by auto
  consider "k \<le> -1" | "k = 0" | "1 \<le> k" by linarith
  then show ?thesis
    using k sint_u32_bounds [of a] sint_u32_bounds [of b] sint_u32_bounds [of "a + b"]
    unfolding signs_differ_sint fits_def by cases auto
qed

lemma sub_overflow:
  "(signs_differ a b \<and> signs_differ a (a - b)) = (\<not> fits (sint a - sint b))"
proof -
  have ab: "a - b = of_int (sint a - sint b)" by simp
  obtain k where k: "sint (a - b) = sint a - sint b + k * 4294967296"
    using sint_of_int_cong [of "sint a - sint b"] unfolding ab by auto
  consider "k \<le> -1" | "k = 0" | "1 \<le> k" by linarith
  then show ?thesis
    using k sint_u32_bounds [of a] sint_u32_bounds [of b] sint_u32_bounds [of "a - b"]
    unfolding signs_differ_sint fits_def by cases auto
qed

lemma signs_differ_sym: "signs_differ x y = signs_differ y x"
  by (auto simp: signs_differ_sint)

lemma addi_overflow:
  "(\<not> signs_differ a b \<and> signs_differ b (a + b)) = (\<not> fits (sint a + sint b))"
  using add_overflow [of b a] by (simp add: add.commute signs_differ_sym)

section \<open>Decoding\<close>

lemma unat_and_1f: "unat (x AND 0x1f) < 32" for x :: u32
proof -
  have "x AND 0x1f = take_bit 5 x" by (simp add: take_bit_eq_mask mask_eq_exp_minus_1)
  then show ?thesis
    using take_bit_nat_less_exp [of 5 "unat x"] by (simp add: unsigned_take_bit_eq [symmetric])
qed

lemma unat_and_3f: "unat (x AND 0x3f) < 64" for x :: u32
proof -
  have "x AND 0x3f = take_bit 6 x" by (simp add: take_bit_eq_mask mask_eq_exp_minus_1)
  then show ?thesis
    using take_bit_nat_less_exp [of 6 "unat x"] by (simp add: unsigned_take_bit_eq [symmetric])
qed

lemma opTable_length [simp]: "length opTable = 64" "length specialTable = 64"
  by (simp_all add: opTable_def specialTable_def)

lemma tables_legal:
  "\<forall>x\<in>set opTable. fst x \<noteq> OP_RFE" "\<forall>x\<in>set specialTable. x \<notin> {OP_RFE, SPECIAL, BCOND}"
  by (simp_all add: opTable_def specialTable_def)

lemma Decode_legal: "opCode (Decode v) \<notin> {OP_RFE, SPECIAL, BCOND}"
proof -
  have "specialTable ! unat (v AND 0x3f) \<in> set specialTable"
    "opTable ! unat (drop_bit 26 v AND 0x3f) \<in> set opTable"
    using unat_and_3f by (auto intro!: nth_mem)
  with tables_legal show ?thesis
    by (auto simp: Decode_def Let_def decode_bcond_def)
qed

lemma Decode_regs: "irs (Decode v) < 32" "irt (Decode v) < 32" "ird (Decode v) < 32"
  by (simp_all add: Decode_def Let_def unat_and_1f)

section \<open>Every instruction keeps the machine well formed, and exceptions are precise\<close>

definition trapped :: "Machine \<Rightarrow> Machine \<Rightarrow> bool" where
  "trapped m m' \<longleftrightarrow> wf_machine m' \<and> mainMemory m' = mainMemory m \<and> xlate m' = xlate m \<and>
     (\<exists>a. registers m' = registers (RaiseException m a))"

text \<open>The instructions on which the simulator itself stops.\<close>

definition stops :: "Instruction \<Rightarrow> Machine \<Rightarrow> bool" where
  "stops i m \<longleftrightarrow>
     opCode i \<in> {OP_LWL, OP_LWR, OP_SWL, OP_SWR} \<and> (reg m (irs i) + extra i) AND 3 \<noteq> 0 \<or>
     opCode i = OP_DIV \<and> sint (reg m (irs i)) = - (2 ^ 31) \<and> sint (reg m (irt i)) = -1"

definition keeps_pc :: "Machine \<Rightarrow> Machine \<Rightarrow> bool" where
  "keeps_pc m m' \<longleftrightarrow> wf_machine m' \<and> reg m' PCReg = reg m PCReg \<and> reg m' NextPCReg = reg m NextPCReg"

fun good_exec :: "Machine \<Rightarrow> exec result \<Rightarrow> bool" where
  "good_exec m (Inl f) = False"
| "good_exec m (Inr (Trap e m')) = trapped m m'"
| "good_exec m (Inr (Cont m' pc lr lv)) = (keeps_pc m m' \<and> unat lr < 32)"

lemma registers_RaiseException_cong:
  "registers m' = registers m \<Longrightarrow> registers (RaiseException m' a) = registers (RaiseException m a)"
  by (simp add: RaiseException_def DelayedLoad_def set_reg_def reg_def Let_def)

lemma xlate_RaiseException [simp]: "xlate (RaiseException m a) = xlate m"
  by (rule xlate_cong) (simp_all add: RaiseException_def)

lemma same_memory_refl: "wf_machine m \<Longrightarrow> same_memory m m"
  by (simp add: same_memory_def)

lemma trapped_RaiseException: "same_memory m m' \<Longrightarrow> trapped m (RaiseException m' a)"
  by (auto simp: trapped_def same_memory_def wf_RaiseException intro: registers_RaiseException_cong)

lemma good_raise: "wf_machine m \<Longrightarrow> good_exec m (raise m e a)"
  by (simp add: raise_def trapped_RaiseException same_memory_refl)

lemma good_cont: "keeps_pc m m' \<Longrightarrow> good_exec m (cont m' pc)"
  by (simp add: cont_def)

lemma keeps_refl: "wf_machine m \<Longrightarrow> keeps_pc m m"
  by (simp add: keeps_pc_def)

lemma keeps_set: "keeps_pc m m' \<Longrightarrow> r < 34 \<Longrightarrow> keeps_pc m (set_reg m' r v)"
  using wf_machine_regs [of m'] by (simp add: keeps_pc_def wf_set_reg reg_set_reg)

lemma keeps_same: "same_memory m m' \<Longrightarrow> keeps_pc m m'"
  by (simp add: same_memory_def keeps_pc_def reg_def)

lemma good_trans: "good_exec m' x \<Longrightarrow> same_memory m m' \<Longrightarrow> good_exec m x"
  using registers_RaiseException_cong [of m' m]
  by (induction m' x rule: good_exec.induct)
    (auto simp: trapped_def same_memory_def keeps_pc_def reg_def)

lemma good_load:
  assumes "wf_machine m" and "sz \<in> {1, 2, 4}"
    and f: "\<And>v m'. same_memory m m' \<Longrightarrow> good_exec m' (f v m')"
  shows "good_exec m (load_with m a sz f)"
proof (cases "xlate m (unat a) sz False")
  case (Inl e)
  obtain m' where "ReadMem m a sz = Inr (Inl e, RaiseException m' a)" "same_memory m m'"
    using ReadMem_trap [OF assms(1,2) Inl] by blast
  then show ?thesis by (simp add: load_with_def trapped_RaiseException)
next
  case (Inr pa)
  obtain v m' where "ReadMem m a sz = Inr (Inr v, m')" "same_memory m m'"
    using ReadMem_value [OF assms(1,2) Inr] by blast
  then show ?thesis using good_trans [OF f] by (simp add: load_with_def)
qed

lemma good_store:
  assumes "wf_machine m" and "sz \<in> {1, 2, 4}"
  shows "good_exec m (store_with m a sz v pc)"
proof (cases "xlate m (unat a) sz True")
  case (Inl e)
  obtain m' where "WriteMem m a sz v = Inr (Inl e, RaiseException m' a)" "same_memory m m'"
    using WriteMem_trap [OF assms Inl] by blast
  then show ?thesis by (simp add: store_with_def trapped_RaiseException)
next
  case (Inr pa)
  obtain mem m1 where W: "WriteMem m a sz v = Inr (Inr (), m1\<lparr>mainMemory := mem\<rparr>)"
    "same_memory m m1" "length mem = length (mainMemory m)"
    using WriteMem_value [OF assms Inr, of v] mem_write_length by blast
  then have "wf_machine (m1\<lparr>mainMemory := mem\<rparr>)"
    by (intro wf_mainMemory) (auto simp: same_memory_def)
  then have "keeps_pc m (m1\<lparr>mainMemory := mem\<rparr>)"
    using W(2) by (simp add: keeps_pc_def same_memory_def reg_def)
  with W(1) show ?thesis by (simp add: store_with_def good_cont)
qed

lemma same_memory_wf: "same_memory m m' \<Longrightarrow> wf_machine m'"
  by (simp add: same_memory_def)

lemma of_nat_lt_32: "n < 32 \<Longrightarrow> unat (of_nat n :: u32) < 32"
  by (simp add: unat_of_nat_small)

lemmas exec_defs = exec_add_def exec_addi_def exec_sub_def branch_def link_def exec_bgez_def
  exec_bltz_def exec_divu_def exec_j_def exec_jr_def exec_mult_def set_rd_def set_rt_def
  exec_store_def R31_def

lemma good_loads:
  assumes "wf_machine m" and "irt i < 32"
  shows "good_exec m (exec_lb b i m pc)" "good_exec m (exec_lh b i m pc)"
    "good_exec m (exec_lw i m pc)"
  using assms
  by (auto simp: exec_lb_def exec_lh_def exec_lw_def Let_def of_nat_lt_32
      intro!: good_load good_raise keeps_refl dest: same_memory_wf)

lemma good_partial:
  assumes "wf_machine m" and "irt i < 32" and "(reg m (irs i) + extra i) AND 3 = 0"
  shows "good_exec m (exec_lwl i m pc)" "good_exec m (exec_lwr i m pc)"
    "good_exec m (exec_swl i m pc)" "good_exec m (exec_swr i m pc)"
  using assms
  by (auto simp: exec_lwl_def exec_lwr_def exec_swl_def exec_swr_def Let_def of_nat_lt_32
      intro!: good_load good_store keeps_refl dest: same_memory_wf)

lemma good_div:
  assumes "wf_machine m" and "\<not> (sint (reg m (irs i)) = - (2 ^ 31) \<and> sint (reg m (irt i)) = -1)"
  shows "good_exec m (exec_div i m pc)"
  using assms by (auto simp: exec_div_def Let_def intro!: good_cont keeps_set keeps_refl)

lemma exec_op_good:
  assumes "wf_machine m" and "irs i < 32" "irt i < 32" "ird i < 32" and "\<not> stops i m"
    and "opCode i \<notin> {OP_RFE, SPECIAL, BCOND}"
  shows "good_exec m (exec_op (opCode i) i m pc)"
proof (cases "opCode i \<in> {OP_LB, OP_LBU, OP_LH, OP_LHU, OP_LW, OP_LWL, OP_LWR, OP_SWL, OP_SWR, OP_DIV}")
  case True
  with assms show ?thesis
    by (auto simp: stops_def intro!: good_loads good_partial good_div)
next
  case False
  with assms show ?thesis
    by (cases "opCode i")
      (auto simp: exec_defs Let_def split: prod.splits intro!: good_cont good_raise good_store keeps_set keeps_refl)
qed


lemma reg_advance_pc:
  assumes "length (registers m) = 40"
  shows "reg (advance_pc m pc) q = (if q = NextPCReg then pc else if q = PCReg then reg m NextPCReg
     else if q = PrevPCReg then reg m PCReg else reg m q)"
  using assms by (simp add: advance_pc_def Let_def reg_set_reg)

lemma wf_advance_pc [nachos_wf]: "wf_machine m \<Longrightarrow> wf_machine (advance_pc m pc)"
  by (simp add: advance_pc_def Let_def wf_set_reg)

text \<open>How one instruction ends.\<close>

lemma OneInstruction_cases:
  assumes wf: "wf_machine m"
    and ns: "\<forall>raw m1. ReadMem m (reg m PCReg) 4 = Inr (Inr raw, m1) \<longrightarrow> \<not> stops (Decode raw) m1"
  shows "(\<exists>e m'. OneInstruction m = Inr (Some e, m') \<and> trapped m m') \<or>
    (\<exists>m2 pc lr lv. OneInstruction m = Inr (None, advance_pc (DelayedLoad m2 lr lv) pc) \<and>
       keeps_pc m m2 \<and> unat lr < 32)"
proof (cases "xlate m (unat (reg m PCReg)) 4 False")
  case (Inl e)
  obtain m' where "ReadMem m (reg m PCReg) 4 = Inr (Inl e, RaiseException m' (reg m PCReg))"
    "same_memory m m'" using ReadMem_trap [OF wf _ Inl] by auto
  then show ?thesis by (simp add: OneInstruction_def trapped_RaiseException)
next
  case (Inr pa)
  obtain raw m1 where R: "ReadMem m (reg m PCReg) 4 = Inr (Inr raw, m1)" "same_memory m m1"
    using ReadMem_value [OF wf _ Inr] by auto
  have "good_exec m1 (exec_op (opCode (Decode raw)) (Decode raw) m1 (reg m1 NextPCReg + 4))"
    by (rule exec_op_good [OF same_memory_wf [OF R(2)] Decode_regs ns [rule_format, OF R(1)] Decode_legal])
  then have "good_exec m (exec_op (opCode (Decode raw)) (Decode raw) m1 (reg m1 NextPCReg + 4))"
    using R(2) by (rule good_trans)
  moreover have "OneInstruction m =
      bindR (exec_op (opCode (Decode raw)) (Decode raw) m1 (reg m1 NextPCReg + 4)) (\<lambda>x. case x of
        Trap e m2 \<Rightarrow> Inr (Some e, m2)
      | Cont m2 pc lr lv \<Rightarrow> Inr (None, advance_pc (DelayedLoad m2 lr lv) pc))"
    unfolding OneInstruction_def R(1) by (simp add: Let_def)
  ultimately show ?thesis
    by (cases "(m, exec_op (opCode (Decode raw)) (Decode raw) m1 (reg m1 NextPCReg + 4))"
        rule: good_exec.cases) auto
qed

section \<open>Properties\<close>

text \<open>
  C16: \<^verbatim>\<open>Mult\<close> leaves the exact 64-bit product of its operands in the hi and lo registers: the
  two's complement product for \<^verbatim>\<open>MULT\<close>, the unsigned one for \<^verbatim>\<open>MULTU\<close>.
\<close>

theorem Mult_product:
  "case Mult a b signedArith of (hi, lo) \<Rightarrow>
     uint hi * 2 ^ 32 + uint lo =
       (if signedArith then sint a * sint b else uint a * uint b) mod 2 ^ 64"
proof -
  obtain hi lo where M: "Mult a b signedArith = (hi, lo)" by (cases "Mult a b signedArith")
  then show ?thesis using dword_value [OF Mult_dword [OF M]] by simp
qed

text \<open>
  C19: \<^verbatim>\<open>ADD\<close>, \<^verbatim>\<open>ADDI\<close> and \<^verbatim>\<open>SUB\<close> raise the overflow exception exactly when the signed result
  does not fit in 32 bits, and otherwise write the exact result.
\<close>

theorem overflow_exact:
  "exec_op OP_ADD i m pc = (let s = sint (reg m (irs i)) + sint (reg m (irt i)) in
     if fits s then cont (set_reg m (ird i) (of_int s)) pc else raise m OverflowException 0) \<and>
   exec_op OP_ADDI i m pc = (let s = sint (reg m (irs i)) + sint (extra i) in
     if fits s then cont (set_reg m (irt i) (of_int s)) pc else raise m OverflowException 0) \<and>
   exec_op OP_SUB i m pc = (let s = sint (reg m (irs i)) - sint (reg m (irt i)) in
     if fits s then cont (set_reg m (ird i) (of_int s)) pc else raise m OverflowException 0)"
  by (simp add: exec_add_def exec_addi_def exec_sub_def add_overflow addi_overflow sub_overflow
      Let_def)

text \<open>
  C1: Unless the fetched instruction is one on which the simulator stops, \<^verbatim>\<open>OneInstruction\<close>
  returns. Either it completes: the machine stays well formed, register 0 is 0, the program
  counter moves to the delay-slot address, or it raises an exception: memory, translation
  and program counters are as before, so the instruction can be restarted, and the registers
  are those of the kernel entry.
\<close>

theorem OneInstruction_precise:
  assumes wf: "wf_machine m"
    and "\<forall>raw m1. ReadMem m (reg m PCReg) 4 = Inr (Inr raw, m1) \<longrightarrow> \<not> stops (Decode raw) m1"
  shows "\<exists>r m'. OneInstruction m = Inr (r, m') \<and> wf_machine m' \<and> reg m' 0 = 0 \<and>
    (case r of
       None \<Rightarrow> reg m' PCReg = reg m NextPCReg \<and> reg m' PrevPCReg = reg m PCReg
     | Some e \<Rightarrow> reg m' PCReg = reg m PCReg \<and> reg m' NextPCReg = reg m NextPCReg \<and>
         mainMemory m' = mainMemory m \<and> xlate m' = xlate m \<and>
         (\<exists>a. registers m' = registers (RaiseException m a)))"
  using OneInstruction_cases [OF assms]
proof (elim disjE exE conjE)
  fix e m'
  assume O: "OneInstruction m = Inr (Some e, m')" and t: "trapped m m'"
  then obtain a where a: "registers m' = registers (RaiseException m a)" by (auto simp: trapped_def)
  have "reg (RaiseException m a) 0 = 0 \<and> reg (RaiseException m a) PCReg = reg m PCReg \<and>
      reg (RaiseException m a) NextPCReg = reg m NextPCReg"
    using wf_machine_regs [OF wf] by (simp add: RaiseException_def reg_DelayedLoad reg_set_reg)
  with a have "reg m' 0 = 0 \<and> reg m' PCReg = reg m PCReg \<and> reg m' NextPCReg = reg m NextPCReg"
    by (simp add: reg_def)
  with O t show ?thesis by (auto simp: trapped_def)
next
  fix m2 pc lr lv
  assume O: "OneInstruction m = Inr (None, advance_pc (DelayedLoad m2 lr lv) pc)"
    and k: "keeps_pc m m2" and lr: "unat lr < 32"
  have wf2: "wf_machine m2" using k by (simp add: keeps_pc_def)
  note regs = wf_machine_regs [OF wf2]
  have "wf_machine (advance_pc (DelayedLoad m2 lr lv) pc)" by (simp add: nachos_wf wf2 lr)
  with O k regs show ?thesis
    by (simp add: reg_advance_pc reg_DelayedLoad keeps_pc_def)
qed


text \<open>The demonstration machine fetches the word 0, a shift of register 0.\<close>

lemma demo_fetch:
  assumes "ReadMem demo_machine (reg demo_machine PCReg) 4 = Inr (Inr raw, m1)"
  shows "raw = 0"
proof -
  have pc: "reg demo_machine PCReg = 0"
    by (simp add: demo_machine_def Machine_Machine_def reg_def)
  have "xlate demo_machine (unat (0 :: u32)) 4 False = Inr 1536"
    by (simp add: xlate_def aligned_def entry_index_def current_table_def demo_machine_def
        Machine_Machine_def)
  from ReadMem_value [OF demo_wf _ this] assms pc
  have "load_value 4 (take 4 (drop 1536 (mainMemory demo_machine))) = Inr raw" by auto
  moreover have "bytes_value (replicate n 0) = 0" for n by (induction n) simp_all
  ultimately show ?thesis
    by (simp add: demo_machine_def Machine_Machine_def machine_consts load_value_def WordToHost_def)
qed

lemma OneInstruction_precise_witness:
  "wf_machine demo_machine \<and>
   (\<exists>r m'. OneInstruction demo_machine = Inr (r, m') \<and> wf_machine m' \<and> reg m' 0 = 0)"
proof -
  have "opCode (Decode 0) = OP_SLL" by (simp add: Decode_def opTable_def specialTable_def Let_def)
  then have "\<not> stops (Decode 0) m1" for m1 by (simp add: stops_def)
  then have "\<forall>raw m1. ReadMem demo_machine (reg demo_machine PCReg) 4 = Inr (Inr raw, m1) \<longrightarrow>
      \<not> stops (Decode raw) m1" using demo_fetch by blast
  from OneInstruction_precise [OF demo_wf this] demo_wf show ?thesis by blast
qed

end
