(* ===== verification/AddrSpace.thy ===== *)
theory AddrSpace
  imports Machine Bitmap
begin

text \<open>
  The class \<^verbatim>\<open>AddrSpace\<close> of \<^verbatim>\<open>userprog/addrspace.{h,cc}\<close>: the address space of a user
  program, built from an executable in NOFF format. The constructor that takes a file name
  allocates physical pages from the page bitmap, clears them and copies the code and data
  segments of the file page by page. The executable is its contents, a list of bytes;
  \<open>read_at\<close> is \<^verbatim>\<open>ReadAt\<close> on such a file: it stops at the end of the file.
\<close>

section \<open>State\<close>

definition UserStackSize :: int where "UserStackSize = 1024"
definition NOFFMAGIC :: int where "NOFFMAGIC = 0xbadfad"

record Segment =
  virtualAddr :: int
  inFileAddr :: int
  seg_size :: int

record NoffHeader =
  noffMagic :: int
  code :: Segment
  initData :: Segment
  uninitData :: Segment

text \<open>
  The header is the first 40 bytes of the file, read into an uninitialised structure
  (\<open>junk\<close>): a shorter file leaves the rest of it as it was. On a little-endian host
  \<^verbatim>\<open>SwapHeader\<close> is never reached, since \<^verbatim>\<open>WordToHost\<close> is the identity.
\<close>

definition int_at :: "byte list \<Rightarrow> nat \<Rightarrow> int" where
  "int_at bs k = sint (of_nat (bytes_value (take 4 (drop k bs))) :: u32)"

definition segment_at :: "byte list \<Rightarrow> nat \<Rightarrow> Segment" where
  "segment_at bs k = \<lparr>virtualAddr = int_at bs k, inFileAddr = int_at bs (k + 4),
     seg_size = int_at bs (k + 8)\<rparr>"

definition read_header :: "byte list \<Rightarrow> byte list \<Rightarrow> NoffHeader" where
  "read_header junk f = (let bs = take 40 f @ drop (length (take 40 f)) junk in
     \<lparr>noffMagic = int_at bs 0, code = segment_at bs 4, initData = segment_at bs 16,
      uninitData = segment_at bs 28\<rparr>)"

record AddrSpace =
  as_pageTable :: "TranslationEntry list"
  numPages :: int

definition read_at :: "byte list \<Rightarrow> int \<Rightarrow> int \<Rightarrow> byte list" where
  "read_at f n pos = (if n \<le> 0 \<or> pos < 0 then [] else take (nat n) (drop (nat pos) f))"

text \<open>
  \<^verbatim>\<open>executable->ReadAt(&mainMemory[a], n, pos)\<close>: the bytes read go to memory from address
  \<open>a\<close>; outside memory the simulator corrupts its own heap.
\<close>

definition load :: "byte list \<Rightarrow> int \<Rightarrow> int \<Rightarrow> int \<Rightarrow> byte list \<Rightarrow> byte list result" where
  "load f a n pos mem = (if a < 0 then Inl OutOfBounds else mem_write mem (nat a) (read_at f n pos))"

section \<open>Loading a program by name\<close>

definition mk_entry :: "nat \<Rightarrow> int \<Rightarrow> TranslationEntry" where
  "mk_entry i pp = \<lparr>virtualPage = of_nat i, physicalPage = of_int pp, valid = True,
     readOnly = False, use = False, dirty = False\<rparr>"

text \<open>
  The allocation loop: page \<open>i\<close> gets a physical page from the bitmap and is cleared.
  \<open>None\<close> is the early return when the bitmap is full.
\<close>

fun alloc_pages :: "nat \<Rightarrow> nat \<Rightarrow> BitMap \<Rightarrow> byte list \<Rightarrow>
    (TranslationEntry list option \<times> BitMap \<times> byte list) result" where
  "alloc_pages i 0 bm mem = Inr (Some [], bm, mem)"
| "alloc_pages i (Suc n) bm mem =
     bindR (BitMap_Find bm) (\<lambda>(pp, bm').
       if pp = -1 then Inr (None, bm', mem)
       else bindR (mem_write mem (nat (pp * PageSize)) (replicate (nat PageSize) 0)) (\<lambda>mem'.
            bindR (alloc_pages (Suc i) n bm' mem') (\<lambda>(r, bm'', mem'').
            Inr (map_option (\<lambda>t. mk_entry i pp # t) r, bm'', mem''))))"

text \<open>\<open>frame t i\<close> is \<^verbatim>\<open>pageTable[i].physicalPage\<close>.\<close>

definition frame :: "TranslationEntry list \<Rightarrow> int \<Rightarrow> int result" where
  "frame t i = bindR (rd t i) (\<lambda>e. Inr (sint (physicalPage e)))"

text \<open>The loop over the code pages \<open>i, \<dots>, numCodePage - 1\<close>.\<close>

fun copy_code :: "byte list \<Rightarrow> NoffHeader \<Rightarrow> TranslationEntry list \<Rightarrow> int \<Rightarrow> int \<Rightarrow> int \<Rightarrow> nat \<Rightarrow>
    byte list \<Rightarrow> byte list result" where
  "copy_code f h t numCodePage lastCodePageSize i 0 mem = Inr mem"
| "copy_code f h t numCodePage lastCodePageSize i (Suc n) mem =
     bindR (frame t i) (\<lambda>pp.
     bindR (load f (virtualAddr (code h) + pp * PageSize)
              (if i < numCodePage - 1 then PageSize else lastCodePageSize)
              (inFileAddr (code h) + i * PageSize) mem) (\<lambda>mem'.
     copy_code f h t numCodePage lastCodePageSize (i + 1) n mem'))"

text \<open>The loop over the remaining data pages; \<open>i\<close> runs along with \<open>j\<close>.\<close>

fun copy_data :: "byte list \<Rightarrow> NoffHeader \<Rightarrow> TranslationEntry list \<Rightarrow> int \<Rightarrow> int \<Rightarrow> int \<Rightarrow> int \<Rightarrow> int \<Rightarrow>
    nat \<Rightarrow> byte list \<Rightarrow> byte list result" where
  "copy_data f h t numDataPage lastDataPageSize firstDataPageSize i j 0 mem = Inr mem"
| "copy_data f h t numDataPage lastDataPageSize firstDataPageSize i j (Suc n) mem =
     bindR (frame t i) (\<lambda>pp.
     bindR (load f (virtualAddr (code h) + pp * PageSize)
              (if j < numDataPage - 1 then PageSize else lastDataPageSize)
              (inFileAddr (initData h) + j * PageSize + firstDataPageSize) mem) (\<lambda>mem'.
     copy_data f h t numDataPage lastDataPageSize firstDataPageSize (i + 1) (j + 1) n mem'))"

definition lastCodePageSize_of :: "NoffHeader \<Rightarrow> int" where
  "lastCodePageSize_of h = seg_size (code h) - (divRoundUp (seg_size (code h)) PageSize - 1) * PageSize"

text \<open>The piece of data that shares a page with the end of the code.\<close>

definition first_data :: "byte list \<Rightarrow> NoffHeader \<Rightarrow> TranslationEntry list \<Rightarrow> int \<Rightarrow> int \<Rightarrow> int \<Rightarrow>
    byte list \<Rightarrow> byte list result" where
  "first_data f h t numCodePage lastCodePageSize firstDataPageSize mem1 =
     (if lastCodePageSize < PageSize \<and> firstDataPageSize > 0 then
        bindR (frame t (numCodePage - 1)) (\<lambda>pp.
        load f (virtualAddr (code h) + (pp * PageSize + lastCodePageSize))
          firstDataPageSize (inFileAddr (initData h)) mem1)
      else Inr mem1)"

definition load_segments :: "byte list \<Rightarrow> NoffHeader \<Rightarrow> TranslationEntry list \<Rightarrow> byte list \<Rightarrow>
    byte list result" where
  "load_segments f h t mem =
     (let numCodePage = divRoundUp (seg_size (code h)) PageSize;
          lastCodePageSize = lastCodePageSize_of h;
          tempDataSize = seg_size (initData h) - (PageSize - lastCodePageSize);
          numDataPage = (if tempDataSize < 0 then 0 else divRoundUp tempDataSize PageSize);
          firstDataPageSize = (if tempDataSize < 0 then seg_size (initData h)
            else PageSize - lastCodePageSize);
          lastDataPageSize = tempDataSize - (numDataPage - 1) * PageSize
      in bindR (copy_code f h t numCodePage lastCodePageSize 0 (nat numCodePage) mem) (\<lambda>mem1.
         bindR (first_data f h t numCodePage lastCodePageSize firstDataPageSize mem1) (\<lambda>mem2.
         copy_data f h t numDataPage lastDataPageSize firstDataPageSize numCodePage 0
           (nat numDataPage) mem2)))"

text \<open>
  The constructor \<^verbatim>\<open>AddrSpace(char *filename)\<close>. \<open>exe\<close> is what \<^verbatim>\<open>fileSystem->Open\<close> finds:
  nothing, or the contents of the executable. The result says whether the code reaches its
  end, with the bitmap and the memory. \<^verbatim>\<open>addrLock\<close> is left out: the methods of \<^verbatim>\<open>Lock\<close> have
  empty bodies.
\<close>

datatype load_result = NotOpened | NoMemory | Loaded AddrSpace

definition AddrSpace_file :: "byte list \<Rightarrow> byte list option \<Rightarrow> BitMap \<Rightarrow> byte list \<Rightarrow>
    (load_result \<times> BitMap \<times> byte list) result" where
  "AddrSpace_file junk exe bm mem = (case exe of None \<Rightarrow> Inr (NotOpened, bm, mem)
     | Some f \<Rightarrow>
         let h = read_header junk f in
         bindR (ASSERT (noffMagic h = NOFFMAGIC)) (\<lambda>_.
         let sz = (seg_size (code h) + seg_size (initData h) + seg_size (uninitData h) + UserStackSize)
               mod 2 ^ 32;
             np = divRoundUp sz PageSize
         in bindR (BitMap_NumClear bm) (\<lambda>free.
            if np > free then Inr (NoMemory, bm, mem)
            else bindR (alloc_pages 0 (nat np) bm mem) (\<lambda>(r, bm', mem').
              case r of None \<Rightarrow> Inr (NoMemory, bm', mem')
              | Some t \<Rightarrow> bindR (load_segments f h t mem') (\<lambda>mem''.
                  Inr (Loaded \<lparr>as_pageTable = t, numPages = np\<rparr>, bm', mem''))))))"

section \<open>Loading an open file\<close>

text \<open>
  The constructor \<^verbatim>\<open>AddrSpace(OpenFile *executable)\<close>, which \<^verbatim>\<open>StartProcess\<close> of \<^verbatim>\<open>userprog/progtest.cc\<close> uses for the first program.
  It takes frames from the bitmap for the pages, but clears and fills main memory from address 0 on.
\<close>

fun find_pages :: "nat \<Rightarrow> nat \<Rightarrow> BitMap \<Rightarrow> (TranslationEntry list option \<times> BitMap) result" where
  "find_pages i 0 bm = Inr (Some [], bm)"
| "find_pages i (Suc n) bm = bindR (BitMap_Find bm) (\<lambda>(pp, bm').
     if pp = -1 then Inr (None, bm')
     else bindR (find_pages (Suc i) n bm') (\<lambda>(r, bm''). Inr (map_option (\<lambda>t. mk_entry i pp # t) r, bm'')))"

definition load_segment :: "byte list \<Rightarrow> Segment \<Rightarrow> byte list \<Rightarrow> byte list result" where
  "load_segment f sg mem = (if seg_size sg > 0 then load f (virtualAddr sg) (seg_size sg) (inFileAddr sg) mem else Inr mem)"

definition AddrSpace_OpenFile :: "byte list \<Rightarrow> byte list \<Rightarrow> BitMap \<Rightarrow> byte list \<Rightarrow>
    (load_result \<times> BitMap \<times> byte list) result" where
  "AddrSpace_OpenFile junk f bm mem =
     (let h = read_header junk f in
      bindR (ASSERT (noffMagic h = NOFFMAGIC)) (\<lambda>_.
      let sz = (seg_size (code h) + seg_size (initData h) + seg_size (uninitData h) + UserStackSize) mod 2 ^ 32;
          np = divRoundUp sz PageSize
      in bindR (ASSERT (np \<le> NumPhysPages)) (\<lambda>_.
         bindR (find_pages 0 (nat np) bm) (\<lambda>(r, bm').
         case r of None \<Rightarrow> Inr (NoMemory, bm', mem)
         | Some t \<Rightarrow> bindR (mem_write mem 0 (replicate (nat (np * PageSize)) 0)) (\<lambda>mem1.
             bindR (load_segment f (code h) mem1) (\<lambda>mem2.
             bindR (load_segment f (initData h) mem2) (\<lambda>mem3.
             Inr (Loaded \<lparr>as_pageTable = t, numPages = np\<rparr>, bm', mem3))))))))"

section \<open>The other operations\<close>

fun write_zero_regs :: "nat \<Rightarrow> Machine \<Rightarrow> Machine result" where
  "write_zero_regs 0 m = Inr m"
| "write_zero_regs (Suc n) m = bindR (write_zero_regs n m) (\<lambda>m'. WriteRegister m' (int n) 0)"

definition InitRegisters :: "AddrSpace \<Rightarrow> Machine \<Rightarrow> Machine result" where
  "InitRegisters sp m =
     bindR (write_zero_regs NumTotalRegs m) (\<lambda>m1.
     bindR (WriteRegister m1 (int PCReg) 0) (\<lambda>m2.
     bindR (WriteRegister m2 (int NextPCReg) 4) (\<lambda>m3.
     WriteRegister m3 (int StackReg) (of_int (numPages sp * PageSize - 16)))))"

definition AddrSpace_SaveState :: "AddrSpace \<Rightarrow> Machine \<Rightarrow> Machine" where
  "AddrSpace_SaveState sp m = m"

definition AddrSpace_RestoreState :: "AddrSpace \<Rightarrow> Machine \<Rightarrow> Machine" where
  "AddrSpace_RestoreState sp m =
     m\<lparr>pageTable := Some (as_pageTable sp), pageTableSize := of_int (numPages sp)\<rparr>"

section \<open>The virtual image\<close>

text \<open>The byte a program finds at virtual address \<open>va\<close> under page table \<open>t\<close>.\<close>

definition vbyte :: "TranslationEntry list \<Rightarrow> byte list \<Rightarrow> nat \<Rightarrow> byte" where
  "vbyte t mem va = mem ! (unat (physicalPage (t ! (va div 512))) * 512 + va mod 512)"

definition frames :: "TranslationEntry list \<Rightarrow> nat list" where
  "frames t = map (\<lambda>e. unat (physicalPage e)) t"

definition wf_table :: "TranslationEntry list \<Rightarrow> bool" where
  "wf_table t \<longleftrightarrow> distinct (frames t) \<and> set (frames t) \<subseteq> {..<128}"

text \<open>Memory outside the frames of the table.\<close>

definition others_same :: "TranslationEntry list \<Rightarrow> byte list \<Rightarrow> byte list \<Rightarrow> bool" where
  "others_same t mem mem' \<longleftrightarrow> (\<forall>a. a div 512 \<notin> set (frames t) \<longrightarrow> mem' ! a = mem ! a)"

lemma others_same_trans:
  "others_same t m1 m2 \<Longrightarrow> others_same t m2 m3 \<Longrightarrow> others_same t m1 m3"
  by (simp add: others_same_def)

lemma frames_lt: "wf_table t \<Longrightarrow> i < length t \<Longrightarrow> frames t ! i < 128"
  using nth_mem [of i "frames t"] by (auto simp: wf_table_def frames_def simp del: nth_mem)

lemma frame_eq:
  "wf_table t \<Longrightarrow> i < length t \<Longrightarrow> frame t (int i) = Inr (int (frames t ! i))"
proof -
  assume t: "wf_table t" and i: "i < length t"
  have "unat (physicalPage (t ! i)) < 128" using frames_lt [OF t i] i by (simp add: frames_def)
  then have "sint (physicalPage (t ! i)) = int (unat (physicalPage (t ! i)))"
    using sint_of_nat_small [of "unat (physicalPage (t ! i))"] by simp
  with i show ?thesis by (simp add: frame_def frames_def)
qed

lemma mem_write_nth:
  "mem_write mem a bs = Inr mem' \<Longrightarrow>
   mem' ! k = (if a \<le> k \<and> k < a + length bs then bs ! (k - a) else mem ! k)"
  by (auto simp: mem_write_def nth_append split: if_splits)

lemma page_address_inject:
  assumes "wf_table t" and "i < length t" and "j < length t" and "o1 < 512" and "o2 < 512"
    and "frames t ! i * 512 + o1 = frames t ! j * 512 + o2"
  shows "i = j \<and> o1 = o2"
proof -
  have "frames t ! i = frames t ! j" "o1 = o2"
    using assms(4-6) by (auto simp: algebra_simps dest: arg_cong [where f = "\<lambda>x. x div 512"]
        arg_cong [where f = "\<lambda>x. x mod 512"])
  moreover have "distinct (frames t)" "length (frames t) = length t"
    using assms(1) by (auto simp: wf_table_def frames_def)
  ultimately show ?thesis using assms(2,3) by (auto simp: nth_eq_iff_index_eq)
qed

text \<open>Reading a piece of the file into one page changes the image exactly there.\<close>

lemma load_image:
  assumes t: "wf_table t" and i: "i < length t" and mem: "length mem = 65536"
    and n: "o1 + n \<le> 512" "pos + n \<le> length f"
  shows "\<exists>mem'. load f (int (frames t ! i * 512 + o1)) (int n) (int pos) mem = Inr mem' \<and>
    length mem' = 65536 \<and>
    (\<forall>va<length t * 512. vbyte t mem' va =
      (if i * 512 + o1 \<le> va \<and> va < i * 512 + o1 + n then f ! (pos + (va - (i * 512 + o1)))
       else vbyte t mem va)) \<and> others_same t mem mem'"
proof -
  let ?a = "frames t ! i * 512 + o1" and ?bs = "take n (drop pos f)"
  have bs: "read_at f (int n) (int pos) = ?bs" "length ?bs = n"
    using n by (auto simp: read_at_def)
  have "?a + n \<le> 65536" using frames_lt [OF t i] n by simp
  then obtain mem' where w: "mem_write mem ?a ?bs = Inr mem'"
    using mem bs(2) by (simp add: mem_write_def)
  have "vbyte t mem' va = (if i * 512 + o1 \<le> va \<and> va < i * 512 + o1 + n
      then f ! (pos + (va - (i * 512 + o1))) else vbyte t mem va)" if va: "va < length t * 512" for va
  proof -
    define q r where "q = va div 512" and "r = va mod 512"
    have qr: "va = q * 512 + r" "r < 512" by (simp_all add: q_def r_def)
    have q: "q < length t" using va by (simp add: q_def less_mult_imp_div_less)
    let ?k = "frames t ! q * 512 + r"
    have im: "vbyte t m va = m ! ?k" for m
      using q by (simp add: vbyte_def frames_def q_def r_def)
    show ?thesis
    proof (cases "q = i")
      case True
      then show ?thesis
        unfolding im using mem_write_nth [OF w, of ?k] n bs(2) qr by auto
    next
      case False
      then have "frames t ! i \<noteq> frames t ! q"
        using page_address_inject [OF t i q, of 0 0] by auto
      then have "\<not> (?a \<le> ?k \<and> ?k < ?a + n)" using n(1) qr(2) by linarith
      moreover have "\<not> (i * 512 + o1 \<le> va \<and> va < i * 512 + o1 + n)"
        using False n(1) qr by linarith
      ultimately show ?thesis
        unfolding im using mem_write_nth [OF w, of ?k] bs(2) by auto
    qed
  qed
  moreover have "others_same t mem mem'"
  proof -
    have "a div 512 = frames t ! i" if "?a \<le> a" "a < ?a + n" for a
      using that n(1) by (intro div_nat_eqI) auto
    moreover have "frames t ! i \<in> set (frames t)" using i by (simp add: frames_def)
    ultimately show ?thesis
      using mem_write_nth [OF w] bs(2) by (auto simp: others_same_def)
  qed
  ultimately show ?thesis
    using w mem_write_length [OF w] mem bs by (auto simp: load_def nat_add_distrib nat_mult_distrib)
qed

section \<open>The copy loops\<close>

text \<open>Both loops copy the chunks \<open>j, \<dots>, N - 1\<close> of a segment to the pages from \<open>base\<close> on.\<close>

fun copy_pages :: "byte list \<Rightarrow> TranslationEntry list \<Rightarrow> nat \<Rightarrow> nat \<Rightarrow> nat \<Rightarrow> nat \<Rightarrow> nat \<Rightarrow> nat \<Rightarrow>
    byte list \<Rightarrow> byte list result" where
  "copy_pages f t base N lastn p0 j 0 mem = Inr mem"
| "copy_pages f t base N lastn p0 j (Suc n) mem =
     bindR (load f (int (frames t ! (base + j) * 512)) (int (if j < N - 1 then 512 else lastn))
        (int (p0 + j * 512)) mem) (copy_pages f t base N lastn p0 (Suc j) n)"

lemma copy_pages_ok:
  assumes t: "wf_table t" "base + N \<le> length t" and last: "lastn \<le> 512"
    and tl: "tot \<le> N * 512" "N > 0 \<Longrightarrow> tot = (N - 1) * 512 + lastn" and f: "p0 + tot \<le> length f"
  shows "j + n = N \<Longrightarrow> length mem = 65536 \<Longrightarrow>
    \<exists>mem'. copy_pages f t base N lastn p0 j n mem = Inr mem' \<and> length mem' = 65536 \<and>
      (\<forall>va<length t * 512. vbyte t mem' va =
        (if base * 512 + j * 512 \<le> va \<and> va < base * 512 + tot then f ! (p0 + (va - base * 512))
         else vbyte t mem va)) \<and> others_same t mem mem'"
proof (induction n arbitrary: j mem)
  case 0
  then show ?case using tl(1) by (auto simp: others_same_def)
next
  case (Suc n)
  define c where "c = (if j < N - 1 then 512 else lastn)"
  have tt: "tot = (N - 1) * 512 + lastn" using tl(2) Suc.prems by simp
  have jc: "j * 512 + c \<le> tot" "j < N - 1 \<Longrightarrow> c = 512" "\<not> j < N - 1 \<Longrightarrow> j * 512 + c = tot"
    using tt Suc.prems last by (auto simp: c_def)
  have c: "c \<le> 512" using last by (simp add: c_def)
  have pj: "p0 + j * 512 + c \<le> length f" using jc(1) f by linarith
  have bj: "base + j < length t" using Suc.prems t(2) by simp
  obtain m1 where m1: "load f (int (frames t ! (base + j) * 512)) (int c) (int (p0 + j * 512)) mem = Inr m1"
    "length m1 = 65536" "\<forall>va<length t * 512. vbyte t m1 va =
      (if (base + j) * 512 \<le> va \<and> va < (base + j) * 512 + c then f ! (p0 + j * 512 + (va - (base + j) * 512))
       else vbyte t mem va)" "others_same t mem m1"
    using load_image [OF t(1) bj Suc.prems(2), of 0 c "p0 + j * 512" f] c pj by auto
  obtain m2 where m2: "copy_pages f t base N lastn p0 (Suc j) n m1 = Inr m2" "length m2 = 65536"
    "\<forall>va<length t * 512. vbyte t m2 va =
      (if base * 512 + Suc j * 512 \<le> va \<and> va < base * 512 + tot then f ! (p0 + (va - base * 512))
       else vbyte t m1 va)" "others_same t m1 m2"
    using Suc.IH [of "Suc j" m1] Suc.prems(1) m1(2) by auto
  have "vbyte t m2 va = (if base * 512 + j * 512 \<le> va \<and> va < base * 512 + tot
      then f ! (p0 + (va - base * 512)) else vbyte t mem va)" if va: "va < length t * 512" for va
  proof -
    have "p0 + j * 512 + (va - (base + j) * 512) = p0 + (va - base * 512)"
      if "(base + j) * 512 \<le> va" using that by (simp add: algebra_simps)
    then show ?thesis
      using m1(3) [rule_format, OF va] m2(3) [rule_format, OF va] jc
      by (cases "j < N - 1") (auto simp: algebra_simps)
  qed
  with m1 m2 show ?case by (auto simp: c_def intro: others_same_trans)
qed

lemma copy_code_pages:
  assumes "wf_table t" and "virtualAddr (code h) = 0" and "inFileAddr (code h) = int ca"
  shows "j + n \<le> length t \<Longrightarrow> j + n = N \<Longrightarrow>
    copy_code f h t (int N) (int lastn) (int j) n mem = copy_pages f t 0 N lastn ca j n mem"
proof (induction n arbitrary: j mem)
  case (Suc n)
  have "frame t (int j) = Inr (int (frames t ! j))" using Suc.prems assms(1) by (simp add: frame_eq)
  moreover have "(int j < int N - 1) = (j < N - 1)" using Suc.prems by auto
  moreover have "copy_code f h t (int N) (int lastn) (int j + 1) n
      = copy_pages f t 0 N lastn ca (Suc j) n"
    using Suc.IH [of "Suc j"] Suc.prems by (intro ext) (simp add: add.commute)
  ultimately show ?case
    using assms(2,3) by (simp add: PageSize_def SectorSize_def if_distrib)
qed simp

lemma copy_data_pages:
  assumes "wf_table t" and "virtualAddr (code h) = 0" and "inFileAddr (initData h) = int ia"
  shows "base + j + n \<le> length t \<Longrightarrow> j + n = N \<Longrightarrow>
    copy_data f h t (int N) (int lastn) (int fst1) (int (base + j)) (int j) n mem
      = copy_pages f t base N lastn (ia + fst1) j n mem"
proof (induction n arbitrary: j mem)
  case (Suc n)
  have "frame t (int (base + j)) = Inr (int (frames t ! (base + j)))"
    using Suc.prems assms(1) by (intro frame_eq) auto
  moreover have "(int j < int N - 1) = (j < N - 1)" using Suc.prems by auto
  moreover have "copy_data f h t (int N) (int lastn) (int fst1) (int (base + j) + 1) (int j + 1) n
      = copy_pages f t base N lastn (ia + fst1) (Suc j) n"
    using Suc.IH [of "Suc j"] Suc.prems by (intro ext) (simp add: algebra_simps)
  ultimately show ?case
    using assms(2,3) by (simp add: PageSize_def SectorSize_def if_distrib algebra_simps)
qed simp

lemma divRoundUp_page:
  obtains n where "divRoundUp (int c) PageSize = int n" and "c \<le> n * 512" and "n * 512 < c + 512"
proof
  define n where "n = nat (divRoundUp (int c) PageSize)"
  have "0 \<le> divRoundUp (int c) PageSize" by (simp add: divRoundUp_nonneg machine_consts)
  then show n: "divRoundUp (int c) PageSize = int n" by (simp add: n_def)
  have "int c \<le> int n * 512"
    using divRoundUp_covers [of "int c" PageSize] n by (simp add: machine_consts)
  then show "c \<le> n * 512" by linarith
  define d m where "d = int c div 512" and "m = int c mod 512"
  have dm: "d * 512 + m = int c" "0 \<le> m" by (simp_all add: d_def m_def)
  have "int n = d + (if m > 0 then 1 else 0)"
    using n by (simp add: divRoundUp_eq machine_consts d_def m_def)
  then have "int n * 512 < int c + 512" using dm by (cases "m > 0") auto
  then show "n * 512 < c + 512" by linarith
qed

lemma first_data_ok:
  assumes t: "wf_table t" and v: "virtualAddr (code h) = 0" and ia: "inFileAddr (initData h) = int ia"
    and nc: "nc \<le> length t" "cs \<le> nc * 512" "nc * 512 < cs + 512" and mem: "length mem = 65536"
    and n: "cs + n \<le> nc * 512" "ia + n \<le> length f"
  shows "\<exists>mem'. first_data f h t (int nc) (int (cs + 512 - nc * 512)) (int n) mem = Inr mem' \<and>
    length mem' = 65536 \<and> (\<forall>va<length t * 512. vbyte t mem' va =
      (if cs \<le> va \<and> va < cs + n then f ! (ia + (va - cs)) else vbyte t mem va)) \<and>
    others_same t mem mem'"
proof (cases "n > 0")
  case True
  then have nc0: "nc > 0" using n(1) by (cases nc) auto
  let ?l = "cs + 512 - nc * 512"
  have l: "(nc - 1) * 512 + ?l = cs" "?l + n \<le> 512" "?l < 512"
    using nc n nc0 True by (auto simp: algebra_simps diff_mult_distrib)
  have nl: "nc - 1 < length t" using nc(1) nc0 by simp
  have "frame t (int nc - 1) = Inr (int (frames t ! (nc - 1)))"
    using frame_eq [OF t, of "nc - 1"] nc(1) nc0 by (simp add: of_nat_diff)
  moreover obtain m' where "load f (int (frames t ! (nc - 1) * 512 + ?l)) (int n) (int ia) mem = Inr m'"
    "length m' = 65536" "\<forall>va<length t * 512. vbyte t m' va =
      (if (nc - 1) * 512 + ?l \<le> va \<and> va < (nc - 1) * 512 + ?l + n
       then f ! (ia + (va - ((nc - 1) * 512 + ?l))) else vbyte t mem va)" "others_same t mem m'"
    using load_image [OF t nl mem l(2) n(2)] by blast
  ultimately show ?thesis
    using True l v ia unfolding l(1)
    by (simp add: first_data_def PageSize_def SectorSize_def of_nat_diff)
qed (use mem in \<open>auto simp: first_data_def others_same_def\<close>)

lemma load_segments_ok:
  assumes t: "wf_table t" and mem: "length mem = 65536"
    and code: "virtualAddr (code h) = 0" "inFileAddr (code h) = int ca" "seg_size (code h) = int cs"
    and data: "inFileAddr (initData h) = int ia" "seg_size (initData h) = int ds"
    and f: "ca + cs \<le> length f" "ia + ds \<le> length f" and fit: "cs + ds + 512 \<le> length t * 512"
  shows "\<exists>mem'. load_segments f h t mem = Inr mem' \<and> length mem' = 65536 \<and>
    (\<forall>va<length t * 512. vbyte t mem' va =
      (if va < cs then f ! (ca + va) else if va < cs + ds then f ! (ia + (va - cs))
       else vbyte t mem va)) \<and> others_same t mem mem'"
proof -
  obtain nc where nc: "divRoundUp (int cs) PageSize = int nc" "cs \<le> nc * 512" "nc * 512 < cs + 512"
    by (rule divRoundUp_page)
  define l where "l = cs + 512 - nc * 512"
  have l: "lastCodePageSize_of h = int l" "l \<le> 512" "nc * 512 + l = cs + 512"
    using nc code(3) by (auto simp: lastCodePageSize_of_def l_def PageSize_def SectorSize_def of_nat_diff)
  define fs td where "fs = min ds (512 - l)" and "td = ds - (512 - l)"
  obtain nd where nd: "divRoundUp (int td) PageSize = int nd" "td \<le> nd * 512" "nd * 512 < td + 512"
    by (rule divRoundUp_page)
  have bnd: "nc + nd \<le> length t" "cs + fs \<le> nc * 512" "fs + td = ds" "cs + fs + td = cs + ds"
    "td > 0 \<Longrightarrow> cs + fs = nc * 512"
    using nc nd l fit by (auto simp: fs_def td_def min_def split: if_splits)
  obtain m1 where m1: "copy_pages f t 0 nc l ca 0 nc mem = Inr m1" "length m1 = 65536"
    "\<forall>va<length t * 512. vbyte t m1 va = (if va < cs then f ! (ca + va) else vbyte t mem va)"
    "others_same t mem m1"
    using copy_pages_ok [OF t, of 0 nc l cs ca f 0 nc mem] bnd(1) l nc f(1) mem
    by (auto simp: diff_mult_distrib)
  have ncl: "nc \<le> length t" and fsl: "ia + fs \<le> length f" using bnd f(2) by auto
  obtain m2 where m2: "first_data f h t (int nc) (int l) (int fs) m1 = Inr m2" "length m2 = 65536"
    "\<forall>va<length t * 512. vbyte t m2 va =
      (if cs \<le> va \<and> va < cs + fs then f ! (ia + (va - cs)) else vbyte t m1 va)" "others_same t m1 m2"
    using first_data_ok [OF t code(1) data(1) ncl nc(2,3) m1(2) bnd(2) fsl, folded l_def] by blast
  define ld where "ld = td + 512 - nd * 512"
  have ldl: "ld \<le> 512" "nd > 0 \<Longrightarrow> td = (nd - 1) * 512 + ld"
    using nd by (auto simp: ld_def diff_mult_distrib)
  have fd: "ia + fs + td \<le> length f" using f(2) bnd(3) by simp
  obtain m3 where m3: "copy_pages f t nc nd ld (ia + fs) 0 nd m2 = Inr m3" "length m3 = 65536"
    "\<forall>va<length t * 512. vbyte t m3 va =
      (if nc * 512 \<le> va \<and> va < nc * 512 + td then f ! (ia + fs + (va - nc * 512)) else vbyte t m2 va)"
    "others_same t m2 m3"
    using copy_pages_ok [OF t bnd(1) ldl(1) nd(2) ldl(2) fd, of 0 nd m2] m2(2) by auto
  have neg: "(int ds - (512 - int l) < 0) = (ds < 512 - l)" using l(2) by auto
  have "load_segments f h t mem = Inr m3"
  proof -
    have P: "PageSize = 512" by (simp add: machine_consts)
    have c: "copy_code f h t (int nc) (int l) 0 (nat (int nc)) mem = Inr m1"
      using copy_code_pages [OF t code(1,2), of 0 nc nc f l mem] m1(1) bnd(1) by simp
    have n: "(if int ds - (512 - int l) < 0 then 0 else divRoundUp (int ds - (512 - int l)) 512) = int nd"
    proof (cases "ds < 512 - l")
      case True
      then have "nd = 0" using nd by (auto simp: td_def)
      with True neg show ?thesis by simp
    next
      case False
      then have "int td = int ds - (512 - int l)" using l(2) by (simp add: td_def of_nat_diff)
      with False neg nd(1) P show ?thesis by simp
    qed
    have s: "(if int ds - (512 - int l) < 0 then int ds else 512 - int l) = int fs"
      using neg l(2) by (auto simp: fs_def of_nat_diff)
    have d: "copy_data f h t (int nd) (int ds - (512 - int l) - (int nd - 1) * 512) (int fs) (int nc) 0
        (nat (int nd)) m2 = Inr m3"
    proof (cases "ds < 512 - l")
      case True
      then have "nd = 0" using nd by (auto simp: td_def)
      with m3(1) show ?thesis by simp
    next
      case False
      then have "int ds - (512 - int l) - (int nd - 1) * 512 = int ld"
        using nd l(2) by (auto simp: ld_def td_def of_nat_diff)
      then show ?thesis
        using copy_data_pages [OF t code(1) data(1), of nc 0 nd nd f ld fs m2] bnd(1) m3(1) by simp
    qed
    show ?thesis
      unfolding load_segments_def Let_def code(3) data(2) nc(1) l(1)
      unfolding P n s c bindR.simps m2(1) d ..
  qed
  moreover have "vbyte t m3 va = (if va < cs then f ! (ca + va) else if va < cs + ds then f ! (ia + (va - cs))
      else vbyte t mem va)" if va: "va < length t * 512" for va
  proof -
    have e: "ia + fs + (va - nc * 512) = ia + (va - cs)" if "nc * 512 \<le> va" "td > 0"
      using that bnd(5) by linarith
    note m = m1(3) [rule_format, OF va] m2(3) [rule_format, OF va] m3(3) [rule_format, OF va]
    consider "td = 0" | "td > 0" "va < nc * 512" | "td > 0" "nc * 512 \<le> va" by linarith
    then show ?thesis
    proof cases
      case 3
      then show ?thesis using m e bnd nc(2) by simp
    qed (use m bnd in auto)
  qed
  ultimately show ?thesis
    using m1(4) m2(4) m3(2,4) by (auto intro: others_same_trans)
qed

section \<open>Allocation of the pages\<close>

lemma wf_table_Cons:
  "wf_table (mk_entry i (int k) # t) = (k < 128 \<and> k \<notin> set (frames t) \<and> wf_table t)"
  if "k < 128" for k
  using that by (auto simp: wf_table_def frames_def mk_entry_def unat_of_nat_small)

lemma frames_Cons [simp]: "k < 128 \<Longrightarrow> frames (mk_entry i (int k) # t) = k # frames t"
  by (simp add: frames_def mk_entry_def unat_of_nat_small)

definition zeroed :: "TranslationEntry list \<Rightarrow> byte list \<Rightarrow> bool" where
  "zeroed t mem \<longleftrightarrow> (\<forall>a. a div 512 \<in> set (frames t) \<longrightarrow> mem ! a = 0)"

definition fresh_table :: "nat \<Rightarrow> TranslationEntry list \<Rightarrow> bool" where
  "fresh_table i t \<longleftrightarrow> (\<forall>k<length t. valid (t ! k) \<and> \<not> readOnly (t ! k) \<and> virtualPage (t ! k) = of_nat (i + k))"

lemma alloc_pages_ok:
  "wf_bitmap bm \<Longrightarrow> capacity bm = 128 \<Longrightarrow> n + card (marked bm) \<le> 128 \<Longrightarrow> length mem = 65536 \<Longrightarrow>
   \<exists>t bm' mem'. alloc_pages i n bm mem = Inr (Some t, bm', mem') \<and> length t = n \<and> wf_table t \<and>
     fresh_table i t \<and> set (frames t) \<inter> marked bm = {} \<and> wf_bitmap bm' \<and> capacity bm' = 128 \<and>
     marked bm' = marked bm \<union> set (frames t) \<and> length mem' = 65536 \<and> zeroed t mem' \<and>
     others_same t mem mem'"
proof (induction n arbitrary: i bm mem)
  case 0
  then show ?case
    by (auto simp: wf_table_def frames_def fresh_table_def zeroed_def others_same_def)
next
  case (Suc n)
  then have "marked bm \<noteq> {..<capacity bm}" by auto
  then obtain k bm1 where k: "BitMap_Find bm = Inr (int k, bm1)" "k < 128" "k \<notin> marked bm"
    "wf_bitmap bm1" "capacity bm1 = 128" "marked bm1 = insert k (marked bm)"
    using bm.fnd_free [OF Suc.prems(1)] Suc.prems(2) by auto
  have pp: "nat (int k * PageSize) = k * 512" "nat PageSize = 512"
    by (simp_all add: machine_consts nat_mult_distrib)
  obtain m1 where w: "mem_write mem (k * 512) (replicate 512 0) = Inr m1"
    using Suc.prems(4) k(2) by (simp add: mem_write_def)
  note m1 = mem_write_nth [OF w] mem_write_length [OF w]
  obtain t bm2 m2 where r: "alloc_pages (Suc i) n bm1 m1 = Inr (Some t, bm2, m2)" "length t = n"
    "wf_table t" "fresh_table (Suc i) t" "set (frames t) \<inter> marked bm1 = {}" "wf_bitmap bm2"
    "capacity bm2 = 128" "marked bm2 = marked bm1 \<union> set (frames t)" "length m2 = 65536" "zeroed t m2"
    "others_same t m1 m2"
    using Suc.IH [OF k(4,5), of m1 "Suc i"] Suc.prems(3,4) k m1(2) by auto
  let ?t = "mk_entry i (int k) # t"
  have kt: "k \<notin> set (frames t)" using r(5) k(6) by auto
  have "alloc_pages i (Suc n) bm mem = Inr (Some ?t, bm2, m2)"
    using k(1) w r(1) by (simp add: pp)
  moreover have "wf_table ?t" using k(2) kt r(3) by (simp add: wf_table_Cons)
  moreover have "fresh_table i ?t"
    using r(4) by (auto simp: fresh_table_def mk_entry_def nth_Cons split: nat.splits)
  moreover have "zeroed ?t m2"
  proof -
    have "m2 ! a = 0" if "a div 512 = k" for a
    proof -
      have "k * 512 \<le> a" "a < k * 512 + 512"
        using div_mult_mod_eq [of a 512] mod_less_divisor [of 512 a] that by (simp, linarith)+
      then have "m1 ! a = 0" using m1(1) [of a] by simp
      moreover have "m2 ! a = m1 ! a" using r(11) kt that by (simp add: others_same_def)
      ultimately show ?thesis by simp
    qed
    with r(10) k(2) show ?thesis by (auto simp: zeroed_def)
  qed
  moreover have "others_same ?t mem m2"
  proof -
    have "m1 ! a = mem ! a" if "a div 512 \<noteq> k" for a
      using m1(1) [of a] that by (auto simp: div_nat_eqI)
    with r(11) k(2) show ?thesis by (auto simp: others_same_def)
  qed
  ultimately show ?case using r k by auto
qed

text \<open>A header whose segments lie inside the file, code first at virtual address 0.\<close>

definition noff_ok :: "byte list \<Rightarrow> NoffHeader \<Rightarrow> bool" where
  "noff_ok f h \<longleftrightarrow> noffMagic h = NOFFMAGIC \<and> virtualAddr (code h) = 0 \<and>
     (\<forall>s \<in> {code h, initData h}. 0 \<le> inFileAddr s \<and> 0 \<le> seg_size s \<and>
        inFileAddr s + seg_size s \<le> int (length f)) \<and> 0 \<le> seg_size (uninitData h)"

definition total_size :: "NoffHeader \<Rightarrow> int" where
  "total_size h = seg_size (code h) + seg_size (initData h) + seg_size (uninitData h) + UserStackSize"

text \<open>What the program finds at virtual address \<open>va\<close> when it starts.\<close>

definition start_byte :: "byte list \<Rightarrow> NoffHeader \<Rightarrow> nat \<Rightarrow> byte" where
  "start_byte f h va = (let cs = nat (seg_size (code h)); ds = nat (seg_size (initData h)) in
     if va < cs then f ! (nat (inFileAddr (code h)) + va)
     else if va < cs + ds then f ! (nat (inFileAddr (initData h)) + (va - cs)) else 0)"

lemma zeroed_vbyte:
  "zeroed t mem \<Longrightarrow> va < length t * 512 \<Longrightarrow> vbyte t mem va = 0"
  by (auto simp: zeroed_def vbyte_def frames_def less_mult_imp_div_less)

section \<open>Properties\<close>


definition demo_noff :: "byte list" where
  "demo_noff = [0xad, 0xdf, 0xba, 0,  0, 0, 0, 0, 40, 0, 0, 0, 4, 0, 0, 0,
     4, 0, 0, 0, 44, 0, 0, 0, 2, 0, 0, 0,  0, 0, 0, 0, 0, 0, 0, 0, 8, 0, 0, 0,  1, 2, 3, 4, 5, 6]"


section \<open>The constructor for open files\<close>

lemma find_pages_alloc:
  "alloc_pages i n bm mem = Inr (r, bm', mem') \<Longrightarrow> find_pages i n bm = Inr (r, bm')"
proof (induction n arbitrary: i bm mem r mem')
  case (Suc n)
  then show ?case by (auto simp: bindR_eq_Inr split: if_splits)
qed simp

lemma load_segment_ok:
  assumes "virtualAddr sg = int va" "seg_size sg = int n" "inFileAddr sg = int pos" "pos + n \<le> length f" "va + n \<le> length mem"
  shows "\<exists>mem'. load_segment f sg mem = Inr mem' \<and> length mem' = length mem \<and>
    (\<forall>a < length mem. mem' ! a = (if va \<le> a \<and> a < va + n then f ! (pos + (a - va)) else mem ! a))"
proof (cases "n = 0")
  case True
  then show ?thesis using assms(2) by (auto simp: load_segment_def)
next
  case False
  let ?bs = "take n (drop pos f)"
  have l: "length ?bs = n" using assms(4) by simp
  have "load_segment f sg mem = mem_write mem va ?bs" using False assms(1-3) by (simp add: load_segment_def load_def read_at_def)
  also have "\<dots> = Inr (take va mem @ ?bs @ drop (va + n) mem)" using assms(5) l by (simp add: mem_write_def)
  finally have e: "load_segment f sg mem = Inr (take va mem @ ?bs @ drop (va + n) mem)" .
  have "(take va mem @ ?bs @ drop (va + n) mem) ! a = (if va \<le> a \<and> a < va + n then f ! (pos + (a - va)) else mem ! a)" if "a < length mem" for a
    using that assms(4,5) l by (auto simp: nth_append)
  then show ?thesis using e assms(4,5) by (intro exI [of _ "take va mem @ ?bs @ drop (va + n) mem"]) simp
qed

text \<open>
  The image of the program is put at the start of main memory, whatever the frames of its pages are: the program finds it only if these are
  the first ones, as they are for the first program, and a program whose frames are there loses its memory.
\<close>

lemma open_file_image:
  assumes bm: "wf_bitmap bm" "capacity bm = 128" and mem: "length mem = 65536"
    and ok: "noff_ok f h" "h = read_header junk f" "virtualAddr (initData h) = seg_size (code h)"
    and fit: "total_size h \<le> (128 - int (card (marked bm))) * 512"
  shows "\<exists>t bm' mem'. AddrSpace_OpenFile junk f bm mem = Inr (Loaded \<lparr>as_pageTable = t, numPages = int (length t)\<rparr>, bm', mem') \<and>
    set (frames t) \<inter> marked bm = {} \<and> (\<forall>a < 65536. mem' ! a = (if a < length t * 512 then start_byte f h a else mem ! a))"
proof -
  define cs ds us ca ia where "cs = nat (seg_size (code h))" and "ds = nat (seg_size (initData h))"
    and "us = nat (seg_size (uninitData h))" and "ca = nat (inFileAddr (code h))" and "ia = nat (inFileAddr (initData h))"
  note defs = cs_def ds_def us_def ca_def ia_def
  have h: "virtualAddr (code h) = int 0" "inFileAddr (code h) = int ca" "seg_size (code h) = int cs" "inFileAddr (initData h) = int ia"
    "seg_size (initData h) = int ds" "seg_size (uninitData h) = int us" "noffMagic h = NOFFMAGIC" "virtualAddr (initData h) = int cs"
    "ca + cs \<le> length f" "ia + ds \<le> length f" using ok(1,3) by (auto simp: noff_ok_def defs)
  have ts: "total_size h = int (cs + ds + us + 1024)" by (simp add: total_size_def h UserStackSize_def)
  obtain np where np: "divRoundUp (int (cs + ds + us + 1024)) PageSize = int np"
    "cs + ds + us + 1024 \<le> np * 512" "np * 512 < cs + ds + us + 1024 + 512" by (rule divRoundUp_page)
  have fit': "int (cs + ds + us + 1024) \<le> 65536 - int (card (marked bm)) * 512" using fit unfolding ts by (simp add: algebra_simps)
  have room: "np + card (marked bm) \<le> 128" and small: "cs + ds + us + 1024 \<le> 65536" using fit' np(3) by linarith+
  have "total_size h mod 2 ^ 32 = total_size h" using small unfolding ts by simp
  then have pages: "divRoundUp ((seg_size (code h) + seg_size (initData h) + seg_size (uninitData h) + UserStackSize) mod 2 ^ 32) PageSize = int np"
    using np(1) ts by (simp add: total_size_def)
  obtain t bm' m0 where t: "alloc_pages 0 np bm mem = Inr (Some t, bm', m0)" "length t = np" "set (frames t) \<inter> marked bm = {}"
    using alloc_pages_ok [OF bm room mem] by blast
  define m1 where "m1 = replicate (np * 512) 0 @ drop (np * 512) mem"
  have z: "mem_write mem 0 (replicate (np * 512) 0) = Inr m1" "length m1 = 65536" using room mem by (simp_all add: mem_write_def m1_def)
  obtain m2 where m2: "load_segment f (code h) m1 = Inr m2" "length m2 = 65536"
    "\<forall>a < 65536. m2 ! a = (if a < cs then f ! (ca + a) else m1 ! a)"
    using load_segment_ok [OF h(1,3,2,9), of m1] z(2) small by auto
  obtain m3 where m3: "load_segment f (initData h) m2 = Inr m3"
    "\<forall>a < 65536. m3 ! a = (if cs \<le> a \<and> a < cs + ds then f ! (ia + (a - cs)) else m2 ! a)"
    using load_segment_ok [OF h(8,5,4,10), of m2] m2(2) small by auto
  have "AddrSpace_OpenFile junk f bm mem = Inr (Loaded \<lparr>as_pageTable = t, numPages = int (length t)\<rparr>, bm', m3)"
    using find_pages_alloc [OF t(1)] t(2) z(1) m2(1) m3(1) h(7) pages room
    by (simp add: AddrSpace_OpenFile_def ok(2) [symmetric] Let_def machine_consts nat_mult_distrib)
  moreover have "m3 ! a = (if a < length t * 512 then start_byte f h a else mem ! a)" if "a < 65536" for a
    using that m3(2) m2(3) np(2) t(2) mem by (auto simp: start_byte_def Let_def defs [symmetric] m1_def nth_append)
  ultimately show ?thesis using t(3) by blast
qed

end
