(* ===== verification/Interrupt.thy ===== *)
theory Interrupt
  imports Prelude LinkedList Machine
begin

text \<open>
  The interrupt simulation of \<^verbatim>\<open>machine/interrupt.{h,cc}\<close>, with the statistics of
  \<^verbatim>\<open>machine/stats.{h,cc}\<close> it keeps. The list of pending interrupts is the sequence that
  the theory \<open>LinkedList\<close> shows the class \<^verbatim>\<open>List\<close> to implement. A handler is a function
  pointer in the code; here it is a value of a type \<open>'h\<close> and a dispatch function \<open>run\<close>,
  so that the interrupt code is independent of the devices. Simulated time is the record
  \<open>Statistics\<close>, as in the code; \<open>'k\<close> is the rest of the kernel's state, which only handlers
  touch.
\<close>

section \<open>State\<close>

datatype IntStatus = IntOff | IntOn
datatype MachineStatus = IdleMode | SystemMode | UserMode
datatype IntType = TimerInt | DiskInt | ConsoleWriteInt | ConsoleReadInt | NetworkSendInt | NetworkRecvInt

record 'h PendingInterrupt =
  handler :: "'h"
  arg :: int
  whn :: int
  ityp :: IntType

record Statistics =
  totalTicks :: int
  idleTicks :: int
  systemTicks :: int
  userTicks :: int
  numDiskReads :: int
  numDiskWrites :: int
  numConsoleCharsRead :: int
  numConsoleCharsWritten :: int
  numPageFaults :: int
  numPacketsSent :: int
  numPacketsRecvd :: int

definition Statistics_Statistics :: Statistics where
  "Statistics_Statistics = \<lparr>totalTicks = 0, idleTicks = 0, systemTicks = 0, userTicks = 0,
     numDiskReads = 0, numDiskWrites = 0, numConsoleCharsRead = 0, numConsoleCharsWritten = 0,
     numPageFaults = 0, numPacketsSent = 0, numPacketsRecvd = 0\<rparr>"

definition UserTick :: int where "UserTick = 1"
definition SystemTick :: int where "SystemTick = 10"
definition RotationTime :: int where "RotationTime = 500"
definition SeekTime :: int where "SeekTime = 500"
definition ConsoleTime :: int where "ConsoleTime = 100"
definition NetworkTime :: int where "NetworkTime = 100"
definition TimerTicks :: int where "TimerTicks = 100"

record ('h, 'k) sim =
  level :: IntStatus
  pending :: "(int \<times> 'h PendingInterrupt) list"
  inHandler :: bool
  yieldOnReturn :: bool
  status :: MachineStatus
  stats :: Statistics
  machine :: "Machine option"
  kern :: "'k"

definition Interrupt_Interrupt :: "Machine option \<Rightarrow> 'k \<Rightarrow> ('h, 'k) sim" where
  "Interrupt_Interrupt m k = \<lparr>level = IntOff, pending = [], inHandler = False,
     yieldOnReturn = False, status = SystemMode, stats = Statistics_Statistics, machine = m,
     kern = k\<rparr>"

abbreviation now :: "('h, 'k) sim \<Rightarrow> int" where
  "now s \<equiv> totalTicks (stats s)"

section \<open>Operations\<close>

definition ChangeLevel :: "IntStatus \<Rightarrow> ('h, 'k) sim \<Rightarrow> ('h, 'k) sim" where
  "ChangeLevel lev s = s\<lparr>level := lev\<rparr>"

definition Schedule :: "'h \<Rightarrow> int \<Rightarrow> int \<Rightarrow> IntType \<Rightarrow> ('h, 'k) sim \<Rightarrow> ('h, 'k) sim result" where
  "Schedule h a fromNow ty s = (let w = now s + fromNow in
     bindR (ASSERT (fromNow > 0)) (\<lambda>_.
     Inr (s\<lparr>pending := seq_insert w \<lparr>handler = h, arg = a, whn = w, ityp = ty\<rparr> (pending s)\<rparr>)))"

text \<open>The second half of \<^verbatim>\<open>CheckIfDue\<close>: the interrupt \<open>p\<close> has been removed and is due.\<close>

definition fire :: "('h \<Rightarrow> int \<Rightarrow> ('h, 'k) sim \<Rightarrow> ('h, 'k) sim result) \<Rightarrow> int \<Rightarrow>
    'h PendingInterrupt \<Rightarrow> ('h, 'k) sim \<Rightarrow> (bool \<times> ('h, 'k) sim) result" where
  "fire run w p s =
     (if status s = IdleMode \<and> ityp p = TimerInt \<and> pending s = []
      then Inr (False, s\<lparr>pending := seq_insert w p (pending s)\<rparr>)
      else bindR (run (handler p) (arg p)
             (s\<lparr>machine := map_option (\<lambda>m. DelayedLoad m 0 0) (machine s),
                inHandler := True, status := SystemMode\<rparr>))
           (\<lambda>s'. Inr (True, s'\<lparr>status := status s, inHandler := False\<rparr>)))"

definition CheckIfDue :: "('h \<Rightarrow> int \<Rightarrow> ('h, 'k) sim \<Rightarrow> ('h, 'k) sim result) \<Rightarrow> bool \<Rightarrow>
    ('h, 'k) sim \<Rightarrow> (bool \<times> ('h, 'k) sim) result" where
  "CheckIfDue run advanceClock s =
     bindR (ASSERT (level s = IntOff)) (\<lambda>_. case pending s of
       [] \<Rightarrow> Inr (False, s)
     | (w, p) # rest \<Rightarrow>
         let s1 = s\<lparr>pending := rest\<rparr> in
         if advanceClock \<and> w > now s then
           fire run w p (s1\<lparr>stats := (stats s)\<lparr>idleTicks := idleTicks (stats s) + (w - now s),
             totalTicks := w\<rparr>\<rparr>)
         else if w > now s then Inr (False, s1\<lparr>pending := seq_insert w p rest\<rparr>)
         else fire run w p s1)"

text \<open>\<^verbatim>\<open>while (CheckIfDue(FALSE)) ;\<close>\<close>

partial_function (option) check_loop :: "('h \<Rightarrow> int \<Rightarrow> ('h, 'k) sim \<Rightarrow> ('h, 'k) sim result) \<Rightarrow>
    ('h, 'k) sim \<Rightarrow> ('h, 'k) sim result option" where
  "check_loop run s = (case CheckIfDue run False s of
     Inl e \<Rightarrow> Some (Inl e)
   | Inr (b, s') \<Rightarrow> if b then check_loop run s' else Some (Inr s'))"

definition tick :: "('h, 'k) sim \<Rightarrow> ('h, 'k) sim" where
  "tick s = (if status s = SystemMode
     then s\<lparr>stats := (stats s)\<lparr>totalTicks := now s + SystemTick,
            systemTicks := systemTicks (stats s) + SystemTick\<rparr>\<rparr>
     else s\<lparr>stats := (stats s)\<lparr>totalTicks := now s + UserTick,
            userTicks := userTicks (stats s) + UserTick\<rparr>\<rparr>)"

text \<open>
  \<^verbatim>\<open>OneTick\<close>. The flag of the result says that a handler asked for a context switch: the
  code then goes on with \<^verbatim>\<open>status = SystemMode; currentThread->Yield(); status = old\<close>.
\<close>

definition OneTick :: "('h \<Rightarrow> int \<Rightarrow> ('h, 'k) sim \<Rightarrow> ('h, 'k) sim result) \<Rightarrow>
    ('h, 'k) sim \<Rightarrow> (bool \<times> ('h, 'k) sim) result option" where
  "OneTick run s =
     (case check_loop run (ChangeLevel IntOff (tick s)) of
        None \<Rightarrow> None
      | Some (Inl e) \<Rightarrow> Some (Inl e)
      | Some (Inr s1) \<Rightarrow>
          let s2 = ChangeLevel IntOn s1 in
          Some (Inr (if yieldOnReturn s2
            then (True, s2\<lparr>yieldOnReturn := False, status := SystemMode\<rparr>) else (False, s2))))"

definition SetLevel :: "('h \<Rightarrow> int \<Rightarrow> ('h, 'k) sim \<Rightarrow> ('h, 'k) sim result) \<Rightarrow> IntStatus \<Rightarrow>
    ('h, 'k) sim \<Rightarrow> (IntStatus \<times> bool \<times> ('h, 'k) sim) result option" where
  "SetLevel run nw s =
     (if \<not> (nw = IntOff \<or> \<not> inHandler s) then Some (Inl AssertFailed)
      else let old = level s; s1 = ChangeLevel nw s in
        if nw = IntOn \<and> old = IntOff then
          (case OneTick run s1 of None \<Rightarrow> None
           | Some (Inl e) \<Rightarrow> Some (Inl e) | Some (Inr (y, s2)) \<Rightarrow> Some (Inr (old, y, s2)))
        else Some (Inr (old, False, s1)))"

definition Enable :: "('h \<Rightarrow> int \<Rightarrow> ('h, 'k) sim \<Rightarrow> ('h, 'k) sim result) \<Rightarrow>
    ('h, 'k) sim \<Rightarrow> (IntStatus \<times> bool \<times> ('h, 'k) sim) result option" where
  "Enable run s = SetLevel run IntOn s"

definition YieldOnReturn :: "('h, 'k) sim \<Rightarrow> ('h, 'k) sim result" where
  "YieldOnReturn s = bindR (ASSERT (inHandler s)) (\<lambda>_. Inr (s\<lparr>yieldOnReturn := True\<rparr>))"

text \<open>\<^verbatim>\<open>Idle\<close> returns (\<open>False\<close>), or halts the machine (\<open>True\<close>).\<close>

definition Idle :: "('h \<Rightarrow> int \<Rightarrow> ('h, 'k) sim \<Rightarrow> ('h, 'k) sim result) \<Rightarrow>
    ('h, 'k) sim \<Rightarrow> (bool \<times> ('h, 'k) sim) result option" where
  "Idle run s =
     (case CheckIfDue run True (s\<lparr>status := IdleMode\<rparr>) of
        Inl e \<Rightarrow> Some (Inl e)
      | Inr (fired, s1) \<Rightarrow>
          if fired then
            (case check_loop run s1 of None \<Rightarrow> None | Some (Inl e) \<Rightarrow> Some (Inl e)
             | Some (Inr s2) \<Rightarrow>
                 Some (Inr (False, s2\<lparr>yieldOnReturn := False, status := SystemMode\<rparr>)))
          else Some (Inr (True, s1)))"

section \<open>Invariant\<close>

definition ticks_of :: "('h, 'k) sim \<Rightarrow> int \<times> int \<times> int \<times> int" where
  "ticks_of s = (totalTicks (stats s), idleTicks (stats s), systemTicks (stats s), userTicks (stats s))"

definition wf_sim :: "('h, 'k) sim \<Rightarrow> bool" where
  "wf_sim s \<longleftrightarrow> sorted (map fst (pending s)) \<and> (\<forall>(w, p)\<in>set (pending s). whn p = w) \<and>
     totalTicks (stats s) = idleTicks (stats s) + systemTicks (stats s) + userTicks (stats s)"

definition due :: "('h, 'k) sim \<Rightarrow> nat" where
  "due s = length (filter (\<lambda>x. fst x \<le> now s) (pending s))"

definition insert_list :: "(int \<times> 'a) list \<Rightarrow> (int \<times> 'a) list \<Rightarrow> (int \<times> 'a) list" where
  "insert_list new xs = fold (\<lambda>x. seq_insert (fst x) (snd x)) new xs"

lemma mset_seq_insert [simp]: "mset (seq_insert k x xs) = add_mset (k, x) (mset xs)"
proof -
  have "mset (takeWhile (\<lambda>y. fst y \<le> k) xs) + mset (dropWhile (\<lambda>y. fst y \<le> k) xs) = mset xs"
    by (metis mset_append takeWhile_dropWhile_id)
  then show ?thesis by (simp add: seq_insert_def)
qed

lemma set_seq_insert [simp]: "set (seq_insert k x xs) = insert (k, x) (set xs)"
  using mset_seq_insert [of k x xs] by (metis set_mset_add_mset_insert set_mset_mset)

lemma insert_list_mset: "mset (insert_list new xs) = mset new + mset xs"
  by (induction new arbitrary: xs) (auto simp: insert_list_def)

lemma insert_list_sorted: "sorted (map fst xs) \<Longrightarrow> sorted (map fst (insert_list new xs))"
  by (induction new arbitrary: xs) (auto simp: insert_list_def sorted_seq_insert)

lemma due_mset: "due s = size {#x \<in># mset (pending s). fst x \<le> now s#}"
  by (simp add: due_def flip: size_mset mset_filter)

text \<open>
  What the interrupt code relies on from a device's handler: it runs with interrupts off and
  inside a handler, does not touch the clock, the level or the scheduled interrupts, and
  what it schedules lies in the future.
\<close>

definition handler_frame :: "('h, 'k) sim \<Rightarrow> ('h, 'k) sim \<Rightarrow> bool" where
  "handler_frame s s' \<longleftrightarrow> ticks_of s' = ticks_of s \<and> level s' = level s \<and> machine s' = machine s \<and>
     (\<exists>new. pending s' = insert_list new (pending s) \<and>
       (\<forall>(w, p)\<in>set new. now s < w \<and> whn p = w))"

lemma frame_refl: "ticks_of s' = ticks_of s \<Longrightarrow> level s' = level s \<Longrightarrow> pending s' = pending s \<Longrightarrow>
  machine s' = machine s \<Longrightarrow>
  handler_frame s s'"
  by (auto simp: handler_frame_def insert_list_def intro: exI [of _ "[]"])

lemma frame_trans:
  assumes "handler_frame s s1" and "handler_frame s1 s2"
  shows "handler_frame s s2"
proof -
  from assms obtain n1 n2 where n: "pending s1 = insert_list n1 (pending s)"
    "pending s2 = insert_list n2 (pending s1)" "\<forall>(w, p)\<in>set n1. now s < w \<and> whn p = w"
    "\<forall>(w, p)\<in>set n2. now s1 < w \<and> whn p = w" "now s1 = now s"
    by (auto simp: handler_frame_def ticks_of_def)
  have "pending s2 = insert_list (n1 @ n2) (pending s)" using n by (simp add: insert_list_def)
  moreover have "\<forall>(w, p)\<in>set (n1 @ n2). now s < w \<and> whn p = w" using n by auto
  ultimately have "\<exists>new. pending s2 = insert_list new (pending s) \<and>
      (\<forall>(w, p)\<in>set new. now s < w \<and> whn p = w)" by blast
  with assms show ?thesis by (simp add: handler_frame_def)
qed

lemma frame_Schedule:
  assumes "fromNow > 0"
  shows "\<exists>s'. Schedule h a fromNow ty s = Inr s' \<and> handler_frame s s' \<and> inHandler s' = inHandler s \<and>
    status s' = status s \<and> kern s' = kern s"
  using assms
  by (auto simp: Schedule_def handler_frame_def ticks_of_def insert_list_def Let_def
      intro!: exI [of _ "[(now s + fromNow, \<lparr>handler = h, arg = a, whn = now s + fromNow, ityp = ty\<rparr>)]"])

lemma frame_wf: "handler_frame s s' \<Longrightarrow> wf_sim s \<Longrightarrow> wf_sim s'"
proof -
  assume f: "handler_frame s s'" and wf: "wf_sim s"
  from f obtain new where n: "pending s' = insert_list new (pending s)"
    "\<forall>(w, p)\<in>set new. now s < w \<and> whn p = w" "ticks_of s' = ticks_of s"
    by (auto simp: handler_frame_def)
  have "set (pending s') = set new \<union> set (pending s)"
    unfolding n(1) using insert_list_mset [of new "pending s"] by (metis set_mset_mset set_mset_union)
  with n wf show ?thesis
    by (fastforce simp: wf_sim_def ticks_of_def insert_list_sorted)
qed

lemma frame_due: "handler_frame s s' \<Longrightarrow> due s' = due s"
proof -
  assume f: "handler_frame s s'"
  then obtain new where n: "pending s' = insert_list new (pending s)"
    "\<forall>(w, p)\<in>set new. now s < w \<and> whn p = w" "now s' = now s"
    by (auto simp: handler_frame_def ticks_of_def)
  have "filter (\<lambda>x. fst x \<le> now s) new = []" using n(2) by (fastforce simp: filter_empty_conv)
  then have "{#x \<in># mset new. fst x \<le> now s#} = {#}" by (metis mset.simps(1) mset_filter)
  then show ?thesis by (simp add: due_mset n insert_list_mset)
qed

lemma frame_future:
  "handler_frame s s' \<Longrightarrow> {#x \<in># mset (pending s). now s < fst x#} \<subseteq># {#x \<in># mset (pending s'). now s' < fst x#}"
  by (auto simp: handler_frame_def ticks_of_def insert_list_mset)


definition future :: "('h, 'k) sim \<Rightarrow> (int \<times> 'h PendingInterrupt) multiset" where
  "future s = {#x \<in># mset (pending s). now s < fst x#}"

definition lone_timer :: "('h, 'k) sim \<Rightarrow> bool" where
  "lone_timer s \<longleftrightarrow> status s = IdleMode \<and> (\<exists>w p. pending s = [(w, p)] \<and> ityp p = TimerInt)"

text \<open>Handlers leave the processor alone, but for the delayed load that an interrupt completes.\<close>

definition cpu_shape :: "Machine option \<Rightarrow> (nat \<times> Machine) option" where
  "cpu_shape mo = map_option (\<lambda>m. (length (registers m), m\<lparr>registers := []\<rparr>)) mo"

lemma cpu_shape_DelayedLoad [simp]:
  "cpu_shape (map_option (\<lambda>m. DelayedLoad m a b) mo) = cpu_shape mo"
  by (cases mo) (simp_all add: cpu_shape_def DelayedLoad_def set_reg_def Let_def)

text \<open>
  The effect of firing interrupts, apart from the interrupts that fire: time stands still,
  interrupts stay off, what is not due stays pending. The kernel's state moves along \<open>ok\<close>.
\<close>

definition quiet :: "('k \<Rightarrow> 'k \<Rightarrow> bool) \<Rightarrow> ('h, 'k) sim \<Rightarrow> ('h, 'k) sim \<Rightarrow> bool" where
  "quiet ok s s' \<longleftrightarrow> wf_sim s' \<and> level s' = IntOff \<and> ticks_of s' = ticks_of s \<and> status s' = status s \<and>
     (inHandler s' \<longrightarrow> inHandler s) \<and> cpu_shape (machine s') = cpu_shape (machine s) \<and>
     ok (kern s) (kern s') \<and> future s \<subseteq># future s'"

lemma wf_sim_tl: "wf_sim s \<Longrightarrow> pending s = x # rest \<Longrightarrow> wf_sim (s\<lparr>pending := rest\<rparr>)"
  by (auto simp: wf_sim_def)

locale device_handlers =
  fixes run :: "'h \<Rightarrow> int \<Rightarrow> ('h, 'k) sim \<Rightarrow> ('h, 'k) sim result"
    and ok :: "'k \<Rightarrow> 'k \<Rightarrow> bool"
  assumes ok_trans: "ok k1 k2 \<Longrightarrow> ok k2 k3 \<Longrightarrow> ok k1 k3"
    and ok_right: "ok k1 k2 \<Longrightarrow> ok k2 k2"
    and run_frame: "level s = IntOff \<Longrightarrow> inHandler s \<Longrightarrow> status s = SystemMode \<Longrightarrow> ok (kern s) (kern s) \<Longrightarrow>
      \<exists>s'. run h a s = Inr s' \<and> handler_frame s s' \<and> ok (kern s) (kern s')"
begin

lemma quiet_trans: "quiet ok s s1 \<Longrightarrow> quiet ok s1 s2 \<Longrightarrow> quiet ok s s2"
  by (auto simp: quiet_def intro: ok_trans)

lemma fire_ok:
  assumes wf: "wf_sim s" and lev: "level s = IntOff" and k: "ok (kern s) (kern s)"
    and nl: "\<not> (status s = IdleMode \<and> ityp p = TimerInt \<and> pending s = [])"
  shows "\<exists>s'. fire run w p s = Inr (True, s') \<and> quiet ok s s' \<and> due s' = due s"
proof -
  let ?s = "s\<lparr>machine := map_option (\<lambda>m. DelayedLoad m 0 0) (machine s), inHandler := True,
    status := SystemMode\<rparr>"
  obtain s1 where s1: "run (handler p) (arg p) ?s = Inr s1" "handler_frame ?s s1" "ok (kern s) (kern s1)"
    using run_frame [of ?s "handler p" "arg p"] lev k by auto
  have wf1: "wf_sim s1" using frame_wf [OF s1(2)] wf by (simp add: wf_sim_def)
  have d: "due s1 = due s" using frame_due [OF s1(2)] by (simp add: due_def)
  have fu: "future s \<subseteq># future s1" using frame_future [OF s1(2)] by (simp add: future_def)
  have fr: "level s1 = IntOff" "ticks_of s1 = ticks_of s" "cpu_shape (machine s1) = cpu_shape (machine s)"
    using s1(2) lev by (auto simp: handler_frame_def ticks_of_def)
  let ?s' = "s1\<lparr>status := status s, inHandler := False\<rparr>"
  have "fire run w p s = Inr (True, ?s')" using nl s1(1) by (simp add: fire_def)
  moreover have "quiet ok s ?s' \<and> due ?s' = due s"
    using wf1 d fu fr s1(3) by (simp add: quiet_def wf_sim_def due_def future_def ticks_of_def)
  ultimately show ?thesis by blast
qed

lemma CheckIfDue_ok:
  assumes wf: "wf_sim s" and lev: "level s = IntOff" and k: "ok (kern s) (kern s)"
  shows "\<exists>b s'. CheckIfDue run False s = Inr (b, s') \<and> quiet ok s s' \<and>
    (if b then due s = Suc (due s')
     else mset (pending s') = mset (pending s) \<and> (due s = 0 \<or> lone_timer s))"
proof (cases "pending s")
  case Nil
  with wf lev k show ?thesis by (auto simp: CheckIfDue_def quiet_def due_def)
next
  case (Cons x rest)
  obtain w p where x: "x = (w, p)" by (cases x)
  let ?s1 = "s\<lparr>pending := rest\<rparr>"
  have wf1: "wf_sim ?s1" using wf Cons by (rule wf_sim_tl)
  show ?thesis
  proof (cases "w > now s")
    case True
    let ?s2 = "s\<lparr>pending := seq_insert w p rest\<rparr>"
    have m: "mset (pending ?s2) = mset (pending s)" by (simp add: Cons x)
    have "\<forall>y\<in>set (pending s). now s < fst y"
      using wf Cons x True by (fastforce simp: wf_sim_def)
    then have "due s = 0" by (auto simp: due_def filter_empty_conv not_le)
    moreover have "wf_sim ?s2"
      using wf wf1 Cons x by (auto simp: wf_sim_def intro: sorted_seq_insert)
    then have "quiet ok s ?s2"
      using lev m k by (simp add: quiet_def future_def ticks_of_def)
    ultimately show ?thesis
      using Cons x True lev m by (auto simp: CheckIfDue_def Let_def)
  next
    case False
    have d: "due s = Suc (due ?s1)" using Cons x False by (simp add: due_def)
    have C: "CheckIfDue run False s = fire run w p ?s1"
      using Cons x False lev by (simp add: CheckIfDue_def Let_def)
    show ?thesis
    proof (cases "status s = IdleMode \<and> ityp p = TimerInt \<and> rest = []")
      case True
      then have "CheckIfDue run False s = Inr (False, s\<lparr>pending := seq_insert w p rest\<rparr>)"
        using C by (simp add: fire_def)
      moreover have "s\<lparr>pending := seq_insert w p rest\<rparr> = s"
        using True Cons x by (simp add: seq_insert_def)
      ultimately show ?thesis
        using True Cons x wf lev k by (auto simp: quiet_def lone_timer_def)
    next
      case False
      then obtain s' where s': "fire run w p ?s1 = Inr (True, s')" "quiet ok ?s1 s'" "due s' = due ?s1"
        using fire_ok [OF wf1, of p w] lev k by auto
      have "future s = future ?s1"
        using Cons x \<open>\<not> w > now s\<close> by (simp add: future_def)
      with s' C d show ?thesis by (auto simp: quiet_def ticks_of_def)
    qed
  qed
qed

lemma check_loop_ok:
  "wf_sim s \<Longrightarrow> level s = IntOff \<Longrightarrow> ok (kern s) (kern s) \<Longrightarrow>
   \<exists>s'. check_loop run s = Some (Inr s') \<and> quiet ok s s' \<and> (due s' = 0 \<or> lone_timer s')"
proof (induction "due s" arbitrary: s rule: less_induct)
  case less
  obtain b s1 where C: "CheckIfDue run False s = Inr (b, s1)" "quiet ok s s1"
    "if b then due s = Suc (due s1) else mset (pending s1) = mset (pending s) \<and> (due s = 0 \<or> lone_timer s)"
    using CheckIfDue_ok [OF less.prems] by blast
  show ?case
  proof (cases b)
    case True
    then obtain s2 where "check_loop run s1 = Some (Inr s2)" "quiet ok s1 s2" "due s2 = 0 \<or> lone_timer s2"
      using less.hyps [of s1] C ok_right by (auto simp: quiet_def)
    with True C show ?thesis by (subst check_loop.simps) (auto intro: quiet_trans)
  next
    case False
    then have "due s1 = due s" using C by (simp add: due_mset quiet_def ticks_of_def)
    moreover have "lone_timer s \<Longrightarrow> lone_timer s1"
      using False C by (auto simp: lone_timer_def quiet_def)
    ultimately show ?thesis using False C by (subst check_loop.simps) auto
  qed
qed

lemma tick_wf: "wf_sim s \<Longrightarrow> wf_sim (ChangeLevel IntOff (tick s))"
  by (auto simp: wf_sim_def tick_def ChangeLevel_def)

lemma OneTick_ok:
  assumes wf: "wf_sim s" and st: "status s \<noteq> IdleMode" and k: "ok (kern s) (kern s)"
  shows "\<exists>y s'. OneTick run s = Some (Inr (y, s')) \<and> wf_sim s' \<and> level s' = IntOn \<and>
    \<not> yieldOnReturn s' \<and> (y \<longrightarrow> status s' = SystemMode) \<and> (\<not> y \<longrightarrow> status s' = status s) \<and>
    now s' = now s + (if status s = SystemMode then SystemTick else UserTick) \<and>
    (inHandler s' \<longrightarrow> inHandler s) \<and> cpu_shape (machine s') = cpu_shape (machine s) \<and> ok (kern s) (kern s') \<and>
    due s' = 0 \<and> {#x \<in># mset (pending s). now s' < fst x#} \<subseteq># mset (pending s')"
proof -
  let ?t = "ChangeLevel IntOff (tick s)"
  have t: "status ?t = status s" "pending ?t = pending s" "level ?t = IntOff" "kern ?t = kern s"
    "machine ?t = machine s" "inHandler ?t = inHandler s"
    "now ?t = now s + (if status s = SystemMode then SystemTick else UserTick)"
    by (auto simp: ChangeLevel_def tick_def)
  obtain s1 where s1: "check_loop run ?t = Some (Inr s1)" "quiet ok ?t s1" "due s1 = 0 \<or> lone_timer s1"
    using check_loop_ok [OF tick_wf [OF wf]] t(3,4) k by auto
  have "due s1 = 0" using s1(2,3) st t(1) by (auto simp: lone_timer_def quiet_def)
  moreover have "now s1 = now ?t" using s1(2) by (simp add: quiet_def ticks_of_def)
  moreover have "{#x \<in># mset (pending s). now s1 < fst x#} \<subseteq># mset (pending s1)"
    using s1(2) t(2) calculation(2)
    by (auto simp: quiet_def future_def intro: subset_mset.order_trans [OF _ multiset_filter_subset])
  ultimately show ?thesis
    using s1 t by (auto simp: OneTick_def quiet_def ChangeLevel_def wf_sim_def due_def Let_def)
qed

text \<open>The machine idles: the clock jumps to the first pending interrupt, or the machine halts.\<close>

lemma Idle_halts:
  assumes "level s = IntOff" and "pending s = [] \<or> (\<exists>w p. pending s = [(w, p)] \<and> ityp p = TimerInt)"
  shows "\<exists>s'. Idle run s = Some (Inr (True, s'))"
  using assms by (auto simp: Idle_def CheckIfDue_def fire_def Let_def)

lemma Idle_returns:
  assumes wf: "wf_sim s" and lev: "level s = IntOff" and k: "ok (kern s) (kern s)" and pen: "pending s = (w, p) # rest"
    and nt: "ityp p \<noteq> TimerInt \<or> rest \<noteq> []"
  shows "\<exists>s'. Idle run s = Some (Inr (False, s')) \<and> wf_sim s' \<and> level s' = IntOff \<and>
    now s' = max (now s) w \<and> status s' = SystemMode \<and> \<not> yieldOnReturn s' \<and>
    (inHandler s' \<longrightarrow> inHandler s) \<and> cpu_shape (machine s') = cpu_shape (machine s) \<and> ok (kern s) (kern s') \<and>
    idleTicks (stats s') = idleTicks (stats s) + max 0 (w - now s)"
proof -
  let ?i = "s\<lparr>status := IdleMode, pending := rest,
    stats := (stats s)\<lparr>idleTicks := idleTicks (stats s) + max 0 (w - now s), totalTicks := max (now s) w\<rparr>\<rparr>"
  have C: "CheckIfDue run True (s\<lparr>status := IdleMode\<rparr>) = fire run w p ?i"
    using lev pen by (auto simp: CheckIfDue_def Let_def max_def)
  have "wf_sim ?i" using wf pen by (auto simp: wf_sim_def max_def)
  then obtain s1 where s1: "fire run w p ?i = Inr (True, s1)" "quiet ok ?i s1"
    using fire_ok [of ?i p w] lev nt k by auto
  then obtain s2 where s2: "check_loop run s1 = Some (Inr s2)" "quiet ok s1 s2"
    using check_loop_ok [of s1] ok_right by (auto simp: quiet_def)
  have "quiet ok ?i s2" using s1(2) s2(2) by (rule quiet_trans)
  then show ?thesis
    using C s1(1) s2(1) by (auto simp: Idle_def quiet_def ticks_of_def wf_sim_def)
qed

end

end
