(* ===== verification/Threads.thy ===== *)
theory Threads
  imports Interrupt AddrSpace
begin

text \<open>
  Threads, the scheduler and semaphores: \<^verbatim>\<open>threads/thread.{h,cc}\<close>, \<^verbatim>\<open>threads/scheduler.cc\<close>,
  \<^verbatim>\<open>threads/synch.{h,cc}\<close>. The host stack of a thread is the list of the kernel kstack it is
  in: what the code still has to do when the calls it is in return. \<^verbatim>\<open>SWITCH\<close> suspends the
  running thread inside \<^verbatim>\<open>Scheduler::Run\<close> and goes on with the kstack of the other one. A
  step of the kernel runs the top frame of the current thread up to the next call that may
  switch; at the bottom is the thread's own code (\<open>Body\<close>), which may make any kernel call.
  Addresses of threads and semaphores are numbers.
\<close>

section \<open>State\<close>

type_synonym tid = nat
type_synonym sid = nat

datatype ThreadStatus = JUST_CREATED | RUNNING | READY | BLOCKED

datatype kframe =
    Body                       \<comment> \<open>the thread's own function\<close>
  | Startup                    \<comment> \<open>\<^verbatim>\<open>ThreadRoot\<close>: \<^verbatim>\<open>InterruptEnable\<close> comes first\<close>
  | RunTail                    \<comment> \<open>\<^verbatim>\<open>Scheduler::Run\<close> after \<^verbatim>\<open>SWITCH\<close>\<close>
  | Restore IntStatus          \<comment> \<open>\<^verbatim>\<open>(void) interrupt->SetLevel(oldLevel)\<close>\<close>
  | OldStatus MachineStatus    \<comment> \<open>\<^verbatim>\<open>status = old\<close> at the end of \<^verbatim>\<open>OneTick\<close>\<close>
  | InP sid IntStatus          \<comment> \<open>the loop of \<^verbatim>\<open>Semaphore::P\<close>\<close>
  | SleepLoop                  \<comment> \<open>the loop of \<^verbatim>\<open>Thread::Sleep\<close>\<close>

definition STACK_FENCEPOST :: u32 where "STACK_FENCEPOST = 0xdeadbeef"

text \<open>\<open>stack\<close> is the word at the end of the stack, if a stack is allocated.\<close>

record Thread =
  tname :: string
  tstatus :: ThreadStatus
  threadID :: int
  stack :: "u32 option"
  userRegisters :: "u32 list"
  space :: "AddrSpace option"
  kstack :: "kframe list"

record Semaphore =
  sname :: string
  svalue :: int
  queue :: "tid list"

record kernel =
  threads :: "tid \<Rightarrow> Thread option"
  currentThread :: tid
  toBeDestroyed :: "tid option"
  readyList :: "tid list"
  sems :: "sid \<Rightarrow> Semaphore option"

type_synonym ('h, 'a) ksim = "('h, 'a kernel_scheme) sim"
type_synonym ('h, 'a) handlers = "'h \<Rightarrow> int \<Rightarrow> ('h, 'a) ksim \<Rightarrow> ('h, 'a) ksim result"

fun bindO :: "'a result option \<Rightarrow> ('a \<Rightarrow> 'b result option) \<Rightarrow> 'b result option" where
  "bindO None f = None"
| "bindO (Some (Inl e)) f = Some (Inl e)"
| "bindO (Some (Inr x)) f = f x"

definition no_halt :: "'a result option \<Rightarrow> (bool \<times> 'a) result option" where
  "no_halt r = bindO r (\<lambda>s. Some (Inr (False, s)))"

section \<open>Threads\<close>

definition get_thread :: "'a kernel_scheme \<Rightarrow> tid \<Rightarrow> Thread result" where
  "get_thread k t = (case threads k t of None \<Rightarrow> Inl BadPointer | Some x \<Rightarrow> Inr x)"

definition upd_thread :: "tid \<Rightarrow> (Thread \<Rightarrow> Thread) \<Rightarrow> 'a kernel_scheme \<Rightarrow> 'a kernel_scheme result" where
  "upd_thread t f k = bindR (get_thread k t) (\<lambda>x. Inr (k\<lparr>threads := (threads k)(t \<mapsto> f x)\<rparr>))"

definition on_kern :: "('a kernel_scheme \<Rightarrow> 'a kernel_scheme result) \<Rightarrow> ('h, 'a) ksim \<Rightarrow> ('h, 'a) ksim result" where
  "on_kern f s = bindR (f (kern s)) (\<lambda>k. Inr (s\<lparr>kern := k\<rparr>))"

definition push :: "kframe \<Rightarrow> 'a kernel_scheme \<Rightarrow> 'a kernel_scheme result" where
  "push fr k = upd_thread (currentThread k) (\<lambda>x. x\<lparr>kstack := fr # kstack x\<rparr>) k"

definition pop :: "'a kernel_scheme \<Rightarrow> 'a kernel_scheme result" where
  "pop k = upd_thread (currentThread k) (\<lambda>x. x\<lparr>kstack := tl (kstack x)\<rparr>) k"

text \<open>The constructors; \<open>junk\<close> is what the uninitialised register array holds.\<close>

definition Thread_Thread :: "u32 list \<Rightarrow> string \<Rightarrow> int \<Rightarrow> Thread" where
  "Thread_Thread junk name i = \<lparr>tname = name, tstatus = JUST_CREATED, threadID = i, stack = None,
     userRegisters = junk, space = None, kstack = []\<rparr>"

definition StackAllocate :: "Thread \<Rightarrow> Thread" where
  "StackAllocate x = x\<lparr>stack := Some STACK_FENCEPOST, kstack := [Startup, Body]\<rparr>"

definition CheckOverflow :: "Thread \<Rightarrow> unit result" where
  "CheckOverflow x = ASSERT (case stack x of None \<Rightarrow> True | Some w \<Rightarrow> w = STACK_FENCEPOST)"

definition delete_thread :: "tid \<Rightarrow> 'a kernel_scheme \<Rightarrow> 'a kernel_scheme result" where
  "delete_thread t k = bindR (get_thread k t) (\<lambda>_.
     bindR (ASSERT (t \<noteq> currentThread k)) (\<lambda>_. Inr (k\<lparr>threads := (threads k)(t := None)\<rparr>)))"

fun save_regs :: "Machine \<Rightarrow> nat \<Rightarrow> u32 list result" where
  "save_regs m 0 = Inr []"
| "save_regs m (Suc n) = bindR (save_regs m n) (\<lambda>rs.
     bindR (ReadRegister m (int n)) (\<lambda>v. Inr (rs @ [v])))"

fun restore_regs :: "u32 list \<Rightarrow> nat \<Rightarrow> Machine \<Rightarrow> Machine result" where
  "restore_regs rs 0 m = Inr m"
| "restore_regs rs (Suc n) m = bindR (restore_regs rs n m) (\<lambda>m'.
     bindR (rd rs (int n)) (\<lambda>v. WriteRegister m' (int n) v))"

definition get_machine :: "('h, 'k) sim \<Rightarrow> Machine result" where
  "get_machine s = (case machine s of None \<Rightarrow> Inl BadPointer | Some m \<Rightarrow> Inr m)"

definition SaveUserState :: "tid \<Rightarrow> ('h, 'a) ksim \<Rightarrow> ('h, 'a) ksim result" where
  "SaveUserState t s = bindR (get_machine s) (\<lambda>m.
     bindR (save_regs m NumTotalRegs) (\<lambda>rs. on_kern (upd_thread t (\<lambda>x. x\<lparr>userRegisters := rs\<rparr>)) s))"

definition RestoreUserState :: "tid \<Rightarrow> ('h, 'a) ksim \<Rightarrow> ('h, 'a) ksim result" where
  "RestoreUserState t s = bindR (get_machine s) (\<lambda>m. bindR (get_thread (kern s) t) (\<lambda>x.
     bindR (restore_regs (userRegisters x) NumTotalRegs m) (\<lambda>m'. Inr (s\<lparr>machine := Some m'\<rparr>))))"

section \<open>The scheduler\<close>

definition ReadyToRun :: "tid \<Rightarrow> 'a kernel_scheme \<Rightarrow> 'a kernel_scheme result" where
  "ReadyToRun t k = bindR (upd_thread t (\<lambda>x. x\<lparr>tstatus := READY\<rparr>) k)
     (\<lambda>k'. Inr (k'\<lparr>readyList := readyList k' @ [t]\<rparr>))"

definition FindNextToRun :: "'a kernel_scheme \<Rightarrow> tid option \<times> 'a kernel_scheme" where
  "FindNextToRun k = (case readyList k of [] \<Rightarrow> (None, k) | t # ts \<Rightarrow> (Some t, k\<lparr>readyList := ts\<rparr>))"

text \<open>
  \<^verbatim>\<open>Scheduler::Run\<close> up to \<^verbatim>\<open>SWITCH\<close>: the old thread is left in the frame \<open>RunTail\<close>.
  \<^verbatim>\<open>SaveState\<close> of the address space has an empty body.
\<close>

definition Run_thread :: "tid \<Rightarrow> ('h, 'a) ksim \<Rightarrow> ('h, 'a) ksim result" where
  "Run_thread nxtT s = (let old = currentThread (kern s) in
     bindR (get_thread (kern s) old) (\<lambda>x.
     bindR (if space x \<noteq> None then SaveUserState old s else Inr s) (\<lambda>s1.
     bindR (CheckOverflow x) (\<lambda>_.
     bindR (on_kern (push RunTail) s1) (\<lambda>s2.
     on_kern (upd_thread nxtT (\<lambda>x. x\<lparr>tstatus := RUNNING\<rparr>))
       (s2\<lparr>kern := (kern s2)\<lparr>currentThread := nxtT\<rparr>\<rparr>))))))"

text \<open>\<^verbatim>\<open>Scheduler::Run\<close> after \<^verbatim>\<open>SWITCH\<close>.\<close>

definition run_tail :: "('h, 'a) ksim \<Rightarrow> ('h, 'a) ksim result" where
  "run_tail s =
     bindR (case toBeDestroyed (kern s) of None \<Rightarrow> Inr s
        | Some t \<Rightarrow> on_kern (\<lambda>k. bindR (delete_thread t k) (\<lambda>k'. Inr (k'\<lparr>toBeDestroyed := None\<rparr>))) s) (\<lambda>s1.
     bindR (get_thread (kern s1) (currentThread (kern s1))) (\<lambda>x.
     case space x of None \<Rightarrow> Inr s1
     | Some sp \<Rightarrow> bindR (RestoreUserState (currentThread (kern s1)) s1) (\<lambda>s2.
         Inr (s2\<lparr>machine := map_option (AddrSpace_RestoreState sp) (machine s2)\<rparr>))))"

section \<open>Thread switching calls\<close>

definition Yield :: "('h, 'a) handlers \<Rightarrow> ('h, 'a) ksim \<Rightarrow> ('h, 'a) ksim result option" where
  "Yield run s = bindO (SetLevel run IntOff s) (\<lambda>(oldLevel, _, s1). Some (
     let cur = currentThread (kern s1) in
     case FindNextToRun (kern s1) of
       (None, k) \<Rightarrow> on_kern (push (Restore oldLevel)) s1
     | (Some t, k) \<Rightarrow> bindR (bindR (ReadyToRun cur k) (push (Restore oldLevel)))
         (\<lambda>k'. Run_thread t (s1\<lparr>kern := k'\<rparr>))))"

text \<open>\<^verbatim>\<open>SetLevel\<close> as threads call it: \<^verbatim>\<open>OneTick\<close> inside it may end with a \<^verbatim>\<open>Yield\<close>.\<close>

definition set_level :: "('h, 'a) handlers \<Rightarrow> IntStatus \<Rightarrow> ('h, 'a) ksim \<Rightarrow> ('h, 'a) ksim result option" where
  "set_level run l s = bindO (SetLevel run l s) (\<lambda>(_, y, s1).
     if y then bindO (Some (on_kern (push (OldStatus (status s))) s1)) (Yield run) else Some (Inr s1))"

definition one_tick :: "('h, 'a) handlers \<Rightarrow> ('h, 'a) ksim \<Rightarrow> ('h, 'a) ksim result option" where
  "one_tick run s = bindO (OneTick run s) (\<lambda>(y, s1).
     if y then bindO (Some (on_kern (push (OldStatus (status s))) s1)) (Yield run) else Some (Inr s1))"

definition Sleep :: "('h, 'a) ksim \<Rightarrow> ('h, 'a) ksim result" where
  "Sleep s = bindR (ASSERT (level s = IntOff)) (\<lambda>_.
     on_kern (\<lambda>k. bindR (upd_thread (currentThread k) (\<lambda>x. x\<lparr>tstatus := BLOCKED\<rparr>) k) (push SleepLoop)) s)"

text \<open>One round of the loop in \<^verbatim>\<open>Sleep\<close>; the flag says that \<^verbatim>\<open>Idle\<close> has halted the machine.\<close>

definition sleep_round :: "('h, 'a) handlers \<Rightarrow> ('h, 'a) ksim \<Rightarrow> (bool \<times> ('h, 'a) ksim) result option" where
  "sleep_round run s = (case FindNextToRun (kern s) of
     (None, k) \<Rightarrow> Idle run s
   | (Some t, k) \<Rightarrow> no_halt (Some (bindR (on_kern pop (s\<lparr>kern := k\<rparr>)) (Run_thread t))))"

text \<open>\<^verbatim>\<open>Finish\<close> never comes back from \<^verbatim>\<open>Sleep\<close>: its kstack end here.\<close>

definition Finish :: "('h, 'a) handlers \<Rightarrow> ('h, 'a) ksim \<Rightarrow> ('h, 'a) ksim result option" where
  "Finish run s = bindO (SetLevel run IntOff s) (\<lambda>(_, _, s1). Some (
     let cur = currentThread (kern s1) in
     bindR (on_kern (upd_thread cur (\<lambda>x. x\<lparr>kstack := []\<rparr>)) (s1\<lparr>kern := (kern s1)\<lparr>toBeDestroyed := Some cur\<rparr>\<rparr>))
       Sleep))"

definition Fork :: "('h, 'a) handlers \<Rightarrow> tid \<Rightarrow> ('h, 'a) ksim \<Rightarrow> ('h, 'a) ksim result option" where
  "Fork run t s = bindO (Some (on_kern (upd_thread t StackAllocate) s)) (\<lambda>s0.
     bindO (SetLevel run IntOff s0) (\<lambda>(oldLevel, _, s1). Some (
       on_kern (\<lambda>k. bindR (ReadyToRun t k) (push (Restore oldLevel))) s1)))"

section \<open>Semaphores\<close>

definition Semaphore_Semaphore :: "string \<Rightarrow> int \<Rightarrow> Semaphore" where
  "Semaphore_Semaphore debugName initialValue = \<lparr>sname = debugName, svalue = initialValue, queue = []\<rparr>"

definition get_sem :: "'a kernel_scheme \<Rightarrow> sid \<Rightarrow> Semaphore result" where
  "get_sem k sm = (case sems k sm of None \<Rightarrow> Inl BadPointer | Some S \<Rightarrow> Inr S)"

definition set_sem :: "sid \<Rightarrow> Semaphore \<Rightarrow> 'a kernel_scheme \<Rightarrow> 'a kernel_scheme" where
  "set_sem sm S k = k\<lparr>sems := (sems k)(sm \<mapsto> S)\<rparr>"

definition Semaphore_P :: "('h, 'a) handlers \<Rightarrow> sid \<Rightarrow> ('h, 'a) ksim \<Rightarrow> ('h, 'a) ksim result option" where
  "Semaphore_P run sm s = bindO (SetLevel run IntOff s) (\<lambda>(oldLevel, _, s1).
     Some (on_kern (push (InP sm oldLevel)) s1))"

text \<open>One test of \<^verbatim>\<open>while (value == 0)\<close>: sleep and test again, or go on.\<close>

definition p_round :: "sid \<Rightarrow> IntStatus \<Rightarrow> ('h, 'a) ksim \<Rightarrow> ('h, 'a) ksim result" where
  "p_round sm oldLevel s = bindR (get_sem (kern s) sm) (\<lambda>S.
     if svalue S = 0 then
       bindR (on_kern (\<lambda>k. push (InP sm oldLevel)
         (set_sem sm (S\<lparr>queue := queue S @ [currentThread k]\<rparr>) k)) s) Sleep
     else on_kern (\<lambda>k. push (Restore oldLevel) (set_sem sm (S\<lparr>svalue := svalue S - 1\<rparr>) k)) s)"

text \<open>What \<^verbatim>\<open>V\<close> does between its two calls of \<^verbatim>\<open>SetLevel\<close>; in an interrupt handler it is all of \<^verbatim>\<open>V\<close>.\<close>

definition v_body :: "sid \<Rightarrow> 'a kernel_scheme \<Rightarrow> 'a kernel_scheme result" where
  "v_body sm k = bindR (get_sem k sm) (\<lambda>S. case queue S of
     [] \<Rightarrow> Inr (set_sem sm (S\<lparr>svalue := svalue S + 1\<rparr>) k)
   | t # ts \<Rightarrow> bindR (ReadyToRun t (set_sem sm (S\<lparr>queue := ts\<rparr>) k))
       (\<lambda>k'. Inr (set_sem sm (S\<lparr>queue := ts, svalue := svalue S + 1\<rparr>) k')))"

definition Semaphore_V :: "('h, 'a) handlers \<Rightarrow> sid \<Rightarrow> ('h, 'a) ksim \<Rightarrow> ('h, 'a) ksim result option" where
  "Semaphore_V run sm s = bindO (SetLevel run IntOff s) (\<lambda>(oldLevel, _, s1).
     Some (on_kern (\<lambda>k. bindR (v_body sm k) (push (Restore oldLevel))) s1))"

section \<open>Steps of the kernel\<close>

text \<open>The calls a thread's own code makes.\<close>

datatype cmd =
    CInstr "Machine \<Rightarrow> Machine"     \<comment> \<open>one round of \<^verbatim>\<open>Machine::Run\<close>\<close>
  | CStatus MachineStatus           \<comment> \<open>\<^verbatim>\<open>interrupt->setStatus\<close>, entering and leaving user mode\<close>
  | CStart AddrSpace                \<comment> \<open>\<^verbatim>\<open>StartProcess\<close>: take an address space\<close>
  | CNew tid string int "u32 list"  \<comment> \<open>\<^verbatim>\<open>t = new Thread(name, id); t->Fork(func, arg)\<close>\<close>
  | CNewSem sid string int          \<comment> \<open>\<^verbatim>\<open>new Semaphore(name, value)\<close>\<close>
  | CP sid
  | CV sid
  | CYield
  | CFinish

fun exec_cmd :: "('h, 'a) handlers \<Rightarrow> cmd \<Rightarrow> ('h, 'a) ksim \<Rightarrow> ('h, 'a) ksim result option" where
  "exec_cmd run (CInstr f) s = bindO (Some (get_machine s)) (\<lambda>m. one_tick run (s\<lparr>machine := Some (f m)\<rparr>))"
| "exec_cmd run (CStatus st) s = Some (Inr (s\<lparr>status := st\<rparr>))"
| "exec_cmd run (CStart sp) s = Some (bindR (get_machine s) (\<lambda>m. bindR (InitRegisters sp m) (\<lambda>m'.
     bindR (on_kern (\<lambda>k. upd_thread (currentThread k) (\<lambda>x. x\<lparr>space := Some sp\<rparr>) k) s) (\<lambda>s'.
       Inr (s'\<lparr>machine := Some (AddrSpace_RestoreState sp m')\<rparr>)))))"
| "exec_cmd run (CNew t name i junk) s =
     Fork run t (s\<lparr>kern := (kern s)\<lparr>threads := (threads (kern s))(t \<mapsto> Thread_Thread junk name i)\<rparr>\<rparr>)"
| "exec_cmd run (CNewSem sm name v) s =
     Some (Inr (s\<lparr>kern := set_sem sm (Semaphore_Semaphore name v) (kern s)\<rparr>))"
| "exec_cmd run (CP sm) s = Semaphore_P run sm s"
| "exec_cmd run (CV sm) s = Semaphore_V run sm s"
| "exec_cmd run CYield s = Yield run s"
| "exec_cmd run CFinish s = Finish run s"

fun exec_frame :: "('h, 'a) handlers \<Rightarrow> kframe \<Rightarrow> ('h, 'a) ksim \<Rightarrow> ('h, 'a) ksim result option" where
  "exec_frame run Startup s = set_level run IntOn s"
| "exec_frame run RunTail s = Some (run_tail s)"
| "exec_frame run (Restore l) s = set_level run l s"
| "exec_frame run (OldStatus st) s = Some (Inr (s\<lparr>status := st\<rparr>))"
| "exec_frame run (InP sm l) s = Some (p_round sm l s)"
| "exec_frame run _ s = Some (Inr s)"

text \<open>
  A step of the current thread: its top frame is taken off and run. \<open>Body\<close> stays and runs the
  command \<open>c\<close>; \<open>SleepLoop\<close> stays until a thread to run is found.
\<close>

definition kstep :: "('h, 'a) handlers \<Rightarrow> cmd \<Rightarrow> ('h, 'a) ksim \<Rightarrow> (bool \<times> ('h, 'a) ksim) result option" where
  "kstep run c s = bindO (Some (get_thread (kern s) (currentThread (kern s)))) (\<lambda>x.
     case kstack x of [] \<Rightarrow> Some (Inl BadPointer)
     | Body # fs \<Rightarrow> no_halt (exec_cmd run c s)
     | SleepLoop # fs \<Rightarrow> sleep_round run s
     | fr # fs \<Rightarrow> bindO (Some (on_kern pop s)) (\<lambda>s1. no_halt (exec_frame run fr s1)))"

end
