(* ===== verification/KernelInv.thy ===== *)
theory KernelInv
  imports Threads
begin

text \<open>
  The invariant of the thread kernel and its preservation by every step. The places a thread
  can be in are exclusive: it is the running thread, on the ready list, in the queue of the
  semaphore it waits for, or finished. Its frames tell which, and whether interrupts are
  off.
\<close>

section \<open>The invariant\<close>

text \<open>The frames a thread may be in, with the interrupt level at which the first one runs.\<close>

fun stack_ok :: "IntStatus \<Rightarrow> kframe list \<Rightarrow> bool" where
  "stack_ok l [] = False"
| "stack_ok l (Body # fs) = (l = IntOn \<and> fs = [])"
| "stack_ok l (Startup # fs) = (l = IntOff \<and> stack_ok IntOn fs)"
| "stack_ok l (OldStatus st # fs) = (l = IntOn \<and> st \<noteq> IdleMode \<and> stack_ok IntOn fs)"
| "stack_ok l (Restore l' # fs) = (l = IntOff \<and> l' = IntOn \<and> stack_ok IntOn fs)"
| "stack_ok l (InP sm l' # fs) = (l = IntOff \<and> l' = IntOn \<and> stack_ok IntOn fs)"
| "stack_ok l (RunTail # fs) = (l = IntOff \<and> (case fs of [] \<Rightarrow> True | f # _ \<Rightarrow>
     (case f of Restore _ \<Rightarrow> True | InP _ _ \<Rightarrow> True | _ \<Rightarrow> False) \<and> stack_ok IntOff fs))"
| "stack_ok l (SleepLoop # fs) = (l = IntOff \<and> (case fs of [] \<Rightarrow> True | f # _ \<Rightarrow>
     (case f of InP _ _ \<Rightarrow> True | _ \<Rightarrow> False) \<and> stack_ok IntOff fs))"

definition top_of :: "tid \<Rightarrow> tid \<Rightarrow> kframe" where
  "top_of cur t = (if t = cur then SleepLoop else RunTail)"

definition runnable_stack :: "kframe list \<Rightarrow> bool" where
  "runnable_stack fs \<longleftrightarrow> fs \<noteq> [] \<and> hd fs \<noteq> SleepLoop \<and> fs \<noteq> [RunTail]"

definition suspended_stack :: "kframe list \<Rightarrow> bool" where
  "suspended_stack fs \<longleftrightarrow> stack_ok IntOff fs \<and> (hd fs = Startup \<or> hd fs = RunTail)"

definition in_P :: "kframe \<Rightarrow> sid \<Rightarrow> kframe list \<Rightarrow> bool" where
  "in_P tp sm fs \<longleftrightarrow> (\<exists>fs'. fs = tp # InP sm IntOn # fs')"

definition thread_ok :: "tid \<Rightarrow> tid set \<Rightarrow> (sid \<Rightarrow> tid set) \<Rightarrow> tid \<Rightarrow> Thread \<Rightarrow> bool" where
  "thread_ok cur ready wait t x \<longleftrightarrow>
     (stack x = None \<or> stack x = Some STACK_FENCEPOST) \<and> length (userRegisters x) = NumTotalRegs \<and>
     (t \<noteq> cur \<longrightarrow> suspended_stack (kstack x)) \<and>
     (case tstatus x of
        JUST_CREATED \<Rightarrow> False
      | RUNNING \<Rightarrow> t = cur \<and> runnable_stack (kstack x)
      | READY \<Rightarrow> t \<in> ready \<and> kstack x \<noteq> [RunTail] \<and> (t = cur \<longrightarrow> (\<exists>sm. in_P SleepLoop sm (kstack x)))
      | BLOCKED \<Rightarrow> kstack x = [top_of cur t] \<or> (\<exists>sm. in_P (top_of cur t) sm (kstack x) \<and> t \<in> wait sm))"

definition waiting :: "'a kernel_scheme \<Rightarrow> sid \<Rightarrow> tid set" where
  "waiting k sm = (case sems k sm of None \<Rightarrow> {} | Some S \<Rightarrow> set (queue S))"

definition has_status :: "'a kernel_scheme \<Rightarrow> tid \<Rightarrow> ThreadStatus \<Rightarrow> (kframe list \<Rightarrow> bool) \<Rightarrow> bool" where
  "has_status k t st P \<longleftrightarrow> (\<exists>x. threads k t = Some x \<and> tstatus x = st \<and> P (kstack x))"

definition sems_ok :: "(sid \<Rightarrow> Semaphore option) \<Rightarrow> bool" where
  "sems_ok M \<longleftrightarrow> (\<forall>sm S. M sm = Some S \<longrightarrow> svalue S \<ge> 0 \<and> distinct (queue S))"

definition kinv :: "sid set \<Rightarrow> 'a kernel_scheme \<Rightarrow> bool" where
  "kinv D k \<longleftrightarrow> D \<subseteq> dom (sems k) \<and> currentThread k \<in> dom (threads k) \<and>
     (\<forall>t x. threads k t = Some x \<longrightarrow> thread_ok (currentThread k) (set (readyList k)) (waiting k) t x) \<and>
     distinct (readyList k) \<and> (\<forall>t \<in> set (readyList k). has_status k t READY (\<lambda>_. True)) \<and>
     sems_ok (sems k) \<and>
     (\<forall>sm. \<forall>t \<in> waiting k sm. has_status k t BLOCKED (in_P (top_of (currentThread k) t) sm)) \<and>
     (\<forall>t. toBeDestroyed k = Some t \<longrightarrow> has_status k t BLOCKED (\<lambda>fs. fs = [top_of (currentThread k) t]))"

lemma kinvI:
  assumes "D \<subseteq> dom (sems k)" "currentThread k \<in> dom (threads k)"
    "\<And>t x. threads k t = Some x \<Longrightarrow> thread_ok (currentThread k) (set (readyList k)) (waiting k) t x"
    "distinct (readyList k)" "\<And>t. t \<in> set (readyList k) \<Longrightarrow> has_status k t READY (\<lambda>_. True)"
    "sems_ok (sems k)"
    "\<And>sm t. t \<in> waiting k sm \<Longrightarrow> has_status k t BLOCKED (in_P (top_of (currentThread k) t) sm)"
    "\<And>t. toBeDestroyed k = Some t \<Longrightarrow> has_status k t BLOCKED (\<lambda>fs. fs = [top_of (currentThread k) t])"
  shows "kinv D k"
  using assms unfolding kinv_def by blast

lemma kinvD:
  assumes "kinv D k"
  shows "D \<subseteq> dom (sems k)" "currentThread k \<in> dom (threads k)"
    "\<And>t x. threads k t = Some x \<Longrightarrow> thread_ok (currentThread k) (set (readyList k)) (waiting k) t x"
    "distinct (readyList k)" "\<And>t. t \<in> set (readyList k) \<Longrightarrow> has_status k t READY (\<lambda>_. True)"
    "sems_ok (sems k)"
    "\<And>sm t. t \<in> waiting k sm \<Longrightarrow> has_status k t BLOCKED (in_P (top_of (currentThread k) t) sm)"
    "\<And>t. toBeDestroyed k = Some t \<Longrightarrow> has_status k t BLOCKED (\<lambda>fs. fs = [top_of (currentThread k) t])"
  using assms unfolding kinv_def by blast+

lemma has_status_threads [simp]:
  "has_status (k\<lparr>threads := (threads k)(t \<mapsto> y)\<rparr>) u st P =
     (if u = t then tstatus y = st \<and> P (kstack y) else has_status k u st P)"
  by (simp add: has_status_def)

lemma has_status_other [simp]:
  "has_status (k\<lparr>readyList := r\<rparr>) u st P = has_status k u st P"
  "has_status (k\<lparr>currentThread := c\<rparr>) u st P = has_status k u st P"
  "has_status (k\<lparr>toBeDestroyed := d\<rparr>) u st P = has_status k u st P"
  "has_status (set_sem sm S k) u st P = has_status k u st P"
  by (simp_all add: has_status_def set_sem_def)

lemma has_statusD: "has_status k t st P \<Longrightarrow> threads k t = Some x \<Longrightarrow> tstatus x = st \<and> P (kstack x)"
  by (simp add: has_status_def)

text \<open>A thread is where its status says.\<close>

lemma ready_status: "kinv D k \<Longrightarrow> threads k t = Some x \<Longrightarrow> t \<in> set (readyList k) \<Longrightarrow> tstatus x = READY"
  using kinvD(5) has_statusD by blast

lemma waiting_status:
  "kinv D k \<Longrightarrow> threads k t = Some x \<Longrightarrow> t \<in> waiting k sm \<Longrightarrow>
   tstatus x = BLOCKED \<and> in_P (top_of (currentThread k) t) sm (kstack x)"
  using kinvD(7) has_statusD by blast

lemma destroyed_status:
  "kinv D k \<Longrightarrow> threads k t = Some x \<Longrightarrow> toBeDestroyed k = Some t \<Longrightarrow>
   tstatus x = BLOCKED \<and> kstack x = [top_of (currentThread k) t]"
  using kinvD(8) has_statusD by fast

section \<open>Kernel-level transitions\<close>

lemma get_thread_eq [simp]: "threads k t = Some x \<Longrightarrow> get_thread k t = Inr x"
  by (simp add: get_thread_def)

lemma upd_thread_eq [simp]:
  "threads k t = Some x \<Longrightarrow> upd_thread t f k = Inr (k\<lparr>threads := (threads k)(t \<mapsto> f x)\<rparr>)"
  by (simp add: upd_thread_def)

lemma get_sem_eq [simp]: "sems k sm = Some S \<Longrightarrow> get_sem k sm = Inr S"
  by (simp add: get_sem_def)

lemma waiting_simps [simp]:
  "waiting (k\<lparr>threads := a\<rparr>) = waiting k" "waiting (k\<lparr>currentThread := b\<rparr>) = waiting k"
  "waiting (k\<lparr>toBeDestroyed := c\<rparr>) = waiting k" "waiting (k\<lparr>readyList := d\<rparr>) = waiting k"
  by (simp_all add: waiting_def fun_eq_iff)

lemma waiting_set_sem: "waiting (set_sem sm S k) = (waiting k)(sm := set (queue S))"
  by (auto simp: waiting_def set_sem_def fun_eq_iff)

text \<open>The running thread changes its own frames, registers or space.\<close>

lemma kinv_running:
  assumes "kinv D k" and "threads k (currentThread k) = Some x" and "tstatus x = RUNNING"
    and "tstatus y = RUNNING" and "stack y = stack x" and "length (userRegisters y) = NumTotalRegs"
    and "runnable_stack (kstack y)"
  shows "kinv D (k\<lparr>threads := (threads k)(currentThread k \<mapsto> y)\<rparr>)"
proof (rule kinvI)
  let ?c = "currentThread k" and ?k = "k\<lparr>threads := (threads k)(currentThread k \<mapsto> y)\<rparr>"
  note st = ready_status [OF assms(1,2)] waiting_status [OF assms(1,2)] destroyed_status [OF assms(1,2)]
  show "thread_ok (currentThread ?k) (set (readyList ?k)) (waiting ?k) t z" if "threads ?k t = Some z" for t z
    using that kinvD(3) [OF assms(1)] assms(2-7) by (fastforce simp: thread_ok_def split: if_splits)
  show "has_status ?k t READY (\<lambda>_. True)" if "t \<in> set (readyList ?k)" for t
    using that kinvD(5) [OF assms(1)] st(1) assms(3) by auto
  show "has_status ?k t BLOCKED (in_P (top_of (currentThread ?k) t) sm)" if "t \<in> waiting ?k sm" for t sm
    using that kinvD(7) [OF assms(1)] st(2) assms(3) by auto
  show "has_status ?k t BLOCKED (\<lambda>fs. fs = [top_of (currentThread ?k) t])" if "toBeDestroyed ?k = Some t" for t
    using that kinvD(8) [OF assms(1)] st(3) assms(3) by auto
qed (use kinvD [OF assms(1)] in auto)

text \<open>A semaphore changes its value, or is new.\<close>

lemma kinv_set_sem:
  assumes "kinv D k" and "svalue S' \<ge> 0" and "queue S' = (case sems k sm of None \<Rightarrow> [] | Some S \<Rightarrow> queue S)"
  shows "kinv D (set_sem sm S' k)"
proof -
  have w: "waiting (set_sem sm S' k) = waiting k"
    using assms(3) by (auto simp: waiting_set_sem fun_eq_iff waiting_def split: option.splits)
  have "sems_ok (sems (set_sem sm S' k))"
    using kinvD(6) [OF assms(1)] assms(2,3) by (auto simp: sems_ok_def set_sem_def split: option.splits)
  then show ?thesis
    using kinvD [OF assms(1)] by (intro kinvI) (simp_all add: w, auto simp: set_sem_def)
qed

text \<open>\<^verbatim>\<open>V\<close> wakes the first thread of the queue.\<close>

lemma kinv_wake:
  assumes "kinv D k" and S: "sems k sm = Some S" "queue S = t # ts" and x: "threads k t = Some x"
  shows "kinv D (set_sem sm (S\<lparr>queue := ts, svalue := svalue S + 1\<rparr>)
    (k\<lparr>threads := (threads k)(t \<mapsto> x\<lparr>tstatus := READY\<rparr>), readyList := readyList k @ [t]\<rparr>))" (is "kinv D ?k")
proof -
  have tw: "t \<in> waiting k sm" using S by (simp add: waiting_def)
  note bt = waiting_status [OF assms(1) x tw]
  have nts: "t \<notin> set ts" "distinct ts" "svalue S \<ge> 0"
    using kinvD(6) [OF assms(1)] S unfolding sems_ok_def by fastforce+
  have w: "waiting ?k = (waiting k)(sm := waiting k sm - {t})"
    using S nts(1) by (auto simp: waiting_set_sem fun_eq_iff waiting_def)
  have nw: "t \<notin> waiting k sm'" if "sm' \<noteq> sm" for sm'
    using waiting_status [OF assms(1) x, of sm'] bt that by (auto simp: in_P_def)
  have nr: "t \<notin> set (readyList k)" using ready_status [OF assms(1) x] bt by auto
  have nd: "toBeDestroyed k \<noteq> Some t"
    using destroyed_status [OF assms(1) x] bt by (auto simp: in_P_def)
  have cur: "currentThread ?k = currentThread k" "readyList ?k = readyList k @ [t]"
    "threads ?k = (threads k)(t \<mapsto> x\<lparr>tstatus := READY\<rparr>)" "toBeDestroyed ?k = toBeDestroyed k"
    by (simp_all add: set_sem_def)
  show ?thesis
  proof (rule kinvI)
    show "thread_ok (currentThread ?k) (set (readyList ?k)) (waiting ?k) u z" if "threads ?k u = Some z" for u z
    proof (cases "u = t")
      case True
      then show ?thesis using that kinvD(3) [OF assms(1) x] bt unfolding w cur
        by (auto simp: thread_ok_def in_P_def top_of_def)
    next
      case False
      then show ?thesis using that kinvD(3) [OF assms(1), of u z] unfolding w cur
        by (auto simp: thread_ok_def split: ThreadStatus.splits)
    qed
    show "sems_ok (sems ?k)"
      using kinvD(6) [OF assms(1)] nts by (auto simp: sems_ok_def set_sem_def)
    show "has_status ?k u READY (\<lambda>_. True)" if "u \<in> set (readyList ?k)" for u
      using that kinvD(5) [OF assms(1)] by (auto simp: cur)
    show "has_status ?k u BLOCKED (in_P (top_of (currentThread ?k) u) sm')" if "u \<in> waiting ?k sm'" for u sm'
      using that kinvD(7) [OF assms(1)] nw unfolding w cur by (auto split: if_splits)
    show "has_status ?k u BLOCKED (\<lambda>fs. fs = [top_of (currentThread ?k) u])" if "toBeDestroyed ?k = Some u" for u
      using that kinvD(8) [OF assms(1)] nd by (auto simp: cur)
  qed (use kinvD [OF assms(1)] nr in \<open>auto simp: set_sem_def\<close>)
qed

lemma thread_ok_other:
  "thread_ok cur ready wait t x \<Longrightarrow> t \<noteq> cur \<Longrightarrow> t \<noteq> cur' \<Longrightarrow> (t \<in> ready \<Longrightarrow> t \<in> ready') \<Longrightarrow>
   (\<And>sm. t \<in> wait sm \<Longrightarrow> t \<in> wait' sm) \<Longrightarrow> thread_ok cur' ready' wait' t x"
  by (auto simp: thread_ok_def top_of_def split: ThreadStatus.splits)

text \<open>
  The processor goes from the current thread, whose record becomes \<open>y\<close>, to the first ready
  thread. The old thread stays where it waits, or goes to the end of the ready list.
\<close>

lemma kinv_switch:
  assumes kinv: "kinv D k" and x: "threads k (currentThread k) = Some x"
    and r: "readyList k = t # ts" and tc: "t \<noteq> currentThread k" and z: "threads k t = Some z"
    and y: "stack y = stack x" "length (userRegisters y) = NumTotalRegs" "suspended_stack (kstack y)"
    and place: "tstatus x = RUNNING \<and> tstatus y = READY \<and> kstack y \<noteq> [RunTail] \<and> ts' = ts @ [currentThread k] \<or>
      tstatus x \<noteq> RUNNING \<and> tstatus y = tstatus x \<and> hd (kstack x) = SleepLoop \<and>
      kstack y = RunTail # tl (kstack x) \<and> ts' = ts"
  shows "kinv D (k\<lparr>readyList := ts', threads := (threads k)(currentThread k \<mapsto> y, t \<mapsto> z\<lparr>tstatus := RUNNING\<rparr>),
    currentThread := t\<rparr>)" (is "kinv D ?k")
proof -
  let ?c = "currentThread k"
  have tz: "tstatus z = READY" using ready_status [OF kinv z] r by simp
  have zok: "thread_ok ?c (set (readyList k)) (waiting k) t z" using kinvD(3) [OF kinv z] .
  have xok: "thread_ok ?c (set (readyList k)) (waiting k) ?c x" using kinvD(3) [OF kinv x] .
  have ct: "?c \<in> set ts \<Longrightarrow> tstatus x = READY" using ready_status [OF kinv x] r by simp
  have ts: "t \<notin> set ts" "distinct ts" using kinvD(4) [OF kinv] r by auto
  note tw = waiting_status [OF kinv z] and td = destroyed_status [OF kinv z]
  note cw = waiting_status [OF kinv x] and cd = destroyed_status [OF kinv x]
  have yok: "thread_ok t (set ts') (waiting k) ?c y"
    using xok y place tc r
    by (auto simp: thread_ok_def top_of_def in_P_def split: ThreadStatus.splits)
  have hs: "has_status ?k u st P = (if u = t then st = RUNNING \<and> P (kstack z)
      else if u = ?c then tstatus y = st \<and> P (kstack y) else has_status k u st P)" for u st P
    by (auto simp: has_status_def)
  show ?thesis
  proof (rule kinvI)
    show "thread_ok (currentThread ?k) (set (readyList ?k)) (waiting ?k) u w" if "threads ?k u = Some w" for u w
    proof -
      consider "u = t" | "u = ?c" "u \<noteq> t" | "u \<noteq> ?c" "u \<noteq> t" by blast
      then show ?thesis
      proof cases
        case 1
        then show ?thesis using that zok tz tc
          by (auto simp: thread_ok_def runnable_stack_def suspended_stack_def)
      next
        case 2
        then show ?thesis using that yok by simp
      next
        case 3
        then show ?thesis using that kinvD(3) [OF kinv, of u w] r place
          by (auto elim!: thread_ok_other)
      qed
    qed
    show "distinct (readyList ?k)" using ts ct place by auto
    show "has_status ?k u READY (\<lambda>_. True)" if "u \<in> set (readyList ?k)" for u
      using that kinvD(5) [OF kinv, of u] ts ct place r tc unfolding hs by auto
    show "has_status ?k u BLOCKED (in_P (top_of (currentThread ?k) u) sm)" if "u \<in> waiting ?k sm" for u sm
      using that kinvD(7) [OF kinv, of u sm] tw [of sm] cw [of sm] tz place tc unfolding hs
      by (auto simp: top_of_def in_P_def)
    show "has_status ?k u BLOCKED (\<lambda>fs. fs = [top_of (currentThread ?k) u])" if "toBeDestroyed ?k = Some u" for u
      using that kinvD(8) [OF kinv, of u] td cd tz place tc unfolding hs
      by (auto simp: top_of_def)
  qed (use kinvD [OF kinv] in auto)
qed

text \<open>A sleeping thread finds itself at the head of the ready list.\<close>

lemma kinv_self:
  assumes kinv: "kinv D k" and x: "threads k (currentThread k) = Some x"
    and r: "readyList k = currentThread k # ts" and y: "stack y = stack x" "length (userRegisters y) = NumTotalRegs"
    "tstatus y = RUNNING" "runnable_stack (kstack y)"
  shows "kinv D (k\<lparr>readyList := ts, threads := (threads k)(currentThread k \<mapsto> y)\<rparr>)" (is "kinv D ?k")
proof -
  let ?c = "currentThread k"
  have tx: "tstatus x = READY" using ready_status [OF kinv x] r by simp
  have ts: "?c \<notin> set ts" "distinct ts" using kinvD(4) [OF kinv] r by auto
  note cw = waiting_status [OF kinv x] and cd = destroyed_status [OF kinv x]
  have hs: "has_status ?k u st P = (if u = ?c then st = RUNNING \<and> P (kstack y) else has_status k u st P)"
    for u st P using y(3) by (auto simp: has_status_def)
  show ?thesis
  proof (rule kinvI)
    show "thread_ok (currentThread ?k) (set (readyList ?k)) (waiting ?k) u w" if "threads ?k u = Some w" for u w
    proof (cases "u = ?c")
      case True
      with that y kinvD(3) [OF kinv x] show ?thesis by (auto simp: thread_ok_def)
    next
      case False
      with that kinvD(3) [OF kinv, of u w] r show ?thesis
        by (auto simp: thread_ok_def top_of_def split: ThreadStatus.splits)
    qed
    show "has_status ?k u READY (\<lambda>_. True)" if "u \<in> set (readyList ?k)" for u
      using that kinvD(5) [OF kinv, of u] ts r unfolding hs by auto
    show "has_status ?k u BLOCKED (in_P (top_of (currentThread ?k) u) sm)" if "u \<in> waiting ?k sm" for u sm
      using that kinvD(7) [OF kinv, of u sm] cw [of sm] tx unfolding hs by auto
    show "has_status ?k u BLOCKED (\<lambda>fs. fs = [top_of (currentThread ?k) u])" if "toBeDestroyed ?k = Some u" for u
      using that kinvD(8) [OF kinv, of u] cd tx unfolding hs by auto
  qed (use kinvD [OF kinv] ts in auto)
qed

text \<open>The running thread blocks in \<^verbatim>\<open>P\<close>, or finishes.\<close>

lemma kinv_block:
  assumes kinv: "kinv D k" and x: "threads k (currentThread k) = Some x" "tstatus x = RUNNING"
    and S: "sems k sm = Some S" and y: "stack y = stack x" "length (userRegisters y) = NumTotalRegs"
    "tstatus y = BLOCKED" "in_P SleepLoop sm (kstack y)"
  shows "kinv D (set_sem sm (S\<lparr>queue := queue S @ [currentThread k]\<rparr>)
    (k\<lparr>threads := (threads k)(currentThread k \<mapsto> y)\<rparr>))" (is "kinv D ?k")
proof -
  let ?c = "currentThread k"
  note cw = waiting_status [OF kinv x(1)] and cd = destroyed_status [OF kinv x(1)]
  have nr: "?c \<notin> set (readyList k)" using ready_status [OF kinv x(1)] x(2) by auto
  have w: "waiting ?k = (waiting k)(sm := insert ?c (waiting k sm))"
    using S by (auto simp: waiting_set_sem waiting_def fun_eq_iff)
  have cur: "currentThread ?k = ?c" "readyList ?k = readyList k" "toBeDestroyed ?k = toBeDestroyed k"
    "threads ?k = (threads k)(?c \<mapsto> y)" by (simp_all add: set_sem_def)
  show ?thesis
  proof (rule kinvI)
    show "thread_ok (currentThread ?k) (set (readyList ?k)) (waiting ?k) u z" if "threads ?k u = Some z" for u z
    proof (cases "u = ?c")
      case True
      with that y kinvD(3) [OF kinv x(1)] show ?thesis unfolding w cur
        by (auto simp: thread_ok_def top_of_def)
    next
      case False
      with that kinvD(3) [OF kinv, of u z] show ?thesis unfolding w cur
        by (auto simp: thread_ok_def split: ThreadStatus.splits)
    qed
    show "sems_ok (sems ?k)"
      using kinvD(6) [OF kinv] S cw [of sm] x(2) by (auto simp: sems_ok_def set_sem_def waiting_def)
    show "has_status ?k u READY (\<lambda>_. True)" if "u \<in> set (readyList ?k)" for u
      using that kinvD(5) [OF kinv] nr by (auto simp: cur)
    show "has_status ?k u BLOCKED (in_P (top_of (currentThread ?k) u) sm')" if "u \<in> waiting ?k sm'" for u sm'
      using that kinvD(7) [OF kinv, of u sm'] cw [of sm'] x(2) y(3,4) unfolding w cur
      by (auto simp: top_of_def split: if_splits)
    show "has_status ?k u BLOCKED (\<lambda>fs. fs = [top_of (currentThread ?k) u])" if "toBeDestroyed ?k = Some u" for u
      using that kinvD(8) [OF kinv] cd x(2) by (auto simp: cur)
  qed (use kinvD [OF kinv] in \<open>auto simp: set_sem_def\<close>)
qed

lemma kinv_finish:
  assumes kinv: "kinv D k" and x: "threads k (currentThread k) = Some x" "tstatus x = RUNNING"
    and y: "stack y = stack x" "length (userRegisters y) = NumTotalRegs" "tstatus y = BLOCKED" "kstack y = [SleepLoop]"
  shows "kinv D (k\<lparr>toBeDestroyed := Some (currentThread k), threads := (threads k)(currentThread k \<mapsto> y)\<rparr>)"
    (is "kinv D ?k")
proof -
  let ?c = "currentThread k"
  note cw = waiting_status [OF kinv x(1)]
  have nr: "?c \<notin> set (readyList k)" using ready_status [OF kinv x(1)] x(2) by auto
  have hs: "has_status ?k u st P = (if u = ?c then st = BLOCKED \<and> P [SleepLoop] else has_status k u st P)"
    for u st P using y(3,4) by (auto simp: has_status_def)
  show ?thesis
  proof (rule kinvI)
    show "thread_ok (currentThread ?k) (set (readyList ?k)) (waiting ?k) u z" if "threads ?k u = Some z" for u z
    proof (cases "u = ?c")
      case True
      with that y kinvD(3) [OF kinv x(1)] show ?thesis by (auto simp: thread_ok_def top_of_def)
    next
      case False
      with that kinvD(3) [OF kinv, of u z] show ?thesis by simp
    qed
    show "has_status ?k u READY (\<lambda>_. True)" if "u \<in> set (readyList ?k)" for u
      using that kinvD(5) [OF kinv] nr unfolding hs by auto
    show "has_status ?k u BLOCKED (in_P (top_of (currentThread ?k) u) sm)" if "u \<in> waiting ?k sm" for u sm
      using that kinvD(7) [OF kinv, of u sm] cw [of sm] x(2) unfolding hs by auto
    show "has_status ?k u BLOCKED (\<lambda>fs. fs = [top_of (currentThread ?k) u])" if "toBeDestroyed ?k = Some u" for u
      using that unfolding hs by (auto simp: top_of_def)
  qed (use kinvD [OF kinv] in auto)
qed

text \<open>The finished thread is deleted, a new thread is forked.\<close>

lemma kinv_delete:
  assumes kinv: "kinv D k" and t: "toBeDestroyed k = Some t" "t \<noteq> currentThread k"
  shows "kinv D (k\<lparr>threads := (threads k)(t := None), toBeDestroyed := None\<rparr>)" (is "kinv D ?k")
proof -
  from kinvD(8) [OF kinv t(1)] obtain x where x: "threads k t = Some x" by (auto simp: has_status_def)
  note b = destroyed_status [OF kinv x t(1)]
  have nr: "t \<notin> set (readyList k)" using ready_status [OF kinv x] b by auto
  have nw: "t \<notin> waiting k sm" for sm using waiting_status [OF kinv x, of sm] b by (auto simp: in_P_def)
  have hs: "u \<noteq> t \<Longrightarrow> has_status ?k u st P = has_status k u st P" for u st P
    by (simp add: has_status_def)
  show ?thesis
  proof (rule kinvI)
    show "thread_ok (currentThread ?k) (set (readyList ?k)) (waiting ?k) u z" if "threads ?k u = Some z" for u z
      using that kinvD(3) [OF kinv, of u z] by (simp split: if_splits)
    show "has_status ?k u READY (\<lambda>_. True)" if "u \<in> set (readyList ?k)" for u
    proof -
      have "u \<noteq> t" using that nr by auto
      then show ?thesis using that kinvD(5) [OF kinv, of u] hs by simp
    qed
    show "has_status ?k u BLOCKED (in_P (top_of (currentThread ?k) u) sm)" if "u \<in> waiting ?k sm" for u sm
    proof -
      have "u \<noteq> t" using that nw by auto
      then show ?thesis using that kinvD(7) [OF kinv, of u sm] hs by simp
    qed
  qed (use kinvD [OF kinv] t(2) in auto)
qed

lemma kinv_new:
  assumes kinv: "kinv D k" and t: "threads k t = None" and y: "length (userRegisters y) = NumTotalRegs"
    "stack y = Some STACK_FENCEPOST" "kstack y = [Startup, Body]" "tstatus y = READY"
  shows "kinv D (k\<lparr>threads := (threads k)(t \<mapsto> y), readyList := readyList k @ [t]\<rparr>)" (is "kinv D ?k")
proof -
  have no: "\<not> has_status k t st P" for st P using t by (simp add: has_status_def)
  have nr: "t \<notin> set (readyList k)" and nw: "t \<notin> waiting k sm" and nd: "toBeDestroyed k \<noteq> Some t" for sm
    using kinvD(5,7,8) [OF kinv] no by blast+
  have nc: "t \<noteq> currentThread k" using kinvD(2) [OF kinv] t by auto
  show ?thesis
  proof (rule kinvI)
    show "thread_ok (currentThread ?k) (set (readyList ?k)) (waiting ?k) u z" if "threads ?k u = Some z" for u z
    proof (cases "u = t")
      case True
      with that y nc show ?thesis by (auto simp: thread_ok_def suspended_stack_def)
    next
      case False
      with that kinvD(3) [OF kinv, of u z] show ?thesis
        by (auto simp: thread_ok_def split: ThreadStatus.splits)
    qed
  qed (use kinvD [OF kinv] nr nw nd y(4) in auto)
qed

section \<open>The state of the simulation\<close>

text \<open>What the threads refer to exists: the machine, the semaphores they are in \<^verbatim>\<open>P\<close> of.\<close>

definition sem_refs :: "kframe list \<Rightarrow> sid set" where
  "sem_refs fs = {sm. \<exists>l. InP sm l \<in> set fs}"

definition refs_ok :: "Machine option \<Rightarrow> (sid \<Rightarrow> Semaphore option) \<Rightarrow> Thread \<Rightarrow> bool" where
  "refs_ok mo M x \<longleftrightarrow> (space x \<noteq> None \<longrightarrow> mo \<noteq> None) \<and> sem_refs (kstack x) \<subseteq> dom M"

definition machine_ok :: "('h, 'a) ksim \<Rightarrow> bool" where
  "machine_ok s \<longleftrightarrow> (\<forall>m. machine s = Some m \<longrightarrow> length (registers m) = NumTotalRegs) \<and>
     (\<forall>t x. threads (kern s) t = Some x \<longrightarrow> refs_ok (machine s) (sems (kern s)) x)"

lemma sem_refs_simps [simp]:
  "sem_refs [] = {}" "sem_refs (InP sm l # fs) = insert sm (sem_refs fs)" "sem_refs (Body # fs) = sem_refs fs"
  "sem_refs (Startup # fs) = sem_refs fs" "sem_refs (RunTail # fs) = sem_refs fs" "sem_refs (Restore l # fs) = sem_refs fs"
  "sem_refs (OldStatus st # fs) = sem_refs fs" "sem_refs (SleepLoop # fs) = sem_refs fs"
  by (auto simp: sem_refs_def)

lemma machine_okD: "machine_ok s \<Longrightarrow> threads (kern s) t = Some x \<Longrightarrow> refs_ok (machine s) (sems (kern s)) x"
  by (simp add: machine_ok_def)

lemma machine_ok_space:
  assumes "machine_ok s" "threads (kern s) t = Some x" "space x = Some sp"
  obtains m where "machine s = Some m" "length (registers m) = NumTotalRegs"
  using machine_okD [OF assms(1,2)] assms by (auto simp: refs_ok_def machine_ok_def)

lemma refs_ok_sems [simp]: "refs_ok mo M x \<Longrightarrow> refs_ok mo (M(sm \<mapsto> S)) x"
  by (auto simp: refs_ok_def)

lemma refs_ok_machine: "refs_ok mo M x \<Longrightarrow> refs_ok (Some m) M x"
  by (simp add: refs_ok_def)

lemma refs_ok_simps [simp]:
  "refs_ok mo M (x\<lparr>tstatus := st\<rparr>) = refs_ok mo M x" "refs_ok mo M (x\<lparr>userRegisters := rs\<rparr>) = refs_ok mo M x"
  by (simp_all add: refs_ok_def)

definition current_is :: "('h, 'a) ksim \<Rightarrow> ThreadStatus set \<Rightarrow> (kframe list \<Rightarrow> bool) \<Rightarrow> bool" where
  "current_is s St P \<longleftrightarrow> (\<exists>x. threads (kern s) (currentThread (kern s)) = Some x \<and> tstatus x \<in> St \<and> P (kstack x))"

definition base_inv :: "sid set \<Rightarrow> ('h, 'a) ksim \<Rightarrow> bool" where
  "base_inv D s \<longleftrightarrow> wf_sim s \<and> kinv D (kern s) \<and> machine_ok s \<and> \<not> inHandler s \<and> status s \<noteq> IdleMode"

definition sinv :: "sid set \<Rightarrow> ('h, 'a) ksim \<Rightarrow> bool" where
  "sinv D s \<longleftrightarrow> base_inv D s \<and> current_is s UNIV (stack_ok (level s))"

text \<open>What interrupt handlers may do to the kernel: wake threads through the semaphores in \<open>D\<close>.\<close>

definition wake :: "sid set \<Rightarrow> 'a kernel_scheme \<Rightarrow> 'a kernel_scheme \<Rightarrow> bool" where
  "wake D k k' \<longleftrightarrow> kinv D k \<and> kinv D k' \<and> currentThread k' = currentThread k \<and>
     toBeDestroyed k' = toBeDestroyed k \<and> dom (sems k') = dom (sems k) \<and>
     (\<forall>sm. sm \<notin> D \<longrightarrow> sems k' sm = sems k sm) \<and>
     (\<forall>t. map_option (\<lambda>x. x\<lparr>tstatus := READY\<rparr>) (threads k' t) = map_option (\<lambda>x. x\<lparr>tstatus := READY\<rparr>) (threads k t)) \<and>
     (\<forall>t x x'. threads k t = Some x \<longrightarrow> threads k' t = Some x' \<longrightarrow> tstatus x = RUNNING \<longrightarrow> tstatus x' = RUNNING)"

lemma wake_refl: "kinv D k \<Longrightarrow> wake D k k"
  by (simp add: wake_def)

lemma wake_right: "wake D k k' \<Longrightarrow> wake D k' k'"
  by (simp add: wake_def)

lemma wake_trans: "wake D k1 k2 \<Longrightarrow> wake D k2 k3 \<Longrightarrow> wake D k1 k3"
  unfolding wake_def by (intro conjI) (simp_all, metis option.exhaust option.map_disc_iff)

lemma wake_thread:
  assumes "wake D k k'" and "threads k t = Some x"
  obtains x' where "threads k' t = Some x'" "stack x' = stack x" "userRegisters x' = userRegisters x"
    "space x' = space x" "kstack x' = kstack x" "tstatus x = RUNNING \<Longrightarrow> tstatus x' = RUNNING"
proof -
  have m: "map_option (\<lambda>x. x\<lparr>tstatus := READY\<rparr>) (threads k' t) = Some (x\<lparr>tstatus := READY\<rparr>)"
    using assms by (simp add: wake_def)
  then obtain x' where x': "threads k' t = Some x'" "x'\<lparr>tstatus := READY\<rparr> = x\<lparr>tstatus := READY\<rparr>"
    by (cases "threads k' t") auto
  have "tstatus x = RUNNING \<Longrightarrow> tstatus x' = RUNNING" using assms x'(1) unfolding wake_def by blast
  moreover have "stack x' = stack x \<and> userRegisters x' = userRegisters x \<and> space x' = space x \<and> kstack x' = kstack x"
    using x'(2) by (cases x, cases x') simp
  ultimately show thesis using that x'(1) by blast
qed

lemma wake_thread_rev:
  assumes "wake D k k'" and "threads k' t = Some x'"
  obtains x where "threads k t = Some x" "space x' = space x" "kstack x' = kstack x"
proof -
  have m: "map_option (\<lambda>x. x\<lparr>tstatus := READY\<rparr>) (threads k t) = Some (x'\<lparr>tstatus := READY\<rparr>)"
    using assms by (metis (no_types, lifting) option.simps(9) wake_def)
  then obtain x where "threads k t = Some x" "x\<lparr>tstatus := READY\<rparr> = x'\<lparr>tstatus := READY\<rparr>"
    by (cases "threads k t") auto
  moreover from this(2) have "space x' = space x \<and> kstack x' = kstack x" by (cases x, cases x') simp
  ultimately show thesis using that by blast
qed

lemma v_body_wake:
  assumes "kinv D k" and "sm \<in> D"
  shows "\<exists>k'. v_body sm k = Inr k' \<and> wake D k k'"
proof -
  obtain S where S: "sems k sm = Some S" using kinvD(1) [OF assms(1)] assms(2) by auto
  have v: "svalue S \<ge> 0" using kinvD(6) [OF assms(1)] S by (simp add: sems_ok_def)
  show ?thesis
  proof (cases "queue S")
    case Nil
    have "kinv D (set_sem sm (S\<lparr>svalue := svalue S + 1\<rparr>) k)"
      using assms(1) v S by (intro kinv_set_sem) auto
    with Nil S assms show ?thesis
      by (auto simp: v_body_def wake_def set_sem_def)
  next
    case (Cons t ts)
    obtain x where x: "threads k t = Some x" "tstatus x = BLOCKED"
      using kinvD(7) [OF assms(1), of t sm] S Cons by (auto simp: waiting_def has_status_def)
    have "kinv D (set_sem sm (S\<lparr>queue := ts, svalue := svalue S + 1\<rparr>)
        (k\<lparr>threads := (threads k)(t \<mapsto> x\<lparr>tstatus := READY\<rparr>), readyList := readyList k @ [t]\<rparr>))"
      using kinv_wake [OF assms(1) S Cons x(1)] .
    with Cons S x assms show ?thesis
      by (auto simp: v_body_def wake_def set_sem_def ReadyToRun_def)
  qed
qed

lemma SetLevel_off: "SetLevel run IntOff s = Some (Inr (level s, False, s\<lparr>level := IntOff\<rparr>))"
  by (simp add: SetLevel_def ChangeLevel_def Let_def)

lemma save_regs_eq: "n \<le> NumTotalRegs \<Longrightarrow> length (registers m) = NumTotalRegs \<Longrightarrow>
  save_regs m n = Inr (take n (registers m))"
  by (induction n) (simp_all add: ReadRegister_def rd_def take_Suc_conv_app_nth)

lemma restore_regs_eq: "n \<le> NumTotalRegs \<Longrightarrow> length (registers m) = NumTotalRegs \<Longrightarrow> length rs = NumTotalRegs \<Longrightarrow>
  restore_regs rs n m = Inr (m\<lparr>registers := take n rs @ drop n (registers m)\<rparr>)"
proof (induction n)
  case (Suc n)
  have "(take n rs @ drop n (registers m))[n := rs ! n] = take (Suc n) rs @ drop (Suc n) (registers m)"
    using Suc.prems by (simp add: list_update_append take_Suc_conv_app_nth Cons_nth_drop_Suc [symmetric])
  with Suc show ?case by (simp add: WriteRegister_def rd_def wr_def)
qed simp

text \<open>A context switch: what \<^verbatim>\<open>Run\<close> makes of the two threads.\<close>

lemma Run_thread_ok:
  assumes x: "threads (kern s) (currentThread (kern s)) = Some x" and z: "threads (kern s) t = Some z"
    and fence: "stack x = None \<or> stack x = Some STACK_FENCEPOST" and m: "machine_ok s"
    and len: "length (userRegisters x) = NumTotalRegs"
  shows "\<exists>y. Run_thread t s = Inr (s\<lparr>kern := (kern s)\<lparr>threads := (threads (kern s))(currentThread (kern s) \<mapsto> y,
      t \<mapsto> (if t = currentThread (kern s) then y else z)\<lparr>tstatus := RUNNING\<rparr>), currentThread := t\<rparr>\<rparr>) \<and>
    y = x\<lparr>userRegisters := userRegisters y, kstack := RunTail # kstack x\<rparr> \<and> length (userRegisters y) = NumTotalRegs \<and>
    (space x \<noteq> None \<longrightarrow> (\<exists>m. machine s = Some m \<and> userRegisters y = registers m))"
proof -
  let ?c = "currentThread (kern s)"
  have co: "CheckOverflow x = Inr ()" using fence by (auto simp: CheckOverflow_def)
  show ?thesis
  proof (cases "space x")
    case None
    then show ?thesis
      using x z co len by (intro exI [of _ "x\<lparr>kstack := RunTail # kstack x\<rparr>"])
        (auto simp: Run_thread_def on_kern_def push_def Let_def)
  next
    case (Some sp)
    obtain mc where mc: "machine s = Some mc" "length (registers mc) = NumTotalRegs"
      using machine_ok_space [OF m x Some] .
    show ?thesis
      using x z co mc Some save_regs_eq [of 40 mc]
      by (intro exI [of _ "x\<lparr>userRegisters := registers mc, kstack := RunTail # kstack x\<rparr>"])
        (auto simp: Run_thread_def on_kern_def push_def Let_def SaveUserState_def get_machine_def)
  qed
qed

lemma level_id: "level s = l \<Longrightarrow> s\<lparr>level := l, kern := k\<rparr> = s\<lparr>kern := k\<rparr>"
  by (cases s) simp

lemma set_sem_simps [simp]:
  "threads (set_sem sm S k) = threads k" "currentThread (set_sem sm S k) = currentThread k"
  "readyList (set_sem sm S k) = readyList k" "toBeDestroyed (set_sem sm S k) = toBeDestroyed k"
  "sems (set_sem sm S k) = (sems k)(sm \<mapsto> S)"
  by (simp_all add: set_sem_def)

lemma wf_sim_upd [simp]:
  "wf_sim (s\<lparr>level := a\<rparr>) = wf_sim s" "wf_sim (s\<lparr>kern := b\<rparr>) = wf_sim s"
  "wf_sim (s\<lparr>status := c\<rparr>) = wf_sim s" "wf_sim (s\<lparr>machine := d\<rparr>) = wf_sim s"
  "wf_sim (s\<lparr>yieldOnReturn := e\<rparr>) = wf_sim s"
  by (simp_all add: wf_sim_def)

lemma machine_ok_upd:
  "machine_ok s \<Longrightarrow> threads (kern s) t = Some x \<Longrightarrow> (space y \<noteq> None \<Longrightarrow> space x \<noteq> None) \<Longrightarrow>
   sem_refs (kstack y) \<subseteq> dom (sems (kern s)) \<Longrightarrow>
   machine_ok (s\<lparr>level := l, kern := (kern s)\<lparr>threads := (threads (kern s))(t \<mapsto> y)\<rparr>\<rparr>)"
  using machine_okD [of s t x] by (auto simp: machine_ok_def refs_ok_def)

lemma stack_ok_runnable: "stack_ok IntOn fs \<Longrightarrow> runnable_stack fs"
  by (cases "(IntOn, fs)" rule: stack_ok.cases) (auto simp: runnable_stack_def)

lemma base_refs: "base_inv D s \<Longrightarrow> threads (kern s) t = Some x \<Longrightarrow> sem_refs (kstack x) \<subseteq> dom (sems (kern s))"
  using machine_okD [of s t x] by (simp add: base_inv_def refs_ok_def)

text \<open>The running thread goes on with other frames.\<close>

lemma sinv_running:
  assumes b: "base_inv D s" and x: "threads (kern s) (currentThread (kern s)) = Some x" "tstatus x = RUNNING"
    and y: "tstatus y = RUNNING" "stack y = stack x" "userRegisters y = userRegisters x" "space y = space x"
    and fs: "runnable_stack (kstack y)" "stack_ok l (kstack y)" "sem_refs (kstack y) \<subseteq> dom (sems (kern s))"
  shows "sinv D (s\<lparr>level := l, kern := (kern s)\<lparr>threads := (threads (kern s))(currentThread (kern s) \<mapsto> y)\<rparr>\<rparr>)"
proof -
  have k: "kinv D (kern s)" and m: "machine_ok s" and w: "wf_sim s"
    using b by (simp_all add: base_inv_def)
  have "length (userRegisters x) = NumTotalRegs" using kinvD(3) [OF k x(1)] by (simp add: thread_ok_def)
  then have "kinv D ((kern s)\<lparr>threads := (threads (kern s))(currentThread (kern s) \<mapsto> y)\<rparr>)"
    using kinv_running [OF k x, of y] y fs(1) by simp
  then show ?thesis
    using b fs(2,3) y(4) machine_ok_upd [OF m x(1), of y l] w
    by (auto simp: sinv_def base_inv_def current_is_def)
qed

lemma Yield_ok:
  assumes b: "base_inv D s" and l: "level s = IntOn"
    and x: "threads (kern s) (currentThread (kern s)) = Some x" "tstatus x = RUNNING" "stack_ok IntOn (kstack x)"
  shows "\<exists>s'. Yield run s = Some (Inr s') \<and> sinv D s'"
proof (cases "readyList (kern s)")
  case Nil
  let ?y = "x\<lparr>kstack := Restore IntOn # kstack x\<rparr>"
  have "Yield run s = Some (Inr (s\<lparr>level := IntOff, kern := (kern s)\<lparr>threads := (threads (kern s))(currentThread (kern s) \<mapsto> ?y)\<rparr>\<rparr>))"
    using Nil x(1) l by (simp add: Yield_def SetLevel_off FindNextToRun_def on_kern_def push_def)
  moreover have "sinv D (s\<lparr>level := IntOff, kern := (kern s)\<lparr>threads := (threads (kern s))(currentThread (kern s) \<mapsto> ?y)\<rparr>\<rparr>)"
    using x base_refs [OF b x(1)] by (intro sinv_running [OF b x(1,2)]) (auto simp: runnable_stack_def)
  ultimately show ?thesis by blast
next
  case (Cons t ts)
  let ?c = "currentThread (kern s)"
  have k: "kinv D (kern s)" and m: "machine_ok s" and w: "wf_sim s"
    using b by (simp_all add: base_inv_def)
  note xok = kinvD(3) [OF k x(1)]
  obtain z where z: "threads (kern s) t = Some z" "tstatus z = READY"
    using kinvD(5) [OF k, of t] Cons by (auto simp: has_status_def)
  have tc: "t \<noteq> ?c" using z x by auto
  define x1 where "x1 = x\<lparr>tstatus := READY, kstack := Restore IntOn # kstack x\<rparr>"
  define s1 where "s1 = s\<lparr>level := IntOff, kern := (kern s)\<lparr>readyList := ts @ [?c], threads := (threads (kern s))(?c \<mapsto> x1)\<rparr>\<rparr>"
  have s1: "threads (kern s1) (currentThread (kern s1)) = Some x1" "threads (kern s1) t = Some z"
    "currentThread (kern s1) = ?c" using z tc by (simp_all add: s1_def)
  have m1: "machine_ok s1"
    using m machine_okD [OF m x(1)] by (auto simp: s1_def machine_ok_def x1_def refs_ok_def)
  have f1: "stack x1 = None \<or> stack x1 = Some STACK_FENCEPOST" "length (userRegisters x1) = NumTotalRegs"
    using xok by (auto simp: thread_ok_def x1_def)
  obtain y where y: "Run_thread t s1 = Inr (s1\<lparr>kern := (kern s1)\<lparr>threads := (threads (kern s1))(?c \<mapsto> y,
      t \<mapsto> z\<lparr>tstatus := RUNNING\<rparr>), currentThread := t\<rparr>\<rparr>)"
    "y = x1\<lparr>userRegisters := userRegisters y, kstack := RunTail # kstack x1\<rparr>" "length (userRegisters y) = NumTotalRegs"
    using Run_thread_ok [OF s1(1,2) f1(1) m1 f1(2)] tc unfolding s1(3) by auto
  let ?s' = "s\<lparr>level := IntOff, kern := (kern s)\<lparr>readyList := ts @ [?c], threads := (threads (kern s))(?c \<mapsto> y,
      t \<mapsto> z\<lparr>tstatus := RUNNING\<rparr>), currentThread := t\<rparr>\<rparr>"
  have "Yield run s = Some (Run_thread t s1)"
    using Cons x(1) l by (simp add: Yield_def SetLevel_off FindNextToRun_def on_kern_def push_def s1_def ReadyToRun_def x1_def)
  then have Y: "Yield run s = Some (Inr ?s')" using y(1) by (simp add: s1_def)
  have yx: "stack y = stack x" "kstack y = RunTail # Restore IntOn # kstack x" "tstatus y = READY" "space y = space x"
    by (subst y(2), simp add: x1_def)+
  have "kinv D (kern ?s')"
    using kinv_switch [OF k x(1) Cons tc z(1) yx(1) y(3), of "ts @ [?c]"] x(2,3) yx
    by (simp add: suspended_stack_def)
  moreover have "machine_ok ?s'"
    using m machine_okD [OF m x(1)] machine_okD [OF m z(1)] yx(2,4) by (auto simp: machine_ok_def refs_ok_def)
  moreover have "stack_ok IntOff (kstack z)"
    using kinvD(3) [OF k z(1)] tc by (simp add: thread_ok_def suspended_stack_def)
  ultimately have "sinv D ?s'"
    using b w by (simp add: sinv_def base_inv_def current_is_def)
  with Y show ?thesis by blast
qed

lemma cpu_shape_machine_ok:
  assumes "cpu_shape (machine s') = cpu_shape (machine s)" and "wake D (kern s) (kern s')" and "machine_ok s"
  shows "machine_ok s'"
proof -
  have "length (registers m') = NumTotalRegs" if "machine s' = Some m'" for m'
    using that assms(1,3) by (cases "machine s") (auto simp: cpu_shape_def machine_ok_def)
  moreover have "machine s' = None \<Longrightarrow> machine s = None"
    using assms(1) by (cases "machine s") (auto simp: cpu_shape_def)
  moreover have "refs_ok (machine s') (sems (kern s')) x'" if t: "threads (kern s') t = Some x'" for t x'
  proof -
    obtain x where x: "threads (kern s) t = Some x" "space x' = space x" "kstack x' = kstack x"
      using wake_thread_rev [OF assms(2) t] by blast
    moreover have "dom (sems (kern s')) = dom (sems (kern s))" using assms(2) by (simp add: wake_def)
    ultimately show ?thesis
      using machine_okD [OF assms(3) x(1)] \<open>machine s' = None \<Longrightarrow> machine s = None\<close>
      unfolding refs_ok_def by metis
  qed
  ultimately show ?thesis unfolding machine_ok_def by blast
qed

lemma base_wake:
  assumes "base_inv D s" and "wake D (kern s) (kern s')" and "cpu_shape (machine s') = cpu_shape (machine s)"
    and "wf_sim s'" and "inHandler s' \<longrightarrow> inHandler s" and "status s' \<noteq> IdleMode"
  shows "base_inv D s'"
  using assms cpu_shape_machine_ok [OF assms(3,2)] by (auto simp: base_inv_def wake_def)

text \<open>One more thread blocks: \<^verbatim>\<open>P\<close> on a semaphore with value 0, \<^verbatim>\<open>Finish\<close>.\<close>

lemma Sleep_eq:
  assumes "threads (kern s) (currentThread (kern s)) = Some x" and "level s = IntOff"
  shows "Sleep s = Inr (s\<lparr>kern := (kern s)\<lparr>threads := (threads (kern s))(currentThread (kern s) \<mapsto>
    x\<lparr>tstatus := BLOCKED, kstack := SleepLoop # kstack x\<rparr>)\<rparr>\<rparr>)"
  using assms by (simp add: Sleep_def on_kern_def push_def)

lemma Finish_ok:
  assumes b: "base_inv D s" and x: "threads (kern s) (currentThread (kern s)) = Some x" "tstatus x = RUNNING"
  shows "\<exists>s'. Finish run s = Some (Inr s') \<and> sinv D s'"
proof -
  let ?y = "x\<lparr>tstatus := BLOCKED, kstack := [SleepLoop]\<rparr>"
  let ?s = "s\<lparr>level := IntOff, kern := (kern s)\<lparr>toBeDestroyed := Some (currentThread (kern s)),
    threads := (threads (kern s))(currentThread (kern s) \<mapsto> ?y)\<rparr>\<rparr>"
  have k: "kinv D (kern s)" using b by (simp add: base_inv_def)
  have F: "Finish run s = Some (Inr ?s)"
    using x by (simp add: Finish_def SetLevel_off on_kern_def Sleep_eq Let_def)
  have "kinv D (kern ?s)"
    using kinv_finish [OF k x, of ?y] kinvD(3) [OF k x(1)] by (simp add: thread_ok_def)
  moreover have "machine_ok ?s"
    using b machine_okD [of s _ x] x(1) by (auto simp: base_inv_def machine_ok_def refs_ok_def)
  ultimately have "sinv D ?s" using b by (simp add: sinv_def base_inv_def current_is_def)
  with F show ?thesis by blast
qed

lemma p_round_ok:
  assumes b: "base_inv D s" and l: "level s = IntOff" and sm: "sems (kern s) sm = Some S"
    and x: "threads (kern s) (currentThread (kern s)) = Some x" "tstatus x = RUNNING" "stack_ok IntOn (kstack x)"
  shows "\<exists>s'. p_round sm IntOn s = Inr s' \<and> sinv D s'"
proof -
  let ?c = "currentThread (kern s)"
  have k: "kinv D (kern s)" using b by (simp add: base_inv_def)
  have v: "svalue S \<ge> 0" using kinvD(6) [OF k] sm by (simp add: sems_ok_def)
  show ?thesis
  proof (cases "svalue S = 0")
    case True
    let ?y = "x\<lparr>tstatus := BLOCKED, kstack := SleepLoop # InP sm IntOn # kstack x\<rparr>"
    let ?k = "set_sem sm (S\<lparr>queue := queue S @ [?c]\<rparr>) ((kern s)\<lparr>threads := (threads (kern s))(?c \<mapsto> ?y)\<rparr>)"
    have P: "p_round sm IntOn s = Inr (s\<lparr>kern := ?k\<rparr>)"
      using True sm x l by (simp add: p_round_def on_kern_def push_def Sleep_eq set_sem_def)
    have "kinv D ?k"
      using kinv_block [OF k x(1,2) sm, of ?y] kinvD(3) [OF k x(1)] by (simp add: thread_ok_def in_P_def)
    moreover have "machine_ok (s\<lparr>kern := ?k\<rparr>)"
    proof -
      have "refs_ok (machine s) (sems (kern s)) x" using b machine_okD [OF _ x(1)] by (simp add: base_inv_def)
      then have "refs_ok (machine s) (sems ?k) ?y" by (auto simp: refs_ok_def set_sem_def)
      then show ?thesis using b by (auto simp: base_inv_def machine_ok_def set_sem_def)
    qed
    ultimately have "sinv D (s\<lparr>kern := ?k\<rparr>)"
      using b x l by (simp add: sinv_def base_inv_def current_is_def set_sem_def)
    with P show ?thesis by blast
  next
    case False
    let ?y = "x\<lparr>kstack := Restore IntOn # kstack x\<rparr>"
    let ?s1 = "s\<lparr>kern := set_sem sm (S\<lparr>svalue := svalue S - 1\<rparr>) (kern s)\<rparr>"
    have x1: "threads (kern ?s1) (currentThread (kern ?s1)) = Some x" using x(1) by simp
    have "kinv D (kern ?s1)" using False v sm kinv_set_sem [OF k] by simp
    then have b1: "base_inv D ?s1" using b sm by (auto simp: base_inv_def machine_ok_def set_sem_def)
    have "p_round sm IntOn s = Inr (?s1\<lparr>level := IntOff, kern := (kern ?s1)\<lparr>threads := (threads (kern ?s1))(currentThread (kern ?s1) \<mapsto> ?y)\<rparr>\<rparr>)"
      using False sm x l level_id [of s IntOff] by (simp add: p_round_def on_kern_def push_def)
    moreover have "sinv D (?s1\<lparr>level := IntOff, kern := (kern ?s1)\<lparr>threads := (threads (kern ?s1))(currentThread (kern ?s1) \<mapsto> ?y)\<rparr>\<rparr>)"
      using x by (intro sinv_running [OF b1 x1 x(2)]) (use base_refs [OF b1 x1] in \<open>auto simp: runnable_stack_def\<close>)
    ultimately show ?thesis by blast
  qed
qed

lemma run_tail_ok:
  assumes b: "base_inv D s" and l: "level s = IntOff"
    and x: "threads (kern s) (currentThread (kern s)) = Some x" "tstatus x = RUNNING" "stack_ok IntOff (kstack x)"
  shows "\<exists>s'. run_tail s = Inr s' \<and> sinv D s'"
proof -
  let ?c = "currentThread (kern s)"
  have k: "kinv D (kern s)" and m: "machine_ok s" using b by (simp_all add: base_inv_def)
  define s1 where "s1 = (case toBeDestroyed (kern s) of None \<Rightarrow> s
    | Some t \<Rightarrow> s\<lparr>kern := (kern s)\<lparr>threads := (threads (kern s))(t := None), toBeDestroyed := None\<rparr>\<rparr>)"
  have nd: "toBeDestroyed (kern s) \<noteq> Some ?c" using destroyed_status [OF k x(1)] x(2) by auto
  have s1: "threads (kern s1) ?c = Some x" "currentThread (kern s1) = ?c" "level s1 = IntOff" "machine s1 = machine s"
    using x(1) nd l by (auto simp: s1_def split: option.splits)
  have D: "(case toBeDestroyed (kern s) of None \<Rightarrow> Inr s | Some t \<Rightarrow>
      on_kern (\<lambda>k. bindR (delete_thread t k) (\<lambda>k'. Inr (k'\<lparr>toBeDestroyed := None\<rparr>))) s) = Inr s1"
    using nd kinvD(8) [OF k]
    by (auto simp: s1_def on_kern_def delete_thread_def has_status_def split: option.splits)
  have b1: "base_inv D s1"
    using b nd kinv_delete [OF k] by (auto simp: s1_def base_inv_def machine_ok_def split: option.splits if_splits)
  show ?thesis
  proof (cases "space x")
    case None
    then have "run_tail s = Inr s1" using D s1 by (simp add: run_tail_def)
    moreover have "sinv D s1" using b1 s1 x(3) by (auto simp: sinv_def current_is_def)
    ultimately show ?thesis by blast
  next
    case (Some sp)
    obtain mc where mc: "machine s = Some mc" "length (registers mc) = NumTotalRegs"
      using machine_ok_space [OF m x(1) Some] .
    have lr: "length (userRegisters x) = NumTotalRegs" using kinvD(3) [OF k x(1)] by (simp add: thread_ok_def)
    let ?m = "AddrSpace_RestoreState sp (mc\<lparr>registers := userRegisters x\<rparr>)"
    have "run_tail s = Inr (s1\<lparr>machine := Some ?m\<rparr>)"
      using D s1 Some mc lr restore_regs_eq [of NumTotalRegs mc "userRegisters x"]
      by (simp add: run_tail_def RestoreUserState_def get_machine_def)
    moreover have "sinv D (s1\<lparr>machine := Some ?m\<rparr>)"
      using b1 s1 x(3) lr
      by (auto simp: sinv_def current_is_def base_inv_def machine_ok_def AddrSpace_RestoreState_def
          intro: refs_ok_machine)
    ultimately show ?thesis by blast
  qed
qed

section \<open>Every step keeps the invariant\<close>

text \<open>What the thread's own code must respect when it makes a call.\<close>

fun cmd_ok :: "cmd \<Rightarrow> ('h, 'a) ksim \<Rightarrow> bool" where
  "cmd_ok (CInstr f) s = (case machine s of None \<Rightarrow> False | Some m \<Rightarrow> length (registers (f m)) = NumTotalRegs)"
| "cmd_ok (CStatus st) s = (st \<noteq> IdleMode)"
| "cmd_ok (CStart sp) s = (machine s \<noteq> None)"
| "cmd_ok (CNew t name i junk) s = (threads (kern s) t = None \<and> length junk = NumTotalRegs)"
| "cmd_ok (CNewSem sm name v) s = (sems (kern s) sm = None \<and> v \<ge> 0)"
| "cmd_ok (CP sm) s = (sems (kern s) sm \<noteq> None)"
| "cmd_ok (CV sm) s = (sems (kern s) sm \<noteq> None)"
| "cmd_ok CYield s = True"
| "cmd_ok CFinish s = True"

lemma Fork_ok:
  assumes b: "base_inv D s" and l: "level s = IntOn" and t: "threads (kern s) t = None" "length junk = NumTotalRegs"
    and x: "threads (kern s) (currentThread (kern s)) = Some x" "tstatus x = RUNNING" "stack_ok IntOn (kstack x)"
  shows "\<exists>s'. exec_cmd run (CNew t name i junk) s = Some (Inr s') \<and> sinv D s'"
proof -
  let ?c = "currentThread (kern s)"
  define y where "y = (StackAllocate (Thread_Thread junk name i))\<lparr>tstatus := READY\<rparr>"
  have y: "length (userRegisters y) = NumTotalRegs" "stack y = Some STACK_FENCEPOST" "kstack y = [Startup, Body]"
    "tstatus y = READY" "space y = None"
    using t by (simp_all add: y_def StackAllocate_def Thread_Thread_def)
  let ?k = "(kern s)\<lparr>threads := (threads (kern s))(t \<mapsto> y), readyList := readyList (kern s) @ [t]\<rparr>"
  have tc: "t \<noteq> ?c" using x t by auto
  have "kinv D ?k" using b kinv_new [OF _ t(1) y(1-4)] by (simp add: base_inv_def)
  then have b1: "base_inv D (s\<lparr>kern := ?k\<rparr>)" using b y(3,5) by (auto simp: base_inv_def machine_ok_def) (simp add: refs_ok_def)
  have x1: "threads (kern (s\<lparr>kern := ?k\<rparr>)) (currentThread (kern (s\<lparr>kern := ?k\<rparr>))) = Some x" using x(1) tc by simp
  let ?r = "x\<lparr>kstack := Restore IntOn # kstack x\<rparr>"
  have E: "exec_cmd run (CNew t name i junk) s = Some (Inr (s\<lparr>level := IntOff, kern := ?k\<lparr>threads := (threads ?k)(?c \<mapsto> ?r)\<rparr>\<rparr>))"
    using x(1) tc l by (simp add: Fork_def on_kern_def SetLevel_off ReadyToRun_def push_def y_def)
  have "sinv D (s\<lparr>level := IntOff, kern := ?k\<lparr>threads := (threads ?k)(?c \<mapsto> ?r)\<rparr>\<rparr>)"
    using sinv_running [OF b1 x1 x(2), of ?r IntOff] x(2,3) base_refs [OF b1 x1] by (simp add: runnable_stack_def)
  with E show ?thesis by blast
qed

lemma V_ok:
  assumes b: "base_inv D s" and l: "level s = IntOn" and sm: "sems (kern s) sm \<noteq> None"
    and x: "threads (kern s) (currentThread (kern s)) = Some x" "tstatus x = RUNNING" "stack_ok IntOn (kstack x)"
  shows "\<exists>s'. Semaphore_V run sm s = Some (Inr s') \<and> sinv D s'"
proof -
  have k: "kinv (insert sm D) (kern s)" using b sm by (auto simp: base_inv_def kinv_def)
  obtain k' where k': "v_body sm (kern s) = Inr k'" "wake (insert sm D) (kern s) k'"
    using v_body_wake [OF k] by auto
  then obtain x' where x': "threads k' (currentThread (kern s)) = Some x'" "tstatus x' = RUNNING" "kstack x' = kstack x"
    using wake_thread [OF k'(2) x(1)] x(2) by metis
  have c: "currentThread k' = currentThread (kern s)" using k'(2) by (simp add: wake_def)
  have "kinv D k'" using k'(2) by (auto simp: wake_def kinv_def)
  then have b1: "base_inv D (s\<lparr>kern := k'\<rparr>)"
    using b cpu_shape_machine_ok [of "s\<lparr>kern := k'\<rparr>" s "insert sm D"] k'(2) by (simp add: base_inv_def)
  have x1: "threads (kern (s\<lparr>kern := k'\<rparr>)) (currentThread (kern (s\<lparr>kern := k'\<rparr>))) = Some x'" using x' c by simp
  let ?r = "x'\<lparr>kstack := Restore IntOn # kstack x'\<rparr>"
  have "Semaphore_V run sm s = Some (Inr (s\<lparr>level := IntOff, kern := k'\<lparr>threads := (threads k')(currentThread k' \<mapsto> ?r)\<rparr>\<rparr>))"
    using k'(1) x'(1) c l by (simp add: Semaphore_V_def SetLevel_off on_kern_def push_def)
  moreover have "sinv D (s\<lparr>level := IntOff, kern := k'\<lparr>threads := (threads k')(currentThread k' \<mapsto> ?r)\<rparr>\<rparr>)"
    using sinv_running [OF b1 x1 x'(2), of ?r IntOff] x(3) x'(2,3) base_refs [OF b1 x1] by (simp add: runnable_stack_def)
  ultimately show ?thesis by blast
qed

text \<open>The current thread is running unless it is in the loop of \<^verbatim>\<open>Sleep\<close>; its top frame can be taken off.\<close>

lemma awake_running:
  assumes inv: "sinv D s" and x: "threads (kern s) (currentThread (kern s)) = Some x" and fs: "kstack x = fr # fs"
    and nsl: "fr \<noteq> SleepLoop"
  shows "tstatus x = RUNNING"
proof -
  have k: "kinv D (kern s)" using inv by (simp add: sinv_def base_inv_def)
  show ?thesis
    using kinvD(3) [OF k x] fs nsl
    by (auto simp: thread_ok_def top_of_def in_P_def split: ThreadStatus.splits)
qed

lemma pop_ok:
  assumes inv: "sinv D s" and x: "threads (kern s) (currentThread (kern s)) = Some x" and fs: "kstack x = fr # fs"
    and nsl: "fr \<noteq> SleepLoop" and nb: "fr \<noteq> Body"
  shows "base_inv D (s\<lparr>kern := (kern s)\<lparr>threads := (threads (kern s))(currentThread (kern s) \<mapsto> x\<lparr>kstack := fs\<rparr>)\<rparr>\<rparr>) \<and>
    fs \<noteq> []" (is "base_inv D ?s \<and> _")
proof -
  have st: "stack_ok (level s) (fr # fs)" and b: "base_inv D s" and k: "kinv D (kern s)"
    using inv x fs by (auto simp: sinv_def current_is_def base_inv_def)
  note r = awake_running [OF inv x fs nsl]
  have nr: "fr # fs \<noteq> [RunTail]"
    using kinvD(3) [OF k x] r fs by (auto simp: thread_ok_def runnable_stack_def)
  have ne: "fs \<noteq> []" using st nsl nb nr by (cases fr) auto
  have rs: "runnable_stack fs"
    using st nsl nb stack_ok_runnable ne
    by (cases fr) (auto simp: runnable_stack_def split: list.splits kframe.splits)
  have kk: "kinv D (kern ?s)"
    using kinv_running [OF k x r, of "x\<lparr>kstack := fs\<rparr>"] kinvD(3) [OF k x] r rs by (simp add: thread_ok_def)
  have ref: "sem_refs fs \<subseteq> dom (sems (kern s))"
    using base_refs [OF b x] fs by (auto simp: sem_refs_def)
  have "machine_ok ?s"
    using b machine_okD [OF _ x] ref by (auto simp: base_inv_def machine_ok_def refs_ok_def)
  then show ?thesis using b kk ne by (simp add: base_inv_def)
qed

locale kernel_handlers = device_handlers run "wake D"
  for run :: "'h \<Rightarrow> int \<Rightarrow> ('h, 'a kernel_scheme) sim \<Rightarrow> ('h, 'a kernel_scheme) sim result" and D :: "sid set"
begin

text \<open>After a tick, the running thread goes on, or yields if a handler has asked for it.\<close>

lemma after_tick:
  assumes b: "base_inv D s" and w: "wake D (kern s) (kern s1)" "cpu_shape (machine s1) = cpu_shape (machine s)"
    "wf_sim s1" "inHandler s1 \<longrightarrow> inHandler s" "status s1 \<noteq> IdleMode" "level s1 = IntOn"
    and st: "st \<noteq> IdleMode"
    and x: "threads (kern s) (currentThread (kern s)) = Some x" "tstatus x = RUNNING" "stack_ok IntOn (kstack x)"
  shows "\<exists>s'. (if y then bindO (Some (on_kern (push (OldStatus st)) s1)) (Yield run) else Some (Inr s1)) =
    Some (Inr s') \<and> sinv D s'"
proof -
  obtain x1 where x1: "threads (kern s1) (currentThread (kern s)) = Some x1" "tstatus x1 = RUNNING" "kstack x1 = kstack x"
    using wake_thread [OF w(1) x(1)] x(2) by metis
  have c: "currentThread (kern s1) = currentThread (kern s)" using w(1) by (simp add: wake_def)
  note x1' = x1 [folded c]
  have b1: "base_inv D s1" using base_wake [OF b w(1-5)] .
  show ?thesis
  proof (cases y)
    case False
    then show ?thesis using b1 x1' x(3) w(6) by (auto simp: sinv_def current_is_def)
  next
    case True
    let ?y = "x1\<lparr>kstack := OldStatus st # kstack x1\<rparr>"
    let ?s = "s1\<lparr>kern := (kern s1)\<lparr>threads := (threads (kern s1))(currentThread (kern s1) \<mapsto> ?y)\<rparr>\<rparr>"
    have "sinv D (s1\<lparr>level := IntOn, kern := (kern s1)\<lparr>threads := (threads (kern s1))(currentThread (kern s1) \<mapsto> ?y)\<rparr>\<rparr>)"
      using x1'(3) x(3) st base_refs [OF b1 x1'(1)]
      by (intro sinv_running [OF b1 x1'(1,2)]) (auto simp: runnable_stack_def x1'(2))
    then have "base_inv D ?s" using w(6) level_id [of s1 IntOn] by (simp add: sinv_def)
    moreover have "on_kern (push (OldStatus st)) s1 = Inr ?s"
      using x1'(1) by (simp add: on_kern_def push_def)
    ultimately show ?thesis
      using True Yield_ok [of D ?s ?y run] w(6) x1' x(3) st by simp
  qed
qed

lemma one_tick_ok:
  assumes b: "base_inv D s"
    and x: "threads (kern s) (currentThread (kern s)) = Some x" "tstatus x = RUNNING" "stack_ok IntOn (kstack x)"
  shows "\<exists>s'. one_tick run s = Some (Inr s') \<and> sinv D s'"
proof -
  have bb: "wf_sim s" "status s \<noteq> IdleMode" "wake D (kern s) (kern s)"
    using b by (auto simp: base_inv_def intro: wake_refl)
  obtain y s1 where s1: "OneTick run s = Some (Inr (y, s1))" "wf_sim s1" "level s1 = IntOn"
    "status s1 \<noteq> IdleMode" "inHandler s1 \<longrightarrow> inHandler s" "cpu_shape (machine s1) = cpu_shape (machine s)"
    "wake D (kern s) (kern s1)"
    using OneTick_ok [OF bb] bb(2) by (metis MachineStatus.distinct(1))
  show ?thesis
    using after_tick [OF b s1(7,6,2,5,4,3) bb(2) x, of y] s1(1) by (simp add: one_tick_def)
qed

lemma set_level_ok:
  assumes b: "base_inv D s" and l: "level s = IntOff"
    and x: "threads (kern s) (currentThread (kern s)) = Some x" "tstatus x = RUNNING" "stack_ok IntOn (kstack x)"
  shows "\<exists>s'. set_level run IntOn s = Some (Inr s') \<and> sinv D s'"
proof -
  let ?s = "s\<lparr>level := IntOn\<rparr>"
  have b1: "base_inv D ?s" using b by (simp add: base_inv_def machine_ok_def)
  have "set_level run IntOn s = one_tick run ?s"
    using l b by (auto simp: set_level_def one_tick_def SetLevel_def ChangeLevel_def base_inv_def Let_def
        split: option.splits sum.splits)
  with one_tick_ok [OF b1, of x] x show ?thesis by simp
qed

lemma sleep_round_ok:
  assumes inv: "sinv D s" and x: "threads (kern s) (currentThread (kern s)) = Some x" "kstack x = SleepLoop # fs"
  shows "\<exists>h s'. sleep_round run s = Some (Inr (h, s')) \<and> (\<not> h \<longrightarrow> sinv D s')"
proof -
  let ?c = "currentThread (kern s)"
  have b: "base_inv D s" and l: "level s = IntOff" and fs: "stack_ok IntOff (kstack x)"
    using inv x by (auto simp: sinv_def current_is_def)
  have k: "kinv D (kern s)" and m: "machine_ok s" and wf: "wf_sim s"
    using b by (simp_all add: base_inv_def)
  note xok = kinvD(3) [OF k x(1)]
  have nr: "tstatus x \<noteq> RUNNING" using xok x(2) by (auto simp: thread_ok_def runnable_stack_def)
  show ?thesis
  proof (cases "readyList (kern s)")
    case Nil
    then have R: "sleep_round run s = Idle run s" by (simp add: sleep_round_def FindNextToRun_def)
    show ?thesis
    proof (cases "pending s = [] \<or> (\<exists>w p. pending s = [(w, p)] \<and> ityp p = TimerInt)")
      case True
      then show ?thesis using R Idle_halts [OF l] by auto
    next
      case False
      then obtain w p rest where pen: "pending s = (w, p) # rest" "ityp p \<noteq> TimerInt \<or> rest \<noteq> []"
        by (cases "pending s") fastforce+
      obtain s' where s': "Idle run s = Some (Inr (False, s'))" "wf_sim s'" "level s' = IntOff"
        "status s' = SystemMode" "inHandler s' \<longrightarrow> inHandler s" "cpu_shape (machine s') = cpu_shape (machine s)"
        "wake D (kern s) (kern s')"
        using Idle_returns [OF wf l wake_refl [OF k] pen] by auto
      have "base_inv D s'" using base_wake [OF b s'(7,6,2,5)] s'(4) by simp
      moreover have "current_is s' UNIV (stack_ok (level s'))"
        using wake_thread [OF s'(7) x(1)] s'(3,7) fs unfolding current_is_def wake_def by (metis UNIV_I)
      ultimately show ?thesis using R s'(1) by (auto simp: sinv_def)
    qed
  next
    case (Cons t ts)
    obtain z where z: "threads (kern s) t = Some z" "tstatus z = READY"
      using kinvD(5) [OF k, of t] Cons by (auto simp: has_status_def)
    define x1 where "x1 = x\<lparr>kstack := fs\<rparr>"
    define s1 where "s1 = s\<lparr>kern := (kern s)\<lparr>readyList := ts, threads := (threads (kern s))(?c \<mapsto> x1)\<rparr>\<rparr>"
    define z1 where "z1 = (if t = ?c then x1 else z)"
    have s1: "threads (kern s1) (currentThread (kern s1)) = Some x1" "threads (kern s1) t = Some z1"
      "currentThread (kern s1) = ?c" using z by (simp_all add: s1_def z1_def)
    have m1: "machine_ok s1"
      using m machine_okD [OF m x(1)] x(2) by (auto simp: s1_def machine_ok_def x1_def refs_ok_def)
    have f1: "stack x1 = None \<or> stack x1 = Some STACK_FENCEPOST" "length (userRegisters x1) = NumTotalRegs"
      using xok by (auto simp: thread_ok_def x1_def)
    obtain y where y: "Run_thread t s1 = Inr (s1\<lparr>kern := (kern s1)\<lparr>threads := (threads (kern s1))(?c \<mapsto> y,
        t \<mapsto> (if t = ?c then y else z1)\<lparr>tstatus := RUNNING\<rparr>), currentThread := t\<rparr>\<rparr>)"
      "y = x1\<lparr>userRegisters := userRegisters y, kstack := RunTail # kstack x1\<rparr>" "length (userRegisters y) = NumTotalRegs"
      using Run_thread_ok [OF s1(1,2) f1(1) m1 f1(2)] unfolding s1(3) by auto
    have R: "sleep_round run s = Some (Inr (False, s1\<lparr>kern := (kern s1)\<lparr>threads := (threads (kern s1))(?c \<mapsto> y,
        t \<mapsto> (if t = ?c then y else z1)\<lparr>tstatus := RUNNING\<rparr>), currentThread := t\<rparr>\<rparr>))"
      using Cons x y(1) by (simp add: sleep_round_def FindNextToRun_def no_halt_def on_kern_def pop_def s1_def x1_def)
    have yx: "stack y = stack x" "kstack y = RunTail # fs" "tstatus y = tstatus x" "space y = space x"
      by (subst y(2), simp add: x1_def)+
    have sus: "suspended_stack (kstack y)"
      using fs x(2) by (auto simp: yx suspended_stack_def split: list.splits kframe.splits)
    show ?thesis
    proof (cases "t = ?c")
      case True
      let ?y = "y\<lparr>tstatus := RUNNING\<rparr>"
      let ?k = "(kern s)\<lparr>readyList := ts, threads := (threads (kern s))(?c \<mapsto> ?y)\<rparr>"
      have ne: "fs \<noteq> []" using xok z x True by (auto simp: thread_ok_def in_P_def)
      have "kinv D ?k"
        using kinv_self [OF k x(1), of ts ?y] Cons True yx y(3) ne by (simp add: runnable_stack_def)
      moreover have e: "s1\<lparr>kern := (kern s1)\<lparr>threads := (threads (kern s1))(?c \<mapsto> y, t \<mapsto> (if t = ?c then y else z1)\<lparr>tstatus := RUNNING\<rparr>),
          currentThread := t\<rparr>\<rparr> = s\<lparr>kern := ?k\<rparr>" using True by (simp add: s1_def)
      moreover have "machine_ok (s\<lparr>kern := ?k\<rparr>)"
        using m machine_okD [OF m x(1)] x(2) yx(2,4) by (auto simp: machine_ok_def refs_ok_def)
      moreover have "stack_ok IntOff (kstack y)" using sus by (simp add: suspended_stack_def)
      ultimately show ?thesis
        using R b l by (auto simp: sinv_def base_inv_def current_is_def)
    next
      case False
      let ?k = "(kern s)\<lparr>readyList := ts, threads := (threads (kern s))(?c \<mapsto> y, t \<mapsto> z\<lparr>tstatus := RUNNING\<rparr>), currentThread := t\<rparr>"
      have "kinv D ?k"
        using kinv_switch [OF k x(1) Cons False z(1) yx(1) y(3) sus, of ts] nr x(2) yx by simp
      moreover have "s1\<lparr>kern := (kern s1)\<lparr>threads := (threads (kern s1))(?c \<mapsto> y, t \<mapsto> (if t = ?c then y else z1)\<lparr>tstatus := RUNNING\<rparr>),
          currentThread := t\<rparr>\<rparr> = s\<lparr>kern := ?k\<rparr>" using False by (simp add: s1_def z1_def)
      moreover have "machine_ok (s\<lparr>kern := ?k\<rparr>)"
        using m machine_okD [OF m x(1)] machine_okD [OF m z(1)] x(2) yx(2,4) by (auto simp: machine_ok_def refs_ok_def)
      moreover have "stack_ok IntOff (kstack z)"
        using kinvD(3) [OF k z(1)] False by (simp add: thread_ok_def suspended_stack_def)
      ultimately show ?thesis
        using R b l by (auto simp: sinv_def base_inv_def current_is_def)
    qed
  qed
qed

lemma exec_cmd_ok:
  assumes b: "base_inv D s" and l: "level s = IntOn" and c: "cmd_ok c s"
    and x: "threads (kern s) (currentThread (kern s)) = Some x" "tstatus x = RUNNING" "stack_ok IntOn (kstack x)"
  shows "\<exists>s'. exec_cmd run c s = Some (Inr s') \<and> sinv D s'"
proof (cases c)
  case (CInstr f)
  with c obtain m where m: "machine s = Some m" "length (registers (f m)) = NumTotalRegs"
    by (auto split: option.splits)
  then have "base_inv D (s\<lparr>machine := Some (f m)\<rparr>)" 
    using b by (auto simp: base_inv_def machine_ok_def intro: refs_ok_machine)
  then show ?thesis
    using one_tick_ok [of "s\<lparr>machine := Some (f m)\<rparr>" x] x m CInstr by (simp add: get_machine_def)
next
  case (CStatus st)
  then show ?thesis
    using b c l x by (auto simp: sinv_def base_inv_def current_is_def machine_ok_def)
next
  case (CStart sp)
  with c obtain m where m: "machine s = Some m" by auto
  have lm: "length (registers m) = NumTotalRegs" using b m by (simp add: base_inv_def machine_ok_def)
  have w: "\<exists>m'. write_zero_regs n m = Inr m' \<and> length (registers m') = NumTotalRegs" if "n \<le> NumTotalRegs" for n
    using that lm by (induction n) (auto simp: WriteRegister_def wr_def)
  obtain m' where m': "InitRegisters sp m = Inr m'" "length (registers m') = NumTotalRegs"
    using w [of NumTotalRegs] by (auto simp: InitRegisters_def WriteRegister_def wr_def)
  let ?y = "x\<lparr>space := Some sp\<rparr>"
  let ?s = "s\<lparr>kern := (kern s)\<lparr>threads := (threads (kern s))(currentThread (kern s) \<mapsto> ?y)\<rparr>,
    machine := Some (AddrSpace_RestoreState sp m')\<rparr>"
  have k: "kinv D (kern s)" using b by (simp add: base_inv_def)
  have "kinv D (kern ?s)"
    using kinv_running [OF k x(1,2), of ?y] kinvD(3) [OF k x(1)] x(2,3) stack_ok_runnable by (simp add: thread_ok_def)
  moreover have "machine_ok ?s"
    using b m'(2) base_refs [OF b x(1)]
    by (auto simp: base_inv_def machine_ok_def AddrSpace_RestoreState_def refs_ok_def)
  ultimately have "sinv D ?s"
    using b l x by (simp add: sinv_def base_inv_def current_is_def)
  moreover have "exec_cmd run c s = Some (Inr ?s)"
    using CStart m m'(1) x(1) by (simp add: get_machine_def on_kern_def)
  ultimately show ?thesis by blast
next
  case (CNew t name i junk)
  then show ?thesis using Fork_ok [OF b l _ _ x] c by simp
next
  case (CNewSem sm name v)
  have "kinv D (set_sem sm (Semaphore_Semaphore name v) (kern s))"
    using b c CNewSem by (intro kinv_set_sem) (auto simp: base_inv_def Semaphore_Semaphore_def)
  then show ?thesis
    using b l x CNewSem by (auto simp: sinv_def base_inv_def current_is_def machine_ok_def)
next
  case (CP sm)
  let ?y = "x\<lparr>kstack := InP sm IntOn # kstack x\<rparr>"
  have "exec_cmd run c s = Some (Inr (s\<lparr>level := IntOff, kern := (kern s)\<lparr>threads := (threads (kern s))(currentThread (kern s) \<mapsto> ?y)\<rparr>\<rparr>))"
    using CP x(1) l by (simp add: Semaphore_P_def SetLevel_off on_kern_def push_def)
  moreover have "sinv D (s\<lparr>level := IntOff, kern := (kern s)\<lparr>threads := (threads (kern s))(currentThread (kern s) \<mapsto> ?y)\<rparr>\<rparr>)"
    using x base_refs [OF b x(1)] c CP by (intro sinv_running [OF b x(1,2)]) (auto simp: runnable_stack_def)
  ultimately show ?thesis by blast
next
  case (CV sm)
  then show ?thesis using V_ok [OF b l _ x] c by simp
next
  case CYield
  then show ?thesis using Yield_ok [OF b l x] by simp
next
  case CFinish
  then show ?thesis using Finish_ok [OF b x(1,2)] by simp
qed

lemma exec_frame_ok:
  assumes b: "base_inv D s" and x: "threads (kern s) (currentThread (kern s)) = Some x" "tstatus x = RUNNING"
    and st: "stack_ok (level s) (fr # kstack x)" "fr \<noteq> Body" "fr \<noteq> SleepLoop" "kstack x \<noteq> []"
    and refs: "sem_refs [fr] \<subseteq> dom (sems (kern s))"
  shows "\<exists>s'. exec_frame run fr s = Some (Inr s') \<and> sinv D s'"
proof (cases fr)
  case Startup
  then show ?thesis using set_level_ok [OF b _ x] st by simp
next
  case RunTail
  then show ?thesis using run_tail_ok [OF b _ x] st by (auto split: list.splits)
next
  case (Restore l)
  then show ?thesis using set_level_ok [OF b _ x] st by simp
next
  case (OldStatus m)
  then show ?thesis
    using b x st by (auto simp: sinv_def base_inv_def current_is_def machine_ok_def)
next
  case (InP sm l)
  then obtain S where "sems (kern s) sm = Some S" using refs by auto
  then show ?thesis using p_round_ok [OF b _ _ x] st InP by simp
qed (use st in auto)

text \<open>No call ends in a failed assertion or follows a bad pointer, and the invariant is kept.\<close>

lemma kstep_ok:
  assumes inv: "sinv D s" and c: "cmd_ok c s"
  shows "\<exists>h s'. kstep run c s = Some (Inr (h, s')) \<and> (\<not> h \<longrightarrow> sinv D s')"
proof -
  let ?c = "currentThread (kern s)"
  obtain x where x: "threads (kern s) ?c = Some x" "stack_ok (level s) (kstack x)"
    using inv by (auto simp: sinv_def current_is_def)
  have b: "base_inv D s" and k: "kinv D (kern s)" using inv by (simp_all add: sinv_def base_inv_def)
  obtain fr fs where fs: "kstack x = fr # fs" using x(2) by (cases "kstack x") auto
  show ?thesis
  proof (cases "fr = SleepLoop")
    case True
    then show ?thesis using sleep_round_ok [OF inv x(1)] fs x(1) by (simp add: kstep_def)
  next
    case False
    note r = awake_running [OF inv x(1) fs False]
    show ?thesis
    proof (cases "fr = Body")
      case True
      then have "level s = IntOn" using x(2) fs by simp
      then show ?thesis
        using exec_cmd_ok [OF b _ c x(1) r] x fs True by (auto simp: kstep_def no_halt_def)
    next
      case nb: False
      let ?s = "s\<lparr>kern := (kern s)\<lparr>threads := (threads (kern s))(?c \<mapsto> x\<lparr>kstack := fs\<rparr>)\<rparr>\<rparr>"
      note p = pop_ok [OF inv x(1) fs False nb]
      have ref: "sem_refs [fr] \<subseteq> dom (sems (kern s))"
        using base_refs [OF b x(1)] fs by (auto simp: sem_refs_def)
      obtain s' where "exec_frame run fr ?s = Some (Inr s')" "sinv D s'"
        using exec_frame_ok [OF conjunct1 [OF p], of "x\<lparr>kstack := fs\<rparr>" fr] x(2) fs r nb False p ref by auto
      moreover have "kstep run c s = no_halt (exec_frame run fr ?s)"
        using x(1) fs nb False by (cases fr) (simp_all add: kstep_def on_kern_def pop_def)
      ultimately show ?thesis by (auto simp: no_halt_def)
    qed
  qed
qed

end

section \<open>Semaphore values\<close>

text \<open>What does not touch semaphores.\<close>

lemma bindR_InrE: "bindR m f = Inr y \<Longrightarrow> (\<And>x. m = Inr x \<Longrightarrow> f x = Inr y \<Longrightarrow> thesis) \<Longrightarrow> thesis"
  by (cases m) auto

lemma no_halt_eq: "(no_halt r = Some (Inr (h, s))) = (r = Some (Inr s) \<and> \<not> h)"
proof (cases r)
  case (Some q)
  then show ?thesis by (cases q) (auto simp: no_halt_def)
qed (simp add: no_halt_def)

lemma upd_thread_sems: "upd_thread t f k = Inr k' \<Longrightarrow> sems k' = sems k \<and> currentThread k' = currentThread k"
  by (auto simp: upd_thread_def elim!: bindR_InrE)

lemma push_sems: "push fr k = Inr k' \<Longrightarrow> sems k' = sems k"
  unfolding push_def by (drule upd_thread_sems) simp

lemma ReadyToRun_sems: "ReadyToRun t k = Inr k' \<Longrightarrow> sems k' = sems k"
  unfolding ReadyToRun_def by (auto elim!: bindR_InrE dest: upd_thread_sems)

lemma on_kern_sems:
  "on_kern f s = Inr s' \<Longrightarrow> (\<And>k'. f (kern s) = Inr k' \<Longrightarrow> sems k' = M) \<Longrightarrow> sems (kern s') = M"
  unfolding on_kern_def by (auto elim!: bindR_InrE)

lemma Run_thread_sems:
  assumes "Run_thread t s = Inr s'"
  shows "sems (kern s') = sems (kern s)"
proof -
  let ?c = "currentThread (kern s)"
  obtain x :: Thread and s1 s2 where r: "(if space x \<noteq> None then SaveUserState ?c s else Inr s) = Inr s1"
    "on_kern (push RunTail) s1 = Inr s2"
    "on_kern (upd_thread t (\<lambda>x. x\<lparr>tstatus := RUNNING\<rparr>)) (s2\<lparr>kern := (kern s2)\<lparr>currentThread := t\<rparr>\<rparr>) = Inr s'"
    using assms unfolding Run_thread_def Let_def by (elim bindR_InrE) blast
  have "sems (kern s1) = sems (kern s)"
    using r(1) by (auto simp: SaveUserState_def elim!: bindR_InrE on_kern_sems dest!: upd_thread_sems split: if_splits)
  moreover have "sems (kern s2) = sems (kern s1)" using on_kern_sems [OF r(2)] push_sems by blast
  moreover have "sems (kern s') = sems (kern s2)" using on_kern_sems [OF r(3)] upd_thread_sems by fastforce
  ultimately show ?thesis by simp
qed

lemma Yield_sems:
  assumes "Yield run s = Some (Inr s')"
  shows "sems (kern s') = sems (kern s)"
proof (cases "readyList (kern s)")
  case Nil
  then have "on_kern (push (Restore (level s))) (s\<lparr>level := IntOff\<rparr>) = Inr s'"
    using assms by (simp add: Yield_def SetLevel_off FindNextToRun_def)
  then show ?thesis using on_kern_sems push_sems by fastforce
next
  case (Cons t ts)
  then obtain k1 k2 where r: "ReadyToRun (currentThread (kern s)) ((kern s)\<lparr>readyList := ts\<rparr>) = Inr k1"
    "push (Restore (level s)) k1 = Inr k2" "Run_thread t (s\<lparr>level := IntOff, kern := k2\<rparr>) = Inr s'"
    using assms by (auto simp: Yield_def SetLevel_off FindNextToRun_def Let_def elim!: bindR_InrE)
  show ?thesis
    using ReadyToRun_sems [OF r(1)] push_sems [OF r(2)] Run_thread_sems [OF r(3)] by simp
qed

lemma Sleep_sems: "Sleep s = Inr s' \<Longrightarrow> sems (kern s') = sems (kern s)"
  unfolding Sleep_def
  by (auto elim!: bindR_InrE on_kern_sems dest!: upd_thread_sems push_sems)

lemma Finish_sems: "Finish run s = Some (Inr s') \<Longrightarrow> sems (kern s') = sems (kern s)"
proof -
  assume F: "Finish run s = Some (Inr s')"
  let ?c = "currentThread (kern s)"
  obtain s1 where s1: "on_kern (upd_thread ?c (\<lambda>x. x\<lparr>kstack := []\<rparr>))
      (s\<lparr>level := IntOff, kern := (kern s)\<lparr>toBeDestroyed := Some ?c\<rparr>\<rparr>) = Inr s1" "Sleep s1 = Inr s'"
    using F by (auto simp: Finish_def SetLevel_off Let_def elim!: bindR_InrE)
  have "sems (kern s1) = sems (kern s)" using on_kern_sems [OF s1(1)] upd_thread_sems by fastforce
  with Sleep_sems [OF s1(2)] show ?thesis by simp
qed

lemma run_tail_sems: "run_tail s = Inr s' \<Longrightarrow> sems (kern s') = sems (kern s)"
proof -
  assume R: "run_tail s = Inr s'"
  obtain s1 where s1: "(case toBeDestroyed (kern s) of None \<Rightarrow> Inr s
        | Some t \<Rightarrow> on_kern (\<lambda>k. bindR (delete_thread t k) (\<lambda>k'. Inr (k'\<lparr>toBeDestroyed := None\<rparr>))) s) = Inr s1"
    "kern s' = kern s1"
    using R unfolding run_tail_def
    by (auto simp: RestoreUserState_def elim!: bindR_InrE split: option.splits)
  then show ?thesis
    by (auto simp: delete_thread_def elim!: bindR_InrE on_kern_sems split: option.splits)
qed

text \<open>The two events that change the value of a semaphore.\<close>

definition top_frame :: "('h, 'a) ksim \<Rightarrow> kframe option" where
  "top_frame s = (case threads (kern s) (currentThread (kern s)) of None \<Rightarrow> None
     | Some x \<Rightarrow> (case kstack x of [] \<Rightarrow> None | fr # _ \<Rightarrow> Some fr))"

definition passes_P :: "sid \<Rightarrow> ('h, 'a) ksim \<Rightarrow> bool" where
  "passes_P sm s \<longleftrightarrow> (\<exists>l S. top_frame s = Some (InP sm l) \<and> sems (kern s) sm = Some S \<and> svalue S \<noteq> 0)"

definition does_V :: "sid \<Rightarrow> cmd \<Rightarrow> ('h, 'a) ksim \<Rightarrow> bool" where
  "does_V sm c s \<longleftrightarrow> top_frame s = Some Body \<and> c = CV sm"

section \<open>Reachable states\<close>

inductive kreach :: "('h, 'a) handlers \<Rightarrow> ('h, 'a) ksim \<Rightarrow> ('h, 'a) ksim \<Rightarrow> bool" for run s0 where
  start: "kreach run s0 s0"
| step: "kreach run s0 s \<Longrightarrow> cmd_ok c s \<Longrightarrow> kstep run c s = Some (Inr (False, s')) \<Longrightarrow> kreach run s0 s'"

text \<open>
  Executions with the numbers of calls of \<^verbatim>\<open>P\<close> that have passed and of calls of \<^verbatim>\<open>V\<close> that threads
  have made on a semaphore.
\<close>

inductive ktrace :: "('h, 'a) handlers \<Rightarrow> sid \<Rightarrow> ('h, 'a) ksim \<Rightarrow> nat \<Rightarrow> nat \<Rightarrow> ('h, 'a) ksim \<Rightarrow> bool"
  for run sm s0 where
  start: "ktrace run sm s0 0 0 s0"
| step: "ktrace run sm s0 p v s \<Longrightarrow> cmd_ok c s \<Longrightarrow> kstep run c s = Some (Inr (False, s')) \<Longrightarrow>
    ktrace run sm s0 (if passes_P sm s then Suc p else p) (if does_V sm c s then Suc v else v) s'"

context kernel_handlers
begin

lemma kreach_inv:
  assumes "kreach run s0 s" and "sinv D s0"
  shows "sinv D s"
  using assms
proof induction
  case (step s c s')
  then show ?case using kstep_ok [of s c] by auto
qed

lemma one_tick_sems:
  assumes b: "base_inv D s" and r: "one_tick run s = Some (Inr s')" and sm: "sm \<notin> D"
  shows "sems (kern s') sm = sems (kern s) sm"
proof -
  have bb: "wf_sim s" "status s \<noteq> IdleMode" "wake D (kern s) (kern s)"
    using b by (auto simp: base_inv_def intro: wake_refl)
  obtain y s1 where s1: "OneTick run s = Some (Inr (y, s1))" "wake D (kern s) (kern s1)"
    using OneTick_ok [OF bb] by auto
  have "sems (kern s') = sems (kern s1)"
  proof (cases y)
    case True
    then obtain s2 where s2: "on_kern (push (OldStatus (status s))) s1 = Inr s2" "Yield run s2 = Some (Inr s')"
      using r s1(1) by (cases "on_kern (push (OldStatus (status s))) s1") (auto simp: one_tick_def)
    then show ?thesis using on_kern_sems [OF s2(1), of "sems (kern s1)"] push_sems Yield_sems by fastforce
  qed (use r s1 in \<open>simp add: one_tick_def\<close>)
  with s1(2) sm show ?thesis by (simp add: wake_def)
qed

lemma set_level_sems:
  assumes b: "base_inv D s" and r: "set_level run l s = Some (Inr s')" and sm: "sm \<notin> D"
  shows "sems (kern s') sm = sems (kern s) sm"
proof (cases "l = IntOn \<and> level s = IntOff")
  case True
  let ?s = "s\<lparr>level := IntOn\<rparr>"
  have b1: "base_inv D ?s" using b by (simp add: base_inv_def machine_ok_def)
  have "set_level run l s = one_tick run ?s"
    using True b by (auto simp: set_level_def one_tick_def SetLevel_def ChangeLevel_def base_inv_def Let_def
        split: option.splits sum.splits)
  with one_tick_sems [OF b1 _ sm] r show ?thesis by simp
next
  case False
  then show ?thesis
    using r b by (auto simp: set_level_def SetLevel_def ChangeLevel_def base_inv_def Let_def split: if_splits)
qed

lemma exec_cmd_value:
  assumes b: "base_inv D s" and r: "exec_cmd run c s = Some (Inr s')" and sm: "sm \<notin> D" "sems (kern s) sm = Some S"
    and c: "cmd_ok c s"
  shows "\<exists>S'. sems (kern s') sm = Some S' \<and> svalue S' = svalue S + (if c = CV sm then 1 else 0)"
proof (cases c)
  case (CInstr f)
  with c obtain m where m: "machine s = Some m" "length (registers (f m)) = NumTotalRegs"
    by (auto split: option.splits)
  then have "base_inv D (s\<lparr>machine := Some (f m)\<rparr>)"
    using b by (auto simp: base_inv_def machine_ok_def intro: refs_ok_machine)
  then show ?thesis using one_tick_sems [OF _ _ sm(1)] r CInstr m sm(2) by (fastforce simp: get_machine_def)
next
  case (CV sm')
  then obtain k1 k2 where v: "v_body sm' (kern s) = Inr k1" "push (Restore (level s)) k1 = Inr k2" "kern s' = k2"
    using r by (auto simp: Semaphore_V_def SetLevel_off on_kern_def elim!: bindR_InrE)
  have "\<exists>S'. sems k1 sm = Some S' \<and> svalue S' = svalue S + (if sm' = sm then 1 else 0)"
    using v(1) sm(2) by (auto simp: v_body_def get_sem_def split: option.splits list.splits
        elim!: bindR_InrE dest!: ReadyToRun_sems)
  then show ?thesis using v push_sems [OF v(2)] CV by auto
next
  case (CNew t name i junk)
  let ?k = "(kern s)\<lparr>threads := (threads (kern s))(t \<mapsto> Thread_Thread junk name i)\<rparr>"
  obtain k1 k2 k3 where f: "upd_thread t StackAllocate ?k = Inr k1" "ReadyToRun t k1 = Inr k2"
    "push (Restore (level s)) k2 = Inr k3" "kern s' = k3"
    using r CNew by (auto simp: Fork_def on_kern_def SetLevel_off elim!: bindR_InrE)
  then show ?thesis
    using upd_thread_sems [OF f(1)] ReadyToRun_sems [OF f(2)] push_sems [OF f(3)] sm(2) CNew by simp
next
  case (CStart sp)
  then show ?thesis
    using r sm(2) by (auto simp: elim!: bindR_InrE on_kern_sems dest!: upd_thread_sems)
      (auto simp: on_kern_def elim!: bindR_InrE dest!: upd_thread_sems)
next
  case (CP sm')
  then have "on_kern (push (InP sm' (level s))) (s\<lparr>level := IntOff\<rparr>) = Inr s'"
    using r by (simp add: Semaphore_P_def SetLevel_off)
  then have "sems (kern s') = sems (kern s)" using on_kern_sems push_sems by fastforce
  with sm(2) CP show ?thesis by simp
next
  case CYield
  then show ?thesis using r sm(2) Yield_sems [of run s s'] by simp
next
  case CFinish
  then show ?thesis using r sm(2) Finish_sems [of run s s'] by simp
qed (use r sm c in auto)

lemma sleep_round_sems:
  assumes inv: "sinv D s" and x: "threads (kern s) (currentThread (kern s)) = Some x" "kstack x = SleepLoop # fs"
    and r: "sleep_round run s = Some (Inr (False, s'))" and sm: "sm \<notin> D"
  shows "sems (kern s') sm = sems (kern s) sm"
proof (cases "readyList (kern s)")
  case Nil
  then have I: "Idle run s = Some (Inr (False, s'))" using r by (simp add: sleep_round_def FindNextToRun_def)
  have l: "level s = IntOff" and k: "kinv D (kern s)" and wf: "wf_sim s"
    using inv x by (auto simp: sinv_def current_is_def base_inv_def)
  show ?thesis
  proof (cases "pending s = [] \<or> (\<exists>w p. pending s = [(w, p)] \<and> ityp p = TimerInt)")
    case True
    then show ?thesis using Idle_halts [OF l] I by auto
  next
    case False
    then obtain w p rest where pen: "pending s = (w, p) # rest" "ityp p \<noteq> TimerInt \<or> rest \<noteq> []"
      by (cases "pending s") fastforce+
    then have "wake D (kern s) (kern s')" using Idle_returns [OF wf l wake_refl [OF k] pen] I by auto
    with sm show ?thesis by (simp add: wake_def)
  qed
next
  case (Cons t ts)
  then obtain s1 where "on_kern pop (s\<lparr>kern := (kern s)\<lparr>readyList := ts\<rparr>\<rparr>) = Inr s1" "Run_thread t s1 = Inr s'"
    using r by (auto simp: sleep_round_def FindNextToRun_def no_halt_eq elim!: bindR_InrE)
  moreover from this(1) have "sems (kern s1) = sems (kern s)"
    by (auto simp: pop_def elim!: on_kern_sems dest!: upd_thread_sems)
  ultimately show ?thesis using Run_thread_sems by metis
qed

lemma exec_frame_value:
  assumes b: "base_inv D s" and r: "exec_frame run fr s = Some (Inr s')" and sm: "sm \<notin> D" "sems (kern s) sm = Some S"
  shows "\<exists>S'. sems (kern s') sm = Some S' \<and>
    svalue S' = svalue S - (if (\<exists>l. fr = InP sm l) \<and> svalue S \<noteq> 0 then 1 else 0)"
proof (cases fr)
  case (InP sm' l)
  show ?thesis
  proof (cases "svalue (the (sems (kern s) sm')) = 0")
    case True
    then obtain S1 s1 where p: "sems (kern s) sm' = Some S1" "on_kern (\<lambda>k. push (InP sm' l)
         (set_sem sm' (S1\<lparr>queue := queue S1 @ [currentThread k]\<rparr>) k)) s = Inr s1" "Sleep s1 = Inr s'"
      using r InP by (auto simp: p_round_def get_sem_def elim!: bindR_InrE split: option.splits)
    have "sems (kern s1) = (sems (kern s))(sm' \<mapsto> S1\<lparr>queue := queue S1 @ [currentThread (kern s)]\<rparr>)"
      using on_kern_sems [OF p(2)] push_sems by fastforce
    with Sleep_sems [OF p(3)] p(1) sm(2) InP True show ?thesis by auto
  next
    case False
    then obtain S1 where p: "sems (kern s) sm' = Some S1"
      "on_kern (\<lambda>k. push (Restore l) (set_sem sm' (S1\<lparr>svalue := svalue S1 - 1\<rparr>) k)) s = Inr s'"
      using r InP by (auto simp: p_round_def get_sem_def elim!: bindR_InrE split: option.splits)
    have "sems (kern s') = (sems (kern s))(sm' \<mapsto> S1\<lparr>svalue := svalue S1 - 1\<rparr>)"
      using on_kern_sems [OF p(2)] push_sems by fastforce
    with p(1) sm(2) InP False show ?thesis by auto
  qed
next
  case Startup
  then show ?thesis using set_level_sems [OF b _ sm(1), of IntOn s'] r sm(2) by simp
next
  case (Restore l)
  then show ?thesis using set_level_sems [OF b _ sm(1), of l s'] r sm(2) by simp
next
  case RunTail
  then show ?thesis using run_tail_sems [of s s'] r sm(2) by simp
qed (use r sm(2) in auto)

lemma kstep_value:
  assumes inv: "sinv D s" and c: "cmd_ok c s" and r: "kstep run c s = Some (Inr (False, s'))"
    and sm: "sm \<notin> D" "sems (kern s) sm = Some S"
  shows "\<exists>S'. sems (kern s') sm = Some S' \<and>
    svalue S' = svalue S + (if does_V sm c s then 1 else 0) - (if passes_P sm s then 1 else 0)"
proof -
  let ?c = "currentThread (kern s)"
  obtain x where x: "threads (kern s) ?c = Some x" "stack_ok (level s) (kstack x)"
    using inv by (auto simp: sinv_def current_is_def)
  have b: "base_inv D s" and k: "kinv D (kern s)" using inv by (simp_all add: sinv_def base_inv_def)
  obtain fr fs where fs: "kstack x = fr # fs" using x(2) by (cases "kstack x") auto
  have top: "top_frame s = Some fr" using x(1) fs by (simp add: top_frame_def)
  show ?thesis
  proof (cases "fr = SleepLoop")
    case True
    then have "sleep_round run s = Some (Inr (False, s'))" using r x(1) fs by (simp add: kstep_def)
    then have "sems (kern s') sm = sems (kern s) sm" using sleep_round_sems [OF inv x(1)] fs True sm(1) by simp
    with sm(2) top True show ?thesis by (simp add: does_V_def passes_P_def)
  next
    case nsl: False
    show ?thesis
    proof (cases "fr = Body")
      case True
      then have "exec_cmd run c s = Some (Inr s')"
        using r x(1) fs by (simp add: kstep_def no_halt_eq)
      from exec_cmd_value [OF b this sm c] show ?thesis using top True by (simp add: does_V_def passes_P_def)
    next
      case nb: False
      let ?s = "s\<lparr>kern := (kern s)\<lparr>threads := (threads (kern s))(?c \<mapsto> x\<lparr>kstack := fs\<rparr>)\<rparr>\<rparr>"
      have b1: "base_inv D ?s" using pop_ok [OF inv x(1) fs nsl nb] by blast
      have "kstep run c s = no_halt (exec_frame run fr ?s)"
        using x(1) fs nb nsl by (cases fr) (simp_all add: kstep_def on_kern_def pop_def)
      then have E: "exec_frame run fr ?s = Some (Inr s')"
        using r no_halt_eq [of "exec_frame run fr ?s" False s'] by metis
      have "\<exists>S'. sems (kern s') sm = Some S' \<and> svalue S' = svalue S - (if passes_P sm s then 1 else 0)"
        using exec_frame_value [OF b1 E sm(1)] sm(2) top by (simp add: passes_P_def)
      with top nb show ?thesis by (simp add: does_V_def)
    qed
  qed
qed

lemma ktrace_balance:
  assumes "ktrace run sm s0 p v s" and "sinv D s0" and "sm \<notin> D" and "sems (kern s0) sm = Some S0"
  shows "sinv D s \<and> (\<exists>S. sems (kern s) sm = Some S \<and> svalue S = svalue S0 + int v - int p)"
  using assms
proof induction
  case (step p v s c s')
  then have inv: "sinv D s" by simp
  from step obtain S where S: "sems (kern s) sm = Some S" "svalue S = svalue S0 + int v - int p" by auto
  have "sinv D s'" using kstep_ok [OF inv step.hyps(2)] step.hyps(3) by auto
  with kstep_value [OF inv step.hyps(2,3) \<open>sm \<notin> D\<close> S(1)] S(2) show ?case by auto
qed simp

end

end
