(* ===== verification/Devices.thy ===== *)
theory Devices
  imports KernelInv
begin

text \<open>
  The simulated devices that interrupt the kernel: the timer (\<^verbatim>\<open>machine/timer.cc\<close> with
  \<^verbatim>\<open>TimerInterruptHandler\<close> of \<^verbatim>\<open>threads/system.cc\<close>), the disk (\<^verbatim>\<open>machine/disk.cc\<close>), and the
  console (\<^verbatim>\<open>machine/console.cc\<close>), with the handlers that wake the threads waiting for them in
  \<^verbatim>\<open>filesys/synchdisk.cc\<close> and \<^verbatim>\<open>threads/synchcons.cc\<close>. The UNIX files behind the devices are part
  of the state: the sectors of the disk, the characters typed and displayed. The function
  \<open>rnd\<close> is the host's random number generator: \<open>rnd n\<close> is what the \<open>n\<close>-th call returns.
\<close>

section \<open>State\<close>

definition SectorsPerTrack :: int where "SectorsPerTrack = 32"
definition NumTracks :: int where "NumTracks = 32"
definition NumSectors :: int where "NumSectors = SectorsPerTrack * NumTracks"

record Disk =
  active :: bool
  lastSector :: int
  bufferInit :: int
  sectors :: "byte list list"

text \<open>\<^verbatim>\<open>EOF\<close> in a \<^verbatim>\<open>char\<close>. \<open>keys\<close> is what each poll of the keyboard finds.\<close>

definition EOF_char :: byte where "EOF_char = 255"

record Console =
  putBusy :: bool
  incoming :: byte
  keys :: "byte option list"
  display :: "byte list"

record Timer =
  randomize :: bool
  calls :: nat

record io = kernel +
  timer :: Timer
  disk :: Disk
  cons :: Console

datatype dev = TimerHandler | DiskDone | ConsoleReadPoll | ConsoleWriteDone

type_synonym isim = "(dev, io) sim"

text \<open>The addresses of the semaphores that handlers signal.\<close>

definition disk_sem :: sid where "disk_sem = 0"
definition synchReadAvail :: sid where "synchReadAvail = 1"
definition synchWriteAvail :: sid where "synchWriteAvail = 2"
definition dev_sems :: "sid set" where "dev_sems = {disk_sem, synchReadAvail, synchWriteAvail}"

section \<open>Timer\<close>

definition TimeOfNextInterrupt :: "(nat \<Rightarrow> nat) \<Rightarrow> Timer \<Rightarrow> int \<times> Timer" where
  "TimeOfNextInterrupt rnd t =
     (if randomize t then (1 + c_mod (int (rnd (calls t))) (TimerTicks * 2), t\<lparr>calls := Suc (calls t)\<rparr>)
      else (TimerTicks, t))"

definition schedule_timer :: "(nat \<Rightarrow> nat) \<Rightarrow> isim \<Rightarrow> isim result" where
  "schedule_timer rnd s = (case TimeOfNextInterrupt rnd (timer (kern s)) of
     (n, t) \<Rightarrow> Schedule TimerHandler 0 n TimerInt (s\<lparr>kern := (kern s)\<lparr>timer := t\<rparr>\<rparr>))"

definition Timer_Timer :: "(nat \<Rightarrow> nat) \<Rightarrow> bool \<Rightarrow> isim \<Rightarrow> isim result" where
  "Timer_Timer rnd doRandom s =
     schedule_timer rnd (s\<lparr>kern := (kern s)\<lparr>timer := (timer (kern s))\<lparr>randomize := doRandom\<rparr>\<rparr>\<rparr>)"

definition TimerInterruptHandler :: "isim \<Rightarrow> isim result" where
  "TimerInterruptHandler s = (if status s \<noteq> IdleMode then YieldOnReturn s else Inr s)"

definition TimerExpired :: "(nat \<Rightarrow> nat) \<Rightarrow> isim \<Rightarrow> isim result" where
  "TimerExpired rnd s = bindR (schedule_timer rnd s) TimerInterruptHandler"

section \<open>Disk\<close>

definition MagicNumber :: int where "MagicNumber = 0x456789ab"

text \<open>The constructor opens an existing disk file, whose magic number it checks, or makes one.\<close>

definition Disk_Disk :: "(int \<times> byte list list) option \<Rightarrow> Disk result" where
  "Disk_Disk file = (case file of
     Some (magicNum, ss) \<Rightarrow> bindR (ASSERT (magicNum = MagicNumber)) (\<lambda>_.
       Inr \<lparr>active = False, lastSector = 0, bufferInit = 0, sectors = ss\<rparr>)
   | None \<Rightarrow> Inr \<lparr>active = False, lastSector = 0, bufferInit = 0,
       sectors = replicate (nat NumSectors) (replicate (nat SectorSize) 0)\<rparr>)"

definition TimeToSeek :: "int \<Rightarrow> Disk \<Rightarrow> int \<Rightarrow> int \<times> int" where
  "TimeToSeek newSector d nw =
     (let newTrack = c_div newSector SectorsPerTrack;
          oldTrack = c_div (lastSector d) SectorsPerTrack;
          seek = \<bar>newTrack - oldTrack\<bar> * SeekTime;
          over = c_mod (nw + seek) RotationTime;
          rotation = (if over > 0 then RotationTime - over else 0)
      in (seek, rotation))"

definition ModuloDiff :: "int \<Rightarrow> int \<Rightarrow> int" where
  "ModuloDiff to fro =
     (let toOffset = c_mod to SectorsPerTrack; fromOffset = c_mod fro SectorsPerTrack
      in c_mod ((toOffset - fromOffset) + SectorsPerTrack) SectorsPerTrack)"

definition ComputeLatency :: "int \<Rightarrow> bool \<Rightarrow> Disk \<Rightarrow> int \<Rightarrow> int" where
  "ComputeLatency newSector writing d nw =
     (case TimeToSeek newSector d nw of (seek, rotation) \<Rightarrow>
        let timeAfter = nw + seek + rotation in
        if \<not> writing \<and> seek = 0 \<and>
           c_div (timeAfter - bufferInit d) RotationTime > ModuloDiff newSector (c_div (bufferInit d) RotationTime)
        then RotationTime
        else seek + (rotation + ModuloDiff newSector (c_div timeAfter RotationTime) * RotationTime) + RotationTime)"

definition UpdateLast :: "int \<Rightarrow> Disk \<Rightarrow> int \<Rightarrow> Disk" where
  "UpdateLast newSector d nw =
     (case TimeToSeek newSector d nw of (seek, rotation) \<Rightarrow>
        d\<lparr>bufferInit := (if seek \<noteq> 0 then nw + seek + rotation else bufferInit d), lastSector := newSector\<rparr>)"

definition ReadRequest :: "int \<Rightarrow> isim \<Rightarrow> (byte list \<times> isim) result" where
  "ReadRequest sectorNumber s =
     (let d = disk (kern s); ticks = ComputeLatency sectorNumber False d (now s) in
      bindR (ASSERT (\<not> active d)) (\<lambda>_.
      bindR (ASSERT (sectorNumber \<ge> 0 \<and> sectorNumber < NumSectors)) (\<lambda>_.
      bindR (rd (sectors d) sectorNumber) (\<lambda>dat.
      bindR (Schedule DiskDone 0 ticks DiskInt
        (s\<lparr>kern := (kern s)\<lparr>disk := UpdateLast sectorNumber (d\<lparr>active := True\<rparr>) (now s)\<rparr>,
           stats := (stats s)\<lparr>numDiskReads := numDiskReads (stats s) + 1\<rparr>\<rparr>)) (\<lambda>s'. Inr (dat, s'))))))"

definition WriteRequest :: "int \<Rightarrow> byte list \<Rightarrow> isim \<Rightarrow> isim result" where
  "WriteRequest sectorNumber dat s =
     (let d = disk (kern s); ticks = ComputeLatency sectorNumber True d (now s) in
      bindR (ASSERT (\<not> active d)) (\<lambda>_.
      bindR (ASSERT (sectorNumber \<ge> 0 \<and> sectorNumber < NumSectors)) (\<lambda>_.
      bindR (wr (sectors d) sectorNumber dat) (\<lambda>ss.
      Schedule DiskDone 0 ticks DiskInt
        (s\<lparr>kern := (kern s)\<lparr>disk := UpdateLast sectorNumber (d\<lparr>active := True, sectors := ss\<rparr>) (now s)\<rparr>,
           stats := (stats s)\<lparr>numDiskWrites := numDiskWrites (stats s) + 1\<rparr>\<rparr>)))))"

text \<open>\<^verbatim>\<open>HandleInterrupt\<close> calls \<^verbatim>\<open>DiskRequestDone\<close>, and that \<^verbatim>\<open>SynchDisk::RequestDone\<close>.\<close>

definition RequestDone :: "isim \<Rightarrow> isim result" where
  "RequestDone s = on_kern (v_body disk_sem) s"

definition HandleInterrupt :: "isim \<Rightarrow> isim result" where
  "HandleInterrupt s = RequestDone (s\<lparr>kern := (kern s)\<lparr>disk := (disk (kern s))\<lparr>active := False\<rparr>\<rparr>\<rparr>)"

text \<open>
  \<^verbatim>\<open>SynchDisk::ReadSector\<close> and \<^verbatim>\<open>WriteSector\<close>: the request, and \<^verbatim>\<open>P\<close>, in whose frame the thread is
  left. \<^verbatim>\<open>Lock::Acquire\<close> and \<^verbatim>\<open>Release\<close> have empty bodies.
\<close>

definition ReadSector :: "(dev \<Rightarrow> int \<Rightarrow> isim \<Rightarrow> isim result) \<Rightarrow> int \<Rightarrow> isim \<Rightarrow>
    (byte list \<times> isim) result option" where
  "ReadSector run sectorNumber s = bindO (Some (ReadRequest sectorNumber s)) (\<lambda>(dat, s1).
     bindO (Semaphore_P run disk_sem s1) (\<lambda>s2. Some (Inr (dat, s2))))"

definition WriteSector :: "(dev \<Rightarrow> int \<Rightarrow> isim \<Rightarrow> isim result) \<Rightarrow> int \<Rightarrow> byte list \<Rightarrow> isim \<Rightarrow>
    isim result option" where
  "WriteSector run sectorNumber dat s = bindO (Some (WriteRequest sectorNumber dat s)) (Semaphore_P run disk_sem)"

section \<open>Console\<close>

definition set_cons :: "Console \<Rightarrow> isim \<Rightarrow> isim" where
  "set_cons c s = s\<lparr>kern := (kern s)\<lparr>cons := c\<rparr>\<rparr>"

definition Console_Console :: "byte option list \<Rightarrow> byte list \<Rightarrow> isim \<Rightarrow> isim result" where
  "Console_Console ks out s = Schedule ConsoleReadPoll 0 ConsoleTime ConsoleReadInt
     (set_cons \<lparr>putBusy = False, incoming = EOF_char, keys = ks, display = out\<rparr> s)"

text \<open>A poll of the keyboard: is there a character, and which one would \<^verbatim>\<open>Read\<close> get.\<close>

definition poll_key :: "Console \<Rightarrow> byte option \<times> Console" where
  "poll_key c = (case keys c of [] \<Rightarrow> (None, c) | k # ks \<Rightarrow> (k, c\<lparr>keys := ks\<rparr>))"

definition CheckCharAvail :: "isim \<Rightarrow> isim result" where
  "CheckCharAvail s = bindR (Schedule ConsoleReadPoll 0 ConsoleTime ConsoleReadInt s) (\<lambda>s1.
     let c = cons (kern s1) in
     if incoming c \<noteq> EOF_char then Inr s1
     else case poll_key c of (None, c') \<Rightarrow> Inr (set_cons c' s1)
       | (Some ch, c') \<Rightarrow> on_kern (v_body synchReadAvail)
           (set_cons (c'\<lparr>incoming := ch\<rparr>)
             (s1\<lparr>stats := (stats s1)\<lparr>numConsoleCharsRead := numConsoleCharsRead (stats s1) + 1\<rparr>\<rparr>)))"

definition WriteDone :: "isim \<Rightarrow> isim result" where
  "WriteDone s = on_kern (v_body synchWriteAvail) (set_cons ((cons (kern s))\<lparr>putBusy := False\<rparr>)
     (s\<lparr>stats := (stats s)\<lparr>numConsoleCharsWritten := numConsoleCharsWritten (stats s) + 1\<rparr>\<rparr>))"

definition GetChar :: "Console \<Rightarrow> byte \<times> Console" where
  "GetChar c = (incoming c, c\<lparr>incoming := EOF_char\<rparr>)"

definition PutChar :: "byte \<Rightarrow> isim \<Rightarrow> isim result" where
  "PutChar ch s = (let c = cons (kern s) in
     bindR (ASSERT (\<not> putBusy c)) (\<lambda>_.
     Schedule ConsoleWriteDone 0 ConsoleTime ConsoleWriteInt
       (set_cons (c\<lparr>display := display c @ [ch], putBusy := True\<rparr>) s)))"

section \<open>Dispatch\<close>

fun run_dev :: "(nat \<Rightarrow> nat) \<Rightarrow> dev \<Rightarrow> int \<Rightarrow> isim \<Rightarrow> isim result" where
  "run_dev rnd TimerHandler a s = TimerExpired rnd s"
| "run_dev rnd DiskDone a s = HandleInterrupt s"
| "run_dev rnd ConsoleReadPoll a s = CheckCharAvail s"
| "run_dev rnd ConsoleWriteDone a s = WriteDone s"

section \<open>The synchronous console\<close>

text \<open>
  \<^verbatim>\<open>SynchConsole::Read\<close>. \<open>cs\<close> are the characters \<^verbatim>\<open>GetChar\<close> returns, each after a \<^verbatim>\<open>P\<close> on the
  semaphore the keyboard signals; \<open>None\<close> means that the call waits for more. The result is
  the value returned, the buffer, and the characters left. \<open>ch\<close> is the last character read,
  at first whatever the variable held.
\<close>

fun read_loop :: "nat \<Rightarrow> byte \<Rightarrow> byte list \<Rightarrow> byte list \<Rightarrow> (byte \<times> byte list \<times> byte list) option" where
  "read_loop 0 ch into cs = Some (ch, into, cs)"
| "read_loop (Suc n) ch into [] = None"
| "read_loop (Suc n) ch into (c # cs) =
     (if c = EOF_char then read_loop (Suc n) c into cs
      else if c = 10 \<or> c = 1 then Some (c, into, cs)
      else read_loop n c (into @ [c]) cs)"

definition SynchConsole_Read :: "byte \<Rightarrow> nat \<Rightarrow> byte list \<Rightarrow> (int \<times> byte list \<times> byte list) option" where
  "SynchConsole_Read junk numBytes cs = (case read_loop numBytes junk [] cs of None \<Rightarrow> None
     | Some (ch, into, rest) \<Rightarrow>
         Some (if ch = 1 then -1 else int (length into), into @ replicate (numBytes - length into) 0, rest))"

section \<open>The handlers meet their contract\<close>

lemma kinv_io [simp]:
  "kinv D (k\<lparr>timer := t\<rparr>) = kinv D k" "kinv D (k\<lparr>disk := d\<rparr>) = kinv D k" "kinv D (k\<lparr>cons := c\<rparr>) = kinv D k"
proof -
  have w: "waiting (k\<lparr>timer := t\<rparr>) = waiting k" "waiting (k\<lparr>disk := d\<rparr>) = waiting k" "waiting (k\<lparr>cons := c\<rparr>) = waiting k"
    by (simp_all add: waiting_def fun_eq_iff)
  show "kinv D (k\<lparr>timer := t\<rparr>) = kinv D k" "kinv D (k\<lparr>disk := d\<rparr>) = kinv D k" "kinv D (k\<lparr>cons := c\<rparr>) = kinv D k"
    unfolding kinv_def w by (simp_all add: has_status_def)
qed

lemma wake_io [simp]:
  "wake D (k\<lparr>timer := t\<rparr>) k' = wake D k k'" "wake D (k\<lparr>disk := d\<rparr>) k' = wake D k k'" "wake D (k\<lparr>cons := c\<rparr>) k' = wake D k k'"
  "wake D k (k'\<lparr>timer := t\<rparr>) = wake D k k'" "wake D k (k'\<lparr>disk := d\<rparr>) = wake D k k'" "wake D k (k'\<lparr>cons := c\<rparr>) = wake D k k'"
  by (simp_all add: wake_def)

lemma dev_v_body:
  assumes "kinv dev_sems (kern s)" and "sm \<in> dev_sems"
  shows "\<exists>s'. on_kern (v_body sm) s = Inr s' \<and> handler_frame s s' \<and> wake dev_sems (kern s) (kern s')"
proof -
  obtain k' where "v_body sm (kern s) = Inr k'" "wake dev_sems (kern s) k'"
    using v_body_wake [OF assms] by blast
  then show ?thesis by (auto simp: on_kern_def ticks_of_def intro!: frame_refl)
qed

lemma TimeOfNextInterrupt_pos: "fst (TimeOfNextInterrupt rnd t) > 0"
  using pos_mod_sign [of 200 "int (rnd (calls t))"]
  by (simp add: TimeOfNextInterrupt_def TimerTicks_def del: pos_mod_sign)

lemma schedule_timer_ok:
  assumes "kinv D (kern s)"
  shows "\<exists>s'. schedule_timer rnd s = Inr s' \<and> handler_frame s s' \<and> inHandler s' = inHandler s \<and> wake D (kern s) (kern s')"
proof -
  obtain n t where nt: "TimeOfNextInterrupt rnd (timer (kern s)) = (n, t)" by (cases "TimeOfNextInterrupt rnd (timer (kern s))")
  have "n > 0" using TimeOfNextInterrupt_pos [of rnd "timer (kern s)"] nt by simp
  then obtain s' where s': "Schedule TimerHandler 0 n TimerInt (s\<lparr>kern := (kern s)\<lparr>timer := t\<rparr>\<rparr>) = Inr s'"
    "handler_frame (s\<lparr>kern := (kern s)\<lparr>timer := t\<rparr>\<rparr>) s'" "inHandler s' = inHandler s" "kern s' = (kern s)\<lparr>timer := t\<rparr>"
    using frame_Schedule [of n TimerHandler 0 TimerInt "s\<lparr>kern := (kern s)\<lparr>timer := t\<rparr>\<rparr>"] by auto
  moreover have "handler_frame s (s\<lparr>kern := (kern s)\<lparr>timer := t\<rparr>\<rparr>)" by (intro frame_refl) (simp_all add: ticks_of_def)
  ultimately show ?thesis
    using nt assms frame_trans by (fastforce simp: schedule_timer_def wake_refl)
qed

lemma TimerExpired_ok:
  assumes "kinv D (kern s)" and "inHandler s"
  shows "\<exists>s'. TimerExpired rnd s = Inr s' \<and> handler_frame s s' \<and> wake D (kern s) (kern s')"
proof -
  obtain s1 where s1: "schedule_timer rnd s = Inr s1" "handler_frame s s1" "inHandler s1" "wake D (kern s) (kern s1)"
    using schedule_timer_ok [OF assms(1), of rnd] assms(2) by blast
  have "handler_frame s1 (s1\<lparr>yieldOnReturn := True\<rparr>)" by (intro frame_refl) (simp_all add: ticks_of_def)
  then have "handler_frame s (s1\<lparr>yieldOnReturn := True\<rparr>)" using s1(2) frame_trans by blast
  then show ?thesis
    using s1 by (auto simp: TimerExpired_def TimerInterruptHandler_def YieldOnReturn_def)
qed

lemma HandleInterrupt_ok:
  assumes "kinv dev_sems (kern s)"
  shows "\<exists>s'. HandleInterrupt s = Inr s' \<and> handler_frame s s' \<and> wake dev_sems (kern s) (kern s')"
proof -
  let ?s = "s\<lparr>kern := (kern s)\<lparr>disk := (disk (kern s))\<lparr>active := False\<rparr>\<rparr>\<rparr>"
  have "handler_frame s ?s" by (intro frame_refl) (simp_all add: ticks_of_def)
  then show ?thesis
    using dev_v_body [of ?s disk_sem] assms frame_trans
    by (fastforce simp: HandleInterrupt_def RequestDone_def dev_sems_def)
qed

lemma WriteDone_ok:
  assumes "kinv dev_sems (kern s)"
  shows "\<exists>s'. WriteDone s = Inr s' \<and> handler_frame s s' \<and> wake dev_sems (kern s) (kern s')"
proof -
  let ?s = "set_cons ((cons (kern s))\<lparr>putBusy := False\<rparr>)
     (s\<lparr>stats := (stats s)\<lparr>numConsoleCharsWritten := numConsoleCharsWritten (stats s) + 1\<rparr>\<rparr>)"
  have "handler_frame s ?s" by (intro frame_refl) (simp_all add: ticks_of_def set_cons_def)
  then show ?thesis
    using dev_v_body [of ?s synchWriteAvail] assms frame_trans
    by (fastforce simp: WriteDone_def dev_sems_def set_cons_def)
qed

lemma CheckCharAvail_ok:
  assumes "kinv dev_sems (kern s)"
  shows "\<exists>s'. CheckCharAvail s = Inr s' \<and> handler_frame s s' \<and> wake dev_sems (kern s) (kern s')"
proof -
  obtain s1 where s1: "Schedule ConsoleReadPoll 0 ConsoleTime ConsoleReadInt s = Inr s1" "handler_frame s s1" "kern s1 = kern s"
    using frame_Schedule [of ConsoleTime ConsoleReadPoll 0 ConsoleReadInt s] by (auto simp: ConsoleTime_def)
  let ?c = "cons (kern s)"
  show ?thesis
  proof (cases "incoming ?c = EOF_char")
    case False
    then show ?thesis using s1 assms by (auto simp: CheckCharAvail_def Let_def wake_refl)
  next
    case True
    obtain k c' where k: "poll_key ?c = (k, c')" by (cases "poll_key ?c")
    show ?thesis
    proof (cases k)
      case None
      have "handler_frame s1 (set_cons c' s1)" by (intro frame_refl) (simp_all add: ticks_of_def set_cons_def)
      then show ?thesis
        using None True k s1 assms frame_trans
        by (fastforce simp: CheckCharAvail_def Let_def wake_refl set_cons_def)
    next
      case (Some ch)
      let ?s = "set_cons (c'\<lparr>incoming := ch\<rparr>)
        (s1\<lparr>stats := (stats s1)\<lparr>numConsoleCharsRead := numConsoleCharsRead (stats s1) + 1\<rparr>\<rparr>)"
      have "handler_frame s1 ?s" by (intro frame_refl) (simp_all add: ticks_of_def set_cons_def)
      then have f: "handler_frame s ?s" using s1(2) frame_trans by blast
      have kk: "kern ?s = (kern s)\<lparr>cons := c'\<lparr>incoming := ch\<rparr>\<rparr>" using s1(3) by (simp add: set_cons_def)
      obtain s' where "on_kern (v_body synchReadAvail) ?s = Inr s'" "handler_frame ?s s'"
        "wake dev_sems (kern ?s) (kern s')"
        using dev_v_body [of ?s synchReadAvail] assms kk by (auto simp: dev_sems_def)
      then show ?thesis
        using Some True k s1 f frame_trans kk by (auto simp: CheckCharAvail_def Let_def)
    qed
  qed
qed

interpretation devs: kernel_handlers "run_dev rnd" dev_sems for rnd
proof unfold_locales
  fix k1 k2 k3 :: io
  show "wake dev_sems k1 k2 \<Longrightarrow> wake dev_sems k2 k3 \<Longrightarrow> wake dev_sems k1 k3" by (rule wake_trans)
  show "wake dev_sems k1 k2 \<Longrightarrow> wake dev_sems k2 k2" by (rule wake_right)
next
  fix s :: isim and h a
  assume "inHandler s" and "wake dev_sems (kern s) (kern s)"
  then show "\<exists>s'. run_dev rnd h a s = Inr s' \<and> handler_frame s s' \<and> wake dev_sems (kern s) (kern s')"
    using TimerExpired_ok [of dev_sems s rnd] HandleInterrupt_ok [of s] CheckCharAvail_ok [of s] WriteDone_ok [of s]
    by (cases h) (auto simp: wake_def)
qed

section \<open>Start-up\<close>

text \<open>
  \<^verbatim>\<open>Initialize\<close> of \<^verbatim>\<open>threads/system.cc\<close> without the option \<^verbatim>\<open>-rs\<close>, so that there is no timer: the main
  thread is the running one, interrupts are enabled, then the machine, the console with its
  semaphores and the disk are made. \<open>junk\<close> and the two arguments after it are what
  uninitialised fields hold; \<open>ks\<close> is what will be typed and \<open>file\<close> the disk file, if it exists.
\<close>

definition RLineBlock :: sid where "RLineBlock = 3"
definition WLineBlock :: sid where "WLineBlock = 4"

definition main_thread :: "u32 list \<Rightarrow> Thread" where
  "main_thread junk = (Thread_Thread junk ''main'' 0)\<lparr>tstatus := RUNNING, kstack := [Body]\<rparr>"

definition boot_kernel :: "u32 list \<Rightarrow> io" where
  "boot_kernel junk = \<lparr>threads = [0 \<mapsto> main_thread junk], currentThread = 0, toBeDestroyed = None, readyList = [],
     sems = Map.empty, timer = \<lparr>randomize = False, calls = 0\<rparr>,
     disk = \<lparr>active = False, lastSector = 0, bufferInit = 0, sectors = []\<rparr>,
     cons = \<lparr>putBusy = False, incoming = EOF_char, keys = [], display = []\<rparr>\<rparr>"

definition SynchConsole_SynchConsole :: "byte option list \<Rightarrow> isim \<Rightarrow> isim result" where
  "SynchConsole_SynchConsole ks s = bindR (Console_Console ks [] s) (\<lambda>s1. Inr (s1\<lparr>kern :=
     set_sem WLineBlock (Semaphore_Semaphore ''Write Synch Line Block'' 1)
     (set_sem RLineBlock (Semaphore_Semaphore ''Read Synch Line Block'' 1)
     (set_sem synchWriteAvail (Semaphore_Semaphore ''Synch Write Avail'' 0)
     (set_sem synchReadAvail (Semaphore_Semaphore ''Synch Read Avail'' 0) (kern s1))))\<rparr>))"

definition SynchDisk_SynchDisk :: "(int \<times> byte list list) option \<Rightarrow> isim \<Rightarrow> isim result" where
  "SynchDisk_SynchDisk file s = bindR (Disk_Disk file) (\<lambda>d. Inr (s\<lparr>kern :=
     (set_sem disk_sem (Semaphore_Semaphore ''synch disk'' 0) (kern s))\<lparr>disk := d\<rparr>\<rparr>))"

definition Initialize :: "(nat \<Rightarrow> nat) \<Rightarrow> u32 list \<Rightarrow> u32 \<Rightarrow> int \<Rightarrow> bool \<Rightarrow> byte option list \<Rightarrow>
    (int \<times> byte list list) option \<Rightarrow> isim result option" where
  "Initialize rnd junk jsize jtime debugUserProg ks file =
     bindO (set_level (run_dev rnd) IntOn (Interrupt_Interrupt None (boot_kernel junk))) (\<lambda>s1. Some (
     bindR (SynchConsole_SynchConsole ks (s1\<lparr>machine := Some (Machine_Machine jsize jtime debugUserProg)\<rparr>))
       (SynchDisk_SynchDisk file)))"

lemma boot_enable:
  "set_level (run_dev rnd) IntOn (Interrupt_Interrupt None (boot_kernel junk)) =
     Some (Inr ((Interrupt_Interrupt None (boot_kernel junk))\<lparr>level := IntOn,
       stats := Statistics_Statistics\<lparr>totalTicks := 10, systemTicks := 10\<rparr>\<rparr>))"
  by (simp add: set_level_def SetLevel_def OneTick_def check_loop.simps CheckIfDue_def tick_def ChangeLevel_def
      Interrupt_Interrupt_def Statistics_Statistics_def SystemTick_def Let_def)

lemma boot_kinv:
  assumes "length junk = NumTotalRegs" and "D \<subseteq> dom (sems k)" and "sems_ok (sems k)"
    and "\<forall>sm S. sems k sm = Some S \<longrightarrow> queue S = []"
    and k: "threads k = [0 \<mapsto> main_thread junk]" "currentThread k = 0" "readyList k = []" "toBeDestroyed k = None"
  shows "kinv D k"
proof (rule kinvI)
  show "thread_ok (currentThread k) (set (readyList k)) (waiting k) t x" if "threads k t = Some x" for t x
    using that assms(1) k
    by (auto simp: thread_ok_def main_thread_def Thread_Thread_def runnable_stack_def split: if_splits)
  show "has_status k t BLOCKED (in_P (top_of (currentThread k) t) sm)" if "t \<in> waiting k sm" for t sm
    using that assms(4) by (auto simp: waiting_def split: option.splits)
qed (use assms in auto)

lemma Initialize_sinv:
  assumes "length junk = NumTotalRegs" and "file = None \<or> (\<exists>ss. file = Some (MagicNumber, ss))"
  shows "\<exists>s. Initialize rnd junk jsize jtime dbg ks file = Some (Inr s) \<and> sinv dev_sems s \<and>
    threads (kern s) = [0 \<mapsto> main_thread junk] \<and> Inr (disk (kern s)) = Disk_Disk file \<and> now s = 10 \<and>
    sems (kern s) RLineBlock = Some (Semaphore_Semaphore ''Read Synch Line Block'' 1)"
proof -
  obtain d where d: "Disk_Disk file = Inr d" using assms(2) by (auto simp: Disk_Disk_def)
  let ?m = "Machine_Machine jsize jtime dbg"
  let ?s1 = "(Interrupt_Interrupt None (boot_kernel junk))\<lparr>level := IntOn,
    stats := Statistics_Statistics\<lparr>totalTicks := 10, systemTicks := 10\<rparr>, machine := Some ?m\<rparr>"
  let ?p = "\<lparr>handler = ConsoleReadPoll, arg = 0, whn = 110, ityp = ConsoleReadInt\<rparr>"
  let ?k = "(set_sem disk_sem (Semaphore_Semaphore ''synch disk'' 0)
     (set_sem WLineBlock (Semaphore_Semaphore ''Write Synch Line Block'' 1)
     (set_sem RLineBlock (Semaphore_Semaphore ''Read Synch Line Block'' 1)
     (set_sem synchWriteAvail (Semaphore_Semaphore ''Synch Write Avail'' 0)
     (set_sem synchReadAvail (Semaphore_Semaphore ''Synch Read Avail'' 0)
     ((boot_kernel junk)\<lparr>cons := \<lparr>putBusy = False, incoming = EOF_char, keys = ks, display = []\<rparr>\<rparr>))))))\<lparr>disk := d\<rparr>"
  let ?s = "?s1\<lparr>pending := [(110, ?p)], kern := ?k\<rparr>"
  have I: "Initialize rnd junk jsize jtime dbg ks file = Some (Inr ?s)"
    using d unfolding Initialize_def boot_enable by (simp add: SynchConsole_SynchConsole_def Console_Console_def Schedule_def
        SynchDisk_SynchDisk_def set_cons_def ConsoleTime_def seq_insert_def Interrupt_Interrupt_def
        Statistics_Statistics_def Let_def)
  have "sems ?k = [synchReadAvail \<mapsto> Semaphore_Semaphore ''Synch Read Avail'' 0,
      synchWriteAvail \<mapsto> Semaphore_Semaphore ''Synch Write Avail'' 0, RLineBlock \<mapsto> Semaphore_Semaphore ''Read Synch Line Block'' 1,
      WLineBlock \<mapsto> Semaphore_Semaphore ''Write Synch Line Block'' 1, disk_sem \<mapsto> Semaphore_Semaphore ''synch disk'' 0]"
    by (simp add: boot_kernel_def)
  then have "kinv dev_sems ?k"
    by (intro boot_kinv [OF assms(1)])
      (auto simp: dev_sems_def sems_ok_def Semaphore_Semaphore_def boot_kernel_def split: if_splits)
  moreover have "wf_sim ?s" by (simp add: wf_sim_def Interrupt_Interrupt_def Statistics_Statistics_def)
  moreover have "machine_ok ?s"
    by (auto simp: machine_ok_def Machine_Machine_def refs_ok_def boot_kernel_def main_thread_def split: if_splits)
  ultimately have "sinv dev_sems ?s"
    by (auto simp: sinv_def base_inv_def current_is_def Interrupt_Interrupt_def boot_kernel_def main_thread_def)
  moreover have "threads (kern ?s) = [0 \<mapsto> main_thread junk]" "Inr (disk (kern ?s)) = Disk_Disk file" "now ?s = 10"
    "sems (kern ?s) RLineBlock = Some (Semaphore_Semaphore ''Read Synch Line Block'' 1)"
    using d by (simp_all add: boot_kernel_def RLineBlock_def WLineBlock_def disk_sem_def)
  ultimately show ?thesis using I by blast
qed

definition disk_ok :: "isim \<Rightarrow> bool" where
  "disk_ok s \<longleftrightarrow> length (sectors (disk (kern s))) = nat NumSectors \<and> 0 \<le> lastSector (disk (kern s)) \<and> 0 \<le> now s"

lemma demo_boot:
  obtains s where "Initialize (\<lambda>_. 0) (replicate 40 0) 0 0 False [] None = Some (Inr s)" "sinv dev_sems s"
    "disk_ok s" "\<not> active (disk (kern s))" "threads (kern s) 0 = Some (main_thread (replicate 40 0))"
    "sems (kern s) RLineBlock = Some (Semaphore_Semaphore ''Read Synch Line Block'' 1)"
proof -
  obtain s where s: "Initialize (\<lambda>_. 0) (replicate 40 0) 0 0 False [] None = Some (Inr s)" "sinv dev_sems s"
    "threads (kern s) = [0 \<mapsto> main_thread (replicate 40 0)]" "Inr (disk (kern s)) = Disk_Disk None" "now s = 10"
    "sems (kern s) RLineBlock = Some (Semaphore_Semaphore ''Read Synch Line Block'' 1)"
    using Initialize_sinv [of "replicate 40 0" None "\<lambda>_. 0" 0 0 False "[]"] by auto
  have "disk_ok s" "\<not> active (disk (kern s))"
    using s(4,5) by (auto simp: Disk_Disk_def disk_ok_def)
  with s that show thesis by simp
qed

section \<open>Properties of the disk model\<close>

lemma TimeToSeek_nonneg:
  assumes "0 \<le> newSector" and "0 \<le> lastSector d" and "0 \<le> nw"
  shows "TimeToSeek newSector d nw =
    (\<bar>newSector div 32 - lastSector d div 32\<bar> * 500, (- (nw + \<bar>newSector div 32 - lastSector d div 32\<bar> * 500)) mod 500)"
proof -
  define sk where "sk = \<bar>newSector div 32 - lastSector d div 32\<bar> * 500"
  have sk0: "0 \<le> sk" "(nw + sk) mod 500 = nw mod 500" by (simp_all add: sk_def)
  have "(if nw mod 500 > 0 then 500 - nw mod 500 else 0) = (- (nw + sk)) mod 500"
    using pos_mod_sign [of 500 "nw + sk"] zmod_zminus1_eq_if [of "nw + sk" 500] sk0(2) by auto
  then show ?thesis
    using assms sk0 unfolding sk_def [symmetric]
    by (simp add: TimeToSeek_def SectorsPerTrack_def SeekTime_def RotationTime_def Let_def sk_def [symmetric]
        split: if_splits)
qed

lemma ModuloDiff_nonneg:
  assumes "0 \<le> to" and "0 \<le> fro"
  shows "ModuloDiff to fro = (to - fro) mod 32"
proof -
  have "0 \<le> to mod 32 - fro mod 32 + 32"
    using pos_mod_sign [of 32 to] pos_mod_bound [of 32 fro] by linarith
  then show ?thesis
    using assms by (simp add: ModuloDiff_def SectorsPerTrack_def Let_def mod_diff_eq)
qed



lemma ComputeLatency_pos:
  assumes "0 \<le> n" and "0 \<le> lastSector d" and "0 \<le> nw"
  shows "ComputeLatency n writing d nw > 0"
proof -
  obtain seek rot where T: "TimeToSeek n d nw = (seek, rot)" "0 \<le> seek" "0 \<le> rot"
    using TimeToSeek_nonneg [OF assms] by auto
  have "0 \<le> ModuloDiff n (c_div (nw + seek + rot) RotationTime)"
    using T assms ModuloDiff_nonneg [of n "c_div (nw + seek + rot) RotationTime"]
    by (simp add: RotationTime_def pos_imp_zdiv_nonneg_iff)
  with T show ?thesis by (auto simp: ComputeLatency_def RotationTime_def Let_def)
qed

lemma v_body_disk: "v_body sm k = Inr k' \<Longrightarrow> disk k' = disk k"
  by (auto simp: v_body_def get_sem_def ReadyToRun_def upd_thread_def get_thread_def set_sem_def
      split: option.splits list.splits)

lemma bindO_InrE: "bindO m f = Some (Inr y) \<Longrightarrow> (\<And>x. m = Some (Inr x) \<Longrightarrow> f x = Some (Inr y) \<Longrightarrow> thesis) \<Longrightarrow> thesis"
  by (cases m; cases "the m") auto

lemma disk_ok_rd: "disk_ok s \<Longrightarrow> 0 \<le> n \<Longrightarrow> n < NumSectors \<Longrightarrow> rd (sectors (disk (kern s))) n = Inr (sectors (disk (kern s)) ! nat n)"
  by (simp add: disk_ok_def rd_def)

lemma Schedule_kern: "Schedule h a n ty s = Inr s' \<Longrightarrow> kern s' = kern s \<and> stats s' = stats s"
  by (auto simp: Schedule_def Let_def ASSERT_def split: if_splits)

lemma Schedule_total: "n > 0 \<Longrightarrow> \<exists>s'. Schedule h a n ty s = Inr s'"
  by (simp add: Schedule_def Let_def)

lemma UpdateLast_simps [simp]:
  "active (UpdateLast n d nw) = active d" "sectors (UpdateLast n d nw) = sectors d" "lastSector (UpdateLast n d nw) = n"
  by (simp_all add: UpdateLast_def split: prod.splits)

lemma ReadRequest_ok:
  assumes "disk_ok s" and "\<not> active (disk (kern s))" and "0 \<le> n" and "n < NumSectors"
  shows "\<exists>s'. ReadRequest n s = Inr (sectors (disk (kern s)) ! nat n, s') \<and> active (disk (kern s')) \<and>
    sectors (disk (kern s')) = sectors (disk (kern s)) \<and> disk_ok s'"
proof -
  let ?d = "disk (kern s)"
  let ?s = "s\<lparr>kern := (kern s)\<lparr>disk := UpdateLast n (?d\<lparr>active := True\<rparr>) (now s)\<rparr>,
     stats := (stats s)\<lparr>numDiskReads := numDiskReads (stats s) + 1\<rparr>\<rparr>"
  have "ComputeLatency n False ?d (now s) > 0"
    using assms(1,3) by (intro ComputeLatency_pos) (auto simp: disk_ok_def)
  then obtain s' where s': "Schedule DiskDone 0 (ComputeLatency n False ?d (now s)) DiskInt ?s = Inr s'"
    by (metis Schedule_total)
  have "ReadRequest n s = Inr (sectors ?d ! nat n, s')"
    using assms s' disk_ok_rd [OF assms(1,3,4)] by (simp add: ReadRequest_def Let_def)
  with Schedule_kern [OF s'] assms(1,3) show ?thesis by (simp add: disk_ok_def)
qed

lemma WriteRequest_ok:
  assumes "disk_ok s" and "\<not> active (disk (kern s))" and "0 \<le> n" and "n < NumSectors"
  shows "\<exists>s'. WriteRequest n dat s = Inr s' \<and> active (disk (kern s')) \<and>
    sectors (disk (kern s')) = (sectors (disk (kern s)))[nat n := dat] \<and> disk_ok s' \<and>
    (\<exists>d. kern s' = (kern s)\<lparr>disk := d\<rparr>)"
proof -
  let ?d = "disk (kern s)"
  have w: "wr (sectors ?d) n dat = Inr ((sectors ?d)[nat n := dat])"
    using assms by (simp add: wr_def disk_ok_def)
  let ?s = "s\<lparr>kern := (kern s)\<lparr>disk := UpdateLast n (?d\<lparr>active := True, sectors := (sectors ?d)[nat n := dat]\<rparr>) (now s)\<rparr>,
     stats := (stats s)\<lparr>numDiskWrites := numDiskWrites (stats s) + 1\<rparr>\<rparr>"
  have "ComputeLatency n True ?d (now s) > 0"
    using assms(1,3) by (intro ComputeLatency_pos) (auto simp: disk_ok_def)
  then obtain s' where s': "Schedule DiskDone 0 (ComputeLatency n True ?d (now s)) DiskInt ?s = Inr s'"
    by (metis Schedule_total)
  have "WriteRequest n dat s = Inr s'"
    using assms s' w by (simp add: WriteRequest_def Let_def)
  with Schedule_kern [OF s'] assms(1,3) show ?thesis by (auto simp: disk_ok_def)
qed

text \<open>
  A disk sector holds what was last written to it. A write request of an idle disk
  succeeds; once its interrupt has been handled, a read request of any sector returns the
  written data for that sector and the old contents for every other one.
\<close>

lemma disk_write_read:
  assumes "disk_ok s" and "\<not> active (disk (kern s))" and "kinv dev_sems (kern s)" and "0 \<le> n" and "n < NumSectors"
    and "0 \<le> m" and "m < NumSectors"
  shows "\<exists>s1 s2 s3. WriteRequest n dat s = Inr s1 \<and> HandleInterrupt s1 = Inr s2 \<and>
    ReadRequest m s2 = Inr (if m = n then dat else sectors (disk (kern s)) ! nat m, s3)"
proof -
  obtain s1 where s1: "WriteRequest n dat s = Inr s1" "sectors (disk (kern s1)) = (sectors (disk (kern s)))[nat n := dat]"
    "disk_ok s1" "\<exists>d. kern s1 = (kern s)\<lparr>disk := d\<rparr>"
    using WriteRequest_ok [OF assms(1,2,4,5), of dat] by blast
  have "kinv dev_sems (kern s1)" using assms(3) s1(4) by auto
  then obtain s2 where s2: "HandleInterrupt s1 = Inr s2" "handler_frame s1 s2"
    using HandleInterrupt_ok by blast
  have d2: "disk (kern s2) = (disk (kern s1))\<lparr>active := False\<rparr>"
    using s2(1) by (auto simp: HandleInterrupt_def RequestDone_def on_kern_def elim!: bindR_InrE dest: v_body_disk)
  have "disk_ok s2" using s1(3) s2(2) d2 by (simp add: disk_ok_def handler_frame_def ticks_of_def)
  then obtain s3 where "ReadRequest m s2 = Inr (sectors (disk (kern s2)) ! nat m, s3)"
    using ReadRequest_ok [of s2 m] d2 assms(6,7) by auto
  moreover have "sectors (disk (kern s2)) ! nat m = (if m = n then dat else sectors (disk (kern s)) ! nat m)"
    using d2 s1(2) assms(1,4-7) by (auto simp: disk_ok_def nth_list_update)
  ultimately show ?thesis using s1(1) s2(1) by auto
qed

text \<open>
  C39: The lock of the synchronous disk does not exclude a second request: while the request
  of one \<^verbatim>\<open>ReadSector\<close> is in progress, another thread's \<^verbatim>\<open>ReadSector\<close> or \<^verbatim>\<open>WriteSector\<close> fails
  the assertion of the disk.
\<close>

theorem synchdisk_second_request_aborts:
  assumes "ReadSector run n s = Some (Inr (dat, s1))" and "disk (kern s2) = disk (kern s1)"
  shows "ReadSector run m s2 = Some (Inl AssertFailed) \<and> WriteSector run m dat' s2 = Some (Inl AssertFailed)"
proof -
  obtain s' where r: "ReadRequest n s = Inr (dat, s')" "Semaphore_P run disk_sem s' = Some (Inr s1)"
    using assms(1) unfolding ReadSector_def by (auto elim!: bindO_InrE)
  have "active (disk (kern s'))"
    using r(1) by (auto simp: ReadRequest_def Let_def elim!: bindR_InrE dest: Schedule_kern)
  moreover have "disk (kern s1) = disk (kern s')"
    using r(2) by (auto simp: Semaphore_P_def SetLevel_off on_kern_def push_def upd_thread_def get_thread_def
        elim!: bindR_InrE split: option.splits)
  ultimately show ?thesis
    using assms(2) by (simp add: ReadSector_def WriteSector_def ReadRequest_def WriteRequest_def Let_def)
qed

lemma synchdisk_second_request_aborts_witness:
  "\<exists>s dat s1. Initialize (\<lambda>_. 0) (replicate 40 0) 0 0 False [] None = Some (Inr s) \<and>
    ReadSector (run_dev (\<lambda>_. 0)) 5 s = Some (Inr (dat, s1)) \<and>
    ReadSector (run_dev (\<lambda>_. 0)) 6 s1 = Some (Inl AssertFailed)"
proof -
  obtain s where s: "Initialize (\<lambda>_. 0) (replicate 40 0) 0 0 False [] None = Some (Inr s)" "sinv dev_sems s"
    and d: "disk_ok s" "\<not> active (disk (kern s))" by (rule demo_boot)
  obtain dat s' where r: "ReadRequest 5 s = Inr (dat, s')"
    using ReadRequest_ok [OF d, of 5] by (auto simp: NumSectors_def SectorsPerTrack_def NumTracks_def)
  have "threads (kern s') = threads (kern s)" "currentThread (kern s') = currentThread (kern s)"
    using r by (auto simp: ReadRequest_def Let_def elim!: bindR_InrE dest: Schedule_kern)
  then obtain s1 where "Semaphore_P (run_dev (\<lambda>_. 0)) disk_sem s' = Some (Inr s1)"
    using s(2) by (auto simp: sinv_def current_is_def Semaphore_P_def SetLevel_off on_kern_def push_def)
  with r have R: "ReadSector (run_dev (\<lambda>_. 0)) 5 s = Some (Inr (dat, s1))" by (simp add: ReadSector_def)
  with synchdisk_second_request_aborts [OF R refl, of 6 "[]"] s(1) show ?thesis by blast
qed

section \<open>Properties of the kernel\<close>



text \<open>
  C7: In every reachable state each thread is in exactly one place: it is the running
  thread; or it is ready and once on the ready list; or it is blocked, and then it waits in
  the queue of exactly one semaphore, the one it is in \<^verbatim>\<open>P\<close> of, or it has finished. A thread that
  is not running is on no list but the one its status names.
\<close>

theorem threads_in_one_place:
  assumes inv: "sinv dev_sems s0" and r: "kreach (run_dev rnd) s0 s" and x: "threads (kern s) t = Some x"
  shows "(case tstatus x of JUST_CREATED \<Rightarrow> False
      | RUNNING \<Rightarrow> t = currentThread (kern s)
      | READY \<Rightarrow> count (mset (readyList (kern s))) t = 1
      | BLOCKED \<Rightarrow> kstack x = [top_of (currentThread (kern s)) t] \<or> (\<exists>!sm. t \<in> waiting (kern s) sm)) \<and>
    (t \<in> set (readyList (kern s)) \<longrightarrow> tstatus x = READY) \<and>
    (\<forall>sm. t \<in> waiting (kern s) sm \<longrightarrow> tstatus x = BLOCKED \<and> sm \<in> sem_refs (kstack x))"
proof -
  have k: "kinv dev_sems (kern s)"
    using devs.kreach_inv [OF r inv] by (simp add: sinv_def base_inv_def)
  note w = waiting_status [OF k x]
  have one: "sm = sm'" if "t \<in> waiting (kern s) sm" "t \<in> waiting (kern s) sm'" for sm sm'
    using w [OF that(1)] w [OF that(2)] by (auto simp: in_P_def)
  have "count (mset (readyList (kern s))) t = 1" if "t \<in> set (readyList (kern s))"
    using that kinvD(4) [OF k] by (simp add: distinct_count_atmost_1)
  then have "case tstatus x of JUST_CREATED \<Rightarrow> False
      | RUNNING \<Rightarrow> t = currentThread (kern s)
      | READY \<Rightarrow> count (mset (readyList (kern s))) t = 1
      | BLOCKED \<Rightarrow> kstack x = [top_of (currentThread (kern s)) t] \<or> (\<exists>!sm. t \<in> waiting (kern s) sm)"
    using kinvD(3) [OF k x] one by (auto simp: thread_ok_def split: ThreadStatus.splits)
  moreover have "sm \<in> sem_refs (kstack x)" if "t \<in> waiting (kern s) sm" for sm
    using w [OF that] by (auto simp: in_P_def sem_refs_def)
  ultimately show ?thesis using ready_status [OF k x] w by blast
qed

lemma threads_in_one_place_witness:
  "\<exists>s0. Initialize (\<lambda>_. 0) (replicate 40 0) 0 0 False [] None = Some (Inr s0) \<and>
    threads (kern s0) 0 = Some (main_thread (replicate 40 0)) \<and> currentThread (kern s0) = 0"
proof -
  obtain s where s: "Initialize (\<lambda>_. 0) (replicate 40 0) 0 0 False [] None = Some (Inr s)" "sinv dev_sems s"
    and t: "threads (kern s) 0 = Some (main_thread (replicate 40 0))" by (rule demo_boot)
  have "0 = currentThread (kern s)"
    using threads_in_one_place [OF s(2) kreach.start t] by (simp add: main_thread_def)
  with s(1) t show ?thesis by auto
qed







text \<open>
  C23: When no thread is ready, \<^verbatim>\<open>Idle\<close> either halts, exactly when nothing but at most a lone
  timer interrupt is pending, or returns with the clock moved to the first pending interrupt,
  the time skipped booked as idle time, and interrupts still off.
\<close>

theorem Idle_advances:
  assumes "wf_sim s" and "level s = IntOff" and "kinv dev_sems (kern s)"
  shows "\<exists>halted s'. Idle (run_dev rnd) s = Some (Inr (halted, s')) \<and>
    halted = (pending s = [] \<or> (\<exists>w p. pending s = [(w, p)] \<and> ityp p = TimerInt)) \<and>
    (\<not> halted \<longrightarrow> wf_sim s' \<and> level s' = IntOff \<and> status s' = SystemMode \<and> now s' = max (now s) (fst (hd (pending s))) \<and>
      idleTicks (stats s') = idleTicks (stats s) + (now s' - now s))"
proof (cases "pending s = [] \<or> (\<exists>w p. pending s = [(w, p)] \<and> ityp p = TimerInt)")
  case True
  then show ?thesis using devs.Idle_halts [OF assms(2), of rnd] by auto
next
  case False
  then obtain w p rest where pen: "pending s = (w, p) # rest" "ityp p \<noteq> TimerInt \<or> rest \<noteq> []"
    by (cases "pending s") fastforce+
  obtain s' where s': "Idle (run_dev rnd) s = Some (Inr (False, s'))" "wf_sim s'" "level s' = IntOff" "status s' = SystemMode"
    "now s' = max (now s) w" "idleTicks (stats s') = idleTicks (stats s) + max 0 (w - now s)"
    using devs.Idle_returns [OF assms(1,2) wake_refl [OF assms(3)] pen, of rnd] by blast
  have "max 0 (w - now s) = now s' - now s" using s'(5) by (simp add: max_def)
  with False s' pen(1) show ?thesis by (intro exI [of _ False] exI [of _ s']) simp
qed

lemma Idle_advances_witness:
  "\<exists>s halted s'. Initialize (\<lambda>_. 0) (replicate 40 0) 0 0 False [] None = Some (Inr s) \<and>
    Idle (run_dev (\<lambda>_. 0)) (s\<lparr>level := IntOff\<rparr>) = Some (Inr (halted, s'))"
proof -
  obtain s where s: "Initialize (\<lambda>_. 0) (replicate 40 0) 0 0 False [] None = Some (Inr s)" "sinv dev_sems s"
    by (rule demo_boot)
  then show ?thesis
    using Idle_advances [of "s\<lparr>level := IntOff\<rparr>" "\<lambda>_. 0"] by (auto simp: sinv_def base_inv_def)
qed

lemma read_loop_line:
  "\<forall>c \<in> set line. c \<notin> {EOF_char, 10, 1} \<Longrightarrow> length line \<le> n \<Longrightarrow>
   read_loop n ch into (line @ rest) = read_loop (n - length line) (if line = [] then ch else last line) (into @ line) rest"
proof (induction line arbitrary: n ch into)
  case (Cons c line)
  then obtain n' where "n = Suc n'" by (cases n) auto
  with Cons show ?case by auto
qed simp

text \<open>
  \<^verbatim>\<open>SynchConsole::Read\<close> gives the caller the characters typed before the first end of line or
  control-A and returns how many, or \<open>-1\<close> after control-A, with the rest of the buffer zero;
  when more characters come than were asked for it stops there and leaves the others.
\<close>

lemma SynchConsole_Read_line:
  assumes "\<forall>c \<in> set line. c \<notin> {EOF_char, 10, 1}" and "e \<in> {10, 1}"
  shows "(length line < n \<longrightarrow> SynchConsole_Read junk n (line @ e # rest) =
      Some (if e = 1 then -1 else int (length line), line @ replicate (n - length line) 0, rest)) \<and>
    (line \<noteq> [] \<longrightarrow> SynchConsole_Read junk (length line) (line @ rest) = Some (int (length line), line, rest))"
proof (intro conjI impI)
  assume n: "length line < n"
  then obtain k where k: "n - length line = Suc k" by (metis Suc_diff_Suc)
  have "e \<noteq> EOF_char" using assms(2) by (auto simp: EOF_char_def)
  then show "SynchConsole_Read junk n (line @ e # rest) =
      Some (if e = 1 then -1 else int (length line), line @ replicate (n - length line) 0, rest)"
    using read_loop_line [OF assms(1), of n junk "[]" "e # rest"] n k assms(2)
    by (auto simp: SynchConsole_Read_def)
next
  assume "line \<noteq> []"
  then have "last line \<noteq> 1" using assms(1) last_in_set by fastforce
  with \<open>line \<noteq> []\<close> show "SynchConsole_Read junk (length line) (line @ rest) = Some (int (length line), line, rest)"
    using read_loop_line [OF assms(1), of "length line" junk "[]" rest] by (simp add: SynchConsole_Read_def)
qed

end
