(* ===== verification/Files.thy ===== *)
theory Files
  imports Devices
begin

text \<open>
  File headers and open files: \<^verbatim>\<open>filesys/filehdr.{h,cc}\<close> and \<^verbatim>\<open>filesys/openfile.{h,cc}\<close>, over the
  sectors of the disk. A call of \<^verbatim>\<open>synchDisk->ReadSector\<close> or \<^verbatim>\<open>WriteSector\<close> is its effect on the
  sectors, which the device model of the theory \<open>Devices\<close> gives to every request. The abstraction
  of a file is the list of its bytes; reading and writing at a position are shown to be
  taking and replacing a piece of that list.
\<close>

type_synonym sector = "byte list"
type_synonym dsk = "sector list"

section \<open>Sectors\<close>

definition read_sector :: "int \<Rightarrow> dsk \<Rightarrow> sector result" where
  "read_sector n d = bindR (ASSERT (n \<ge> 0 \<and> n < NumSectors)) (\<lambda>_. rd d n)"

definition write_sector :: "int \<Rightarrow> sector \<Rightarrow> dsk \<Rightarrow> dsk result" where
  "write_sector n bs d = bindR (ASSERT (n \<ge> 0 \<and> n < NumSectors)) (\<lambda>_. wr d n bs)"

section \<open>File headers\<close>

definition NumDirect :: int where "NumDirect = c_div (SectorSize - 2 * 4) 4"
definition MaxFileSize :: int where "MaxFileSize = NumDirect * SectorSize"

record FileHeader =
  numBytes :: int
  numSectors :: int
  dataSectors :: "int list"

text \<open>The loop of \<^verbatim>\<open>Allocate\<close> from entry \<open>i\<close>. It stores beyond the array when there are too many.\<close>

fun allocate_loop :: "int \<Rightarrow> nat \<Rightarrow> FileHeader \<Rightarrow> BitMap \<Rightarrow> (FileHeader \<times> BitMap) result" where
  "allocate_loop i 0 h bm = Inr (h, bm)"
| "allocate_loop i (Suc n) h bm = bindR (BitMap_Find bm) (\<lambda>(sec, bm').
     bindR (wr (dataSectors h) i sec) (\<lambda>ds. allocate_loop (i + 1) n (h\<lparr>dataSectors := ds\<rparr>) bm'))"

definition Allocate :: "BitMap \<Rightarrow> int \<Rightarrow> FileHeader \<Rightarrow> (bool \<times> FileHeader \<times> BitMap) result" where
  "Allocate freeMap fileSize h =
     (let h1 = h\<lparr>numBytes := fileSize, numSectors := divRoundUp fileSize SectorSize\<rparr> in
      bindR (BitMap_NumClear freeMap) (\<lambda>free.
      if free < numSectors h1 then Inr (False, h1, freeMap)
      else bindR (allocate_loop 0 (nat (numSectors h1)) h1 freeMap) (\<lambda>(h2, bm). Inr (True, h2, bm))))"

fun deallocate_loop :: "int \<Rightarrow> nat \<Rightarrow> FileHeader \<Rightarrow> BitMap \<Rightarrow> BitMap result" where
  "deallocate_loop i 0 h bm = Inr bm"
| "deallocate_loop i (Suc n) h bm = bindR (rd (dataSectors h) i) (\<lambda>sec.
     bindR (BitMap_Test bm sec) (\<lambda>t. bindR (ASSERT t) (\<lambda>_.
     bindR (BitMap_Clear bm sec) (\<lambda>bm'. deallocate_loop (i + 1) n h bm'))))"

definition Deallocate :: "BitMap \<Rightarrow> FileHeader \<Rightarrow> BitMap result" where
  "Deallocate freeMap h = deallocate_loop 0 (nat (numSectors h)) h freeMap"

text \<open>A header fills a sector: its words, lowest byte first.\<close>

definition int_bytes :: "int \<Rightarrow> byte list" where
  "int_bytes v = value_bytes 4 (nat (v mod 2 ^ 32))"

definition hdr_bytes :: "FileHeader \<Rightarrow> sector" where
  "hdr_bytes h = concat (map int_bytes (numBytes h # numSectors h # dataSectors h))"

definition hdr_of :: "sector \<Rightarrow> FileHeader" where
  "hdr_of bs = \<lparr>numBytes = int_at bs 0, numSectors = int_at bs 4,
     dataSectors = map (\<lambda>i. int_at bs (8 + 4 * i)) [0..<nat NumDirect]\<rparr>"

definition FileHeader_FetchFrom :: "int \<Rightarrow> dsk \<Rightarrow> FileHeader result" where
  "FileHeader_FetchFrom sec d = bindR (read_sector sec d) (\<lambda>bs. Inr (hdr_of bs))"

definition FileHeader_WriteBack :: "FileHeader \<Rightarrow> int \<Rightarrow> dsk \<Rightarrow> dsk result" where
  "FileHeader_WriteBack h sec d = write_sector sec (hdr_bytes h) d"

definition ByteToSector :: "FileHeader \<Rightarrow> int \<Rightarrow> int result" where
  "ByteToSector h offset = rd (dataSectors h) (c_div offset SectorSize)"

definition FileLength :: "FileHeader \<Rightarrow> int" where
  "FileLength h = numBytes h"

section \<open>Open files\<close>

record OpenFile =
  hdr :: FileHeader
  fileID :: int
  ftype :: int
  seekPosition :: int

definition OpenFile_OpenFile :: "int \<Rightarrow> int \<Rightarrow> dsk \<Rightarrow> OpenFile result" where
  "OpenFile_OpenFile sec t d = bindR (FileHeader_FetchFrom sec d) (\<lambda>h.
     Inr \<lparr>hdr = h, fileID = sec, ftype = t, seekPosition = 0\<rparr>)"

text \<open>The loop that reads sectors \<open>i, i + 1, \<dots>\<close> of the file into a buffer.\<close>

fun read_sectors :: "FileHeader \<Rightarrow> dsk \<Rightarrow> int \<Rightarrow> nat \<Rightarrow> byte list result" where
  "read_sectors h d i 0 = Inr []"
| "read_sectors h d i (Suc n) = bindR (ByteToSector h (i * SectorSize)) (\<lambda>sec.
     bindR (read_sector sec d) (\<lambda>bs. bindR (read_sectors h d (i + 1) n) (\<lambda>rest. Inr (bs @ rest))))"

definition copy_out :: "byte list \<Rightarrow> int \<Rightarrow> int \<Rightarrow> byte list result" where
  "copy_out buf a n = (if 0 \<le> a \<and> a + n \<le> int (length buf) then Inr (take (nat n) (drop (nat a) buf))
     else Inl OutOfBounds)"

definition copy_in :: "byte list \<Rightarrow> int \<Rightarrow> byte list \<Rightarrow> byte list result" where
  "copy_in buf a bs = (if 0 \<le> a then mem_write buf (nat a) bs else Inl OutOfBounds)"

text \<open>The result of \<^verbatim>\<open>ReadAt\<close> is the bytes put into the caller's buffer; the code returns their number.\<close>

definition ReadAt :: "FileHeader \<Rightarrow> int \<Rightarrow> int \<Rightarrow> dsk \<Rightarrow> byte list result" where
  "ReadAt h n position d =
     (let fileLength = FileLength h in
      if n \<le> 0 \<or> position \<ge> fileLength then Inr []
      else let n' = (if position + n > fileLength then fileLength - position else n);
               firstSector = divRoundDown position SectorSize;
               lastSector = divRoundDown (position + n' - 1) SectorSize;
               numSectors = 1 + lastSector - firstSector
           in bindR (read_sectors h d firstSector (nat numSectors)) (\<lambda>buf.
              copy_out buf (position - firstSector * SectorSize) n'))"

fun write_sectors :: "FileHeader \<Rightarrow> byte list \<Rightarrow> int \<Rightarrow> nat \<Rightarrow> dsk \<Rightarrow> dsk result" where
  "write_sectors h buf i 0 d = Inr d"
| "write_sectors h buf i (Suc n) d = bindR (ByteToSector h (i * SectorSize)) (\<lambda>sec.
     bindR (write_sector sec (take (nat SectorSize) buf) d) (\<lambda>d'.
     write_sectors h (drop (nat SectorSize) buf) (i + 1) n d'))"

text \<open>\<open>junk\<close> is what the new buffer holds; the result is the number of bytes written and the disk.\<close>

definition WriteAt :: "(nat \<Rightarrow> byte) \<Rightarrow> FileHeader \<Rightarrow> byte list \<Rightarrow> int \<Rightarrow> int \<Rightarrow> dsk \<Rightarrow> (int \<times> dsk) result" where
  "WriteAt junk h frm n position d =
     (let fileLength = FileLength h in
      if n \<le> 0 \<or> position \<ge> fileLength then Inr (0, d)
      else let n' = (if position + n > fileLength then fileLength - position else n);
               firstSector = divRoundDown position SectorSize;
               lastSector = divRoundDown (position + n' - 1) SectorSize;
               numSectors = 1 + lastSector - firstSector;
               buf = map junk [0..<nat (numSectors * SectorSize)];
               firstAligned = (position = firstSector * SectorSize);
               lastAligned = (position + n' = (lastSector + 1) * SectorSize)
           in bindR (if \<not> firstAligned then bindR (ReadAt h SectorSize (firstSector * SectorSize) d) (copy_in buf 0)
                     else Inr buf) (\<lambda>buf1.
              bindR (if \<not> lastAligned \<and> (firstSector \<noteq> lastSector \<or> firstAligned)
                     then bindR (ReadAt h SectorSize (lastSector * SectorSize) d)
                       (copy_in buf1 ((lastSector - firstSector) * SectorSize))
                     else Inr buf1) (\<lambda>buf2.
              bindR (copy_out frm 0 n') (\<lambda>bs.
              bindR (copy_in buf2 (position - firstSector * SectorSize) bs) (\<lambda>buf3.
              bindR (write_sectors h buf3 firstSector (nat numSectors) d) (\<lambda>d'. Inr (n', d')))))))"

definition Seek :: "int \<Rightarrow> OpenFile \<Rightarrow> OpenFile" where
  "Seek position f = f\<lparr>seekPosition := position\<rparr>"

definition OpenFile_Read :: "OpenFile \<Rightarrow> int \<Rightarrow> dsk \<Rightarrow> (byte list \<times> OpenFile) result" where
  "OpenFile_Read f n d = bindR (ReadAt (hdr f) n (seekPosition f) d) (\<lambda>bs.
     Inr (bs, f\<lparr>seekPosition := seekPosition f + int (length bs)\<rparr>))"

definition OpenFile_Write :: "(nat \<Rightarrow> byte) \<Rightarrow> OpenFile \<Rightarrow> byte list \<Rightarrow> int \<Rightarrow> dsk \<Rightarrow> (int \<times> OpenFile \<times> dsk) result" where
  "OpenFile_Write junk f frm n d = bindR (WriteAt junk (hdr f) frm n (seekPosition f) d) (\<lambda>(r, d').
     Inr (r, f\<lparr>seekPosition := seekPosition f + r\<rparr>, d'))"

definition OpenFile_Length :: "OpenFile \<Rightarrow> int" where
  "OpenFile_Length f = FileLength (hdr f)"

definition GetID :: "OpenFile \<Rightarrow> int" where "GetID f = fileID f"
definition GetType :: "OpenFile \<Rightarrow> int" where "GetType f = ftype f"
definition GetCurSeekPos :: "OpenFile \<Rightarrow> int" where "GetCurSeekPos f = seekPosition f"

section \<open>The bytes of a file\<close>

definition wf_dsk :: "dsk \<Rightarrow> bool" where
  "wf_dsk d \<longleftrightarrow> length d = 1024 \<and> (\<forall>s \<in> set d. length s = 512)"

definition secs :: "FileHeader \<Rightarrow> nat list" where
  "secs h = map nat (take (nat (numSectors h)) (dataSectors h))"

definition wf_hdr :: "FileHeader \<Rightarrow> bool" where
  "wf_hdr h \<longleftrightarrow> 0 \<le> numBytes h \<and> numSectors h = divRoundUp (numBytes h) 512 \<and> numSectors h \<le> 126 \<and>
     length (dataSectors h) = 126 \<and> (\<forall>i < nat (numSectors h). 0 \<le> dataSectors h ! i) \<and>
     distinct (secs h) \<and> set (secs h) \<subseteq> {..<1024}"

definition raw :: "FileHeader \<Rightarrow> dsk \<Rightarrow> byte list" where
  "raw h d = concat (map (\<lambda>i. d ! i) (secs h))"

definition content :: "FileHeader \<Rightarrow> dsk \<Rightarrow> byte list" where
  "content h d = take (nat (numBytes h)) (raw h d)"

lemma concat_chunks:
  assumes "\<forall>x \<in> set xss. length x = c"
  shows "length (concat xss) = c * length xss" "drop (c * i) (concat xss) = concat (drop i xss)"
    "take (c * i) (concat xss) = concat (take i xss)"
proof -
  show "length (concat xss) = c * length xss" using assms by (induction xss) auto
  show "drop (c * i) (concat xss) = concat (drop i xss)"
    using assms
  proof (induction xss arbitrary: i)
    case (Cons x xss)
    then show ?case by (cases i) auto
  qed simp
  show "take (c * i) (concat xss) = concat (take i xss)"
    using assms
  proof (induction xss arbitrary: i)
    case (Cons x xss)
    then show ?case by (cases i) auto
  qed simp
qed

lemma wf_hdr_secs:
  assumes "wf_hdr h"
  shows "length (secs h) = nat (numSectors h)" "nat (numBytes h) \<le> 512 * length (secs h)"
    "512 * length (secs h) < nat (numBytes h) + 512" "length (secs h) \<le> 126"
    "\<And>i. i < length (secs h) \<Longrightarrow> dataSectors h ! i = int (secs h ! i) \<and> secs h ! i < 1024"
proof -
  have w: "0 \<le> numBytes h" "numSectors h = divRoundUp (numBytes h) 512" "numSectors h \<le> 126" "length (dataSectors h) = 126"
    using assms by (simp_all add: wf_hdr_def)
  then show l: "length (secs h) = nat (numSectors h)" "length (secs h) \<le> 126" by (simp_all add: secs_def)
  obtain n where n: "divRoundUp (int (nat (numBytes h))) PageSize = int n" "nat (numBytes h) \<le> n * 512" "n * 512 < nat (numBytes h) + 512"
    by (rule divRoundUp_page)
  have "length (secs h) = n" using l n(1) w by (simp add: machine_consts)
  with n show "nat (numBytes h) \<le> 512 * length (secs h)" "512 * length (secs h) < nat (numBytes h) + 512" by simp_all
  fix i assume i: "i < length (secs h)"
  have "set (secs h) \<subseteq> {..<1024}" using assms by (simp only: wf_hdr_def)
  from subsetD [OF this nth_mem [OF i]] have "secs h ! i < 1024" by (rule lessThan_iff [THEN iffD1])
  moreover have "0 \<le> dataSectors h ! i" using assms i l by (simp add: wf_hdr_def)
  ultimately show "dataSectors h ! i = int (secs h ! i) \<and> secs h ! i < 1024"
    using i l w by (simp add: secs_def)
qed

lemma raw_chunks:
  assumes "wf_hdr h" and "wf_dsk d"
  shows "\<forall>x \<in> set (map (\<lambda>i. d ! i) (secs h)). length x = 512"
  using assms by (auto simp: wf_hdr_def wf_dsk_def)

lemma length_raw: "wf_hdr h \<Longrightarrow> wf_dsk d \<Longrightarrow> length (raw h d) = 512 * length (secs h)"
  using concat_chunks(1) [OF raw_chunks] by (simp add: raw_def)

lemma length_content: "wf_hdr h \<Longrightarrow> wf_dsk d \<Longrightarrow> length (content h d) = nat (numBytes h)"
  using wf_hdr_secs(2) by (simp add: content_def length_raw)

lemma ByteToSector_ok:
  assumes "wf_hdr h" and "i < length (secs h)"
  shows "ByteToSector h (int i * SectorSize) = Inr (int (secs h ! i))"
proof -
  have "length (dataSectors h) = 126" using assms(1) by (simp only: wf_hdr_def)
  moreover have "dataSectors h ! i = int (secs h ! i)" using wf_hdr_secs(5) [OF assms] by (rule conjunct1)
  moreover have "i < 126" using wf_hdr_secs(4) [OF assms(1)] assms(2) by linarith
  ultimately show ?thesis by (simp add: ByteToSector_def SectorSize_def rd_def)
qed

lemma read_sector_ok: "wf_dsk d \<Longrightarrow> n < 1024 \<Longrightarrow> read_sector (int n) d = Inr (d ! n)"
  by (simp add: read_sector_def wf_dsk_def NumSectors_def SectorsPerTrack_def NumTracks_def)

lemma write_sector_ok: "wf_dsk d \<Longrightarrow> n < 1024 \<Longrightarrow> write_sector (int n) bs d = Inr (d[n := bs])"
  by (simp add: write_sector_def wf_dsk_def NumSectors_def SectorsPerTrack_def NumTracks_def)

lemma read_sectors_ok:
  assumes h: "wf_hdr h" and d: "wf_dsk d"
  shows "i + n \<le> length (secs h) \<Longrightarrow> read_sectors h d (int i) n = Inr (take (512 * n) (drop (512 * i) (raw h d)))"
proof (induction n arbitrary: i)
  case (Suc n)
  let ?c = "map (\<lambda>i. d ! i) (secs h)"
  have i: "i < length (secs h)" using Suc.prems by simp
  have "read_sectors h d (int i + 1) n = Inr (take (512 * n) (drop (512 * Suc i) (raw h d)))"
    using Suc.IH [of "Suc i"] Suc.prems by (simp add: add.commute)
  moreover have "ByteToSector h (int i * SectorSize) = Inr (int (secs h ! i))" using h i by (rule ByteToSector_ok)
  moreover have "read_sector (int (secs h ! i)) d = Inr (d ! (secs h ! i))"
    using d wf_hdr_secs(5) [OF h i] by (simp add: read_sector_ok)
  moreover have "take (512 * Suc n) (drop (512 * i) (raw h d)) =
      d ! (secs h ! i) @ take (512 * n) (drop (512 * Suc i) (raw h d))"
  proof -
    have c: "\<forall>x \<in> set (drop i ?c). length x = 512" using raw_chunks [OF h d] in_set_dropD by fast
    have "take (512 * Suc n) (drop (512 * i) (raw h d)) = concat (take (Suc n) (drop i ?c))"
      unfolding raw_def concat_chunks(2) [OF raw_chunks [OF h d]] concat_chunks(3) [OF c] ..
    also have "\<dots> = d ! (secs h ! i) @ concat (take n (drop (Suc i) ?c))"
      using i by (simp add: Cons_nth_drop_Suc [symmetric])
    also have "concat (take n (drop (Suc i) ?c)) = take (512 * n) (drop (512 * Suc i) (raw h d))"
    proof -
      have c': "\<forall>x \<in> set (drop (Suc i) ?c). length x = 512" using raw_chunks [OF h d] in_set_dropD by fast
      show ?thesis unfolding raw_def concat_chunks(2) [OF raw_chunks [OF h d]] concat_chunks(3) [OF c'] ..
    qed
    finally show ?thesis .
  qed
  ultimately show ?case by simp
qed simp

text \<open>The sectors that hold the bytes \<open>p, \<dots>, p + n - 1\<close>.\<close>

lemma sector_span:
  fixes p n :: nat
  assumes "0 < n" and "p + n \<le> N" and "N \<le> 512 * S"
  defines "f \<equiv> p div 512" and "l \<equiv> (p + n - 1) div 512"
  shows "f \<le> l" "512 * f \<le> p" "p < 512 * Suc f" "512 * l < p + n" "p + n \<le> 512 * Suc l" "f + (Suc l - f) \<le> S"
proof -
  have dm: "512 * (x div 512) \<le> x \<and> x < 512 * Suc (x div 512)" for x :: nat
  proof -
    have "512 * (x div 512) + x mod 512 = x" by (rule mult_div_mod_eq)
    moreover have "x mod 512 < 512" by simp
    ultimately have "512 * (x div 512) \<le> x" "x < 512 * (x div 512) + 512" by linarith+
    then show ?thesis by (simp only: mult_Suc_right add.commute)
  qed
  have pf: "512 * f \<le> p" "p < 512 * Suc f" unfolding f_def using dm by blast+
  have pl: "512 * l \<le> p + n - 1" "p + n - 1 < 512 * Suc l" unfolding l_def using dm by blast+
  show "512 * f \<le> p" "p < 512 * Suc f" using pf .
  show "f \<le> l" unfolding f_def l_def using assms(1) by (intro div_le_mono) simp
  show "512 * l < p + n" "p + n \<le> 512 * Suc l" using pl assms(1) by linarith+
  have "512 * l < 512 * S" using pl(1) assms by linarith
  with \<open>f \<le> l\<close> show "f + (Suc l - f) \<le> S" by simp
qed


text \<open>The computation shared by \<^verbatim>\<open>ReadAt\<close> and \<^verbatim>\<open>WriteAt\<close>: the clipped length and the span of sectors.\<close>

lemma access_span:
  assumes h: "wf_hdr h" and "n \<noteq> 0" and "p < nat (numBytes h)"
  obtains n' f l where "n' = min n (nat (numBytes h) - p)" "0 < n'" "p + n' \<le> nat (numBytes h)"
    "f \<le> l" "512 * f \<le> p" "p < 512 * Suc f" "512 * l < p + n'" "p + n' \<le> 512 * Suc l" "Suc l \<le> length (secs h)"
    "divRoundDown (int p) SectorSize = int f" "divRoundDown (int p + int n' - 1) SectorSize = int l"
    "nat (1 + int l - int f) = Suc l - f" "int p - int f * SectorSize = int (p - 512 * f)"
    "(if int p + int n > FileLength h then FileLength h - int p else int n) = int n'"
    "\<not> (int n \<le> 0 \<or> int p \<ge> FileLength h)" "p - 512 * f + n' \<le> 512 * (Suc l - f)"
proof -
  define N where "N = nat (numBytes h)"
  have N: "numBytes h = int N" using h by (simp add: N_def wf_hdr_def)
  have NS: "N \<le> 512 * length (secs h)" using wf_hdr_secs(2) [OF h] by (simp add: N_def)
  define n' where "n' = min n (N - p)"
  have n': "0 < n'" "p + n' \<le> N" using assms(2,3) by (auto simp: n'_def N_def)
  define f l where "f = p div 512" and "l = (p + n' - 1) div 512"
  note sp = sector_span [OF n' NS, folded f_def l_def]
  have 1: "(if int p + int n > FileLength h then FileLength h - int p else int n) = int n'"
    using assms(2,3) by (auto simp: FileLength_def N n'_def)
  have 2: "divRoundDown (int p) SectorSize = int f" by (simp add: divRoundDown_def SectorSize_def f_def zdiv_int)
  have "int p + int n' - 1 = int (p + n' - 1)" using n'(1) by (simp add: of_nat_diff)
  then have 3: "divRoundDown (int p + int n' - 1) SectorSize = int l"
    unfolding divRoundDown_def SectorSize_def l_def by (simp only: c_div_nonneg zdiv_int of_nat_0_le_iff of_nat_numeral)
  have 4: "nat (1 + int l - int f) = Suc l - f" using sp(1) by linarith
  have 5: "int p - int f * SectorSize = int (p - 512 * f)" using sp(2) by (simp add: SectorSize_def of_nat_diff)
  have 6: "\<not> (int n \<le> 0 \<or> int p \<ge> FileLength h)" using assms(2,3) by (simp add: FileLength_def N)
  have "512 * (Suc l - f) = 512 * Suc l - 512 * f" by (simp add: diff_mult_distrib2)
  moreover have "p - 512 * f + n' = p + n' - 512 * f" using sp(2) by simp
  ultimately have 7: "p - 512 * f + n' \<le> 512 * (Suc l - f)" using diff_le_mono [OF sp(5)] by (simp only:)
  have 8: "Suc l \<le> length (secs h)" using sp(1,6) by simp
  show ?thesis
    by (rule that [OF _ n'[unfolded N_def] sp(1-5) 8 2 3 4 5 1 6 7]) (simp add: n'_def N_def)
qed

lemma ReadAt_content:
  assumes h: "wf_hdr h" and d: "wf_dsk d"
  shows "ReadAt h (int n) (int p) d = Inr (take n (drop p (content h d)))"
proof (cases "n = 0 \<or> nat (numBytes h) \<le> p")
  case True
  then have "int n \<le> 0 \<or> int p \<ge> FileLength h" by (auto simp: FileLength_def)
  moreover have "take n (drop p (content h d)) = []" using True length_content [OF h d] by auto
  ultimately show ?thesis by (auto simp: ReadAt_def Let_def)
next
  case False
  then have "n \<noteq> 0" "p < nat (numBytes h)" by simp_all
  then obtain n' f l where s: "n' = min n (nat (numBytes h) - p)" "f \<le> l" "512 * f \<le> p" "Suc l \<le> length (secs h)"
    "p - 512 * f + n' \<le> 512 * (Suc l - f)"
    and e: "divRoundDown (int p) SectorSize = int f" "divRoundDown (int p + int n' - 1) SectorSize = int l"
    "nat (1 + int l - int f) = Suc l - f" "int p - int f * SectorSize = int (p - 512 * f)"
    "(if int p + int n > FileLength h then FileLength h - int p else int n) = int n'"
    and g: "\<not> (int n \<le> 0 \<or> int p \<ge> FileLength h)"
    by (rule access_span [OF h])
  let ?b = "take (512 * (Suc l - f)) (drop (512 * f) (raw h d))"
  have rs: "read_sectors h d (int f) (Suc l - f) = Inr ?b" using read_sectors_ok [OF h d] s(2,4) by simp
  have len: "length ?b = 512 * (Suc l - f)"
    using s(2,4) length_raw [OF h d] by (simp add: diff_mult_distrib2)
  have "take n' (drop (p - 512 * f) ?b) = take n' (drop p (raw h d))"
    using s(3,5) by (simp add: drop_take min_absorb1)
  also have "\<dots> = take n (drop p (content h d))"
    unfolding content_def s(1) by (simp add: drop_take min.commute)
  finally have "copy_out ?b (int (p - 512 * f)) (int n') = Inr (take n (drop p (content h d)))"
    using s(5) len by (simp add: copy_out_def)
  then show ?thesis
    unfolding ReadAt_def Let_def e using g rs by (simp del: length_take take_drop)
qed

lemma nth_concat_chunks:
  assumes "\<forall>x \<in> set xss. length x = c" and "0 < c"
  shows "a < length xss \<Longrightarrow> b < c \<Longrightarrow> concat xss ! (c * a + b) = xss ! a ! b"
  using assms(1)
proof (induction xss arbitrary: a)
  case (Cons x xss)
  then show ?case by (cases a) (auto simp: nth_append)
qed simp

lemma nth_raw:
  assumes "wf_hdr h" "wf_dsk d" "a < length (secs h)" "b < 512"
  shows "raw h d ! (512 * a + b) = d ! (secs h ! a) ! b"
  using nth_concat_chunks [OF raw_chunks [OF assms(1,2)], of a b] assms(3,4) by (simp add: raw_def)

lemma nth_content:
  assumes "wf_hdr h" "wf_dsk d" "j < nat (numBytes h)"
  shows "content h d ! j = d ! (secs h ! (j div 512)) ! (j mod 512)"
proof -
  have "j div 512 < length (secs h)" using wf_hdr_secs(2) [OF assms(1)] assms(3) by (simp add: div_less_iff_less_mult)
  then show ?thesis using nth_raw [OF assms(1,2), of "j div 512" "j mod 512"] assms(3) by (simp add: content_def)
qed

text \<open>The sectors written get the pieces of the buffer; no other sector changes.\<close>

lemma write_sectors_ok:
  assumes h: "wf_hdr h"
  shows "wf_dsk d \<Longrightarrow> i + n \<le> length (secs h) \<Longrightarrow> length buf = 512 * n \<Longrightarrow>
    \<exists>d'. write_sectors h buf (int i) n d = Inr d' \<and> wf_dsk d' \<and>
      (\<forall>k<n. d' ! (secs h ! (i + k)) = take 512 (drop (512 * k) buf)) \<and>
      (\<forall>j. (\<forall>k<n. j \<noteq> secs h ! (i + k)) \<longrightarrow> d' ! j = d ! j)"
proof (induction n arbitrary: i buf d)
  case (Suc n)
  let ?s = "secs h ! i" and ?d = "d[secs h ! i := take 512 buf]"
  have i: "i < length (secs h)" using Suc.prems by simp
  have s: "?s < 1024" using wf_hdr_secs(5) [OF h i] by simp
  have w: "wf_dsk ?d" using Suc.prems(1,3) s by (auto simp: wf_dsk_def dest: subsetD [OF set_update_subset_insert])
  have pr: "Suc i + n \<le> length (secs h)" "length (drop 512 buf) = 512 * n" using Suc.prems(2,3) by simp_all
  obtain d' where d': "write_sectors h (drop 512 buf) (int (Suc i)) n ?d = Inr d'" "wf_dsk d'"
    "\<forall>k<n. d' ! (secs h ! (Suc i + k)) = take 512 (drop (512 * k) (drop 512 buf))"
    "\<forall>j. (\<forall>k<n. j \<noteq> secs h ! (Suc i + k)) \<longrightarrow> d' ! j = ?d ! j"
    using Suc.IH [OF w pr] by blast
  have dist: "distinct (secs h)" using h by (simp only: wf_hdr_def)
  have "\<forall>k<n. ?s \<noteq> secs h ! (Suc i + k)"
    using pr(1) i nth_eq_iff_index_eq [OF dist i] by simp
  then have first: "d' ! ?s = take 512 buf" using d'(4) s Suc.prems(1) by (simp add: wf_dsk_def)
  have "write_sectors h buf (int i) (Suc n) d = Inr d'"
    using d'(1) ByteToSector_ok [OF h i] write_sector_ok [OF Suc.prems(1) s] by (simp add: SectorSize_def add.commute)
  moreover have "\<forall>k<Suc n. d' ! (secs h ! (i + k)) = take 512 (drop (512 * k) buf)"
    using d'(3) first by (auto simp: less_Suc_eq_0_disj add.commute)
  moreover have "\<forall>j. (\<forall>k<Suc n. j \<noteq> secs h ! (i + k)) \<longrightarrow> d' ! j = d ! j"
  proof (intro allI impI)
    fix j assume j: "\<forall>k<Suc n. j \<noteq> secs h ! (i + k)"
    have "j \<noteq> ?s" using j [rule_format, of 0] by simp
    moreover have "\<forall>k<n. j \<noteq> secs h ! (Suc i + k)" using j [rule_format, of "Suc k" for k] by simp
    ultimately show "d' ! j = d ! j" using d'(4) by simp
  qed
  ultimately show ?case using d'(2) by blast
qed auto

text \<open>What the buffer of \<^verbatim>\<open>WriteAt\<close> holds before the caller's bytes are copied in: the old bytes of
  the file, wherever the first or last sector is not written completely.\<close>

definition holds_old :: "byte list \<Rightarrow> byte list \<Rightarrow> nat \<Rightarrow> nat \<Rightarrow> nat \<Rightarrow> bool" where
  "holds_old buf c F a b \<longleftrightarrow> (\<forall>j < length buf. F + j < length c \<longrightarrow> F + j < a \<or> b \<le> F + j \<longrightarrow> buf ! j = c ! (F + j))"

lemma copy_in_ok:
  "a + length bs \<le> length buf \<Longrightarrow> copy_in buf (int a) bs = Inr (take a buf @ bs @ drop (a + length bs) buf)"
  by (simp add: copy_in_def mem_write_def)

lemma nth_splice:
  "a + length bs \<le> length buf \<Longrightarrow> j < length buf \<Longrightarrow>
   (take a buf @ bs @ drop (a + length bs) buf) ! j = (if a \<le> j \<and> j < a + length bs then bs ! (j - a) else buf ! j)"
  by (auto simp: nth_append)

lemma boundary_buffer:
  fixes f k p n :: nat and c :: "byte list"
  assumes len: "length buf = 512 * Suc k" and p: "512 * f \<le> p" "p < 512 * Suc f"
    and q: "512 * (f + k) < p + n" "p + n \<le> 512 * Suc (f + k)"
  defines "r1 \<equiv> take 512 (drop (512 * f) c)" and "r2 \<equiv> take 512 (drop (512 * (f + k)) c)"
  shows "\<exists>buf1 buf2. (if p \<noteq> 512 * f then copy_in buf 0 r1 else Inr buf) = Inr buf1 \<and>
    (if p + n \<noteq> 512 * Suc (f + k) \<and> (k \<noteq> 0 \<or> p = 512 * f) then copy_in buf1 (int (512 * k)) r2 else Inr buf1) = Inr buf2 \<and>
    length buf2 = 512 * Suc k \<and> holds_old buf2 c (512 * f) p (p + n)"
proof -
  have lr: "length r1 \<le> 512" "length r2 \<le> 512" by (simp_all add: r1_def r2_def)
  define buf1 where "buf1 = (if p \<noteq> 512 * f then take 0 buf @ r1 @ drop (0 + length r1) buf else buf)"
  define buf2 where "buf2 = (if p + n \<noteq> 512 * Suc (f + k) \<and> (k \<noteq> 0 \<or> p = 512 * f)
    then take (512 * k) buf1 @ r2 @ drop (512 * k + length r2) buf1 else buf1)"
  have f1: "0 + length r1 \<le> length buf" using lr len by simp
  then have l1: "length buf1 = length buf" by (simp add: buf1_def)
  have f2: "512 * k + length r2 \<le> length buf1" using lr len l1 by simp
  then have l2: "length buf2 = length buf" using l1 by (simp add: buf2_def)
  have s1: "(if p \<noteq> 512 * f then copy_in buf 0 r1 else Inr buf) = Inr buf1"
    using copy_in_ok [OF f1] by (simp add: buf1_def)
  have s2: "(if p + n \<noteq> 512 * Suc (f + k) \<and> (k \<noteq> 0 \<or> p = 512 * f) then copy_in buf1 (int (512 * k)) r2 else Inr buf1) = Inr buf2"
    using copy_in_ok [OF f2] by (simp add: buf2_def)
  have v1: "buf1 ! j = c ! (512 * f + j)" if "j < 512" "512 * f + j < length c" "p \<noteq> 512 * f" for j
  proof -
    have "j < length r1" using that by (simp add: r1_def less_diff_conv)
    then have "buf1 ! j = r1 ! j" using nth_splice [OF f1, of j] that(3) len lr(1) by (simp add: buf1_def)
    also have "\<dots> = c ! (512 * f + j)" using that(1,2) by (simp add: r1_def)
    finally show ?thesis .
  qed
  have v2: "buf2 ! j = buf1 ! j" if "j < 512 * k \<or> \<not> (p + n \<noteq> 512 * Suc (f + k) \<and> (k \<noteq> 0 \<or> p = 512 * f))" "j < length buf" for j
    using nth_splice [OF f2, of j] that l1 by (auto simp: buf2_def)
  have v3: "buf2 ! j = c ! (512 * f + j)"
    if "512 * k \<le> j" "j < length buf" "512 * f + j < length c" "p + n \<noteq> 512 * Suc (f + k)" "k \<noteq> 0 \<or> p = 512 * f" for j
  proof -
    have "j < 512 * k + length r2" using that(1-3) len by (simp add: r2_def min_def) linarith
    then have "buf2 ! j = r2 ! (j - 512 * k)"
      using nth_splice [OF f2, of j] that l1 by (simp add: buf2_def)
    also have "\<dots> = c ! (512 * f + j)" using that len by (simp add: r2_def)
    finally show ?thesis .
  qed
  have "holds_old buf2 c (512 * f) p (p + n)" unfolding holds_old_def
  proof (intro allI impI)
    fix j assume j: "j < length buf2" "512 * f + j < length c" "512 * f + j < p \<or> p + n \<le> 512 * f + j"
    show "buf2 ! j = c ! (512 * f + j)"
    proof (cases "512 * f + j < p")
      case True
      then have "j < 512" "p \<noteq> 512 * f" using p by auto
      then show ?thesis using v1 [of j] v2 [of j] j l2 by (cases "k = 0") auto
    next
      case False
      then have "p + n \<noteq> 512 * Suc (f + k)" "512 * k \<le> j" using j len l2 q by auto
      then show ?thesis using v1 [of j] v2 [of j] v3 [of j] j l2 len by (cases "k \<noteq> 0 \<or> p = 512 * f") auto
    qed
  qed
  then show ?thesis using s1 s2 l2 len by (intro exI [of _ buf1] exI [of _ buf2]) simp
qed

text \<open>The file after a write: the bytes from the position on are replaced, as far as the file reaches.\<close>

definition overwrite :: "byte list \<Rightarrow> nat \<Rightarrow> byte list \<Rightarrow> byte list" where
  "overwrite c p bs = take p c @ take (length c - p) bs @ drop (p + length bs) c"

lemma length_overwrite [simp]: "p \<le> length c \<Longrightarrow> length (overwrite c p bs) = length c"
  by (simp add: overwrite_def)

lemma nth_overwrite:
  "p \<le> length c \<Longrightarrow> j < length c \<Longrightarrow>
   overwrite c p bs ! j = (if p \<le> j \<and> j < p + length bs then bs ! (j - p) else c ! j)"
  by (auto simp: overwrite_def nth_append)

lemma written_content:
  assumes h: "wf_hdr h" and d: "wf_dsk d" "wf_dsk d'" and fm: "f + m \<le> length (secs h)" and b: "length buf = 512 * m"
    and w: "\<forall>i<m. d' ! (secs h ! (f + i)) = take 512 (drop (512 * i) buf)"
    and o: "\<forall>j. (\<forall>i<m. j \<noteq> secs h ! (f + i)) \<longrightarrow> d' ! j = d ! j"
    and c: "length c' = nat (numBytes h)" "\<forall>j<512 * m. 512 * f + j < length c' \<longrightarrow> buf ! j = c' ! (512 * f + j)"
    "\<forall>j<length c'. j < 512 * f \<or> 512 * (f + m) \<le> j \<longrightarrow> c' ! j = content h d ! j"
  shows "content h d' = c'"
proof (rule nth_equalityI)
  show "length (content h d') = length c'" using length_content [OF h d(2)] c(1) by simp
next
  fix j assume "j < length (content h d')"
  then have j: "j < nat (numBytes h)" using length_content [OF h d(2)] by simp
  then have jl: "j div 512 < length (secs h)" using wf_hdr_secs(2) [OF h] by (simp add: div_less_iff_less_mult)
  show "content h d' ! j = c' ! j"
  proof (cases "f \<le> j div 512 \<and> j div 512 < f + m")
    case True
    define i where "i = j div 512 - f"
    have i: "j div 512 = f + i" "i < m" using True by (auto simp: i_def)
    have "j = 512 * (j div 512) + j mod 512" by simp
    then have ij: "j = 512 * f + (512 * i + j mod 512)" unfolding i(1) by (simp only: distrib_left add.assoc)
    have len: "512 * i + j mod 512 < 512 * m" using i(2) mod_less_divisor [of 512 j] by linarith
    have "content h d' ! j = take 512 (drop (512 * i) buf) ! (j mod 512)"
      using nth_content [OF h d(2) j] w i(1,2) by simp
    also have "\<dots> = buf ! (512 * i + j mod 512)" using len b by (simp add: nth_drop)
    also have "\<dots> = c' ! j" using c(2) len ij j c(1) by metis
    finally show ?thesis .
  next
    case False
    have dist: "distinct (secs h)" using h by (simp only: wf_hdr_def)
    have "\<forall>i<m. secs h ! (j div 512) \<noteq> secs h ! (f + i)"
      using False fm nth_eq_iff_index_eq [OF dist jl] by auto
    then have "content h d' ! j = content h d ! j" using o nth_content [OF h _ j] d by simp
    moreover have "j < 512 * f \<or> 512 * (f + m) \<le> j"     proof (cases "j div 512 < f")
      case True
      have "j = 512 * (j div 512) + j mod 512" by simp
      then have "j < 512 * f" using True mod_less_divisor [of 512 j] by linarith
      then show ?thesis ..
    next
      case False2: False
      then have "f + m \<le> j div 512" using False by simp
      then have "512 * (f + m) \<le> 512 * (j div 512)" by (rule mult_le_mono2)
      also have "512 * (j div 512) \<le> j" by simp
      finally have "512 * (f + m) \<le> j" .
      then show ?thesis ..
    qed
    ultimately show ?thesis using c(1,3) j by metis
  qed
qed

lemma WriteAt_content:
  assumes h: "wf_hdr h" and d: "wf_dsk d" and n: "n \<le> length frm" "n \<noteq> 0" and p: "p < nat (numBytes h)"
  shows "\<exists>d'. WriteAt junk h frm (int n) (int p) d = Inr (int (min n (nat (numBytes h) - p)), d') \<and> wf_dsk d' \<and>
    content h d' = overwrite (content h d) p (take n frm) \<and> (\<forall>s. s \<notin> set (secs h) \<longrightarrow> d' ! s = d ! s)"
proof -
  let ?c = "content h d" and ?N = "nat (numBytes h)"
  have N: "length ?c = ?N" using length_content [OF h d] .
  obtain n' f l where n': "n' = min n (?N - p)" "p + n' \<le> ?N" and s: "f \<le> l" "512 * f \<le> p" "p < 512 * Suc f"
    "512 * l < p + n'" "p + n' \<le> 512 * Suc l" "Suc l \<le> length (secs h)"
    "p - 512 * f + n' \<le> 512 * (Suc l - f)"
    and e: "divRoundDown (int p) SectorSize = int f" "divRoundDown (int p + int n' - 1) SectorSize = int l"
    "nat (1 + int l - int f) = Suc l - f" "int p - int f * SectorSize = int (p - 512 * f)"
    "(if int p + int n > FileLength h then FileLength h - int p else int n) = int n'"
    and g: "\<not> (int n \<le> 0 \<or> int p \<ge> FileLength h)"
    by (rule access_span [OF h n(2) p])
  obtain k where k: "l = f + k" using s(1) by (auto simp: le_iff_add)
  define buf where "buf = map junk [0..<nat ((1 + int l - int f) * SectorSize)]"
  have lb: "length buf = 512 * Suc k" by (simp add: buf_def k SectorSize_def nat_mult_distrib nat_add_distrib)
  obtain buf1 buf2 where b: "(if p \<noteq> 512 * f then copy_in buf 0 (take 512 (drop (512 * f) ?c)) else Inr buf) = Inr buf1"
    "(if p + n' \<noteq> 512 * Suc l \<and> (k \<noteq> 0 \<or> p = 512 * f) then copy_in buf1 (int (512 * k)) (take 512 (drop (512 * l) ?c)) else Inr buf1) = Inr buf2"
    "length buf2 = 512 * Suc k" "holds_old buf2 ?c (512 * f) p (p + n')"
    using boundary_buffer [OF lb s(2,3), of n' ?c] s(4,5) unfolding k by blast
  have rf: "ReadAt h SectorSize (int f * SectorSize) d = Inr (take 512 (drop (512 * f) ?c))"
    using ReadAt_content [OF h d, of 512 "512 * f"] by (simp add: SectorSize_def mult.commute)
  have rl: "ReadAt h SectorSize (int l * SectorSize) d = Inr (take 512 (drop (512 * l) ?c))"
    using ReadAt_content [OF h d, of 512 "512 * l"] by (simp add: SectorSize_def mult.commute)
  let ?fr = "take n' frm" and ?o = "p - 512 * f"
  have lf: "length ?fr = n'" using n(1) n'(1) by simp
  have fit: "?o + length ?fr \<le> length buf2" using s(7) b(3) lf by (simp add: k)
  define buf3 where "buf3 = take ?o buf2 @ ?fr @ drop (?o + length ?fr) buf2"
  have l3: "length buf3 = 512 * (Suc l - f)" using fit b(3) by (simp add: buf3_def k)
  have fl: "f + (Suc l - f) \<le> length (secs h)" using s(1,6) by simp
  obtain d' where d': "write_sectors h buf3 (int f) (Suc l - f) d = Inr d'" "wf_dsk d'"
    "\<forall>i<Suc l - f. d' ! (secs h ! (f + i)) = take 512 (drop (512 * i) buf3)"
    "\<forall>j. (\<forall>i<Suc l - f. j \<noteq> secs h ! (f + i)) \<longrightarrow> d' ! j = d ! j"
    using write_sectors_ok [OF h d fl l3] by blast
  have out: "copy_out frm 0 (int n') = Inr ?fr" using n(1) n'(1) by (simp add: copy_out_def)
  have al: "(int p = int f * SectorSize) = (p = 512 * f)" "(int p + int n' = (int l + 1) * SectorSize) = (p + n' = 512 * Suc l)"
    "(int f \<noteq> int l \<or> p = 512 * f) = (k \<noteq> 0 \<or> p = 512 * f)" "(int l - int f) * SectorSize = int (512 * k)"
    unfolding SectorSize_def k by presburger+
  have "copy_in buf2 (int ?o) ?fr = Inr buf3" unfolding buf3_def by (rule copy_in_ok [OF fit])
  then have wrt: "WriteAt junk h frm (int n) (int p) d = Inr (int n', d')"
    unfolding WriteAt_def Let_def e al rf rl buf_def [symmetric] bindR.simps
    using g b(1,2) out d'(1) by (simp only: if_False bindR.simps not_False_eq_True)
  have "\<forall>j<512 * (Suc l - f). 512 * f + j < ?N \<longrightarrow> buf3 ! j = overwrite ?c p (take n frm) ! (512 * f + j)"
  proof (intro allI impI)
    fix j assume j: "j < 512 * (Suc l - f)" "512 * f + j < ?N"
    then have b3: "buf3 ! j = (if ?o \<le> j \<and> j < ?o + n' then ?fr ! (j - ?o) else buf2 ! j)"
      unfolding buf3_def using nth_splice [OF fit, of j] b(3) lf by (simp add: k)
    show "buf3 ! j = overwrite ?c p (take n frm) ! (512 * f + j)"
    proof (cases "p \<le> 512 * f + j \<and> 512 * f + j < p + n'")
      case True
      then have i: "?o \<le> j" "j < ?o + n'" "j - ?o = 512 * f + j - p" "512 * f + j - p < n'" using s(2) by auto
      have "buf3 ! j = frm ! (512 * f + j - p)" using b3 i by simp
      moreover have "512 * f + j < p + n" "n' \<le> n" using True n'(1) by auto
      ultimately show ?thesis using True i(4) j(2) N n(1) p by (simp add: nth_overwrite)
    next
      case False
      have "buf2 ! j = ?c ! (512 * f + j)" using b(3,4) False j N by (auto simp: holds_old_def k)
      moreover have "buf3 ! j = buf2 ! j" using b3 False s(2) by auto
      moreover have "\<not> (p \<le> 512 * f + j \<and> 512 * f + j < p + n)" using False j(2) n'(1) by auto
      ultimately show ?thesis using j(2) N n(1) p by (auto simp: nth_overwrite)
    qed
  qed
  moreover have "\<forall>j<?N. j < 512 * f \<or> 512 * (f + (Suc l - f)) \<le> j \<longrightarrow> overwrite ?c p (take n frm) ! j = ?c ! j"
    using s(1,2,5) n'(1) p N n(1) by (auto simp: nth_overwrite)
  ultimately have cont: "content h d' = overwrite ?c p (take n frm)"
    using p N by (intro written_content [OF h d d'(2) fl l3 d'(3,4)]) simp_all
  have "\<forall>j. j \<notin> set (secs h) \<longrightarrow> d' ! j = d ! j"
  proof (intro allI impI d'(4) [rule_format] notI)
    fix j i assume "j \<notin> set (secs h)" "i < Suc l - f" "j = secs h ! (f + i)"
    then show False using fl nth_mem [of "f + i" "secs h"] by simp
  qed
  with wrt cont d'(2) n'(1) show ?thesis by blast
qed

section \<open>Headers on disk\<close>

definition in_int :: "int \<Rightarrow> bool" where
  "in_int v \<longleftrightarrow> - (2 ^ 31) \<le> v \<and> v < 2 ^ 31"

lemma sint_of_int_id: "in_int v \<Longrightarrow> sint (word_of_int v :: u32) = v"
  by (simp add: in_int_def signed_take_bit_int_eq_self sint_sbintrunc')

lemma int_at_bytes:
  assumes "in_int v" and "take 4 (drop k bs) = int_bytes v"
  shows "int_at bs k = v"
proof -
  have "(of_nat (nat (v mod 2 ^ 32)) :: u32) = of_int (int (nat (v mod 2 ^ 32)))" by (rule of_int_of_nat_eq [symmetric])
  moreover have "int (nat (v mod 2 ^ 32)) = v mod 2 ^ 32" by simp
  moreover have "nat (v mod 2 ^ 32) mod 256 ^ 4 = nat (v mod 2 ^ 32)" by (simp add: nat_mod_distrib [symmetric])
  ultimately have "(of_nat (bytes_value (int_bytes v)) :: u32) = word_of_int (v mod 2 ^ 32)"
    unfolding int_bytes_def bytes_value_bytes by (simp only:)
  also have "\<dots> = word_of_int v" by (simp add: word_of_int_eq_iff take_bit_eq_mod)
  finally show ?thesis unfolding int_at_def assms(2) by (simp add: sint_of_int_id [OF assms(1)])
qed

lemma length_int_bytes [simp]: "length (int_bytes v) = 4"
  by (simp add: int_bytes_def)

lemma words_at:
  assumes "i < length vs"
  shows "take 4 (drop (4 * i) (concat (map int_bytes vs))) = int_bytes (vs ! i)"
proof -
  have c: "\<forall>x \<in> set (map int_bytes vs). length x = 4" by simp
  have "drop (4 * i) (concat (map int_bytes vs)) = int_bytes (vs ! i) @ concat (map int_bytes (drop (Suc i) vs))"
    unfolding concat_chunks(2) [OF c] using assms by (simp add: drop_map Cons_nth_drop_Suc [symmetric])
  then show ?thesis by simp
qed

lemma hdr_of_bytes:
  assumes "in_int (numBytes h)" "in_int (numSectors h)" "\<forall>s \<in> set (dataSectors h). in_int s" "length (dataSectors h) = 126"
  shows "hdr_of (hdr_bytes h) = h"
proof -
  let ?vs = "numBytes h # numSectors h # dataSectors h"
  have w: "int_at (hdr_bytes h) (4 * i) = ?vs ! i" if "i < 128" for i
  proof (rule int_at_bytes)
    have "?vs ! i \<in> set ?vs" using that assms(4) by (intro nth_mem) simp
    then show "in_int (?vs ! i)" using assms(1-3) by auto
    show "take 4 (drop (4 * i) (hdr_bytes h)) = int_bytes (?vs ! i)"
      unfolding hdr_bytes_def using that assms(4) by (intro words_at) simp
  qed
  have nd: "nat NumDirect = 126" by (simp add: NumDirect_def SectorSize_def)
  have "map (\<lambda>i. int_at (hdr_bytes h) (8 + 4 * i)) [0..<126] = dataSectors h"
  proof (rule nth_equalityI)
    fix i assume "i < length (map (\<lambda>i. int_at (hdr_bytes h) (8 + 4 * i)) [0..<126])"
    then have i: "i < 126" by simp
    have "int_at (hdr_bytes h) (4 * (i + 2)) = dataSectors h ! i" using w [of "i + 2"] i by simp
    then show "map (\<lambda>i. int_at (hdr_bytes h) (8 + 4 * i)) [0..<126] ! i = dataSectors h ! i"
      using i by (simp add: add.commute)
  qed (use assms(4) in simp)
  then show ?thesis using w [of 0] w [of 1] by (simp add: hdr_of_def nd)
qed

lemma length_hdr_bytes: "length (dataSectors h) = 126 \<Longrightarrow> length (hdr_bytes h) = 512"
proof -
  assume l: "length (dataSectors h) = 126"
  have c: "\<forall>x \<in> set (map int_bytes (numBytes h # numSectors h # dataSectors h)). length x = 4" by simp
  show ?thesis unfolding hdr_bytes_def concat_chunks(1) [OF c] using l by simp
qed

lemma wf_dsk_update: "wf_dsk d \<Longrightarrow> length bs = 512 \<Longrightarrow> wf_dsk (d[n := bs])"
  by (auto simp: wf_dsk_def dest: subsetD [OF set_update_subset_insert])

lemma header_store_load:
  assumes "wf_dsk d" "n < 1024" "in_int (numBytes h)" "in_int (numSectors h)" "\<forall>s \<in> set (dataSectors h). in_int s"
    "length (dataSectors h) = 126"
  shows "FileHeader_WriteBack h (int n) d = Inr (d[n := hdr_bytes h])" "wf_dsk (d[n := hdr_bytes h])"
    "FileHeader_FetchFrom (int n) (d[n := hdr_bytes h]) = Inr h"
proof -
  show "FileHeader_WriteBack h (int n) d = Inr (d[n := hdr_bytes h])"
    using assms(1,2) by (simp add: FileHeader_WriteBack_def write_sector_ok)
  show w: "wf_dsk (d[n := hdr_bytes h])" using assms(1) length_hdr_bytes [OF assms(6)] by (rule wf_dsk_update)
  show "FileHeader_FetchFrom (int n) (d[n := hdr_bytes h]) = Inr h"
  proof -
    have "n < length d" using assms(1,2) by (simp add: wf_dsk_def)
    then show ?thesis
      by (simp add: FileHeader_FetchFrom_def read_sector_ok [OF w assms(2)] hdr_of_bytes [OF assms(3-6)])
  qed
qed

section \<open>Allocation of sectors\<close>

lemma allocate_loop_repeat:
  "repeat_find BitMap_Find n bm = Inr (ks, bm') \<Longrightarrow>
   allocate_loop (int i) n h bm =
     (if n = 0 then Inr (h, bm)
      else if i + n \<le> length (dataSectors h) then Inr (h\<lparr>dataSectors := take i (dataSectors h) @ ks @ drop (i + n) (dataSectors h)\<rparr>, bm')
      else Inl OutOfBounds)"
proof (induction n arbitrary: i h bm ks)
  case (Suc n)
  obtain k b1 ks' where k: "BitMap_Find bm = Inr (k, b1)" "repeat_find BitMap_Find n b1 = Inr (ks', bm')" "ks = k # ks'"
    using Suc.prems by (auto simp: bindR_eq_Inr)
  show ?case
  proof (cases "i < length (dataSectors h)")
    case True
    let ?h = "h\<lparr>dataSectors := (dataSectors h)[i := k]\<rparr>"
    have "allocate_loop (int i) (Suc n) h bm = allocate_loop (int (Suc i)) n ?h b1"
      using k True by (simp add: add.commute)
    also have "\<dots> = (if n = 0 then Inr (?h, b1)
      else if Suc i + n \<le> length (dataSectors ?h) then Inr (?h\<lparr>dataSectors := take (Suc i) (dataSectors ?h) @ ks' @ drop (Suc i + n) (dataSectors ?h)\<rparr>, bm')
      else Inl OutOfBounds)" by (rule Suc.IH [OF k(2)])
    also have "\<dots> = (if Suc i + n \<le> length (dataSectors h) then Inr (h\<lparr>dataSectors := take i (dataSectors h) @ ks @ drop (Suc i + n) (dataSectors h)\<rparr>, bm')
      else Inl OutOfBounds)"
      using True k(2,3) by (auto simp: take_Suc_conv_app_nth upd_conv_take_nth_drop add.commute)
    finally show ?thesis by simp
  next
    case False
    then show ?thesis using k(1) by (simp add: wr_def)
  qed
qed simp

lemma deallocate_loop_clear_all:
  "i + n \<le> length (dataSectors h) \<Longrightarrow>
   deallocate_loop (int i) n h bm = clear_all BitMap_Test BitMap_Clear (take n (drop i (dataSectors h))) bm"
proof (induction n arbitrary: i bm)
  case (Suc n)
  have i: "i < length (dataSectors h)" using Suc.prems by simp
  then have e: "take (Suc n) (drop i (dataSectors h)) = dataSectors h ! i # take n (drop (Suc i) (dataSectors h))"
    by (simp add: Cons_nth_drop_Suc [symmetric])
  have "deallocate_loop (int i + 1) n h b = clear_all BitMap_Test BitMap_Clear (take n (drop (Suc i) (dataSectors h))) b" for b
    using Suc.IH [of "Suc i" b] Suc.prems by (simp add: add.commute)
  then have "deallocate_loop (int i + 1) n h = clear_all BitMap_Test BitMap_Clear (take n (drop (Suc i) (dataSectors h)))" ..
  then show ?case unfolding e using i by simp
qed simp

lemma divRoundUp_sector:
  obtains n where "divRoundUp (int N) SectorSize = int n" "N \<le> n * 512" "n * 512 < N + 512"
  using divRoundUp_page [of N] by (simp add: PageSize_def) (metis PageSize_def)

text \<open>What \<^verbatim>\<open>Allocate\<close> does to a header whose array has room, and to one whose array has not.\<close>

lemma Allocate_cases:
  assumes b: "wf_bitmap bm" "capacity bm = 1024" and l: "length (dataSectors h) = 126"
    and n: "divRoundUp (int N) SectorSize = int n"
  shows "1024 < n + card (marked bm) \<Longrightarrow>
      Allocate bm (int N) h = Inr (False, h\<lparr>numBytes := int N, numSectors := int n\<rparr>, bm)"
    "n + card (marked bm) \<le> 1024 \<Longrightarrow> n \<le> 126 \<Longrightarrow>
      \<exists>ks bm'. Allocate bm (int N) h =
          Inr (True, h\<lparr>numBytes := int N, numSectors := int n, dataSectors := map int ks @ drop n (dataSectors h)\<rparr>, bm') \<and>
        length ks = n \<and> distinct ks \<and> set ks \<inter> marked bm = {} \<and> set ks \<subseteq> {..<1024} \<and>
        wf_bitmap bm' \<and> capacity bm' = 1024 \<and> marked bm' = marked bm \<union> set ks"
    "n + card (marked bm) \<le> 1024 \<Longrightarrow> 126 < n \<Longrightarrow> Allocate bm (int N) h = Inl OutOfBounds"
proof -
  have c: "card (marked bm) \<le> 1024" using bm.card_used_le [OF b(1)] b(2) by simp
  have nc: "BitMap_NumClear bm = Inr (1024 - int (card (marked bm)))" using bm.num_clear_slots [OF b(1)] b(2) by simp
  show "1024 < n + card (marked bm) \<Longrightarrow>
      Allocate bm (int N) h = Inr (False, h\<lparr>numBytes := int N, numSectors := int n\<rparr>, bm)"
    using nc c by (simp add: Allocate_def n)
  assume e: "n + card (marked bm) \<le> 1024"
  obtain ks bm' where ks: "repeat_find BitMap_Find n bm = Inr (map int ks, bm')" "length ks = n" "distinct ks"
    "set ks \<inter> marked bm = {}" "set ks \<subseteq> {..<1024}" "wf_bitmap bm'" "capacity bm' = 1024" "marked bm' = marked bm \<union> set ks"
    using bm.repeat_find_ok [OF b(1), of n] e b(2) by auto
  let ?h = "h\<lparr>numBytes := int N, numSectors := int n\<rparr>"
  have z: "n = 0 \<Longrightarrow> bm' = bm" using ks(1) by simp
  have al: "Allocate bm (int N) h = bindR (allocate_loop (int 0) n ?h bm) (\<lambda>(h2, bm). Inr (True, h2, bm))"
    using nc e by (simp add: Allocate_def n)
  {
    assume "126 < n"
    then show "Allocate bm (int N) h = Inl OutOfBounds" unfolding al allocate_loop_repeat [OF ks(1)] using l by simp
  next
    assume "n \<le> 126"
    then have "Allocate bm (int N) h =
        Inr (True, h\<lparr>numBytes := int N, numSectors := int n, dataSectors := map int ks @ drop n (dataSectors h)\<rparr>, bm')"
      unfolding al allocate_loop_repeat [OF ks(1)] using l z ks(2) by auto
    then show "\<exists>ks bm'. Allocate bm (int N) h =
          Inr (True, h\<lparr>numBytes := int N, numSectors := int n, dataSectors := map int ks @ drop n (dataSectors h)\<rparr>, bm') \<and>
        length ks = n \<and> distinct ks \<and> set ks \<inter> marked bm = {} \<and> set ks \<subseteq> {..<1024} \<and>
        wf_bitmap bm' \<and> capacity bm' = 1024 \<and> marked bm' = marked bm \<union> set ks" using ks(2-8) by blast
  }
qed

lemma allocated_header:
  assumes "divRoundUp (int N) SectorSize = int n" "n \<le> 126" "length (dataSectors h) = 126"
    "length ks = n" "distinct ks" "set ks \<subseteq> {..<1024}"
  defines "h' \<equiv> h\<lparr>numBytes := int N, numSectors := int n, dataSectors := map int ks @ drop n (dataSectors h)\<rparr>"
  shows "wf_hdr h'" "secs h' = ks"
proof -
  show s: "secs h' = ks" using assms(4) by (simp add: secs_def h'_def comp_def)
  have "\<forall>i<n. 0 \<le> dataSectors h' ! i" using assms(4) by (simp add: h'_def nth_append)
  then show "wf_hdr h'" unfolding wf_hdr_def s using assms by (simp add: SectorSize_def)
qed

text \<open>\<^verbatim>\<open>Deallocate\<close> gives the sectors of a file back, all of them and no other.\<close>

lemma Deallocate_ok:
  assumes "wf_bitmap bm" "wf_hdr h" "set (secs h) \<subseteq> marked bm"
  shows "\<exists>bm'. Deallocate bm h = Inr bm' \<and> wf_bitmap bm' \<and> capacity bm' = capacity bm \<and> marked bm' = marked bm - set (secs h)"
proof -
  have w: "length (dataSectors h) = 126" "numSectors h \<le> 126" "distinct (secs h)" using assms(2) by (simp_all add: wf_hdr_def)
  have "take (nat (numSectors h)) (drop 0 (dataSectors h)) = map int (secs h)"
  proof (rule nth_equalityI)
    fix i assume "i < length (take (nat (numSectors h)) (drop 0 (dataSectors h)))"
    then have "i < length (secs h)" by (simp add: secs_def)
    then show "take (nat (numSectors h)) (drop 0 (dataSectors h)) ! i = map int (secs h) ! i"
      using wf_hdr_secs(5) [OF assms(2)] wf_hdr_secs(1) [OF assms(2)] by simp
  qed (simp add: secs_def)
  then have "Deallocate bm h = clear_all BitMap_Test BitMap_Clear (map int (secs h)) bm"
    using deallocate_loop_clear_all [of 0 "nat (numSectors h)" h bm] w by (simp add: Deallocate_def)
  then show ?thesis using bm.clear_all_ok [OF assms(1) w(3) assms(3)] by simp
qed

section \<open>Properties\<close>

text \<open>
  Reading through the sectors of a file is reading its byte sequence: whatever the position, the
  length and the alignment, \<^verbatim>\<open>ReadAt\<close> returns the bytes from the position on, cut at the end of the file.
\<close>

lemma ReadAt_refines:
  assumes "wf_hdr h" and "wf_dsk d"
  shows "ReadAt h (int n) (int p) d = Inr (take n (drop p (content h d))) \<and> length (content h d) = nat (FileLength h)"
  using ReadAt_content [OF assms] length_content [OF assms] by (simp add: FileLength_def)

text \<open>
  C14: \<^verbatim>\<open>WriteAt\<close> replaces exactly the bytes from the position on, as far as the file reaches, and returns
  their number. A later read anywhere in the file sees the new bytes and around them the old ones, although
  whole sectors are written; no sector outside the file changes, so a file with other sectors keeps its bytes.
\<close>

theorem WriteAt_refines:
  assumes "wf_hdr h" and "wf_dsk d" and "n \<le> length frm" and "n \<noteq> 0" and "p < nat (numBytes h)"
  shows "\<exists>d'. WriteAt junk h frm (int n) (int p) d = Inr (int (min n (nat (numBytes h) - p)), d') \<and> wf_dsk d' \<and>
    (\<forall>k q. ReadAt h (int k) (int q) d' = Inr (take k (drop q (overwrite (content h d) p (take n frm))))) \<and>
    (\<forall>s. s \<notin> set (secs h) \<longrightarrow> d' ! s = d ! s) \<and>
    (\<forall>g. set (secs g) \<inter> set (secs h) = {} \<longrightarrow> content g d' = content g d)"
proof -
  obtain d' where d': "WriteAt junk h frm (int n) (int p) d = Inr (int (min n (nat (numBytes h) - p)), d')" "wf_dsk d'"
    "content h d' = overwrite (content h d) p (take n frm)" "\<forall>s. s \<notin> set (secs h) \<longrightarrow> d' ! s = d ! s"
    using WriteAt_content [OF assms] by blast
  have "content g d' = content g d" if "set (secs g) \<inter> set (secs h) = {}" for g
  proof -
    have "map (\<lambda>i. d' ! i) (secs g) = map (\<lambda>i. d ! i) (secs g)" using d'(4) that by (intro map_cong) auto
    then show ?thesis by (simp only: content_def raw_def)
  qed
  then show ?thesis using d' ReadAt_content [OF assms(1) d'(2)] by (intro exI [of _ d']) simp
qed

text \<open>
  A header written to a sector and fetched again is the same header, for all values an \<^verbatim>\<open>int\<close> can have,
  and it fills the sector exactly.
\<close>

lemma header_roundtrip:
  assumes "wf_dsk d" and "n < 1024" and "in_int (numBytes h)" and "in_int (numSectors h)"
    and "\<forall>s \<in> set (dataSectors h). in_int s" and "int (length (dataSectors h)) = NumDirect"
  shows "\<exists>d'. FileHeader_WriteBack h (int n) d = Inr d' \<and> wf_dsk d' \<and> FileHeader_FetchFrom (int n) d' = Inr h \<and>
    (\<forall>s. s \<noteq> n \<longrightarrow> d' ! s = d ! s)"
proof -
  have "length (dataSectors h) = 126" using assms(6) by (simp add: NumDirect_def SectorSize_def)
  from header_store_load [OF assms(1-5) this] show ?thesis by (intro exI [of _ "d[n := hdr_bytes h]"]) simp
qed

text \<open>
  For a file that fits the array of a header, \<^verbatim>\<open>Allocate\<close> refuses exactly when there are too few free
  sectors, and changes nothing then; otherwise the file gets as many sectors as its length needs, all of them
  free before, distinct and now marked, and \<^verbatim>\<open>Deallocate\<close> gives back exactly these.
\<close>

lemma Allocate_Deallocate:
  assumes "wf_bitmap bm" and "capacity bm = 1024" and "int (length (dataSectors h)) = NumDirect" and "int N \<le> MaxFileSize"
  shows "if 1024 < nat (divRoundUp (int N) SectorSize) + card (marked bm)
    then \<exists>h'. Allocate bm (int N) h = Inr (False, h', bm)
    else \<exists>h' bm' bm''. Allocate bm (int N) h = Inr (True, h', bm') \<and> wf_hdr h' \<and> FileLength h' = int N \<and>
      set (secs h') \<inter> marked bm = {} \<and> wf_bitmap bm' \<and> marked bm' = marked bm \<union> set (secs h') \<and>
      Deallocate bm' h' = Inr bm'' \<and> wf_bitmap bm'' \<and> marked bm'' = marked bm"
proof -
  have l: "length (dataSectors h) = 126" using assms(3) by (simp add: NumDirect_def SectorSize_def)
  obtain n where n: "divRoundUp (int N) SectorSize = int n" "n * 512 < N + 512" by (rule divRoundUp_sector)
  have "N \<le> 64512" using assms(4) by (simp add: MaxFileSize_def NumDirect_def SectorSize_def)
  then have n126: "n \<le> 126" using n(2) by simp
  show ?thesis
  proof (cases "1024 < n + card (marked bm)")
    case True
    then show ?thesis using Allocate_cases(1) [OF assms(1,2) l n(1)] n(1) by simp
  next
    case False
    then have le: "n + card (marked bm) \<le> 1024" by simp
    obtain ks bm' where ks: "Allocate bm (int N) h =
        Inr (True, h\<lparr>numBytes := int N, numSectors := int n, dataSectors := map int ks @ drop n (dataSectors h)\<rparr>, bm')"
      "length ks = n" "distinct ks" "set ks \<inter> marked bm = {}" "set ks \<subseteq> {..<1024}"
      "wf_bitmap bm'" "marked bm' = marked bm \<union> set ks"
      using Allocate_cases(2) [OF assms(1,2) l n(1) le n126] by blast
    note a = allocated_header [OF n(1) n126 l ks(2,3,5)]
    obtain bm'' where "Deallocate bm' (h\<lparr>numBytes := int N, numSectors := int n, dataSectors := map int ks @ drop n (dataSectors h)\<rparr>) = Inr bm''"
      "wf_bitmap bm''" "marked bm'' = marked bm' - set ks" using Deallocate_ok [OF ks(6) a(1)] ks(7) a(2) by auto
    then show ?thesis using False n(1) ks a
      by (auto simp: FileLength_def intro!: exI [of _ bm'] exI [of _ bm'']
          exI [of _ "h\<lparr>numBytes := int N, numSectors := int n, dataSectors := map int ks @ drop n (dataSectors h)\<rparr>"])
  qed
qed

text \<open>
  A file longer than \<^verbatim>\<open>MaxFileSize\<close> is not refused: as long as the disk has enough free sectors,
  \<^verbatim>\<open>Allocate\<close> stores sector numbers beyond the end of the header's array.
\<close>

lemma Allocate_too_large:
  assumes "wf_bitmap bm" and "capacity bm = 1024" and "int (length (dataSectors h)) = NumDirect" and "MaxFileSize < int N"
    and "nat (divRoundUp (int N) SectorSize) + card (marked bm) \<le> 1024"
  shows "Allocate bm (int N) h = Inl OutOfBounds"
proof -
  have l: "length (dataSectors h) = 126" using assms(3) by (simp add: NumDirect_def SectorSize_def)
  obtain n where n: "divRoundUp (int N) SectorSize = int n" "N \<le> n * 512" by (rule divRoundUp_sector)
  have "64512 < N" using assms(4) by (simp add: MaxFileSize_def NumDirect_def SectorSize_def)
  then have "126 < n" using n(2) by simp
  then show ?thesis using Allocate_cases(3) [OF assms(1,2) l n(1)] assms(5) n(1) by simp
qed

section \<open>A file of 600 bytes\<close>

definition demo_hdr :: FileHeader where
  "demo_hdr = \<lparr>numBytes = 600, numSectors = 2, dataSectors = [5, 9] @ replicate 124 0\<rparr>"
definition demo_dsk :: dsk where
  "demo_dsk = replicate 1024 (replicate 512 7)"
definition empty_map :: BitMap where
  "empty_map = \<lparr>numBits = 1024, numWords = 32, bmap = replicate 32 0\<rparr>"

lemma wf_demo: "wf_hdr demo_hdr" "wf_dsk demo_dsk" "wf_bitmap empty_map" "capacity empty_map = 1024" "marked empty_map = {}"
proof -
  have s: "secs demo_hdr = [5, 9]" by (simp add: secs_def demo_hdr_def)
  show "wf_hdr demo_hdr" unfolding wf_hdr_def s
    by (auto simp: demo_hdr_def divRoundUp_def less_Suc_eq numeral_eq_Suc nth_Cons')
  show "wf_dsk demo_dsk" by (simp add: wf_dsk_def demo_dsk_def)
  show "wf_bitmap empty_map" "capacity empty_map = 1024" "marked empty_map = {}"
    by (simp_all add: empty_map_def wf_bitmap_def capacity_def marked_def bit_at_def BitsInWord_def BitsInByte_def divRoundUp_def)
qed

lemma WriteAt_refines_witness:
  "\<exists>d'. WriteAt (\<lambda>_. 0) demo_hdr [1, 2, 3] (int 3) (int 511) demo_dsk = Inr (3, d') \<and>
     ReadAt demo_hdr (int 600) (int 500) d' = Inr (take 600 (drop 500 (overwrite (content demo_hdr demo_dsk) 511 [1, 2, 3])))"
proof -
  have "3 \<le> length [1, 2, 3 :: byte]" "(3::nat) \<noteq> 0" "511 < nat (numBytes demo_hdr)" by (simp_all add: demo_hdr_def)
  from WriteAt_refines [OF wf_demo(1,2) this] obtain d' where
    "WriteAt (\<lambda>_. 0) demo_hdr [1, 2, 3] (int 3) (int 511) demo_dsk = Inr (int (min 3 (nat (numBytes demo_hdr) - 511)), d')"
    "\<forall>k q. ReadAt demo_hdr (int k) (int q) d' = Inr (take k (drop q (overwrite (content demo_hdr demo_dsk) 511 (take 3 [1, 2, 3]))))"
    by blast
  then show ?thesis by (intro exI [of _ d']) (simp add: demo_hdr_def del: of_nat_numeral)
qed

end
