(* ===== verification/NameTable.thy ===== *)
theory NameTable
  imports Prelude
begin

text \<open>
  The interface of a table of names, as the file system uses its directory: \<open>lkp\<close> is the finite map
  that a table stands for, \<open>key\<close> the part of a name that counts, \<open>valid\<close> what a name can stand for, \<open>room\<close> whether a name can be added.
\<close>

locale name_table =
  fixes fnd :: "'t \<Rightarrow> 'n \<Rightarrow> int"
    and add :: "'t \<Rightarrow> 'n \<Rightarrow> int \<Rightarrow> bool \<times> 't"
    and rem :: "'t \<Rightarrow> 'n \<Rightarrow> bool \<times> 't"
    and wf :: "'t \<Rightarrow> bool"
    and valid :: "int \<Rightarrow> bool"
    and room :: "'t \<Rightarrow> bool"
    and key :: "'n \<Rightarrow> 'k"
    and lkp :: "'t \<Rightarrow> 'k \<rightharpoonup> int"
  assumes fnd_lkp: "wf t \<Longrightarrow> fnd t n = (case lkp t (key n) of Some s \<Rightarrow> s | None \<Rightarrow> -1)"
    and lkp_valid: "wf t \<Longrightarrow> lkp t k = Some s \<Longrightarrow> valid s"
    and valid_nonneg: "valid s \<Longrightarrow> 0 \<le> s"
    and finite_lkp: "finite (dom (lkp t))"
    and add_ok: "wf t \<Longrightarrow> lkp t (key n) = None \<Longrightarrow> room t \<Longrightarrow> valid s \<Longrightarrow>
      \<exists>t'. add t n s = (True, t') \<and> wf t' \<and> lkp t' = (lkp t)(key n \<mapsto> s)"
    and add_fails: "wf t \<Longrightarrow> lkp t (key n) \<noteq> None \<or> \<not> room t \<Longrightarrow> add t n s = (False, t)"
    and rem_ok: "wf t \<Longrightarrow> lkp t (key n) \<noteq> None \<Longrightarrow>
      \<exists>t'. rem t n = (True, t') \<and> wf t' \<and> room t' \<and> lkp t' = (lkp t)(key n := None)"
    and rem_fails: "wf t \<Longrightarrow> lkp t (key n) = None \<Longrightarrow> rem t n = (False, t)"
begin

lemma fnd_absent: "wf t \<Longrightarrow> (fnd t n = -1) = (lkp t (key n) = None)"
  using fnd_lkp [of t n] lkp_valid [of t "key n"] valid_nonneg by (fastforce split: option.splits)

lemma fnd_present: "wf t \<Longrightarrow> lkp t (key n) = Some s \<Longrightarrow> fnd t n = s"
  by (simp add: fnd_lkp)

text \<open>What is found after an entry was added or removed.\<close>

lemma fnd_after_add:
  assumes "wf t" and "lkp t (key n) = None" and "room t" and "valid s"
  shows "\<exists>t'. add t n s = (True, t') \<and> wf t' \<and> (\<forall>m. fnd t' m = (if key m = key n then s else fnd t m))"
proof -
  obtain t' where "add t n s = (True, t')" "wf t'" "lkp t' = (lkp t)(key n \<mapsto> s)" using add_ok [OF assms] by blast
  then show ?thesis using assms(1) by (auto simp: fnd_lkp)
qed

lemma fnd_after_rem:
  assumes "wf t" and "lkp t (key n) \<noteq> None"
  shows "\<exists>t'. rem t n = (True, t') \<and> wf t' \<and> (\<forall>m. fnd t' m = (if key m = key n then -1 else fnd t m))"
proof -
  obtain t' where "rem t n = (True, t')" "wf t'" "lkp t' = (lkp t)(key n := None)" using rem_ok [OF assms] by blast
  then show ?thesis using assms(1) by (auto simp: fnd_lkp)
qed

text \<open>Adding and removing a name that was not there gives the same map back.\<close>

lemma add_rem:
  assumes "wf t" and "lkp t (key n) = None" and "room t" and "valid s"
  shows "\<exists>t1 t2. add t n s = (True, t1) \<and> rem t1 n = (True, t2) \<and> wf t2 \<and> room t2 \<and> lkp t2 = lkp t"
proof -
  obtain t1 where t1: "add t n s = (True, t1)" "wf t1" "lkp t1 = (lkp t)(key n \<mapsto> s)" using add_ok [OF assms] by blast
  then obtain t2 where "rem t1 n = (True, t2)" "wf t2" "room t2" "lkp t2 = (lkp t1)(key n := None)"
    using rem_ok [of t1 n] by auto
  with t1 assms(2) show ?thesis by auto
qed

end

end
