(* ===== verification/Directories.thy ===== *)
theory Directories
  imports Files NameTable
begin

text \<open>
  Directories: \<^verbatim>\<open>filesys/directory.{h,cc}\<close>, \<^verbatim>\<open>FileHeader::Print\<close>, and the two operations of
  \<^verbatim>\<open>userprog/bitmap.cc\<close> that keep a bitmap in a file. A directory is a table of entries that is
  read and written as the bytes of its memory, padding included. Its interface is the locale
  \<open>name_table\<close>: a finite map from names, of which only the first nine bytes count, to sectors.
\<close>

section \<open>C strings\<close>

text \<open>
  A C string is given by its bytes up to the terminating zero. \<open>strncmp_eq\<close> is
  \<^verbatim>\<open>!strncmp(a, b, n)\<close>; \<open>strncpy\<close> copies at most \<open>n\<close> bytes and fills up with zeros to \<open>n\<close>.
\<close>

definition cstr :: "byte list \<Rightarrow> byte list" where
  "cstr bs = takeWhile (\<lambda>c. c \<noteq> 0) bs"

definition strncmp_eq :: "byte list \<Rightarrow> byte list \<Rightarrow> nat \<Rightarrow> bool" where
  "strncmp_eq a b n \<longleftrightarrow> cstr (take n a) = cstr (take n b)"

definition strncpy :: "byte list \<Rightarrow> byte list \<Rightarrow> nat \<Rightarrow> byte list" where
  "strncpy dst src n = take n (cstr src @ replicate n 0) @ drop n dst"

text \<open>\<^verbatim>\<open>printf("%s", a)\<close> of an array: without a zero in it, bytes behind the array are read.\<close>

definition put_string :: "byte list \<Rightarrow> byte list result" where
  "put_string a = (if 0 \<in> set a then Inr (cstr a) else Inl OutOfBounds)"

section \<open>Directory entries and tables\<close>

definition FileNameMaxLen :: nat where "FileNameMaxLen = 9"

text \<open>
  An entry in memory: one byte for \<^verbatim>\<open>inUse\<close>, three bytes of padding, the sector in four bytes, ten
  bytes for the name and two bytes of padding.
\<close>

record DirectoryEntry =
  inUse :: bool
  pad1 :: "byte list"
  dsector :: int
  dname :: "byte list"
  pad2 :: "byte list"

record Directory =
  tableSize :: int
  table :: "DirectoryEntry list"

definition entry_bytes :: "DirectoryEntry \<Rightarrow> byte list" where
  "entry_bytes e = (if inUse e then 1 else 0) # pad1 e @ int_bytes (dsector e) @ dname e @ pad2 e"

definition entry_of :: "byte list \<Rightarrow> DirectoryEntry" where
  "entry_of bs = \<lparr>inUse = (bs ! 0 \<noteq> 0), pad1 = take 3 (drop 1 bs), dsector = int_at bs 4,
     dname = take 10 (drop 8 bs), pad2 = take 2 (drop 18 bs)\<rparr>"

definition sizeof_DirectoryEntry :: nat where "sizeof_DirectoryEntry = 20"

definition table_bytes :: "DirectoryEntry list \<Rightarrow> byte list" where
  "table_bytes es = concat (map entry_bytes es)"

fun table_of :: "nat \<Rightarrow> byte list \<Rightarrow> DirectoryEntry list" where
  "table_of 0 bs = []"
| "table_of (Suc n) bs = entry_of (take 20 bs) # table_of n (drop 20 bs)"

text \<open>\<open>junk\<close> is what the new table holds.\<close>

definition Directory_Directory :: "(nat \<Rightarrow> DirectoryEntry) \<Rightarrow> int \<Rightarrow> Directory" where
  "Directory_Directory junk sz = \<lparr>tableSize = sz,
     table = map (\<lambda>i. (junk i)\<lparr>inUse := False\<rparr>) [0..<nat sz]\<rparr>"

text \<open>The bytes a read leaves in a buffer of which it fills only a part.\<close>

definition overlay :: "byte list \<Rightarrow> byte list \<Rightarrow> byte list" where
  "overlay bs old = bs @ drop (length bs) old"

definition Directory_FetchFrom :: "FileHeader \<Rightarrow> dsk \<Rightarrow> Directory \<Rightarrow> Directory result" where
  "Directory_FetchFrom file d dir =
     bindR (ReadAt file (tableSize dir * int sizeof_DirectoryEntry) 0 d) (\<lambda>bs.
     Inr (dir\<lparr>table := table_of (length (table dir)) (overlay bs (table_bytes (table dir)))\<rparr>))"

definition Directory_WriteBack :: "(nat \<Rightarrow> byte) \<Rightarrow> FileHeader \<Rightarrow> Directory \<Rightarrow> dsk \<Rightarrow> dsk result" where
  "Directory_WriteBack junk file dir d =
     bindR (WriteAt junk file (table_bytes (table dir)) (tableSize dir * int sizeof_DirectoryEntry) 0 d)
       (\<lambda>(_, d'). Inr d')"

text \<open>The loop of \<^verbatim>\<open>FindIndex\<close> from entry \<open>i\<close>.\<close>

fun find_index_from :: "int \<Rightarrow> DirectoryEntry list \<Rightarrow> byte list \<Rightarrow> int" where
  "find_index_from i [] name = -1"
| "find_index_from i (e # es) name =
     (if inUse e \<and> strncmp_eq (dname e) name FileNameMaxLen then i else find_index_from (i + 1) es name)"

definition FindIndex :: "Directory \<Rightarrow> byte list \<Rightarrow> int" where
  "FindIndex dir name = find_index_from 0 (table dir) name"

definition Directory_Find :: "Directory \<Rightarrow> byte list \<Rightarrow> int" where
  "Directory_Find dir name =
     (let i = FindIndex dir name in if i \<noteq> -1 then dsector (table dir ! nat i) else -1)"

text \<open>The loop of \<^verbatim>\<open>Add\<close>: the first entry not in use is filled.\<close>

fun add_from :: "DirectoryEntry list \<Rightarrow> byte list \<Rightarrow> int \<Rightarrow> DirectoryEntry list option" where
  "add_from [] name newSector = None"
| "add_from (e # es) name newSector =
     (if \<not> inUse e then Some (e\<lparr>inUse := True, dname := strncpy (dname e) name FileNameMaxLen, dsector := newSector\<rparr> # es)
      else map_option ((#) e) (add_from es name newSector))"

definition Directory_Add :: "Directory \<Rightarrow> byte list \<Rightarrow> int \<Rightarrow> bool \<times> Directory" where
  "Directory_Add dir name newSector =
     (if FindIndex dir name \<noteq> -1 then (False, dir)
      else case add_from (table dir) name newSector of
        Some t \<Rightarrow> (True, dir\<lparr>table := t\<rparr>) | None \<Rightarrow> (False, dir))"

definition Directory_Remove :: "Directory \<Rightarrow> byte list \<Rightarrow> bool \<times> Directory" where
  "Directory_Remove dir name =
     (let i = FindIndex dir name in
      if i = -1 then (False, dir)
      else (True, dir\<lparr>table := (table dir)[nat i := (table dir ! nat i)\<lparr>inUse := False\<rparr>]\<rparr>))"

text \<open>The names \<^verbatim>\<open>List\<close> prints, one a line.\<close>

fun list_from :: "DirectoryEntry list \<Rightarrow> byte list list result" where
  "list_from [] = Inr []"
| "list_from (e # es) =
     (if inUse e then bindR (put_string (dname e)) (\<lambda>l. bindR (list_from es) (\<lambda>ls. Inr (l # ls)))
      else list_from es)"

definition Directory_List :: "Directory \<Rightarrow> byte list list result" where
  "Directory_List dir = list_from (table dir)"

section \<open>Printing\<close>

text \<open>
  What \<^verbatim>\<open>FileHeader::Print\<close> prints: the length, the sector numbers, and for each sector a line with
  those of its bytes that belong to the file, \<open>k\<close> bytes having been printed before.
\<close>

definition hex_digit :: "nat \<Rightarrow> char" where
  "hex_digit n = ''0123456789abcdef'' ! n"

definition print_byte :: "byte \<Rightarrow> string" where
  "print_byte b = (if 0x20 \<le> b \<and> b \<le> 0x7e then [char_of (unat b)]
     else CHR 0x5C # (if unat b < 16 then [] else [hex_digit (unat b div 16)]) @ [hex_digit (unat b mod 16)])"

fun print_sectors :: "FileHeader \<Rightarrow> dsk \<Rightarrow> int \<Rightarrow> nat \<Rightarrow> int \<Rightarrow> string list result" where
  "print_sectors h d i 0 k = Inr []"
| "print_sectors h d i (Suc n) k = bindR (rd (dataSectors h) i) (\<lambda>s. bindR (read_sector s d) (\<lambda>data.
     let bs = take (nat (min SectorSize (numBytes h - k))) data in
     bindR (print_sectors h d (i + 1) n (k + int (length bs))) (\<lambda>ls. Inr (concat (map print_byte bs) # ls))))"

definition FileHeader_Print :: "FileHeader \<Rightarrow> dsk \<Rightarrow> (int \<times> int list \<times> string list) result" where
  "FileHeader_Print h d =
     bindR (if numSectors h \<le> int (length (dataSectors h)) then Inr () else Inl OutOfBounds) (\<lambda>_.
     bindR (print_sectors h d 0 (nat (numSectors h)) 0) (\<lambda>ls.
     Inr (numBytes h, take (nat (numSectors h)) (dataSectors h), ls)))"

fun dir_print_from :: "DirectoryEntry list \<Rightarrow> dsk \<Rightarrow> (byte list \<times> int \<times> int \<times> int list \<times> string list) list result" where
  "dir_print_from [] d = Inr []"
| "dir_print_from (e # es) d =
     (if inUse e then bindR (put_string (dname e)) (\<lambda>nm. bindR (FileHeader_FetchFrom (dsector e) d) (\<lambda>h.
        bindR (FileHeader_Print h d) (\<lambda>p. bindR (dir_print_from es d) (\<lambda>ps. Inr ((nm, dsector e, p) # ps)))))
      else dir_print_from es d)"

definition Directory_Print :: "Directory \<Rightarrow> dsk \<Rightarrow> (byte list \<times> int \<times> int \<times> int list \<times> string list) list result" where
  "Directory_Print dir d = dir_print_from (table dir) d"

section \<open>Bitmaps in files\<close>

definition word_bytes :: "u32 \<Rightarrow> byte list" where
  "word_bytes w = value_bytes 4 (unat w)"

definition map_bytes :: "u32 list \<Rightarrow> byte list" where
  "map_bytes ws = concat (map word_bytes ws)"

fun words_of :: "nat \<Rightarrow> byte list \<Rightarrow> u32 list" where
  "words_of 0 bs = []"
| "words_of (Suc n) bs = of_nat (bytes_value (take 4 bs)) # words_of n (drop 4 bs)"

definition BitMap_FetchFrom :: "FileHeader \<Rightarrow> dsk \<Rightarrow> BitMap \<Rightarrow> BitMap result" where
  "BitMap_FetchFrom file d bm = bindR (ReadAt file (numWords bm * 4) 0 d) (\<lambda>bs.
     Inr (bm\<lparr>bmap := words_of (length (bmap bm)) (overlay bs (map_bytes (bmap bm)))\<rparr>))"

definition BitMap_WriteBack :: "(nat \<Rightarrow> byte) \<Rightarrow> FileHeader \<Rightarrow> BitMap \<Rightarrow> dsk \<Rightarrow> dsk result" where
  "BitMap_WriteBack junk file bm d =
     bindR (WriteAt junk file (map_bytes (bmap bm)) (numWords bm * 4) 0 d) (\<lambda>(_, d'). Inr d')"

section \<open>Tables and bitmaps as bytes\<close>

definition wf_entry :: "DirectoryEntry \<Rightarrow> bool" where
  "wf_entry e \<longleftrightarrow> length (pad1 e) = 3 \<and> in_int (dsector e) \<and> length (dname e) = 10 \<and> length (pad2 e) = 2"

lemma length_entry_bytes: "wf_entry e \<Longrightarrow> length (entry_bytes e) = 20"
  by (simp add: wf_entry_def entry_bytes_def)

lemma entry_of_bytes: "wf_entry e \<Longrightarrow> entry_of (entry_bytes e) = e"
proof -
  assume w: "wf_entry e"
  then have "int_at (entry_bytes e) 4 = dsector e"
    by (intro int_at_bytes) (simp_all add: wf_entry_def entry_bytes_def numeral_eq_Suc)
  then show ?thesis using w by (simp add: entry_of_def wf_entry_def) (simp add: entry_bytes_def numeral_eq_Suc)
qed

lemma wf_entry_of: "length bs = 20 \<Longrightarrow> wf_entry (entry_of bs)"
  using sint_u32_bounds by (simp add: wf_entry_def entry_of_def in_int_def int_at_def)

lemma table_of_bytes: "\<forall>e \<in> set es. wf_entry e \<Longrightarrow> table_of (length es) (table_bytes es) = es"
  by (induction es) (simp_all add: table_bytes_def length_entry_bytes entry_of_bytes)

lemma length_table_bytes: "\<forall>e \<in> set es. wf_entry e \<Longrightarrow> length (table_bytes es) = 20 * length es"
  by (induction es) (simp_all add: table_bytes_def length_entry_bytes)

lemma length_table_of [simp]: "length (table_of n bs) = n"
  by (induction n arbitrary: bs) simp_all

lemma wf_table_of: "20 * n \<le> length bs \<Longrightarrow> \<forall>e \<in> set (table_of n bs). wf_entry e"
proof (induction n arbitrary: bs)
  case (Suc n)
  have "20 * n \<le> length (drop 20 bs)" using Suc.prems by simp
  then have "\<forall>e \<in> set (table_of n (drop 20 bs)). wf_entry e" by (rule Suc.IH)
  moreover have "wf_entry (entry_of (take 20 bs))" using Suc.prems by (intro wf_entry_of) simp
  ultimately show ?case by simp
qed simp

lemma length_word_bytes [simp]: "length (word_bytes w) = 4"
  by (simp add: word_bytes_def)

lemma words_of_bytes: "words_of (length ws) (map_bytes ws) = ws"
proof (induction ws)
  case (Cons w ws)
  have "unat w mod 256 ^ 4 = unat w" using unat_u32_lt [of w] by simp
  then have "(of_nat (bytes_value (word_bytes w)) :: u32) = w"
    unfolding word_bytes_def bytes_value_bytes by simp
  then show ?case using Cons by (simp add: map_bytes_def)
qed (simp add: map_bytes_def)

lemma length_map_bytes [simp]: "length (map_bytes ws) = 4 * length ws"
  by (induction ws) (simp_all add: map_bytes_def)

lemma length_words_of [simp]: "length (words_of n bs) = n"
  by (induction n arbitrary: bs) simp_all

lemma overlay_all: "length old \<le> length bs \<Longrightarrow> overlay bs old = bs"
  by (simp add: overlay_def)

section \<open>A directory as a finite map\<close>

text \<open>The part of a name that counts: its first nine bytes, up to a zero.\<close>

definition dkey :: "byte list \<Rightarrow> byte list" where
  "dkey name = cstr (take FileNameMaxLen name)"

definition entry_key :: "DirectoryEntry \<Rightarrow> byte list" where
  "entry_key e = dkey (dname e)"

fun entries_map :: "DirectoryEntry list \<Rightarrow> byte list \<rightharpoonup> int" where
  "entries_map [] = Map.empty"
| "entries_map (e # es) = (if inUse e then (entries_map es)(entry_key e \<mapsto> dsector e) else entries_map es)"

definition dir_map :: "Directory \<Rightarrow> byte list \<rightharpoonup> int" where
  "dir_map dir = entries_map (table dir)"

definition used_keys :: "DirectoryEntry list \<Rightarrow> byte list list" where
  "used_keys es = map entry_key (filter inUse es)"

definition valid_sector :: "int \<Rightarrow> bool" where
  "valid_sector s \<longleftrightarrow> 0 \<le> s \<and> s < NumSectors"

lemma valid_sector_eq: "valid_sector s = (0 \<le> s \<and> s < 1024)"
  by (simp add: valid_sector_def NumSectors_def SectorsPerTrack_def NumTracks_def)

definition wf_dir :: "Directory \<Rightarrow> bool" where
  "wf_dir dir \<longleftrightarrow> tableSize dir = int (length (table dir)) \<and> (\<forall>e \<in> set (table dir). wf_entry e) \<and>
     (\<forall>e \<in> set (table dir). inUse e \<longrightarrow> valid_sector (dsector e)) \<and> distinct (used_keys (table dir))"

definition dir_room :: "Directory \<Rightarrow> bool" where
  "dir_room dir \<longleftrightarrow> (\<exists>e \<in> set (table dir). \<not> inUse e)"

lemma strncmp_key: "strncmp_eq (dname e) name FileNameMaxLen = (entry_key e = dkey name)"
  by (simp add: strncmp_eq_def entry_key_def dkey_def)

lemma cstr_cstr: "cstr (take n (cstr a @ replicate n 0)) = cstr (take n a)"
proof (induction a arbitrary: n)
  case Nil
  then show ?case by (induction n) (simp_all add: cstr_def)
next
  case (Cons x a)
  show ?case
  proof (cases n)
    case (Suc m)
    have "take m (cstr a @ replicate (Suc m) 0) = take m (cstr a @ replicate m 0)"
      by (simp add: take_replicate del: replicate_Suc)
    then show ?thesis using Cons [of m] Suc by (cases "x = 0") (simp_all add: cstr_def del: take_append replicate_Suc)
  qed (simp add: cstr_def)
qed

lemma length_strncpy: "n \<le> length dst \<Longrightarrow> length (strncpy dst src n) = length dst"
  by (simp add: strncpy_def)

lemma entry_key_strncpy:
  assumes "length (dname e) = 10"
  shows "entry_key (e\<lparr>inUse := u, dname := strncpy (dname e) name FileNameMaxLen, dsector := s\<rparr>) = dkey name"
proof -
  have "take FileNameMaxLen (strncpy (dname e) name FileNameMaxLen) = take FileNameMaxLen (cstr name @ replicate FileNameMaxLen 0)"
    by (simp add: strncpy_def)
  then show ?thesis by (simp add: entry_key_def dkey_def cstr_cstr del: take_append)
qed

lemma used_keys_simps [simp]:
  "used_keys [] = []" "used_keys (e # es) = (if inUse e then entry_key e # used_keys es else used_keys es)"
  by (simp_all add: used_keys_def)

lemma entries_map_None: "(entries_map es k = None) = (k \<notin> set (used_keys es))"
  by (induction es) auto

lemma dom_entries_map: "dom (entries_map es) = set (used_keys es)"
  using entries_map_None by (auto simp: dom_def)

lemma find_index_from_eq:
  "\<exists>j. (if dkey name \<in> set (used_keys es) then find_index_from i es name = i + int j \<and> j < length es \<and> inUse (es ! j) \<and>
       entry_key (es ! j) = dkey name \<and> entries_map es (dkey name) = Some (dsector (es ! j))
     else find_index_from i es name = -1)"
proof (induction es arbitrary: i)
  case (Cons e es)
  show ?case
  proof (cases "inUse e \<and> entry_key e = dkey name")
    case True
    then show ?thesis by (intro exI [of _ 0]) (simp add: strncmp_key)
  next
    case False
    obtain j where j: "if dkey name \<in> set (used_keys es) then find_index_from (i + 1) es name = i + 1 + int j \<and> j < length es \<and> inUse (es ! j) \<and>
       entry_key (es ! j) = dkey name \<and> entries_map es (dkey name) = Some (dsector (es ! j))
     else find_index_from (i + 1) es name = -1" using Cons by blast
    show ?thesis by (intro exI [of _ "Suc j"]) (use False j in \<open>auto simp: strncmp_key\<close>)
  qed
qed simp

lemma FindIndex_cases:
  "dkey name \<notin> dom (dir_map dir) \<Longrightarrow> FindIndex dir name = -1"
  "dkey name \<in> dom (dir_map dir) \<Longrightarrow> \<exists>j. FindIndex dir name = int j \<and> j < length (table dir) \<and> inUse (table dir ! j) \<and>
     entry_key (table dir ! j) = dkey name \<and> dir_map dir (dkey name) = Some (dsector (table dir ! j))"
  using find_index_from_eq [of name "table dir" 0] unfolding dir_map_def dom_entries_map FindIndex_def by auto

lemma add_from_ok:
  "\<forall>e \<in> set es. wf_entry e \<Longrightarrow> \<exists>e \<in> set es. \<not> inUse e \<Longrightarrow> in_int s \<Longrightarrow> dkey name \<notin> set (used_keys es) \<Longrightarrow> distinct (used_keys es) \<Longrightarrow>
   \<exists>es'. add_from es name s = Some es' \<and> length es' = length es \<and> (\<forall>e \<in> set es'. wf_entry e) \<and>
     (\<forall>k. entries_map es' k = (if k = dkey name then Some s else entries_map es k)) \<and> distinct (used_keys es') \<and> set (used_keys es') = insert (dkey name) (set (used_keys es)) \<and>
     (\<forall>e \<in> set es'. inUse e \<longrightarrow> dsector e = s \<or> e \<in> set es)"
proof (induction es)
  case (Cons e es)
  show ?case
  proof (cases "inUse e")
    case True
    then obtain es' where es': "add_from es name s = Some es'" "length es' = length es" "\<forall>e \<in> set es'. wf_entry e"
      "\<forall>k. entries_map es' k = (if k = dkey name then Some s else entries_map es k)" "distinct (used_keys es')" "set (used_keys es') = insert (dkey name) (set (used_keys es))"
      "\<forall>e \<in> set es'. inUse e \<longrightarrow> dsector e = s \<or> e \<in> set es"
      using Cons by auto
    then show ?thesis using True Cons.prems by auto
  next
    case False
    let ?e = "e\<lparr>inUse := True, dname := strncpy (dname e) name FileNameMaxLen, dsector := s\<rparr>"
    have k: "entry_key ?e = dkey name" using Cons.prems(1) by (intro entry_key_strncpy) (simp add: wf_entry_def)
    have "wf_entry ?e" using Cons.prems(1,3) by (simp add: wf_entry_def length_strncpy FileNameMaxLen_def)
    then show ?thesis using False Cons.prems k by auto
  qed
qed simp

lemma add_from_full: "\<not> (\<exists>e \<in> set es. \<not> inUse e) \<Longrightarrow> add_from es name s = None"
  by (induction es) auto

lemma remove_entry:
  assumes "j < length es" and "inUse (es ! j)" and "distinct (used_keys es)"
  shows "entries_map (es[j := (es ! j)\<lparr>inUse := False\<rparr>]) k = (if k = entry_key (es ! j) then None else entries_map es k)"
    "distinct (used_keys (es[j := (es ! j)\<lparr>inUse := False\<rparr>]))"
    "set (used_keys (es[j := (es ! j)\<lparr>inUse := False\<rparr>])) = set (used_keys es) - {entry_key (es ! j)}"
  using assms
proof (induction es arbitrary: j)
  case (Cons e es)
  { case 1
    show ?case
    proof (cases j)
      case 0
      have "entry_key e \<notin> dom (entries_map es)" using 1 0 by (simp add: dom_entries_map)
      then have "entries_map es (entry_key e) = None" by blast
      then show ?thesis using 1 0 by simp
    next
      case (Suc i)
      then have "entry_key (es ! i) \<in> set (used_keys es)" using 1 by (auto simp: used_keys_def)
      then show ?thesis using Cons.IH(1) [of i] 1 Suc by (auto split: if_splits)
    qed
  next
    case 2
    then show ?case using Cons.IH(2,3) by (cases j) (auto split: if_splits)
  next
    case 3
    then show ?case using Cons.IH(3) by (cases j) (auto split: if_splits simp: used_keys_def)
  }
qed simp_all

interpretation dirs: name_table Directory_Find Directory_Add Directory_Remove wf_dir valid_sector dir_room dkey dir_map
proof unfold_locales
  fix t :: Directory and n :: "byte list"
  show "Directory_Find t n = (case dir_map t (dkey n) of Some s \<Rightarrow> s | None \<Rightarrow> -1)"
    using FindIndex_cases [of n t] by (auto simp: Directory_Find_def Let_def domIff split: option.splits)
  show "0 \<le> s" if "valid_sector s" for s using that by (simp add: valid_sector_def)
  show "finite (dom (dir_map t))" by (simp add: dir_map_def dom_entries_map)
  show "Directory_Remove t n = (False, t)" if "dir_map t (dkey n) = None"
    using that FindIndex_cases(1) [of n t] by (simp add: Directory_Remove_def domIff)
  assume w: "wf_dir t"
  show "valid_sector s" if "dir_map t k = Some s" for k s
  proof -
    have "\<exists>e \<in> set es. inUse e \<and> dsector e = s" if "entries_map es k = Some s" for es
      using that by (induction es) (auto split: if_splits)
    then show ?thesis using that w by (auto simp: dir_map_def wf_dir_def)
  qed
  show "Directory_Add t n s = (False, t)" if "dir_map t (dkey n) \<noteq> None \<or> \<not> dir_room t" for s
  proof (cases "dir_map t (dkey n) = None")
    case True
    then show ?thesis using that FindIndex_cases(1) [of n t] add_from_full [of "table t" n s]
      by (simp add: Directory_Add_def domIff dir_room_def)
  next
    case False
    then have "\<exists>j. FindIndex t n = int j" using FindIndex_cases(2) [of n t] by blast
    then show ?thesis by (auto simp: Directory_Add_def)
  qed
  show "\<exists>t'. Directory_Remove t n = (True, t') \<and> wf_dir t' \<and> dir_room t' \<and> dir_map t' = (dir_map t)(dkey n := None)"
    if "dir_map t (dkey n) \<noteq> None"
  proof -
    have "dkey n \<in> dom (dir_map t)" using that by blast
    then obtain j where j: "FindIndex t n = int j" "j < length (table t)" "inUse (table t ! j)" "entry_key (table t ! j) = dkey n"
      using FindIndex_cases(2) [of n t] by blast
    let ?e = "(table t ! j)\<lparr>inUse := False\<rparr>"
    let ?t = "t\<lparr>table := (table t)[j := ?e]\<rparr>"
    have "distinct (used_keys (table t))" using w by (simp add: wf_dir_def)
    note rm = remove_entry [OF j(2,3) this]
    have "wf_entry ?e" using w j(2) by (simp add: wf_dir_def wf_entry_def)
    then have "wf_dir ?t" using w rm(2)
      by (auto simp: wf_dir_def dest!: subsetD [OF set_update_subset_insert])
    moreover have "dir_room ?t" unfolding dir_room_def by (rule bexI [of _ ?e]) (simp_all add: set_update_memI j(2))
    moreover have "dir_map ?t = (dir_map t)(dkey n := None)" by (rule ext) (simp add: dir_map_def rm(1) j(4))
    ultimately show ?thesis using j(1) by (simp add: Directory_Remove_def)
  qed
  show "\<exists>t'. Directory_Add t n s = (True, t') \<and> wf_dir t' \<and> dir_map t' = (dir_map t)(dkey n \<mapsto> s)"
    if "dir_map t (dkey n) = None" "dir_room t" "valid_sector s" for s
  proof -
    note new = that
    have "dkey n \<notin> set (used_keys (table t))" using that(1) by (simp add: dir_map_def entries_map_None)
    moreover have "in_int s" using that(3) by (simp add: valid_sector_eq in_int_def)
    ultimately obtain es where es: "add_from (table t) n s = Some es" "length es = length (table t)" "\<forall>e \<in> set es. wf_entry e"
      "\<forall>k. entries_map es k = (if k = dkey n then Some s else entries_map (table t) k)" "distinct (used_keys es)"
      "\<forall>e \<in> set es. inUse e \<longrightarrow> dsector e = s \<or> e \<in> set (table t)"
      using add_from_ok [of "table t" s n] new(2) w by (auto simp: wf_dir_def dir_room_def)
    have "wf_dir (t\<lparr>table := es\<rparr>)" using w es that(3) by (auto simp: wf_dir_def)
    moreover have "dir_map (t\<lparr>table := es\<rparr>) = (dir_map t)(dkey n \<mapsto> s)" by (rule ext) (simp add: dir_map_def es(4))
    moreover have "Directory_Add t n s = (True, t\<lparr>table := es\<rparr>)"
      using FindIndex_cases(1) [of n t] that(1) es(1) by (simp add: Directory_Add_def domIff)
    ultimately show ?thesis by blast
  qed
qed

section \<open>Tables and bitmaps in files\<close>

lemma ReadAt_whole:
  assumes "wf_hdr h" "wf_dsk d" "numBytes h = int n"
  shows "ReadAt h (int n) 0 d = Inr (content h d)" "length (content h d) = n"
proof -
  show l: "length (content h d) = n" using length_content [OF assms(1,2)] assms(3) by simp
  show "ReadAt h (int n) 0 d = Inr (content h d)" using ReadAt_content [OF assms(1,2), of n 0] l by simp
qed

lemma WriteAt_whole:
  assumes "wf_hdr h" "wf_dsk d" "numBytes h = int (length bs)" "bs \<noteq> []"
  shows "\<exists>d' k. WriteAt junk h bs (int (length bs)) 0 d = Inr (k, d') \<and> wf_dsk d' \<and> content h d' = bs \<and>
    (\<forall>s. s \<notin> set (secs h) \<longrightarrow> d' ! s = d ! s)"
proof -
  have "length bs \<le> length bs" "length bs \<noteq> 0" "0 < nat (numBytes h)" using assms(3,4) by simp_all
  from WriteAt_content [OF assms(1,2) this, of junk] length_content [OF assms(1,2)] assms(3)
  show ?thesis by (auto simp: overwrite_def)
qed

lemma Directory_FetchFrom_ok:
  assumes "wf_hdr h" "wf_dsk d" "numBytes h = int (20 * length (table dir))" "tableSize dir = int (length (table dir))"
    "\<forall>e \<in> set (table dir). wf_entry e"
  shows "Directory_FetchFrom h d dir = Inr (dir\<lparr>table := table_of (length (table dir)) (content h d)\<rparr>)"
  using ReadAt_whole [OF assms(1-3)] assms(4) length_table_bytes [OF assms(5)]
  by (simp add: Directory_FetchFrom_def sizeof_DirectoryEntry_def overlay_all mult.commute)

lemma Directory_WriteBack_ok:
  assumes "wf_hdr h" "wf_dsk d" "numBytes h = int (20 * length (table dir))" "wf_dir dir" "table dir \<noteq> []"
  shows "\<exists>d'. Directory_WriteBack junk h dir d = Inr d' \<and> wf_dsk d' \<and> content h d' = table_bytes (table dir) \<and>
    (\<forall>s. s \<notin> set (secs h) \<longrightarrow> d' ! s = d ! s)"
proof -
  have l: "length (table_bytes (table dir)) = 20 * length (table dir)" using assms(4) by (simp add: wf_dir_def length_table_bytes)
  then have "table_bytes (table dir) \<noteq> []" using assms(5) by auto
  from WriteAt_whole [OF assms(1,2) _ this, of junk] l assms(3,4)
  show ?thesis by (auto simp: Directory_WriteBack_def sizeof_DirectoryEntry_def wf_dir_def mult.commute)
qed

lemma BitMap_FetchFrom_ok:
  assumes "wf_hdr h" "wf_dsk d" "numBytes h = int (4 * length (bmap bm))" "numWords bm = int (length (bmap bm))"
  shows "BitMap_FetchFrom h d bm = Inr (bm\<lparr>bmap := words_of (length (bmap bm)) (content h d)\<rparr>)"
  using ReadAt_whole [OF assms(1-3)] assms(4) by (simp add: BitMap_FetchFrom_def overlay_all mult.commute)

lemma BitMap_WriteBack_ok:
  assumes "wf_hdr h" "wf_dsk d" "numBytes h = int (4 * length (bmap bm))" "numWords bm = int (length (bmap bm))" "bmap bm \<noteq> []"
  shows "\<exists>d'. BitMap_WriteBack junk h bm d = Inr d' \<and> wf_dsk d' \<and> content h d' = map_bytes (bmap bm) \<and>
    (\<forall>s. s \<notin> set (secs h) \<longrightarrow> d' ! s = d ! s)"
proof -
  have "length (map_bytes (bmap bm)) \<noteq> 0" using assms(5) by simp
  then have "map_bytes (bmap bm) \<noteq> []" by force
  from WriteAt_whole [OF assms(1,2) _ this, of junk] assms(3,4)
  show ?thesis by (auto simp: BitMap_WriteBack_def mult.commute)
qed

section \<open>What is printed\<close>

lemma print_sectors_ok:
  assumes h: "wf_hdr h" and d: "wf_dsk d"
  shows "i + n = length (secs h) \<Longrightarrow> k = min (512 * i) (nat (numBytes h)) \<Longrightarrow>
    \<exists>ls. print_sectors h d (int i) n (int k) = Inr ls \<and> length ls = n \<and>
      concat ls = concat (map print_byte (drop k (content h d)))"
proof (induction n arbitrary: i k)
  case 0
  then have "nat (numBytes h) \<le> k" using wf_hdr_secs(2) [OF h] by simp
  then show ?case using length_content [OF h d] by simp
next
  case (Suc n)
  have i: "i < length (secs h)" using Suc.prems by simp
  have N: "numBytes h = int (nat (numBytes h))" using h by (simp add: wf_hdr_def)
  have "512 * length (secs h) < nat (numBytes h) + 512" by (rule wf_hdr_secs(3) [OF h])
  then have ki: "k = 512 * i" using Suc.prems i by simp
  let ?s = "secs h ! i"
  have s: "dataSectors h ! i = int ?s" "?s < 1024" using wf_hdr_secs(5) [OF h i] by simp_all
  have "length (dataSectors h) = 126" using h by (simp add: wf_hdr_def)
  then have r: "rd (dataSectors h) (int i) = Inr (int ?s)" using s(1) i wf_hdr_secs(4) [OF h] by simp
  let ?bs = "take (nat (min SectorSize (numBytes h - int k))) (d ! ?s)"
  have sec: "d ! ?s = take 512 (drop (512 * i) (raw h d))"
    using read_sectors_ok [OF h d, of i 1] i read_sector_ok [OF d s(2)] ByteToSector_ok [OF h i] by simp
  have "nat (min SectorSize (numBytes h - int k)) = min 512 (nat (numBytes h) - k)"
    unfolding SectorSize_def by arith
  then have chunk: "?bs = take 512 (drop k (content h d))"
    unfolding sec by (simp add: content_def ki drop_take min.commute)
  then have lk: "k + length ?bs = min (512 * Suc i) (nat (numBytes h))"
    using length_content [OF h d] Suc.prems(2) ki by simp
  obtain ls where ls: "print_sectors h d (int (Suc i)) n (int (k + length ?bs)) = Inr ls" "length ls = n"
    "concat ls = concat (map print_byte (drop (k + length ?bs) (content h d)))"
    using Suc.IH [of "Suc i", OF _ lk] Suc.prems(1) by auto
  have "drop k (content h d) = ?bs @ drop (k + length ?bs) (content h d)"
  proof -
    have sp: "xs = take 512 xs @ drop (length (take 512 xs)) xs" for xs :: "byte list"
      by (cases "length xs \<le> 512") (simp_all add: min_def)
    show ?thesis unfolding chunk using sp [of "drop k (content h d)"] by (simp add: add.commute)
  qed
  then show ?case using ls r read_sector_ok [OF d s(2)]
    by (simp add: Let_def add.commute del: take_drop)
qed

section \<open>Properties\<close>

text \<open>
  C15: a directory is a finite map from names to sectors. \<^verbatim>\<open>Add\<close> succeeds exactly when the name is new and an
  entry is free, and then \<^verbatim>\<open>Find\<close> returns the sector for that name and the old answer for every other;
  \<^verbatim>\<open>Remove\<close> succeeds exactly when the name is there, and then \<^verbatim>\<open>Find\<close> no longer knows it. A call that fails
  changes nothing. Names that agree in their first nine bytes are the same name.
\<close>

theorem directory_is_map:
  assumes "wf_dir dir" and "valid_sector s"
  shows "(\<exists>ok dir'. Directory_Add dir name s = (ok, dir') \<and> ok = (Directory_Find dir name = -1 \<and> dir_room dir) \<and>
      wf_dir dir' \<and> (\<not> ok \<longrightarrow> dir' = dir) \<and>
      (ok \<longrightarrow> (\<forall>m. Directory_Find dir' m = (if dkey m = dkey name then s else Directory_Find dir m)))) \<and>
    (\<exists>ok dir'. Directory_Remove dir name = (ok, dir') \<and> ok = (Directory_Find dir name \<noteq> -1) \<and>
      wf_dir dir' \<and> (\<not> ok \<longrightarrow> dir' = dir) \<and>
      (ok \<longrightarrow> (\<forall>m. Directory_Find dir' m = (if dkey m = dkey name then -1 else Directory_Find dir m))))"
proof (rule conjI)
  show "\<exists>ok dir'. Directory_Add dir name s = (ok, dir') \<and> ok = (Directory_Find dir name = -1 \<and> dir_room dir) \<and>
      wf_dir dir' \<and> (\<not> ok \<longrightarrow> dir' = dir) \<and>
      (ok \<longrightarrow> (\<forall>m. Directory_Find dir' m = (if dkey m = dkey name then s else Directory_Find dir m)))"
  proof (cases "Directory_Find dir name = -1 \<and> dir_room dir")
    case True
    then have "dir_map dir (dkey name) = None" using dirs.fnd_absent [OF assms(1)] by simp
    from dirs.fnd_after_add [OF assms(1) this _ assms(2)] True show ?thesis by auto
  next
    case False
    then have "Directory_Add dir name s = (False, dir)"
      using dirs.add_fails [OF assms(1)] dirs.fnd_absent [OF assms(1)] by auto
    with False assms(1) show ?thesis by auto
  qed
  show "\<exists>ok dir'. Directory_Remove dir name = (ok, dir') \<and> ok = (Directory_Find dir name \<noteq> -1) \<and>
      wf_dir dir' \<and> (\<not> ok \<longrightarrow> dir' = dir) \<and>
      (ok \<longrightarrow> (\<forall>m. Directory_Find dir' m = (if dkey m = dkey name then -1 else Directory_Find dir m)))"
  proof (cases "Directory_Find dir name = -1")
    case True
    then have "Directory_Remove dir name = (False, dir)"
      using dirs.rem_fails [OF assms(1)] dirs.fnd_absent [OF assms(1)] by auto
    with True assms(1) show ?thesis by auto
  next
    case False
    then have "dir_map dir (dkey name) \<noteq> None" using dirs.fnd_absent [OF assms(1)] by simp
    from dirs.fnd_after_rem [OF assms(1) this] False show ?thesis by auto
  qed
qed

text \<open>
  A directory and a bitmap written to their files are read back unchanged, whatever the new table
  and the new bitmap held before the read, and no sector outside the file changes.
\<close>

lemma directory_bitmap_roundtrip:
  assumes "wf_hdr h" and "wf_dsk d"
  shows "(wf_dir dir \<and> table dir \<noteq> [] \<and> numBytes h = int (20 * length (table dir)) \<and>
      wf_dir old \<and> length (table old) = length (table dir) \<longrightarrow>
      (\<exists>d'. Directory_WriteBack junk h dir d = Inr d' \<and> Directory_FetchFrom h d' old = Inr dir \<and>
        (\<forall>s. s \<notin> set (secs h) \<longrightarrow> d' ! s = d ! s))) \<and>
    (numWords bm = int (length (bmap bm)) \<and> bmap bm \<noteq> [] \<and> numBytes h = int (4 * length (bmap bm)) \<and>
      numWords bold = numWords bm \<and> numBits bold = numBits bm \<and> length (bmap bold) = length (bmap bm) \<longrightarrow>
      (\<exists>d'. BitMap_WriteBack junk h bm d = Inr d' \<and> BitMap_FetchFrom h d' bold = Inr bm \<and>
        (\<forall>s. s \<notin> set (secs h) \<longrightarrow> d' ! s = d ! s)))"
proof (intro conjI impI; elim conjE)
  assume w: "wf_dir dir" "table dir \<noteq> []" "numBytes h = int (20 * length (table dir))"
    and o: "wf_dir old" "length (table old) = length (table dir)"
  obtain d' where d': "Directory_WriteBack junk h dir d = Inr d'" "wf_dsk d'" "content h d' = table_bytes (table dir)"
    "\<forall>s. s \<notin> set (secs h) \<longrightarrow> d' ! s = d ! s"
    using Directory_WriteBack_ok [OF assms w(3,1,2)] by blast
  have "Directory_FetchFrom h d' old = Inr (old\<lparr>table := table dir\<rparr>)"
    using Directory_FetchFrom_ok [OF assms(1) d'(2), of old] w o d'(3) table_of_bytes [of "table dir"] by (simp add: wf_dir_def)
  also have "old\<lparr>table := table dir\<rparr> = dir" using w(1) o by (simp add: wf_dir_def)
  finally show "\<exists>d'. Directory_WriteBack junk h dir d = Inr d' \<and> Directory_FetchFrom h d' old = Inr dir \<and>
        (\<forall>s. s \<notin> set (secs h) \<longrightarrow> d' ! s = d ! s)" using d' by blast
next
  assume w: "numWords bm = int (length (bmap bm))" "bmap bm \<noteq> []" "numBytes h = int (4 * length (bmap bm))"
    and o: "numWords bold = numWords bm" "numBits bold = numBits bm" "length (bmap bold) = length (bmap bm)"
  obtain d' where d': "BitMap_WriteBack junk h bm d = Inr d'" "wf_dsk d'" "content h d' = map_bytes (bmap bm)"
    "\<forall>s. s \<notin> set (secs h) \<longrightarrow> d' ! s = d ! s"
    using BitMap_WriteBack_ok [OF assms w(3,1,2)] by blast
  have "BitMap_FetchFrom h d' bold = Inr (bold\<lparr>bmap := bmap bm\<rparr>)"
    using BitMap_FetchFrom_ok [OF assms(1) d'(2), of bold] w o d'(3) words_of_bytes [of "bmap bm"] by simp
  also have "bold\<lparr>bmap := bmap bm\<rparr> = bm" using o by simp
  finally show "\<exists>d'. BitMap_WriteBack junk h bm d = Inr d' \<and> BitMap_FetchFrom h d' bold = Inr bm \<and>
        (\<forall>s. s \<notin> set (secs h) \<longrightarrow> d' ! s = d ! s)" using d' by blast
qed

text \<open>
  \<^verbatim>\<open>FileHeader::Print\<close> shows the length and the sectors of a file and then its bytes, one line a sector: the
  lines joined are the printed form of the byte sequence of the file, no byte missing and none from
  beyond its end.
\<close>

lemma header_print_content:
  assumes "wf_hdr h" and "wf_dsk d"
  shows "\<exists>ls. FileHeader_Print h d = Inr (numBytes h, map int (secs h), ls) \<and> length ls = nat (numSectors h) \<and>
    concat ls = concat (map print_byte (content h d))"
proof -
  obtain ls where "print_sectors h d 0 (length (secs h)) 0 = Inr ls" "length ls = length (secs h)"
    "concat ls = concat (map print_byte (content h d))"
    using print_sectors_ok [OF assms, of 0 "length (secs h)" 0] by auto
  moreover have "take (nat (numSectors h)) (dataSectors h) = map int (secs h)"
    using wf_hdr_secs(1,4,5) [OF assms(1)] assms(1) by (intro nth_equalityI) (auto simp: wf_hdr_def)
  moreover have "numSectors h \<le> int (length (dataSectors h))" using assms(1) by (simp add: wf_hdr_def)
  ultimately show ?thesis using wf_hdr_secs(1) [OF assms(1)] by (simp add: FileHeader_Print_def)
qed

text \<open>
  A name of nine or more bytes is stored without a terminating zero: when the tenth byte of the entry
  happens not to be zero, adding the name succeeds and listing the directory then reads beyond the name.
\<close>

lemma long_name_unterminated:
  assumes "wf_dir dir" and "\<not> inUse (hd (table dir))" and "table dir \<noteq> []" and "dname (hd (table dir)) ! 9 \<noteq> 0"
    and "9 \<le> length name" and "0 \<notin> set name" and "Directory_Find dir name = -1"
  shows "\<exists>dir'. Directory_Add dir name s = (True, dir') \<and> Directory_List dir' = Inl OutOfBounds"
proof -
  obtain e es where t: "table dir = e # es" using assms(3) by (cases "table dir") auto
  have e: "length (dname e) = 10" "\<not> inUse e" "dname e ! 9 \<noteq> 0" using assms(1,2,4) t by (auto simp: wf_dir_def wf_entry_def)
  have "FindIndex dir name = -1"
  proof (rule FindIndex_cases(1))
    show "dkey name \<notin> dom (dir_map dir)" using dirs.fnd_absent [OF assms(1)] assms(7) by (simp add: domIff)
  qed
  moreover have "0 \<notin> set (strncpy (dname e) name FileNameMaxLen)"
  proof -
    have "cstr name = name" using assms(6) by (simp add: cstr_def takeWhile_eq_all_conv) metis
    moreover have "drop 9 (dname e) = [dname e ! 9]" using e(1) Cons_nth_drop_Suc [of 9 "dname e"] by simp
    ultimately show ?thesis using assms(5,6) e(3) by (auto simp: strncpy_def FileNameMaxLen_def dest: in_set_takeD)
  qed
  ultimately show ?thesis using t e(2) by (simp add: Directory_Add_def Directory_List_def put_string_def)
qed

section \<open>A directory of ten entries\<close>

definition demo_dir :: Directory where
  "demo_dir = Directory_Directory (\<lambda>_. \<lparr>inUse = True, pad1 = [1, 2, 3], dsector = 0, dname = replicate 10 7, pad2 = [4, 5]\<rparr>) 10"

lemma demo_dir_table: "table demo_dir =
    replicate 10 \<lparr>inUse = False, pad1 = [1, 2, 3], dsector = 0, dname = replicate 10 7, pad2 = [4, 5]\<rparr>" "tableSize demo_dir = 10"
  by (simp_all add: demo_dir_def Directory_Directory_def map_replicate_trivial numeral_eq_Suc)

lemma wf_demo_dir: "wf_dir demo_dir" "dir_room demo_dir" "dir_map demo_dir = Map.empty" "Directory_Find demo_dir name = -1"
proof -
  show w: "wf_dir demo_dir" by (simp add: wf_dir_def demo_dir_table wf_entry_def in_int_def used_keys_def)
  show "dir_room demo_dir" by (simp add: dir_room_def demo_dir_table)
  show m: "dir_map demo_dir = Map.empty"
    using dom_entries_map [of "table demo_dir"] by (simp add: dir_map_def demo_dir_table used_keys_def)
  show "Directory_Find demo_dir name = -1" using dirs.fnd_absent [OF w] by (simp add: m)
qed

lemma directory_is_map_witness:
  "\<exists>dir'. Directory_Add demo_dir [104, 105] 17 = (True, dir') \<and> Directory_Find dir' [104, 105] = 17"
proof -
  have "valid_sector 17" by (simp add: valid_sector_eq)
  from conjunct1 [OF directory_is_map [OF wf_demo_dir(1) this, of "[104, 105]"]] wf_demo_dir(2,4)
  obtain dir' where "Directory_Add demo_dir [104, 105] 17 = (True, dir')"
    "\<forall>m. Directory_Find dir' m = (if dkey m = dkey [104, 105] then 17 else Directory_Find demo_dir m)" by auto
  then show ?thesis by auto
qed

definition demo_dir_hdr :: FileHeader where
  "demo_dir_hdr = \<lparr>numBytes = 200, numSectors = 1, dataSectors = 5 # replicate 125 0\<rparr>"

lemma wf_demo_dir_hdr: "wf_hdr demo_dir_hdr"
proof -
  have s: "secs demo_dir_hdr = [5]" by (simp add: secs_def demo_dir_hdr_def)
  show ?thesis unfolding wf_hdr_def s by (auto simp: demo_dir_hdr_def divRoundUp_def)
qed

end
