(* ===== verification/FileSys.thy ===== *)
theory FileSys
  imports Directories
begin

text \<open>
  The file system: \<^verbatim>\<open>filesys/filesys.{h,cc}\<close>. The free map and the directory are files of their own,
  whose headers are in sectors 0 and 1; every operation reads them, changes them in memory and
  writes them back. The invariant \<open>fs_inv\<close> says that the disk is a consistent file system, and \<open>files\<close>
  is what it stands for: a finite map from names to byte sequences. Each operation is shown to keep
  the invariant and to do to this map what its name says.
\<close>

section \<open>State and constants\<close>

definition FreeMapSector :: int where "FreeMapSector = 0"
definition DirectorySector :: int where "DirectorySector = 1"
definition FreeMapFileSize :: int where "FreeMapFileSize = c_div NumSectors BitsInByte"
definition NumDirEntries :: int where "NumDirEntries = 10"
definition DirectoryFileSize :: int where "DirectoryFileSize = int sizeof_DirectoryEntry * NumDirEntries"

record FileSystem =
  openFileList :: "OpenFile option list"
  freeMapFile :: OpenFile
  directoryFile :: OpenFile

text \<open>What newly allocated objects hold: a header, the words of a bitmap, the entries of a table, the bytes
  of a buffer, and the type of a file opened without one.\<close>

record garbage =
  g_hdr :: FileHeader
  g_word :: "nat \<Rightarrow> u32"
  g_entry :: "nat \<Rightarrow> DirectoryEntry"
  g_byte :: "nat \<Rightarrow> byte"
  g_type :: int

section \<open>Operations\<close>

definition fetch_dir :: "garbage \<Rightarrow> OpenFile \<Rightarrow> dsk \<Rightarrow> Directory result" where
  "fetch_dir g file d = Directory_FetchFrom (hdr file) d (Directory_Directory (g_entry g) NumDirEntries)"

definition fetch_map :: "garbage \<Rightarrow> OpenFile \<Rightarrow> dsk \<Rightarrow> BitMap result" where
  "fetch_map g file d = bindR (BitMap_BitMap (g_word g) NumSectors) (BitMap_FetchFrom (hdr file) d)"

definition FileSystem_Create :: "garbage \<Rightarrow> FileSystem \<Rightarrow> byte list \<Rightarrow> int \<Rightarrow> dsk \<Rightarrow> (bool \<times> dsk) result" where
  "FileSystem_Create g fs name initialSize d =
     bindR (fetch_dir g (directoryFile fs) d) (\<lambda>directory.
     if Directory_Find directory name \<noteq> -1 then Inr (False, d)
     else bindR (fetch_map g (freeMapFile fs) d) (\<lambda>freeMap.
     bindR (BitMap_Find freeMap) (\<lambda>(sector, freeMap1).
     if sector = -1 then Inr (False, d)
     else let (added, directory1) = Directory_Add directory name sector in
     if \<not> added then Inr (False, d)
     else bindR (Allocate freeMap1 initialSize (g_hdr g)) (\<lambda>(allocated, h, freeMap2).
     if \<not> allocated then Inr (False, d)
     else bindR (FileHeader_WriteBack h sector d) (\<lambda>d1.
     bindR (Directory_WriteBack (g_byte g) (hdr (directoryFile fs)) directory1 d1) (\<lambda>d2.
     bindR (BitMap_WriteBack (g_byte g) (hdr (freeMapFile fs)) freeMap2 d2) (\<lambda>d3.
     Inr (True, d3))))))))"

definition FileSystem_Open :: "garbage \<Rightarrow> FileSystem \<Rightarrow> byte list \<Rightarrow> int \<Rightarrow> dsk \<Rightarrow> OpenFile option result" where
  "FileSystem_Open g fs name t d =
     bindR (fetch_dir g (directoryFile fs) d) (\<lambda>directory.
     let sector = Directory_Find directory name in
     if sector \<ge> 0 then bindR (OpenFile_OpenFile sector t d) (\<lambda>f. Inr (Some f)) else Inr None)"

definition FileSystem_Open1 :: "garbage \<Rightarrow> FileSystem \<Rightarrow> byte list \<Rightarrow> dsk \<Rightarrow> OpenFile option result" where
  "FileSystem_Open1 g fs name d =
     bindR (fetch_dir g (directoryFile fs) d) (\<lambda>directory.
     let sector = Directory_Find directory name in
     if sector \<ge> 0 then bindR (OpenFile_OpenFile sector (g_type g) d) (\<lambda>f. Inr (Some f)) else Inr None)"

definition FileSystem_Close :: "FileSystem \<Rightarrow> int \<Rightarrow> (bool \<times> FileSystem) result" where
  "FileSystem_Close fs i =
     bindR (rd (openFileList fs) i) (\<lambda>f.
     if f = None then Inr (False, fs)
     else bindR (wr (openFileList fs) i None) (\<lambda>l. Inr (True, fs\<lparr>openFileList := l\<rparr>)))"

fun find_free_from :: "int \<Rightarrow> nat \<Rightarrow> OpenFile option list \<Rightarrow> int result" where
  "find_free_from i 0 l = Inr (-1)"
| "find_free_from i (Suc n) l = bindR (rd l i) (\<lambda>f. if f = None then Inr i else find_free_from (i + 1) n l)"

definition FindFreeBlock :: "FileSystem \<Rightarrow> int result" where
  "FindFreeBlock fs = find_free_from 2 8 (openFileList fs)"

definition FileSystem_Remove :: "garbage \<Rightarrow> FileSystem \<Rightarrow> byte list \<Rightarrow> dsk \<Rightarrow> (bool \<times> dsk) result" where
  "FileSystem_Remove g fs name d =
     bindR (fetch_dir g (directoryFile fs) d) (\<lambda>directory.
     let sector = Directory_Find directory name in
     if sector = -1 then Inr (False, d)
     else bindR (FileHeader_FetchFrom sector d) (\<lambda>fileHdr.
     bindR (fetch_map g (freeMapFile fs) d) (\<lambda>freeMap.
     bindR (Deallocate freeMap fileHdr) (\<lambda>freeMap1.
     bindR (BitMap_Clear freeMap1 sector) (\<lambda>freeMap2.
     let (_, directory1) = Directory_Remove directory name in
     bindR (BitMap_WriteBack (g_byte g) (hdr (freeMapFile fs)) freeMap2 d) (\<lambda>d1.
     bindR (Directory_WriteBack (g_byte g) (hdr (directoryFile fs)) directory1 d1) (\<lambda>d2.
     Inr (True, d2))))))))"

definition FileSystem_List :: "garbage \<Rightarrow> FileSystem \<Rightarrow> dsk \<Rightarrow> byte list list result" where
  "FileSystem_List g fs d = bindR (fetch_dir g (directoryFile fs) d) Directory_List"

definition FileSystem_Print :: "garbage \<Rightarrow> FileSystem \<Rightarrow> dsk \<Rightarrow>
    ((int \<times> int list \<times> string list) \<times> (int \<times> int list \<times> string list) \<times> int list \<times>
     (byte list \<times> int \<times> int \<times> int list \<times> string list) list) result" where
  "FileSystem_Print g fs d =
     bindR (FileHeader_FetchFrom FreeMapSector d) (\<lambda>bitHdr. bindR (FileHeader_Print bitHdr d) (\<lambda>p1.
     bindR (FileHeader_FetchFrom DirectorySector d) (\<lambda>dirHdr. bindR (FileHeader_Print dirHdr d) (\<lambda>p2.
     bindR (fetch_map g (freeMapFile fs) d) (\<lambda>freeMap. bindR (BitMap_Print freeMap) (\<lambda>p3.
     bindR (fetch_dir g (directoryFile fs) d) (\<lambda>directory. bindR (Directory_Print directory d) (\<lambda>p4.
     Inr (p1, p2, p3, p4)))))))))"

text \<open>Formatting: the two headers are allocated and written, then the two files.\<close>

definition format_disk :: "garbage \<Rightarrow> dsk \<Rightarrow> (OpenFile \<times> OpenFile \<times> dsk) result" where
  "format_disk g d =
     bindR (BitMap_BitMap (g_word g) NumSectors) (\<lambda>freeMap.
     let directory = Directory_Directory (g_entry g) NumDirEntries in
     bindR (BitMap_Mark freeMap FreeMapSector) (\<lambda>m1.
     bindR (BitMap_Mark m1 DirectorySector) (\<lambda>m2.
     bindR (Allocate m2 FreeMapFileSize (g_hdr g)) (\<lambda>(ok1, mapHdr, m3). bindR (ASSERT ok1) (\<lambda>_.
     bindR (Allocate m3 DirectoryFileSize (g_hdr g)) (\<lambda>(ok2, dirHdr, m4). bindR (ASSERT ok2) (\<lambda>_.
     bindR (FileHeader_WriteBack mapHdr FreeMapSector d) (\<lambda>d1.
     bindR (FileHeader_WriteBack dirHdr DirectorySector d1) (\<lambda>d2.
     bindR (OpenFile_OpenFile FreeMapSector (g_type g) d2) (\<lambda>mapFile.
     bindR (OpenFile_OpenFile DirectorySector (g_type g) d2) (\<lambda>dirFile.
     bindR (BitMap_WriteBack (g_byte g) (hdr mapFile) m4 d2) (\<lambda>d3.
     bindR (Directory_WriteBack (g_byte g) (hdr dirFile) directory d3) (\<lambda>d4.
     Inr (mapFile, dirFile, d4))))))))))))))"

definition stdin_name :: "byte list" where "stdin_name = [115, 116, 100, 105, 110]"
definition stdout_name :: "byte list" where "stdout_name = [115, 116, 100, 111, 117, 116]"

definition FileSystem_FileSystem :: "garbage \<Rightarrow> bool \<Rightarrow> dsk \<Rightarrow> (FileSystem \<times> dsk) result" where
  "FileSystem_FileSystem g format d =
     bindR (if format then format_disk g d
       else bindR (OpenFile_OpenFile FreeMapSector (g_type g) d) (\<lambda>mapFile.
            bindR (OpenFile_OpenFile DirectorySector (g_type g) d) (\<lambda>dirFile. Inr (mapFile, dirFile, d))))
     (\<lambda>(mapFile, dirFile, d1).
     let fs = \<lparr>openFileList = replicate 10 None, freeMapFile = mapFile, directoryFile = dirFile\<rparr> in
     bindR (FileSystem_Create g fs stdin_name 2 d1) (\<lambda>(_, d2).
     bindR (FileSystem_Create g fs stdout_name 3 d2) (\<lambda>(_, d3).
     bindR (FileSystem_Open g fs stdin_name 2 d3) (\<lambda>f0.
     bindR (FileSystem_Open g fs stdout_name 3 d3) (\<lambda>f1.
     Inr (fs\<lparr>openFileList := (openFileList fs)[0 := f0, 1 := f1]\<rparr>, d3))))))"

section \<open>A consistent file system\<close>

definition disk_dir :: "FileSystem \<Rightarrow> dsk \<Rightarrow> Directory" where
  "disk_dir fs d = \<lparr>tableSize = 10, table = table_of 10 (content (hdr (directoryFile fs)) d)\<rparr>"

definition disk_map :: "FileSystem \<Rightarrow> dsk \<Rightarrow> BitMap" where
  "disk_map fs d = \<lparr>numBits = 1024, numWords = 32, bmap = words_of 32 (content (hdr (freeMapFile fs)) d)\<rparr>"

text \<open>The sectors of the two system files, and those of the file whose header is in a sector.\<close>

definition sys_secs :: "FileSystem \<Rightarrow> nat set" where
  "sys_secs fs = {0, 1} \<union> set (secs (hdr (freeMapFile fs))) \<union> set (secs (hdr (directoryFile fs)))"

definition file_hdr :: "dsk \<Rightarrow> int \<Rightarrow> FileHeader" where
  "file_hdr d s = hdr_of (d ! nat s)"

definition file_secs :: "dsk \<Rightarrow> int \<Rightarrow> nat set" where
  "file_secs d s = insert (nat s) (set (secs (file_hdr d s)))"

definition sys_inv :: "FileSystem \<Rightarrow> dsk \<Rightarrow> bool" where
  "sys_inv fs d \<longleftrightarrow> wf_dsk d \<and> wf_hdr (hdr (freeMapFile fs)) \<and> wf_hdr (hdr (directoryFile fs)) \<and>
     numBytes (hdr (freeMapFile fs)) = 128 \<and> numBytes (hdr (directoryFile fs)) = 200 \<and>
     file_hdr d 0 = hdr (freeMapFile fs) \<and> file_hdr d 1 = hdr (directoryFile fs) \<and>
     distinct ([0, 1] @ secs (hdr (freeMapFile fs)) @ secs (hdr (directoryFile fs))) \<and>
     sys_secs fs \<subseteq> marked (disk_map fs d) \<and> wf_dir (disk_dir fs d)"

definition fs_inv :: "FileSystem \<Rightarrow> dsk \<Rightarrow> bool" where
  "fs_inv fs d \<longleftrightarrow> sys_inv fs d \<and>
     (\<forall>k s. dir_map (disk_dir fs d) k = Some s \<longrightarrow> wf_hdr (file_hdr d s) \<and> nat s \<notin> set (secs (file_hdr d s)) \<and>
        file_secs d s \<subseteq> marked (disk_map fs d) - sys_secs fs) \<and>
     (\<forall>k k' s s'. dir_map (disk_dir fs d) k = Some s \<longrightarrow> dir_map (disk_dir fs d) k' = Some s' \<longrightarrow> k \<noteq> k' \<longrightarrow>
        file_secs d s \<inter> file_secs d s' = {})"

definition files :: "FileSystem \<Rightarrow> dsk \<Rightarrow> byte list \<rightharpoonup> byte list" where
  "files fs d k = map_option (\<lambda>s. content (file_hdr d s) d) (dir_map (disk_dir fs d) k)"

definition wf_garbage :: "garbage \<Rightarrow> bool" where
  "wf_garbage g \<longleftrightarrow> length (dataSectors (g_hdr g)) = 126 \<and> (\<forall>s \<in> set (dataSectors (g_hdr g)). in_int s) \<and>
     (\<forall>i. wf_entry (g_entry g i))"

section \<open>Reading the system files\<close>

lemma sys_invD:
  assumes "sys_inv fs d"
  shows "wf_dsk d" "wf_hdr (hdr (freeMapFile fs))" "wf_hdr (hdr (directoryFile fs))"
    "numBytes (hdr (freeMapFile fs)) = 128" "numBytes (hdr (directoryFile fs)) = 200"
    "file_hdr d 0 = hdr (freeMapFile fs)" "file_hdr d 1 = hdr (directoryFile fs)"
    "set (secs (hdr (freeMapFile fs))) \<inter> set (secs (hdr (directoryFile fs))) = {}"
    "{0, 1} \<inter> set (secs (hdr (freeMapFile fs))) = {}" "{0, 1} \<inter> set (secs (hdr (directoryFile fs))) = {}"
    "sys_secs fs \<subseteq> marked (disk_map fs d)" "wf_dir (disk_dir fs d)"
  using assms by (simp_all add: sys_inv_def)

lemma disk_map_ok: "wf_bitmap (disk_map fs d)" "capacity (disk_map fs d) = 1024"
  by (simp_all add: disk_map_def wf_bitmap_def capacity_def BitsInWord_def divRoundUp_def)

lemma bitmap_1024:
  assumes "wf_bitmap bm" "capacity bm = 1024"
  shows "numBits bm = 1024" "numWords bm = 32" "length (bmap bm) = 32"
proof -
  show "numBits bm = 1024" using wf_numBits [OF assms(1)] assms(2) by simp
  then show "numWords bm = 32" "length (bmap bm) = 32"
    using assms(1) by (simp_all add: wf_bitmap_def BitsInWord_def divRoundUp_def)
qed

lemma new_table:
  assumes "wf_garbage g"
  shows "length (table (Directory_Directory (g_entry g) NumDirEntries)) = 10"
    "tableSize (Directory_Directory (g_entry g) NumDirEntries) = 10" "wf_dir (Directory_Directory (g_entry g) NumDirEntries)"
    "dir_map (Directory_Directory (g_entry g) NumDirEntries) = Map.empty"
proof -
  let ?D = "Directory_Directory (g_entry g) NumDirEntries"
  show l: "length (table ?D) = 10" "tableSize ?D = 10" by (simp_all add: Directory_Directory_def NumDirEntries_def)
  have e: "wf_entry e \<and> \<not> inUse e" if "e \<in> set (table ?D)" for e
    using that assms by (auto simp: Directory_Directory_def wf_garbage_def wf_entry_def)
  then have "filter inUse (table ?D) = []" by (simp add: filter_empty_conv)
  then have u: "used_keys (table ?D) = []" by (simp add: used_keys_def)
  then show "wf_dir ?D" using e l by (simp add: wf_dir_def)
  show "dir_map ?D = Map.empty" using dom_entries_map [of "table ?D"] u by (simp add: dir_map_def)
qed

lemma fetch_dir_ok:
  assumes "sys_inv fs d" and "wf_garbage g"
  shows "fetch_dir g (directoryFile fs) d = Inr (disk_dir fs d)"
proof -
  note i = sys_invD [OF assms(1)] and n = new_table [OF assms(2)]
  have "fetch_dir g (directoryFile fs) d = Inr ((Directory_Directory (g_entry g) NumDirEntries)
      \<lparr>table := table_of 10 (content (hdr (directoryFile fs)) d)\<rparr>)"
    unfolding fetch_dir_def using Directory_FetchFrom_ok [OF i(3,1)] n(1-3) i(5) by (simp add: wf_dir_def)
  then show ?thesis using n(2) by (simp add: disk_dir_def)
qed

lemma fetch_map_ok:
  assumes "sys_inv fs d"
  shows "fetch_map g (freeMapFile fs) d = Inr (disk_map fs d)"
proof -
  note i = sys_invD [OF assms]
  obtain bm where bm: "BitMap_BitMap (g_word g) NumSectors = Inr bm" "wf_bitmap bm" "capacity bm = 1024"
    using BitMap_new_ok [of 1024 "g_word g"] by (auto simp: NumSectors_def SectorsPerTrack_def NumTracks_def)
  note b = bitmap_1024 [OF bm(2,3)]
  have "fetch_map g (freeMapFile fs) d = Inr (bm\<lparr>bmap := words_of 32 (content (hdr (freeMapFile fs)) d)\<rparr>)"
    unfolding fetch_map_def using BitMap_FetchFrom_ok [OF i(2,1), of bm] bm(1) b i(4) by simp
  also have "bm\<lparr>bmap := words_of 32 (content (hdr (freeMapFile fs)) d)\<rparr> = disk_map fs d" using b by (simp add: disk_map_def)
  finally show ?thesis .
qed

lemma content_frame: "\<forall>i \<in> set (secs h). d' ! i = d ! i \<Longrightarrow> content h d' = content h d"
proof -
  assume a: "\<forall>i \<in> set (secs h). d' ! i = d ! i"
  then have "map (\<lambda>i. d' ! i) (secs h) = map (\<lambda>i. d ! i) (secs h)" by simp
  then show ?thesis by (simp only: content_def raw_def)
qed

text \<open>A file depends only on its own sectors.\<close>

lemma file_frame:
  assumes "\<forall>i \<in> file_secs d s. d' ! i = d ! i"
  shows "file_hdr d' s = file_hdr d s" "file_secs d' s = file_secs d s" "content (file_hdr d' s) d' = content (file_hdr d s) d"
proof -
  show h: "file_hdr d' s = file_hdr d s" using assms by (simp add: file_hdr_def file_secs_def)
  then show "file_secs d' s = file_secs d s" by (simp add: file_secs_def)
  show "content (file_hdr d' s) d' = content (file_hdr d s) d"
    unfolding h using assms by (intro content_frame) (simp add: file_secs_def)
qed

text \<open>
  Writing back the free map and the directory: the two files get the new contents, the others keep
  theirs. \<open>d0\<close> is the disk before, in which a header may have been written to one more sector.
\<close>

lemma write_back_map:
  assumes "wf_dsk d" "wf_hdr h" "numBytes h = 128" "wf_bitmap bm" "capacity bm = 1024"
  shows "\<exists>d'. BitMap_WriteBack junk h bm d = Inr d' \<and> wf_dsk d' \<and> \<lparr>numBits = 1024, numWords = 32, bmap = words_of 32 (content h d')\<rparr> = bm \<and>
    (\<forall>s. s \<notin> set (secs h) \<longrightarrow> d' ! s = d ! s)"
proof -
  note b = bitmap_1024 [OF assms(4,5)]
  have "numBytes h = int (4 * length (bmap bm))" "numWords bm = int (length (bmap bm))" "bmap bm \<noteq> []" using b assms(3) by auto
  from BitMap_WriteBack_ok [OF assms(2,1) this, of junk] obtain d' where
    "BitMap_WriteBack junk h bm d = Inr d'" "wf_dsk d'" "content h d' = map_bytes (bmap bm)" "\<forall>s. s \<notin> set (secs h) \<longrightarrow> d' ! s = d ! s"
    by blast
  moreover have "words_of 32 (map_bytes (bmap bm)) = bmap bm" using words_of_bytes [of "bmap bm"] b(3) by simp
  ultimately show ?thesis using b by auto
qed

lemma write_back_dir:
  assumes "wf_dsk d" "wf_hdr h" "numBytes h = 200" "wf_dir dir" "tableSize dir = 10"
  shows "\<exists>d'. Directory_WriteBack junk h dir d = Inr d' \<and> wf_dsk d' \<and> \<lparr>tableSize = 10, table = table_of 10 (content h d')\<rparr> = dir \<and>
    (\<forall>s. s \<notin> set (secs h) \<longrightarrow> d' ! s = d ! s)"
proof -
  have l: "length (table dir) = 10" and e: "\<forall>e \<in> set (table dir). wf_entry e" using assms(4,5) by (simp_all add: wf_dir_def)
  then have "numBytes h = int (20 * length (table dir))" "table dir \<noteq> []" using assms(3) by auto
  from Directory_WriteBack_ok [OF assms(2,1) this(1) assms(4) this(2), of junk] obtain d' where
    "Directory_WriteBack junk h dir d = Inr d'" "wf_dsk d'" "content h d' = table_bytes (table dir)" "\<forall>s. s \<notin> set (secs h) \<longrightarrow> d' ! s = d ! s"
    by blast
  moreover have "table_of 10 (table_bytes (table dir)) = table dir" using table_of_bytes [OF e] l by simp
  ultimately show ?thesis using assms(5) by auto
qed

text \<open>A change of the disk outside the files: \<open>W\<close> are sectors not in use before, apart from the two system files.\<close>

definition only_sys :: "FileSystem \<Rightarrow> nat set \<Rightarrow> dsk \<Rightarrow> dsk \<Rightarrow> bool" where
  "only_sys fs W d d' \<longleftrightarrow> (\<forall>i. i \<notin> W \<union> set (secs (hdr (freeMapFile fs))) \<union> set (secs (hdr (directoryFile fs))) \<longrightarrow> d' ! i = d ! i)"

lemma sys_inv_step:
  assumes "sys_inv fs d" "wf_dsk d'" "only_sys fs W d d'" "{0, 1} \<inter> W = {}"
    "sys_secs fs \<subseteq> marked (disk_map fs d')" "wf_dir (disk_dir fs d')"
  shows "sys_inv fs d'"
proof -
  note i = sys_invD [OF assms(1)]
  have "d' ! 0 = d ! 0" "d' ! 1 = d ! 1" using assms(3,4) i(9,10) by (auto simp: only_sys_def)
  then have "file_hdr d' 0 = hdr (freeMapFile fs)" "file_hdr d' 1 = hdr (directoryFile fs)" using i(6,7) by (simp_all add: file_hdr_def)
  then show ?thesis using assms by (simp add: sys_inv_def)
qed

lemma fs_invD:
  assumes "fs_inv fs d"
  shows "sys_inv fs d"
    "dir_map (disk_dir fs d) k = Some s \<Longrightarrow> wf_hdr (file_hdr d s)"
    "dir_map (disk_dir fs d) k = Some s \<Longrightarrow> nat s \<notin> set (secs (file_hdr d s))"
    "dir_map (disk_dir fs d) k = Some s \<Longrightarrow> file_secs d s \<subseteq> marked (disk_map fs d)"
    "dir_map (disk_dir fs d) k = Some s \<Longrightarrow> file_secs d s \<inter> sys_secs fs = {}"
    "dir_map (disk_dir fs d) k = Some s \<Longrightarrow> dir_map (disk_dir fs d) k' = Some s' \<Longrightarrow> k \<noteq> k' \<Longrightarrow> file_secs d s \<inter> file_secs d s' = {}"
  using assms unfolding fs_inv_def by blast+

lemma old_files:
  assumes "fs_inv fs d" "only_sys fs W d d'" "W \<inter> marked (disk_map fs d) = {}" "dir_map (disk_dir fs d) k = Some s"
  shows "file_hdr d' s = file_hdr d s" "file_secs d' s = file_secs d s" "content (file_hdr d' s) d' = content (file_hdr d s) d"
proof -
  note f = fs_invD(4,5) [OF assms(1) assms(4)]
  have "\<forall>i \<in> file_secs d s. d' ! i = d ! i"
    using assms(2,3) f by (fastforce simp: only_sys_def sys_secs_def)
  from file_frame [OF this] show "file_hdr d' s = file_hdr d s" "file_secs d' s = file_secs d s"
    "content (file_hdr d' s) d' = content (file_hdr d s) d" .
qed

text \<open>Writing both system files back, after a header was possibly written to \<open>W\<close>.\<close>

lemma write_back_both:
  assumes "sys_inv fs d" "wf_dsk d1" "\<forall>i. i \<notin> W \<longrightarrow> d1 ! i = d ! i" "W \<inter> sys_secs fs = {}"
    "wf_bitmap bm" "capacity bm = 1024" "sys_secs fs \<subseteq> marked bm" "wf_dir dir" "tableSize dir = 10"
  shows "\<exists>d2 d3. Directory_WriteBack junk (hdr (directoryFile fs)) dir d1 = Inr d2 \<and>
    BitMap_WriteBack junk (hdr (freeMapFile fs)) bm d2 = Inr d3 \<and> sys_inv fs d3 \<and> only_sys fs W d d3 \<and>
    disk_dir fs d3 = dir \<and> disk_map fs d3 = bm \<and> (\<forall>i \<in> W. d3 ! i = d1 ! i)"
    "\<exists>d2 d3. BitMap_WriteBack junk (hdr (freeMapFile fs)) bm d1 = Inr d2 \<and>
    Directory_WriteBack junk (hdr (directoryFile fs)) dir d2 = Inr d3 \<and> sys_inv fs d3 \<and> only_sys fs W d d3 \<and>
    disk_dir fs d3 = dir \<and> disk_map fs d3 = bm \<and> (\<forall>i \<in> W. d3 ! i = d1 ! i)"
proof -
  note i = sys_invD [OF assms(1)]
  let ?m = "hdr (freeMapFile fs)" and ?r = "hdr (directoryFile fs)"
  have W: "W \<inter> set (secs ?m) = {}" "W \<inter> set (secs ?r) = {}" "{0, 1} \<inter> W = {}" using assms(4) by (auto simp: sys_secs_def)
  have fin: "sys_inv fs d3" if "wf_dsk d3" "disk_dir fs d3 = dir" "disk_map fs d3 = bm" "only_sys fs W d d3" for d3
    using sys_inv_step [OF assms(1) that(1,4) W(3)] that assms(7,8) by simp
  obtain d2 where d2: "Directory_WriteBack junk ?r dir d1 = Inr d2" "wf_dsk d2" "\<lparr>tableSize = 10, table = table_of 10 (content ?r d2)\<rparr> = dir"
    "\<forall>s. s \<notin> set (secs ?r) \<longrightarrow> d2 ! s = d1 ! s" using write_back_dir [OF assms(2) i(3,5) assms(8,9)] by blast
  obtain d3 where d3: "BitMap_WriteBack junk ?m bm d2 = Inr d3" "wf_dsk d3" "\<lparr>numBits = 1024, numWords = 32, bmap = words_of 32 (content ?m d3)\<rparr> = bm"
    "\<forall>s. s \<notin> set (secs ?m) \<longrightarrow> d3 ! s = d2 ! s" using write_back_map [OF d2(2) i(2,4) assms(5,6)] by blast
  have "content ?r d3 = content ?r d2" using d3(4) i(8) by (intro content_frame) auto
  then have "disk_dir fs d3 = dir" "disk_map fs d3 = bm" using d2(3) d3(3) by (simp_all add: disk_dir_def disk_map_def)
  moreover have o: "only_sys fs W d d3" using d2(4) d3(4) assms(3) by (simp add: only_sys_def)
  moreover have "\<forall>i \<in> W. d3 ! i = d1 ! i" using d2(4) d3(4) W(1,2) by (metis disjoint_iff)
  ultimately show "\<exists>d2 d3. Directory_WriteBack junk (hdr (directoryFile fs)) dir d1 = Inr d2 \<and>
    BitMap_WriteBack junk (hdr (freeMapFile fs)) bm d2 = Inr d3 \<and> sys_inv fs d3 \<and> only_sys fs W d d3 \<and>
    disk_dir fs d3 = dir \<and> disk_map fs d3 = bm \<and> (\<forall>i \<in> W. d3 ! i = d1 ! i)" using fin [OF d3(2)] d2(1) d3(1) by blast
  obtain e2 where e2: "BitMap_WriteBack junk ?m bm d1 = Inr e2" "wf_dsk e2" "\<lparr>numBits = 1024, numWords = 32, bmap = words_of 32 (content ?m e2)\<rparr> = bm"
    "\<forall>s. s \<notin> set (secs ?m) \<longrightarrow> e2 ! s = d1 ! s" using write_back_map [OF assms(2) i(2,4) assms(5,6)] by blast
  obtain e3 where e3: "Directory_WriteBack junk ?r dir e2 = Inr e3" "wf_dsk e3" "\<lparr>tableSize = 10, table = table_of 10 (content ?r e3)\<rparr> = dir"
    "\<forall>s. s \<notin> set (secs ?r) \<longrightarrow> e3 ! s = e2 ! s" using write_back_dir [OF e2(2) i(3,5) assms(8,9)] by blast
  have "content ?m e3 = content ?m e2" using e3(4) i(8) by (intro content_frame) auto
  then have "disk_dir fs e3 = dir" "disk_map fs e3 = bm" using e2(3) e3(3) by (simp_all add: disk_dir_def disk_map_def)
  moreover have "only_sys fs W d e3" using e2(4) e3(4) assms(3) by (simp add: only_sys_def)
  moreover have "\<forall>i \<in> W. e3 ! i = d1 ! i" using e2(4) e3(4) W(1,2) by (metis disjoint_iff)
  ultimately show "\<exists>d2 d3. BitMap_WriteBack junk (hdr (freeMapFile fs)) bm d1 = Inr d2 \<and>
    Directory_WriteBack junk (hdr (directoryFile fs)) dir d2 = Inr d3 \<and> sys_inv fs d3 \<and> only_sys fs W d d3 \<and>
    disk_dir fs d3 = dir \<and> disk_map fs d3 = bm \<and> (\<forall>i \<in> W. d3 ! i = d1 ! i)" using fin [OF e3(2)] e2(1) e3(1) by blast
qed

section \<open>Creating files\<close>

text \<open>The number of sectors a new file of a given length takes, its header included.\<close>

definition needed :: "nat \<Rightarrow> nat" where
  "needed N = Suc (nat (divRoundUp (int N) SectorSize))"

lemma dir_map_add_inv:
  assumes inv: "fs_inv fs d" and sys: "sys_inv fs d'" and osys: "only_sys fs W d d'" and W: "W = {k}" "k \<notin> marked (disk_map fs d)"
    and dir: "dir_map (disk_dir fs d') = (dir_map (disk_dir fs d))(nm \<mapsto> int k)" and new: "dir_map (disk_dir fs d) nm = None"
    and map': "marked (disk_map fs d') = insert k (marked (disk_map fs d)) \<union> set ks"
    and h: "file_hdr d' (int k) = h" "wf_hdr h" "secs h = ks" "set ks \<inter> insert k (marked (disk_map fs d)) = {}"
  shows "fs_inv fs d'" "files fs d' = (files fs d)(nm \<mapsto> content h d')"
proof -
  have dis: "W \<inter> marked (disk_map fs d) = {}" using W by simp
  note old = old_files [OF inv osys dis]
  note i = sys_invD(11) [OF fs_invD(1) [OF inv]]
  have fk: "file_secs d' (int k) = insert k (set ks)" using h by (simp add: file_secs_def)
  show "files fs d' = (files fs d)(nm \<mapsto> content h d')"
  proof
    fix x
    show "files fs d' x = ((files fs d)(nm \<mapsto> content h d')) x"
      using old(3) [of x] h(1) by (cases "dir_map (disk_dir fs d) x") (auto simp: files_def dir)
  qed
  have one: "wf_hdr (file_hdr d' s) \<and> nat s \<notin> set (secs (file_hdr d' s)) \<and> file_secs d' s \<subseteq> marked (disk_map fs d') - sys_secs fs"
    if "dir_map (disk_dir fs d') x = Some s" for x s
  proof (cases "x = nm")
    case True
    then have "s = int k" using that dir by simp
    then show ?thesis using h fk map' i W(2) by auto
  next
    case False
    then have "dir_map (disk_dir fs d) x = Some s" using that dir by simp
    then show ?thesis using old [of x s] fs_invD(2-5) [OF inv, of x s] map' by auto
  qed
  have two: "file_secs d' s \<inter> file_secs d' s' = {}"
    if "dir_map (disk_dir fs d') x = Some s" "dir_map (disk_dir fs d') x' = Some s'" "x \<noteq> x'" for x x' s s'
  proof -
    have new_old: "file_secs d' (int k) \<inter> file_secs d' t = {}" if "dir_map (disk_dir fs d) y = Some t" for y t
      using old(2) [OF that] fs_invD(4) [OF inv that] fk h(4) W(2) by auto
    show ?thesis
      using that dir new_old [of x' s'] new_old [of x s] old(2) [of x s] old(2) [of x' s'] fs_invD(6) [OF inv, of x s x' s']
      by (cases "x = nm"; cases "x' = nm") auto
  qed
  show "fs_inv fs d'" unfolding fs_inv_def using sys one two by blast
qed

lemma stored_ints:
  assumes "wf_garbage g" "N \<le> 64512" "n \<le> 126" "length ks = n" "set ks \<subseteq> {..<1024}"
  defines "h \<equiv> (g_hdr g)\<lparr>numBytes := int N, numSectors := int n, dataSectors := map int ks @ drop n (dataSectors (g_hdr g))\<rparr>"
  shows "in_int (numBytes h)" "in_int (numSectors h)" "\<forall>s \<in> set (dataSectors h). in_int s" "length (dataSectors h) = 126"
proof -
  show "in_int (numBytes h)" "in_int (numSectors h)" "length (dataSectors h) = 126"
    using assms(1-4) by (simp_all add: h_def in_int_def wf_garbage_def)
  have "in_int (int k)" if "k \<in> set ks" for k using that assms(5) by (auto simp: in_int_def dest: subsetD)
  moreover have "in_int s" if "s \<in> set (drop n (dataSectors (g_hdr g)))" for s
    using in_set_dropD [OF that] assms(1) by (simp add: wf_garbage_def)
  ultimately show "\<forall>s \<in> set (dataSectors h). in_int s" by (auto simp: h_def)
qed

lemma Directory_Add_size: "tableSize (snd (Directory_Add dir name s)) = tableSize dir"
  by (simp add: Directory_Add_def split: option.split)

lemma fs_Create_ok:
  assumes inv: "fs_inv fs d" and g: "wf_garbage g" and N: "N \<le> 64512"
    and new: "dkey name \<notin> dom (dir_map (disk_dir fs d))" and room: "dir_room (disk_dir fs d)"
    and fit: "needed N + card (marked (disk_map fs d)) \<le> 1024"
  shows "\<exists>d' c. FileSystem_Create g fs name (int N) d = Inr (True, d') \<and> fs_inv fs d' \<and> length c = N \<and>
    files fs d' = (files fs d)(dkey name \<mapsto> c) \<and> card (marked (disk_map fs d')) = card (marked (disk_map fs d)) + needed N"
proof -
  let ?M = "disk_map fs d" and ?D = "disk_dir fs d"
  note sys = fs_invD(1) [OF inv] and i = sys_invD [OF fs_invD(1) [OF inv]] and M = disk_map_ok [of fs d]
  obtain n where n: "divRoundUp (int N) SectorSize = int n" "n * 512 < N + 512" by (rule divRoundUp_sector)
  have n126: "n \<le> 126" using n(2) N by simp
  have fit': "Suc n + card (marked ?M) \<le> 1024" using fit n(1) by (simp add: needed_def)
  have "card (marked ?M) \<noteq> card {..<1024::nat}" using fit' by (simp only: card_lessThan)
  then have "marked ?M \<noteq> {..<1024}" by (rule contrapos_nn) (simp only:)
  then obtain k M1 where k: "BitMap_Find ?M = Inr (int k, M1)" "k < 1024" "k \<notin> marked ?M" "wf_bitmap M1" "capacity M1 = 1024"
    "marked M1 = insert k (marked ?M)" using Find_free [OF M(1)] M(2) by auto
  have none: "dir_map ?D (dkey name) = None" using new by blast
  have "valid_sector (int k)" using k(2) by (simp add: valid_sector_eq)
  then obtain D1 where D1: "Directory_Add ?D name (int k) = (True, D1)" "wf_dir D1" "dir_map D1 = (dir_map ?D)(dkey name \<mapsto> int k)"
    using dirs.add_ok [OF i(12) none room] by blast
  have l: "length (dataSectors (g_hdr g)) = 126" using g by (simp add: wf_garbage_def)
  have "n + card (marked M1) \<le> 1024" using fit' k(3,6) by simp
  then obtain ks M2 where ks: "Allocate M1 (int N) (g_hdr g) =
      Inr (True, (g_hdr g)\<lparr>numBytes := int N, numSectors := int n, dataSectors := map int ks @ drop n (dataSectors (g_hdr g))\<rparr>, M2)"
    "length ks = n" "distinct ks" "set ks \<inter> marked M1 = {}" "set ks \<subseteq> {..<1024}" "wf_bitmap M2" "capacity M2 = 1024" "marked M2 = marked M1 \<union> set ks"
    using Allocate_cases(2) [OF k(4,5) l n(1) _ n126] by blast
  define h where "h = (g_hdr g)\<lparr>numBytes := int N, numSectors := int n, dataSectors := map int ks @ drop n (dataSectors (g_hdr g))\<rparr>"
  note wh = allocated_header [OF n(1) n126 l ks(2,3,5), folded h_def]
  have hb: "in_int (numBytes h)" "in_int (numSectors h)" "\<forall>s \<in> set (dataSectors h). in_int s" "length (dataSectors h) = 126"
    by (rule stored_ints [OF g N n126 ks(2,5), folded h_def])+
  note st = header_store_load [OF i(1) k(2) hb]
  define d1 where "d1 = d[k := hdr_bytes h]"
  have "{k} \<inter> sys_secs fs = {}" "sys_secs fs \<subseteq> marked M2" using i(11) k(3,6) ks(8) by auto
  moreover have "tableSize D1 = 10" using D1(1) Directory_Add_size [of ?D name "int k"] by (simp add: disk_dir_def)
  moreover have "\<forall>j. j \<notin> {k} \<longrightarrow> d1 ! j = d ! j" by (simp add: d1_def)
  ultimately obtain d2 d3 where d3: "Directory_WriteBack (g_byte g) (hdr (directoryFile fs)) D1 d1 = Inr d2"
    "BitMap_WriteBack (g_byte g) (hdr (freeMapFile fs)) M2 d2 = Inr d3" "sys_inv fs d3" "only_sys fs {k} d d3"
    "disk_dir fs d3 = D1" "disk_map fs d3 = M2" "d3 ! k = d1 ! k"
    using write_back_both(1) [OF sys _ _ _ ks(6,7) _ D1(2), of d1 "{k}" "g_byte g"] st(2) d1_def by auto
  have kd: "k < length d" using i(1) k(2) by (simp add: wf_dsk_def)
  have fh: "file_hdr d3 (int k) = h" using d3(7) kd hdr_of_bytes [OF hb] by (simp add: file_hdr_def d1_def)
  have "Directory_Find ?D name = -1" using dirs.fnd_absent [OF i(12)] none by simp
  then have cr: "FileSystem_Create g fs name (int N) d = Inr (True, d3)"
    using fetch_dir_ok [OF sys g] fetch_map_ok [OF sys] k(1) D1(1) ks(1) st(1) d3(1,2)
    by (simp add: FileSystem_Create_def h_def [symmetric] d1_def)
  note res = dir_map_add_inv [OF inv d3(3,4) refl k(3) _ none _ fh wh(1,2)]
  have "fs_inv fs d3" "files fs d3 = (files fs d)(dkey name \<mapsto> content h d3)"
    using res D1(3) d3(5,6) ks(4,8) k(6) by auto
  moreover have "length (content h d3) = N" using length_content [OF wh(1) sys_invD(1) [OF d3(3)]] by (simp add: h_def)
  moreover have "card (marked M2) = card (marked ?M) + needed N"
    using ks(2,3,4,8) k(3,6) n(1) by (simp add: card_Un_disjoint distinct_card needed_def Int_commute)
  ultimately show ?thesis using cr d3(6) by blast
qed

lemma fs_Create_fails:
  assumes inv: "fs_inv fs d" and g: "wf_garbage g"
    and no: "dkey name \<in> dom (dir_map (disk_dir fs d)) \<or> \<not> dir_room (disk_dir fs d) \<or> 1024 < needed N + card (marked (disk_map fs d))"
  shows "FileSystem_Create g fs name (int N) d = Inr (False, d)"
proof -
  let ?M = "disk_map fs d" and ?D = "disk_dir fs d"
  note sys = fs_invD(1) [OF inv] and i = sys_invD [OF fs_invD(1) [OF inv]] and M = disk_map_ok [of fs d]
  note f = fetch_dir_ok [OF sys g] fetch_map_ok [OF sys]
  show ?thesis
  proof (cases "dir_map ?D (dkey name) = None \<and> marked ?M \<noteq> {..<1024}")
    case False
    then show ?thesis
      using f dirs.fnd_absent [OF i(12), of name] Find_full [OF M(1)] M(2) by (auto simp: FileSystem_Create_def)
  next
    case True
    then obtain k M1 where k: "BitMap_Find ?M = Inr (int k, M1)" "k \<notin> marked ?M" "wf_bitmap M1" "capacity M1 = 1024"
      "marked M1 = insert k (marked ?M)" using Find_free [OF M(1)] M(2) by auto
    have nf: "Directory_Find ?D name = -1" using True dirs.fnd_absent [OF i(12)] by simp
    show ?thesis
    proof (cases "fst (Directory_Add ?D name (int k))")
      case False
      then show ?thesis using f k(1) nf by (auto simp: FileSystem_Create_def split: prod.splits)
    next
      case added: True
      then have "dir_room ?D" using dirs.add_fails [OF i(12), of name "int k"] by (metis fst_conv)
      then have "1024 < needed N + card (marked ?M)" using no True by (simp add: domIff)
      moreover obtain n where n: "divRoundUp (int N) SectorSize = int n" by (rule divRoundUp_sector)
      ultimately have "1024 < n + card (marked M1)" using k(2,5) by (simp add: needed_def)
      moreover have "length (dataSectors (g_hdr g)) = 126" using g by (simp add: wf_garbage_def)
      ultimately have "Allocate M1 (int N) (g_hdr g) = Inr (False, (g_hdr g)\<lparr>numBytes := int N, numSectors := int n\<rparr>, M1)"
        using Allocate_cases(1) [OF k(3,4) _ n] by blast
      then show ?thesis using f k(1) nf added by (simp add: FileSystem_Create_def split: prod.splits)
    qed
  qed
qed

section \<open>Removing files\<close>

lemma Directory_Remove_size: "tableSize (snd (Directory_Remove dir name)) = tableSize dir"
  by (simp add: Directory_Remove_def Let_def)

lemma dir_map_remove_inv:
  assumes inv: "fs_inv fs d" and sys: "sys_inv fs d'" and osys: "only_sys fs {} d d'"
    and dir: "dir_map (disk_dir fs d') = (dir_map (disk_dir fs d))(nm := None)" and had: "dir_map (disk_dir fs d) nm = Some s0"
    and map': "marked (disk_map fs d') = marked (disk_map fs d) - file_secs d s0"
  shows "fs_inv fs d'" "files fs d' = (files fs d)(nm := None)"
proof -
  note old = old_files [OF inv osys]
  show "files fs d' = (files fs d)(nm := None)"
  proof
    fix x
    show "files fs d' x = ((files fs d)(nm := None)) x"
      using old(3) [of x] by (cases "dir_map (disk_dir fs d) x") (auto simp: files_def dir)
  qed
  have was: "x \<noteq> nm \<and> dir_map (disk_dir fs d) x = Some s" if "dir_map (disk_dir fs d') x = Some s" for x s
    using that dir by (auto split: if_splits)
  have one: "wf_hdr (file_hdr d' s) \<and> nat s \<notin> set (secs (file_hdr d' s)) \<and> file_secs d' s \<subseteq> marked (disk_map fs d') - sys_secs fs"
    if "dir_map (disk_dir fs d') x = Some s" for x s
    using was [OF that] old [of x s] fs_invD(2-5) [OF inv, of x s] fs_invD(6) [OF inv had, of x s] map' by auto
  have two: "file_secs d' s \<inter> file_secs d' s' = {}"
    if "dir_map (disk_dir fs d') x = Some s" "dir_map (disk_dir fs d') x' = Some s'" "x \<noteq> x'" for x x' s s'
    using was [OF that(1)] was [OF that(2)] old(2) [of x s] old(2) [of x' s'] fs_invD(6) [OF inv _ _ that(3), of s s'] by auto
  show "fs_inv fs d'" unfolding fs_inv_def using sys one two by blast
qed

lemma FetchFrom_file_hdr: "wf_dsk d \<Longrightarrow> valid_sector s \<Longrightarrow> FileHeader_FetchFrom s d = Inr (file_hdr d s)"
proof -
  assume "wf_dsk d" "valid_sector s"
  then have "read_sector s d = Inr (d ! nat s)" using read_sector_ok [of d "nat s"] by (simp add: valid_sector_eq nat_less_iff)
  then show ?thesis by (simp add: FileHeader_FetchFrom_def file_hdr_def)
qed

lemma fs_Remove_ok:
  assumes inv: "fs_inv fs d" and g: "wf_garbage g" and had: "dir_map (disk_dir fs d) (dkey name) = Some s0"
  shows "\<exists>d'. FileSystem_Remove g fs name d = Inr (True, d') \<and> fs_inv fs d' \<and> files fs d' = (files fs d)(dkey name := None) \<and>
    marked (disk_map fs d') = marked (disk_map fs d) - file_secs d s0"
proof -
  let ?M = "disk_map fs d" and ?D = "disk_dir fs d"
  note sys = fs_invD(1) [OF inv] and i = sys_invD [OF fs_invD(1) [OF inv]] and M = disk_map_ok [of fs d]
  note own = fs_invD(2-5) [OF inv had]
  have v: "valid_sector s0" using dirs.lkp_valid [OF i(12) had] .
  then obtain k where k: "s0 = int k" "k < 1024" by (metis nonneg_int_cases of_nat_less_numeral_iff valid_sector_eq)
  have fnd: "Directory_Find ?D name = s0" using dirs.fnd_present [OF i(12) had] .
  have "set (secs (file_hdr d s0)) \<subseteq> marked ?M" using own(3) by (auto simp: file_secs_def)
  then obtain M1 where M1: "Deallocate ?M (file_hdr d s0) = Inr M1" "wf_bitmap M1" "capacity M1 = 1024"
    "marked M1 = marked ?M - set (secs (file_hdr d s0))" using Deallocate_ok [OF M(1) own(1)] M(2) by auto
  obtain M2 where M2: "BitMap_Clear M1 s0 = Inr M2" "wf_bitmap M2" "capacity M2 = 1024" "marked M2 = marked M1 - {k}"
    using bm.clear_slot [OF M1(2), of k] M1(3) k by auto
  have mk: "marked M2 = marked ?M - file_secs d s0" using M1(4) M2(4) k(1) by (auto simp: file_secs_def)
  obtain D1 where D1: "Directory_Remove ?D name = (True, D1)" "wf_dir D1" "dir_map D1 = (dir_map ?D)(dkey name := None)"
    using dirs.rem_ok [OF i(12), of name] had by auto
  have "tableSize D1 = 10" using D1(1) Directory_Remove_size [of ?D name] by (simp add: disk_dir_def)
  moreover have "sys_secs fs \<subseteq> marked M2" using i(11) own(4) mk by auto
  ultimately obtain d2 d3 where d3: "BitMap_WriteBack (g_byte g) (hdr (freeMapFile fs)) M2 d = Inr d2"
    "Directory_WriteBack (g_byte g) (hdr (directoryFile fs)) D1 d2 = Inr d3" "sys_inv fs d3" "only_sys fs {} d d3"
    "disk_dir fs d3 = D1" "disk_map fs d3 = M2"
    using write_back_both(2) [OF sys i(1) _ _ M2(2,3) _ D1(2), of "{}" "g_byte g"] by auto
  have "FileSystem_Remove g fs name d = Inr (True, d3)"
    using fetch_dir_ok [OF sys g] fetch_map_ok [OF sys] FetchFrom_file_hdr [OF i(1) v] M1(1) M2(1) D1(1) d3(1,2) fnd k(1)
    by (simp add: FileSystem_Remove_def)
  then show ?thesis using dir_map_remove_inv [OF inv d3(3,4) _ had] D1(3) d3(5,6) mk by auto
qed

lemma fs_Remove_fails:
  assumes "fs_inv fs d" "wf_garbage g" "dir_map (disk_dir fs d) (dkey name) = None"
  shows "FileSystem_Remove g fs name d = Inr (False, d)"
  using fetch_dir_ok [OF fs_invD(1) [OF assms(1)] assms(2)] dirs.fnd_absent [OF sys_invD(12) [OF fs_invD(1) [OF assms(1)]], of name] assms(3)
  by (simp add: FileSystem_Remove_def)

section \<open>Opening and writing files\<close>

lemma fs_Open_ok:
  assumes "fs_inv fs d" "wf_garbage g"
  shows "FileSystem_Open g fs name t d = Inr (map_option (\<lambda>s. \<lparr>hdr = file_hdr d s, fileID = s, ftype = t, seekPosition = 0\<rparr>)
    (dir_map (disk_dir fs d) (dkey name)))"
proof -
  note sys = fs_invD(1) [OF assms(1)] and i = sys_invD [OF fs_invD(1) [OF assms(1)]]
  show ?thesis
  proof (cases "dir_map (disk_dir fs d) (dkey name)")
    case None
    then show ?thesis using fetch_dir_ok [OF sys assms(2)] dirs.fnd_absent [OF i(12), of name]
      by (simp add: FileSystem_Open_def)
  next
    case (Some s)
    then have "valid_sector s" "Directory_Find (disk_dir fs d) name = s" using dirs.lkp_valid [OF i(12)] dirs.fnd_present [OF i(12)] by auto
    then show ?thesis using fetch_dir_ok [OF sys assms(2)] FetchFrom_file_hdr [OF i(1), of s] Some
      by (simp add: FileSystem_Open_def OpenFile_OpenFile_def valid_sector_def)
  qed
qed

lemma write_file_same:
  assumes inv: "fs_inv fs d" and had: "dir_map (disk_dir fs d) nm = Some s0"
    and o: "\<forall>i. i \<notin> set (secs (file_hdr d s0)) \<longrightarrow> d' ! i = d ! i"
  shows "disk_dir fs d' = disk_dir fs d" "disk_map fs d' = disk_map fs d" "file_hdr d' s0 = file_hdr d s0"
proof -
  note own = fs_invD(2-5) [OF inv had]
  have frame: "\<forall>i \<in> S. d' ! i = d ! i" if "S \<inter> file_secs d s0 = {}" for S using o that by (auto simp: file_secs_def)
  have "content (hdr (freeMapFile fs)) d' = content (hdr (freeMapFile fs)) d" "content (hdr (directoryFile fs)) d' = content (hdr (directoryFile fs)) d"
    using own(4) by (auto intro!: content_frame frame simp: sys_secs_def)
  then show "disk_dir fs d' = disk_dir fs d" "disk_map fs d' = disk_map fs d" by (simp_all add: disk_dir_def disk_map_def)
  show "file_hdr d' s0 = file_hdr d s0" using o own(2) by (simp add: file_hdr_def)
qed

lemma write_file_inv:
  assumes inv: "fs_inv fs d" and had: "dir_map (disk_dir fs d) nm = Some s0" and w: "wf_dsk d'"
    and o: "\<forall>i. i \<notin> set (secs (file_hdr d s0)) \<longrightarrow> d' ! i = d ! i"
  shows "fs_inv fs d'" "files fs d' = (files fs d)(nm \<mapsto> content (file_hdr d s0) d')"
proof -
  note sys = fs_invD(1) [OF inv] and i = sys_invD [OF fs_invD(1) [OF inv]] and own = fs_invD(2-5) [OF inv had]
  have frame: "\<forall>i \<in> S. d' ! i = d ! i" if "S \<inter> file_secs d s0 = {}" for S using o that by (auto simp: file_secs_def)
  note same = write_file_same(1,2) [OF inv had o] and me = write_file_same(3) [OF inv had o]
  have "d' ! 0 = d ! 0" "d' ! 1 = d ! 1" using frame [of "{0, 1}"] own(4) by (auto simp: sys_secs_def)
  then have sys': "sys_inv fs d'" using sys w same by (simp add: sys_inv_def file_hdr_def)
  have other: "file_hdr d' s = file_hdr d s \<and> content (file_hdr d' s) d' = content (file_hdr d s) d"
    if "dir_map (disk_dir fs d) x = Some s" "x \<noteq> nm" for x s
    using file_frame(1,3) [OF frame [OF fs_invD(6) [OF inv that(1) had that(2)]]] by simp
  then have hdrs: "file_hdr d' s = file_hdr d s" if "dir_map (disk_dir fs d) x = Some s" for x s
    using me had that by (cases "x = nm") auto
  then have ss: "file_secs d' s = file_secs d s" if "dir_map (disk_dir fs d) x = Some s" for x s
    using that by (simp add: file_secs_def)
  show "fs_inv fs d'" unfolding fs_inv_def same
    using sys' hdrs ss inv unfolding fs_inv_def by metis
  show "files fs d' = (files fs d)(nm \<mapsto> content (file_hdr d s0) d')"
  proof
    fix x
    show "files fs d' x = ((files fs d)(nm \<mapsto> content (file_hdr d s0) d')) x"
      using other [of x] had me by (cases "dir_map (disk_dir fs d) x"; cases "x = nm") (auto simp: files_def same)
  qed
qed

section \<open>Formatting\<close>

lemma OpenFile_ok: "wf_dsk d \<Longrightarrow> valid_sector s \<Longrightarrow>
  OpenFile_OpenFile s t d = Inr \<lparr>hdr = file_hdr d s, fileID = s, ftype = t, seekPosition = 0\<rparr>"
  by (simp add: OpenFile_OpenFile_def FetchFrom_file_hdr)

lemma format_sizes: "FreeMapFileSize = int 128" "DirectoryFileSize = int 200" "NumSectors = 1024"
  by (simp_all add: FreeMapFileSize_def DirectoryFileSize_def NumSectors_def SectorsPerTrack_def NumTracks_def BitsInByte_def
      sizeof_DirectoryEntry_def NumDirEntries_def)

text \<open>Allocating one sector for a system file.\<close>

lemma Allocate_one:
  assumes g: "wf_garbage g" and b: "wf_bitmap m" "capacity m = 1024" "card (marked m) < 1024" and N: "0 < N" "N \<le> 512"
  shows "\<exists>h m'. Allocate m (int N) (g_hdr g) = Inr (True, h, m') \<and> wf_hdr h \<and> numBytes h = int N \<and>
    set (secs h) \<inter> marked m = {} \<and> length (secs h) = 1 \<and> wf_bitmap m' \<and> capacity m' = 1024 \<and> marked m' = marked m \<union> set (secs h) \<and>
    in_int (numBytes h) \<and> in_int (numSectors h) \<and> (\<forall>s \<in> set (dataSectors h). in_int s) \<and> length (dataSectors h) = 126"
proof -
  have n: "divRoundUp (int N) SectorSize = int 1"
  proof -
    obtain n where "divRoundUp (int N) SectorSize = int n" "N \<le> n * 512" "n * 512 < N + 512" by (rule divRoundUp_sector)
    moreover from this N have "n = 1" by linarith
    ultimately show ?thesis by simp
  qed
  have l: "length (dataSectors (g_hdr g)) = 126" using g by (simp add: wf_garbage_def)
  obtain ks m' where ks: "Allocate m (int N) (g_hdr g) = Inr (True, (g_hdr g)\<lparr>numBytes := int N, numSectors := int 1,
      dataSectors := map int ks @ drop 1 (dataSectors (g_hdr g))\<rparr>, m')" "length ks = 1" "distinct ks" "set ks \<inter> marked m = {}"
    "set ks \<subseteq> {..<1024}" "wf_bitmap m'" "capacity m' = 1024" "marked m' = marked m \<union> set ks"
    using Allocate_cases(2) [OF b(1,2) l n] b(3) by auto
  have N': "N \<le> 64512" using N by simp
  have n1: "1 \<le> (126::nat)" by simp
  define h where "h = (g_hdr g)\<lparr>numBytes := int N, numSectors := int 1, dataSectors := map int ks @ drop 1 (dataSectors (g_hdr g))\<rparr>"
  note st = stored_ints [OF g N' n1 ks(2,5), folded h_def]
  note hh = allocated_header [OF n n1 l ks(2,3,5), folded h_def]
  have "numBytes h = int N" by (simp add: h_def)
  with st hh ks(2,4,6,7,8) ks(1) [folded h_def] show ?thesis by (intro exI [of _ h] exI [of _ m']) (simp only:)
qed

text \<open>The first half of formatting: the sectors of the two headers and of the two files are marked.\<close>

lemma format_allocates:
  assumes g: "wf_garbage g"
  obtains m0 m1 m2 m3 m4 h r where "BitMap_BitMap (g_word g) NumSectors = Inr m0" "BitMap_Mark m0 FreeMapSector = Inr m1"
    "BitMap_Mark m1 DirectorySector = Inr m2" "Allocate m2 (int 128) (g_hdr g) = Inr (True, h, m3)"
    "Allocate m3 (int 200) (g_hdr g) = Inr (True, r, m4)" "wf_hdr h" "wf_hdr r" "numBytes h = int 128" "numBytes r = int 200"
    "wf_bitmap m4" "capacity m4 = 1024" "card (marked m4) = 4" "distinct ([0, 1] @ secs h @ secs r)"
    "{0, 1} \<union> set (secs h) \<union> set (secs r) \<subseteq> marked m4"
    "in_int (numBytes h)" "in_int (numSectors h)" "\<forall>s \<in> set (dataSectors h). in_int s" "length (dataSectors h) = 126"
    "in_int (numBytes r)" "in_int (numSectors r)" "\<forall>s \<in> set (dataSectors r). in_int s" "length (dataSectors r) = 126"
proof -
  obtain m0 where m0: "BitMap_BitMap (g_word g) NumSectors = Inr m0" "wf_bitmap m0" "capacity m0 = 1024" "marked m0 = {}"
    using BitMap_new_ok [of 1024 "g_word g"] by (auto simp: format_sizes)
  obtain m1 where m1: "BitMap_Mark m0 FreeMapSector = Inr m1" "wf_bitmap m1" "capacity m1 = 1024" "marked m1 = {0}"
    using Mark_ok [OF m0(2), of 0] m0(3,4) by (auto simp: FreeMapSector_def)
  obtain m2 where m2: "BitMap_Mark m1 DirectorySector = Inr m2" "wf_bitmap m2" "capacity m2 = 1024" "marked m2 = {0, 1}"
    using Mark_ok [OF m1(2), of 1] m1(3,4) by (auto simp: DirectorySector_def insert_commute)
  have c2: "card (marked m2) < 1024" using m2(4) by simp
  obtain h m3 where h: "Allocate m2 (int 128) (g_hdr g) = Inr (True, h, m3)" "wf_hdr h" "numBytes h = int 128"
    "set (secs h) \<inter> marked m2 = {}" "length (secs h) = 1" "wf_bitmap m3" "capacity m3 = 1024" "marked m3 = marked m2 \<union> set (secs h)"
    "in_int (numBytes h)" "in_int (numSectors h)" "\<forall>s \<in> set (dataSectors h). in_int s" "length (dataSectors h) = 126"
    using Allocate_one [OF g m2(2,3) c2, of 128] by auto
  have dh: "distinct (secs h)" using h(2) by (simp add: wf_hdr_def)
  have k3: "card (marked m3) = 3" using h(4,5,8) m2(4) dh by (simp add: card_Un_disjoint distinct_card Int_commute)
  then have c3: "card (marked m3) < 1024" by simp
  obtain r m4 where r: "Allocate m3 (int 200) (g_hdr g) = Inr (True, r, m4)" "wf_hdr r" "numBytes r = int 200"
    "set (secs r) \<inter> marked m3 = {}" "length (secs r) = 1" "wf_bitmap m4" "capacity m4 = 1024" "marked m4 = marked m3 \<union> set (secs r)"
    "in_int (numBytes r)" "in_int (numSectors r)" "\<forall>s \<in> set (dataSectors r). in_int s" "length (dataSectors r) = 126"
    using Allocate_one [OF g h(6,7) c3, of 200] by auto
  have dr: "distinct (secs r)" using r(2) by (simp add: wf_hdr_def)
  have k4: "card (marked m4) = 4" using r(4,5,8) k3 dr by (simp add: card_Un_disjoint distinct_card Int_commute)
  have "distinct ([0, 1] @ secs h @ secs r)" "{0, 1} \<union> set (secs h) \<union> set (secs r) \<subseteq> marked m4"
    using h(4,8) r(4,8) m2(4) dh dr by auto
  then show ?thesis by (rule that [OF m0(1) m1(1) m2(1) h(1) r(1) h(2) r(2) h(3) r(3) r(6,7) k4 _ _ h(9-12) r(9-12)])
qed

lemma format_ok:
  assumes g: "wf_garbage g" and d: "wf_dsk d"
  shows "\<exists>mf df d'. format_disk g d = Inr (mf, df, d') \<and>
    (\<forall>l. fs_inv \<lparr>openFileList = l, freeMapFile = mf, directoryFile = df\<rparr> d' \<and>
      files \<lparr>openFileList = l, freeMapFile = mf, directoryFile = df\<rparr> d' = Map.empty \<and>
      card (marked (disk_map \<lparr>openFileList = l, freeMapFile = mf, directoryFile = df\<rparr> d')) = 4 \<and>
      disk_dir \<lparr>openFileList = l, freeMapFile = mf, directoryFile = df\<rparr> d' = Directory_Directory (g_entry g) NumDirEntries)"
proof -
  obtain m0 m1 m2 m3 m4 h r where m: "BitMap_BitMap (g_word g) NumSectors = Inr m0" "BitMap_Mark m0 FreeMapSector = Inr m1"
    "BitMap_Mark m1 DirectorySector = Inr m2" "Allocate m2 (int 128) (g_hdr g) = Inr (True, h, m3)"
    "Allocate m3 (int 200) (g_hdr g) = Inr (True, r, m4)" and wf: "wf_hdr h" "wf_hdr r" "numBytes h = int 128" "numBytes r = int 200"
    and m4: "wf_bitmap m4" "capacity m4 = 1024" "card (marked m4) = 4"
    and dist: "distinct ([0, 1] @ secs h @ secs r)" and sub: "{0, 1} \<union> set (secs h) \<union> set (secs r) \<subseteq> marked m4"
    and hb: "in_int (numBytes h)" "in_int (numSectors h)" "\<forall>s \<in> set (dataSectors h). in_int s" "length (dataSectors h) = 126"
    and rb: "in_int (numBytes r)" "in_int (numSectors r)" "\<forall>s \<in> set (dataSectors r). in_int s" "length (dataSectors r) = 126"
    by (rule format_allocates [OF g])
  note w1 = header_store_load [OF d, of 0, OF _ hb, simplified]
  define d1 where "d1 = d[0 := hdr_bytes h]"
  note w2 = header_store_load [OF w1(2), of 1, OF _ rb, simplified, folded d1_def]
  define d2 where "d2 = d1[1 := hdr_bytes r]"
  have ld: "length d = 1024" using d by (simp add: wf_dsk_def)
  have f01: "file_hdr d2 0 = h" "file_hdr d2 1 = r"
    using ld hdr_of_bytes [OF hb] hdr_of_bytes [OF rb] by (simp_all add: file_hdr_def d2_def d1_def)
  have wd2: "wf_dsk d2" using w2(2) by (simp add: d2_def)
  define mf df where "mf = \<lparr>hdr = h, fileID = 0, ftype = g_type g, seekPosition = 0\<rparr>"
    and "df = \<lparr>hdr = r, fileID = 1, ftype = g_type g, seekPosition = 0\<rparr>"
  have ops: "OpenFile_OpenFile FreeMapSector (g_type g) d2 = Inr mf" "OpenFile_OpenFile DirectorySector (g_type g) d2 = Inr df"
    using OpenFile_ok [OF wd2] f01 by (simp_all add: FreeMapSector_def DirectorySector_def valid_sector_eq mf_def df_def)
  let ?D = "Directory_Directory (g_entry g) NumDirEntries"
  note nt = new_table [OF g]
  obtain d3 where d3: "BitMap_WriteBack (g_byte g) h m4 d2 = Inr d3" "wf_dsk d3"
    "\<lparr>numBits = 1024, numWords = 32, bmap = words_of 32 (content h d3)\<rparr> = m4" "\<forall>s. s \<notin> set (secs h) \<longrightarrow> d3 ! s = d2 ! s"
    using write_back_map [OF wd2 wf(1) _ m4(1,2)] wf(3) by auto
  obtain d4 where d4: "Directory_WriteBack (g_byte g) r ?D d3 = Inr d4" "wf_dsk d4"
    "\<lparr>tableSize = 10, table = table_of 10 (content r d4)\<rparr> = ?D" "\<forall>s. s \<notin> set (secs r) \<longrightarrow> d4 ! s = d3 ! s"
    using write_back_dir [OF d3(2) wf(2) _ nt(3,2)] wf(4) by auto
  have fm: "format_disk g d = Inr (mf, df, d4)"
    using m w1(1) w2(1) ops d3(1) d4(1)
    by (simp add: format_disk_def format_sizes FreeMapSector_def DirectorySector_def d1_def d2_def mf_def df_def)
  have "content h d4 = content h d3" using d4(4) dist by (intro content_frame) auto
  then have dm: "disk_map \<lparr>openFileList = l, freeMapFile = mf, directoryFile = df\<rparr> d4 = m4" for l
    using d3(3) by (simp add: disk_map_def mf_def)
  have dd: "disk_dir \<lparr>openFileList = l, freeMapFile = mf, directoryFile = df\<rparr> d4 = ?D" for l
    using d4(3) by (simp add: disk_dir_def df_def)
  have "d4 ! 0 = d2 ! 0" "d4 ! 1 = d2 ! 1" using d3(4) d4(4) dist by auto
  then have "sys_inv \<lparr>openFileList = l, freeMapFile = mf, directoryFile = df\<rparr> d4" for l
    unfolding sys_inv_def dm dd using d4(2) wf dist sub nt(3) f01 by (simp add: mf_def df_def sys_secs_def file_hdr_def)
  then have "fs_inv \<lparr>openFileList = l, freeMapFile = mf, directoryFile = df\<rparr> d4" for l
    unfolding fs_inv_def dd using nt(4) by simp
  moreover have "files \<lparr>openFileList = l, freeMapFile = mf, directoryFile = df\<rparr> d4 = Map.empty" for l
    by (rule ext) (simp add: files_def dd nt(4))
  ultimately show ?thesis using fm dm dd m4(3) by auto
qed


section \<open>The file system as a finite map\<close>

text \<open>
  The abstract specification: what an operation may do to the map from names to byte sequences. Creating
  may fail, for lack of space; then nothing changes. The contents of a new file are not specified.
\<close>

datatype fs_op =
    Create_op "byte list" nat
  | Remove_op "byte list"
  | Write_op "byte list" nat "byte list"

inductive abs_step :: "(byte list \<rightharpoonup> byte list) \<Rightarrow> fs_op \<Rightarrow> (byte list \<rightharpoonup> byte list) \<Rightarrow> bool" where
  created: "dkey name \<notin> dom m \<Longrightarrow> length c = N \<Longrightarrow> abs_step m (Create_op name N) (m(dkey name \<mapsto> c))"
| create_failed: "abs_step m (Create_op name N) m"
| removed: "abs_step m (Remove_op name) (m(dkey name := None))"
| written: "abs_step m (Write_op name p bs) (m(dkey name := map_option (\<lambda>c. overwrite c p bs) (m (dkey name))))"

inductive_cases abs_createE: "abs_step m (Create_op name N) m'"

inductive abs_steps :: "(byte list \<rightharpoonup> byte list) \<Rightarrow> fs_op list \<Rightarrow> (byte list \<rightharpoonup> byte list) \<Rightarrow> bool" where
  no_step: "abs_steps m [] m"
| more_steps: "abs_step m x m1 \<Longrightarrow> abs_steps m1 xs m2 \<Longrightarrow> abs_steps m (x # xs) m2"

text \<open>The same operations on the disk; a write goes through an open file.\<close>

fun fs_exec :: "garbage \<Rightarrow> FileSystem \<Rightarrow> fs_op \<Rightarrow> dsk \<Rightarrow> dsk result" where
  "fs_exec g fs (Create_op name N) d = bindR (FileSystem_Create g fs name (int N) d) (\<lambda>(_, d'). Inr d')"
| "fs_exec g fs (Remove_op name) d = bindR (FileSystem_Remove g fs name d) (\<lambda>(_, d'). Inr d')"
| "fs_exec g fs (Write_op name p bs) d = bindR (FileSystem_Open g fs name 0 d) (\<lambda>f. case f of None \<Rightarrow> Inr d
     | Some file \<Rightarrow> bindR (OpenFile_Write (g_byte g) (Seek (int p) file) bs (int (length bs)) d) (\<lambda>(_, _, d'). Inr d'))"

fun fs_run :: "garbage \<Rightarrow> FileSystem \<Rightarrow> fs_op list \<Rightarrow> dsk \<Rightarrow> dsk result" where
  "fs_run g fs [] d = Inr d"
| "fs_run g fs (x # xs) d = bindR (fs_exec g fs x d) (fs_run g fs xs)"

definition op_fits :: "fs_op \<Rightarrow> bool" where
  "op_fits x \<longleftrightarrow> (case x of Create_op name N \<Rightarrow> int N \<le> MaxFileSize | _ \<Rightarrow> True)"

lemma dom_files: "dom (files fs d) = dom (dir_map (disk_dir fs d))"
  by (auto simp: files_def)

lemma max_size: "int N \<le> MaxFileSize \<Longrightarrow> N \<le> 64512"
  by (simp add: MaxFileSize_def NumDirect_def SectorSize_def)

text \<open>A directory has room as long as it has fewer files than entries.\<close>

lemma dir_room_card:
  assumes "wf_dir dir"
  shows "dir_room dir = (card (dom (dir_map dir)) < length (table dir))"
proof -
  have "card (dom (dir_map dir)) = length (used_keys (table dir))"
    using assms by (simp add: dir_map_def dom_entries_map distinct_card wf_dir_def)
  also have "\<dots> = length (filter inUse (table dir))" by (simp add: used_keys_def)
  also have "(length (filter inUse (table dir)) < length (table dir)) = dir_room dir"
    using length_filter_less [of _ "table dir" inUse] filter_id_conv [of inUse "table dir"]
    by (metis dir_room_def less_irrefl)
  finally show ?thesis ..
qed

lemma files_room: "fs_inv fs d \<Longrightarrow> dir_room (disk_dir fs d) = (card (dom (files fs d)) < 10)"
  using dir_room_card [OF sys_invD(12) [OF fs_invD(1)]] by (simp add: dom_files) (simp add: disk_dir_def)

lemma create_step:
  assumes inv: "fs_inv fs d" and g: "wf_garbage g" and N: "int N \<le> MaxFileSize"
  shows "\<exists>ok d'. FileSystem_Create g fs name (int N) d = Inr (ok, d') \<and> fs_inv fs d' \<and>
    ok = (dkey name \<notin> dom (files fs d) \<and> card (dom (files fs d)) < 10 \<and> needed N + card (marked (disk_map fs d)) \<le> 1024) \<and>
    (if ok then (\<exists>c. length c = N \<and> files fs d' = (files fs d)(dkey name \<mapsto> c)) \<and>
       card (marked (disk_map fs d')) = card (marked (disk_map fs d)) + needed N else d' = d)"
proof (cases "dkey name \<notin> dom (files fs d) \<and> card (dom (files fs d)) < 10 \<and> needed N + card (marked (disk_map fs d)) \<le> 1024")
  case True
  then obtain d' c where "FileSystem_Create g fs name (int N) d = Inr (True, d')" "fs_inv fs d'" "length c = N"
    "files fs d' = (files fs d)(dkey name \<mapsto> c)" "card (marked (disk_map fs d')) = card (marked (disk_map fs d)) + needed N"
    using fs_Create_ok [OF inv g max_size [OF N], of name] files_room [OF inv] unfolding dom_files by blast
  with True show ?thesis by (intro exI [of _ True] exI [of _ d']) auto
next
  case False
  then have "FileSystem_Create g fs name (int N) d = Inr (False, d)"
    using files_room [OF inv] by (intro fs_Create_fails [OF inv g]) (auto simp: dom_files)
  then show ?thesis using False inv by auto
qed

lemma write_step:
  assumes inv: "fs_inv fs d" and had: "dir_map (disk_dir fs d) nm = Some s0"
  shows "\<exists>k d'. WriteAt junk (file_hdr d s0) bs (int (length bs)) (int p) d = Inr (k, d') \<and> fs_inv fs d' \<and>
    files fs d' = (files fs d)(nm \<mapsto> overwrite (content (file_hdr d s0) d) p bs)"
proof -
  let ?h = "file_hdr d s0"
  note h = fs_invD(2) [OF inv had] and w = sys_invD(1) [OF fs_invD(1) [OF inv]]
  note l = length_content [OF h w]
  show ?thesis
  proof (cases "length bs = 0 \<or> nat (numBytes ?h) \<le> p")
    case True
    then have "WriteAt junk ?h bs (int (length bs)) (int p) d = Inr (0, d)" by (auto simp: WriteAt_def FileLength_def Let_def)
    moreover have "overwrite (content ?h d) p bs = content ?h d" using True l by (auto simp: overwrite_def)
    moreover have "files fs d = (files fs d)(nm \<mapsto> content ?h d)" using had by (auto simp: files_def)
    ultimately show ?thesis using inv by metis
  next
    case False
    then obtain d' where d': "WriteAt junk ?h bs (int (length bs)) (int p) d = Inr (int (min (length bs) (nat (numBytes ?h) - p)), d')"
      "wf_dsk d'" "content ?h d' = overwrite (content ?h d) p (take (length bs) bs)" "\<forall>s. s \<notin> set (secs ?h) \<longrightarrow> d' ! s = d ! s"
      using WriteAt_content [OF h w, of "length bs" bs p junk] by auto
    then show ?thesis using write_file_inv [OF inv had d'(2,4)] by (auto simp: d'(3))
  qed
qed

lemma exec_step:
  assumes inv: "fs_inv fs d" and g: "wf_garbage g" and fits: "op_fits x"
  shows "\<exists>d'. fs_exec g fs x d = Inr d' \<and> fs_inv fs d' \<and> abs_step (files fs d) x (files fs d')"
proof (cases x)
  case (Create_op name N)
  then have "int N \<le> MaxFileSize" using fits by (simp add: op_fits_def)
  from create_step [OF inv g this, of name] obtain ok d' where "FileSystem_Create g fs name (int N) d = Inr (ok, d')" "fs_inv fs d'"
    "ok \<longrightarrow> dkey name \<notin> dom (files fs d)"
    "if ok then (\<exists>c. length c = N \<and> files fs d' = (files fs d)(dkey name \<mapsto> c)) \<and>
       card (marked (disk_map fs d')) = card (marked (disk_map fs d)) + needed N else d' = d" by blast
  then show ?thesis using Create_op by (cases ok) (auto intro: created create_failed)
next
  case (Remove_op name)
  show ?thesis
  proof (cases "dir_map (disk_dir fs d) (dkey name)")
    case None
    then have "files fs d = (files fs d)(dkey name := None)" by (auto simp: files_def)
    then have "abs_step (files fs d) (Remove_op name) (files fs d)" using removed by metis
    then show ?thesis using fs_Remove_fails [OF inv g None] Remove_op inv by simp
  next
    case (Some s)
    then show ?thesis using fs_Remove_ok [OF inv g Some] Remove_op removed by fastforce
  qed
next
  case (Write_op name p bs)
  show ?thesis
  proof (cases "dir_map (disk_dir fs d) (dkey name)")
    case None
    then have "files fs d = (files fs d)(dkey name := map_option (\<lambda>c. overwrite c p bs) (files fs d (dkey name)))" by (auto simp: files_def)
    then have "abs_step (files fs d) (Write_op name p bs) (files fs d)" using written by metis
    then show ?thesis using fs_Open_ok [OF inv g, of name 0] None Write_op inv by simp
  next
    case (Some s)
    obtain k d' where w: "WriteAt (g_byte g) (file_hdr d s) bs (int (length bs)) (int p) d = Inr (k, d')" "fs_inv fs d'"
      "files fs d' = (files fs d)(dkey name \<mapsto> overwrite (content (file_hdr d s) d) p bs)" using write_step [OF inv Some] by blast
    have "files fs d (dkey name) = Some (content (file_hdr d s) d)" using Some by (simp add: files_def)
    then have "abs_step (files fs d) (Write_op name p bs) (files fs d')" unfolding w(3) using written [of "files fs d" name p bs] by simp
    then show ?thesis using fs_Open_ok [OF inv g, of name 0] Some Write_op w(1,2) by (simp add: OpenFile_Write_def Seek_def)
  qed
qed

lemma run_steps:
  "fs_inv fs d \<Longrightarrow> wf_garbage g \<Longrightarrow> \<forall>x \<in> set xs. op_fits x \<Longrightarrow>
   \<exists>d'. fs_run g fs xs d = Inr d' \<and> fs_inv fs d' \<and> abs_steps (files fs d) xs (files fs d')"
proof (induction xs arbitrary: d)
  case (Cons x xs)
  then obtain d1 where d1: "fs_exec g fs x d = Inr d1" "fs_inv fs d1" "abs_step (files fs d) x (files fs d1)"
    using exec_step [of fs d g x] by auto
  then obtain d2 where "fs_run g fs xs d1 = Inr d2" "fs_inv fs d2" "abs_steps (files fs d1) xs (files fs d2)" using Cons by auto
  with d1 show ?case by (auto intro: more_steps)
qed (auto intro: no_step)

text \<open>The list of open files is in memory only.\<close>

lemma open_list_irrelevant:
  "fs_inv (fs\<lparr>openFileList := l\<rparr>) d = fs_inv fs d" "files (fs\<lparr>openFileList := l\<rparr>) d = files fs d"
proof -
  have "disk_dir (fs\<lparr>openFileList := l\<rparr>) d = disk_dir fs d" "disk_map (fs\<lparr>openFileList := l\<rparr>) d = disk_map fs d"
    "sys_secs (fs\<lparr>openFileList := l\<rparr>) = sys_secs fs" by (simp_all add: disk_dir_def disk_map_def sys_secs_def)
  then show "fs_inv (fs\<lparr>openFileList := l\<rparr>) d = fs_inv fs d" "files (fs\<lparr>openFileList := l\<rparr>) d = files fs d"
    by (simp_all add: fs_inv_def sys_inv_def fun_eq_iff files_def)
qed

section \<open>Properties\<close>

text \<open>
  \<^verbatim>\<open>Create\<close> succeeds exactly when the name is new, the directory has fewer than ten files and the disk has
  free sectors for the header and the data. Then there is one more file, of the given length, and every
  other file is unchanged; otherwise the disk is unchanged. The disk stays a consistent file system.
\<close>

lemma Create_refines:
  assumes "fs_inv fs d" and "wf_garbage g" and "int N \<le> MaxFileSize"
  shows "\<exists>ok d'. FileSystem_Create g fs name (int N) d = Inr (ok, d') \<and> fs_inv fs d' \<and>
    ok = (dkey name \<notin> dom (files fs d) \<and> card (dom (files fs d)) < 10 \<and> needed N + card (marked (disk_map fs d)) \<le> 1024) \<and>
    (if ok then \<exists>c. length c = N \<and> files fs d' = (files fs d)(dkey name \<mapsto> c) else d' = d)"
proof -
  obtain ok d' where "FileSystem_Create g fs name (int N) d = Inr (ok, d')" "fs_inv fs d'"
    "ok = (dkey name \<notin> dom (files fs d) \<and> card (dom (files fs d)) < 10 \<and> needed N + card (marked (disk_map fs d)) \<le> 1024)"
    "if ok then (\<exists>c. length c = N \<and> files fs d' = (files fs d)(dkey name \<mapsto> c)) \<and>
       card (marked (disk_map fs d')) = card (marked (disk_map fs d)) + needed N else d' = d"
    using create_step [OF assms] by blast
  then show ?thesis by (intro exI [of _ ok] exI [of _ d']) simp
qed

text \<open>
  C26: \<^verbatim>\<open>Remove\<close> succeeds exactly when there is a file of that name. Then this file is gone, all others are
  unchanged, and exactly the sectors of its header and of its data are free again.
\<close>

theorem Remove_refines:
  assumes "fs_inv fs d" and "wf_garbage g"
  shows "case dir_map (disk_dir fs d) (dkey name) of
      None \<Rightarrow> FileSystem_Remove g fs name d = Inr (False, d)
    | Some s \<Rightarrow> \<exists>d'. FileSystem_Remove g fs name d = Inr (True, d') \<and> fs_inv fs d' \<and>
        files fs d' = (files fs d)(dkey name := None) \<and> marked (disk_map fs d') = marked (disk_map fs d) - file_secs d s"
  using fs_Remove_fails [OF assms] fs_Remove_ok [OF assms] by (auto split: option.split)

text \<open>
  C3: whatever files are created, removed and written one after the other, no operation stops the kernel,
  the disk stays a consistent file system, and the operations do to the files what the
  specification of a map from names to byte sequences allows.
\<close>

theorem file_system_refines:
  assumes "fs_inv fs d" and "wf_garbage g" and "\<forall>x \<in> set xs. op_fits x"
  shows "\<exists>d'. fs_run g fs xs d = Inr d' \<and> fs_inv fs d' \<and> abs_steps (files fs d) xs (files fs d')"
  using run_steps [OF assms] .

text \<open>
  C28: formatting any disk gives a consistent file system with exactly the files \<^verbatim>\<open>stdin\<close> and \<^verbatim>\<open>stdout\<close>, of two and
  three bytes, both open, in the first two places of the list of open files.
\<close>

theorem format_establishes:
  assumes g: "wf_garbage g" and d: "wf_dsk d"
  shows "\<exists>fs d' f0 f1 c0 c1. FileSystem_FileSystem g True d = Inr (fs, d') \<and> fs_inv fs d' \<and>
    files fs d' = [stdin_name \<mapsto> c0, stdout_name \<mapsto> c1] \<and> length c0 = 2 \<and> length c1 = 3 \<and>
    openFileList fs = Some f0 # Some f1 # replicate 8 None \<and> content (hdr f0) d' = c0 \<and> content (hdr f1) d' = c1"
proof -
  obtain mf df d1 where f: "format_disk g d = Inr (mf, df, d1)" and inv: "\<forall>l. fs_inv \<lparr>openFileList = l, freeMapFile = mf, directoryFile = df\<rparr> d1 \<and>
      files \<lparr>openFileList = l, freeMapFile = mf, directoryFile = df\<rparr> d1 = Map.empty \<and>
      card (marked (disk_map \<lparr>openFileList = l, freeMapFile = mf, directoryFile = df\<rparr> d1)) = 4"
    using format_ok [OF g d] by blast
  define fs where "fs = \<lparr>openFileList = replicate 10 None, freeMapFile = mf, directoryFile = df\<rparr>"
  have i1: "fs_inv fs d1" "files fs d1 = Map.empty" "card (marked (disk_map fs d1)) = 4" using inv by (simp_all add: fs_def)
  have nd: "needed 2 = 2" "needed 3 = 2" by (simp_all add: needed_def divRoundUp_def SectorSize_def)
  have mx: "int 2 \<le> MaxFileSize" "int 3 \<le> MaxFileSize" by (simp_all add: MaxFileSize_def NumDirect_def SectorSize_def)
  have ks: "dkey stdin_name = stdin_name" "dkey stdout_name = stdout_name" "stdin_name \<noteq> stdout_name"
    by (simp_all add: dkey_def stdin_name_def stdout_name_def cstr_def FileNameMaxLen_def)
  obtain d2 c0 where c0: "FileSystem_Create g fs stdin_name 2 d1 = Inr (True, d2)" "fs_inv fs d2" "length c0 = 2"
    "files fs d2 = [stdin_name \<mapsto> c0]" "card (marked (disk_map fs d2)) = 6"
    using create_step [OF i1(1) g mx(1), of stdin_name] i1 nd ks by auto
  obtain d3 c1 where c1: "FileSystem_Create g fs stdout_name 3 d2 = Inr (True, d3)" "fs_inv fs d3" "length c1 = 3"
    "files fs d3 = [stdin_name \<mapsto> c0, stdout_name \<mapsto> c1]"
    using create_step [OF c0(2) g mx(2), of stdout_name] c0 nd ks by auto
  obtain s0 where s0: "dir_map (disk_dir fs d3) stdin_name = Some s0" "content (file_hdr d3 s0) d3 = c0"
    using fun_cong [OF c1(4), of stdin_name] ks(3) by (auto simp: files_def)
  obtain s1 where s1: "dir_map (disk_dir fs d3) stdout_name = Some s1" "content (file_hdr d3 s1) d3 = c1"
    using fun_cong [OF c1(4), of stdout_name] by (auto simp: files_def)
  define f0 f1 where "f0 = \<lparr>hdr = file_hdr d3 s0, fileID = s0, ftype = 2, seekPosition = 0\<rparr>"
    and "f1 = \<lparr>hdr = file_hdr d3 s1, fileID = s1, ftype = 3, seekPosition = 0\<rparr>"
  have o: "FileSystem_Open g fs stdin_name 2 d3 = Inr (Some f0)" "FileSystem_Open g fs stdout_name 3 d3 = Inr (Some f1)"
    using fs_Open_ok [OF c1(2) g] s0(1) s1(1) ks by (simp_all add: f0_def f1_def)
  let ?fs = "fs\<lparr>openFileList := Some f0 # Some f1 # replicate 8 None\<rparr>"
  have "FileSystem_FileSystem g True d = Inr (?fs, d3)"
    using f c0(1) c1(1) o by (simp add: FileSystem_FileSystem_def fs_def [symmetric]) (simp add: fs_def numeral_eq_Suc)
  moreover have "fs_inv ?fs d3" "files ?fs d3 = files fs d3"
    using c1(2) by (simp_all add: open_list_irrelevant)
  ultimately show ?thesis using c0(3) c1(3,4) s0(2) s1(2)
    by (intro exI [of _ ?fs] exI [of _ d3] exI [of _ f0] exI [of _ f1] exI [of _ c0] exI [of _ c1]) (simp add: f0_def f1_def)
qed

section \<open>A formatted disk\<close>

definition demo_garbage :: garbage where
  "demo_garbage = \<lparr>g_hdr = demo_hdr, g_word = \<lambda>_. 5,
     g_entry = \<lambda>_. \<lparr>inUse = True, pad1 = [1, 2, 3], dsector = 0, dname = replicate 10 7, pad2 = [4, 5]\<rparr>,
     g_byte = \<lambda>_. 9, g_type = 0\<rparr>"

lemma wf_demo_garbage: "wf_garbage demo_garbage"
  by (auto simp: wf_garbage_def demo_garbage_def demo_hdr_def wf_entry_def in_int_def)

lemma demo_fs:
  obtains fs d where "format_disk demo_garbage demo_dsk = Inr (freeMapFile fs, directoryFile fs, d)" "fs_inv fs d" "files fs d = Map.empty"
    "card (marked (disk_map fs d)) = 4"
proof -
  obtain mf df d where "format_disk demo_garbage demo_dsk = Inr (mf, df, d)"
    "\<forall>l. fs_inv \<lparr>openFileList = l, freeMapFile = mf, directoryFile = df\<rparr> d \<and>
      files \<lparr>openFileList = l, freeMapFile = mf, directoryFile = df\<rparr> d = Map.empty \<and>
      card (marked (disk_map \<lparr>openFileList = l, freeMapFile = mf, directoryFile = df\<rparr> d)) = 4"
    using format_ok [OF wf_demo_garbage wf_demo(2)] by blast
  then show thesis using that [of "\<lparr>openFileList = [], freeMapFile = mf, directoryFile = df\<rparr>" d] by simp
qed

lemma Remove_refines_witness: "\<exists>fs d. fs_inv fs d \<and> FileSystem_Remove demo_garbage fs [104, 105] d = Inr (False, d)"
proof -
  obtain fs d where f: "fs_inv fs d" "files fs d = Map.empty" using demo_fs by metis
  then have "dir_map (disk_dir fs d) (dkey [104, 105]) = None" using dom_files [of fs d] by auto
  then show ?thesis using Remove_refines [OF f(1) wf_demo_garbage, of "[104, 105]"] f(1) by auto
qed

lemma file_system_refines_witness:
  "\<exists>fs d d'. files fs d = Map.empty \<and> fs_run demo_garbage fs [Create_op [104, 105] 600, Write_op [104, 105] 590 [1, 2, 3], Remove_op [106]] d = Inr d'"
proof -
  obtain fs d where f: "fs_inv fs d" "files fs d = Map.empty" using demo_fs by metis
  have "\<forall>x \<in> set [Create_op [104, 105] 600, Write_op [104, 105] 590 [1, 2, 3], Remove_op [106]]. op_fits x"
    by (simp add: op_fits_def MaxFileSize_def NumDirect_def SectorSize_def)
  from file_system_refines [OF f(1) wf_demo_garbage this] f(2) show ?thesis by blast
qed

lemma format_establishes_witness: "\<exists>fs d'. FileSystem_FileSystem demo_garbage True demo_dsk = Inr (fs, d') \<and> fs_inv fs d'"
  using format_establishes [OF wf_demo_garbage wf_demo(2)] by blast

end
