(* ===== verification/Processes.thy ===== *)
theory Processes
  imports Threads
begin

text \<open>
  Processes and user semaphores: \<^verbatim>\<open>userprog/pcb.{h,cc}\<close> and \<^verbatim>\<open>userprog/table.{h,cc}\<close>. The operations are
  given from the calling thread's point of view. A call of \<^verbatim>\<open>Semaphore::P\<close> that cannot pass puts the
  thread into the semaphore's queue, as in the theory \<open>Threads\<close>, and the operation ends with \<open>WaitsAt\<close>;
  what it does when the thread runs again and tests the semaphore once more is a definition of its own. The
  clock and the interrupts inside these calls are those of the theory \<open>Threads\<close> and left out here.
  Addresses of new objects are arguments.
\<close>

section \<open>State\<close>

definition MAXPROCESS :: nat where "MAXPROCESS = 10"
definition MAX_SEMAPHORES :: nat where "MAX_SEMAPHORES = 10"

record PCB =
  joinsem :: sid
  exitsem :: sid
  mutex :: sid
  exitcode :: int
  pthread :: "tid option"
  pid :: int
  numwait :: int
  parentID :: int
  JoinStatus :: int

text \<open>A pointer to a \<^verbatim>\<open>PCB\<close>. Deleting the object does not change the pointer: it dangles.\<close>

datatype pcb_ptr = PNull | PLive PCB | PFreed

record PTable =
  pt_bm :: BitMap
  pt_pcb :: "pcb_ptr list"
  psize :: int
  bmsem :: sid

record STable =
  semTab :: "sid option list"
  st_bm :: BitMap

record procs =
  kn :: kernel
  processTab :: PTable
  semaphoreTable :: STable

text \<open>How an operation can end for the calling thread.\<close>

datatype ('a, 's) out =
    Ret 'a 's          \<comment> \<open>it returns\<close>
  | WaitsAt sid 's     \<comment> \<open>it sleeps in \<^verbatim>\<open>P\<close> of a semaphore\<close>
  | NeedsInput 's      \<comment> \<open>it waits for the keyboard\<close>
  | Yields 's          \<comment> \<open>it gives up the processor and goes on later\<close>
  | Halts 's           \<comment> \<open>the machine is halted\<close>

fun bindW :: "('a, 's) out result \<Rightarrow> ('a \<Rightarrow> 's \<Rightarrow> ('b, 's) out result) \<Rightarrow> ('b, 's) out result" where
  "bindW (Inl e) f = Inl e"
| "bindW (Inr (Ret x s)) f = f x s"
| "bindW (Inr (WaitsAt sm s)) f = Inr (WaitsAt sm s)"
| "bindW (Inr (NeedsInput s)) f = Inr (NeedsInput s)"
| "bindW (Inr (Yields s)) f = Inr (Yields s)"
| "bindW (Inr (Halts s)) f = Inr (Halts s)"

definition ret :: "'a \<Rightarrow> 's \<Rightarrow> ('a, 's) out result" where
  "ret x s = Inr (Ret x s)"

text \<open>\<^verbatim>\<open>P\<close> and \<^verbatim>\<open>V\<close>. A thread that sleeps in \<^verbatim>\<open>P\<close> tests the value again when it runs again.\<close>

definition sem_P :: "sid \<Rightarrow> 'a procs_scheme \<Rightarrow> (unit, 'a procs_scheme) out result" where
  "sem_P sm s = bindR (get_sem (kn s) sm) (\<lambda>S.
     if svalue S = 0 then
       bindR (upd_thread (currentThread (kn s)) (\<lambda>x. x\<lparr>tstatus := BLOCKED\<rparr>)
         (set_sem sm (S\<lparr>queue := queue S @ [currentThread (kn s)]\<rparr>) (kn s))) (\<lambda>k. Inr (WaitsAt sm (s\<lparr>kn := k\<rparr>)))
     else ret () (s\<lparr>kn := set_sem sm (S\<lparr>svalue := svalue S - 1\<rparr>) (kn s)\<rparr>))"

definition sem_V :: "sid \<Rightarrow> 'a procs_scheme \<Rightarrow> (unit, 'a procs_scheme) out result" where
  "sem_V sm s = bindR (v_body sm (kn s)) (\<lambda>k. ret () (s\<lparr>kn := k\<rparr>))"

definition new_sem :: "sid \<Rightarrow> string \<Rightarrow> int \<Rightarrow> 'a procs_scheme \<Rightarrow> 'a procs_scheme" where
  "new_sem sm name v s = s\<lparr>kn := set_sem sm (Semaphore_Semaphore name v) (kn s)\<rparr>"

definition delete_sem :: "sid \<Rightarrow> 'a procs_scheme \<Rightarrow> 'a procs_scheme" where
  "delete_sem sm s = s\<lparr>kn := (kn s)\<lparr>sems := (sems (kn s))(sm := None)\<rparr>\<rparr>"

definition GetProcessID :: "'a procs_scheme \<Rightarrow> int result" where
  "GetProcessID s = bindR (get_thread (kn s) (currentThread (kn s))) (\<lambda>x. Inr (threadID x))"

section \<open>Process control blocks\<close>

text \<open>\<open>(j, e, m)\<close> are the addresses of the three new semaphores.\<close>

definition PCB_PCB :: "sid \<times> sid \<times> sid \<Rightarrow> int \<Rightarrow> 'a procs_scheme \<Rightarrow> (PCB \<times> 'a procs_scheme) result" where
  "PCB_PCB sms i s = (let (j, e, m) = sms in
     let s1 = new_sem m ''Mutex'' 1 (new_sem e ''ExitSem'' 0 (new_sem j ''JoinSem'' 0 s)) in
     bindR (if i \<noteq> 0 then GetProcessID s1 else Inr 0) (\<lambda>parent.
     Inr (\<lparr>joinsem = j, exitsem = e, mutex = m, exitcode = 0, pthread = None, pid = i, numwait = 0,
           parentID = parent, JoinStatus = -1\<rparr>, s1)))"

definition delete_PCB :: "PCB \<Rightarrow> 'a procs_scheme \<Rightarrow> 'a procs_scheme" where
  "delete_PCB p s = delete_sem (mutex p) (delete_sem (exitsem p) (delete_sem (joinsem p) s))"

definition get_pcb :: "'a procs_scheme \<Rightarrow> int \<Rightarrow> PCB result" where
  "get_pcb s i = bindR (rd (pt_pcb (processTab s)) i) (\<lambda>p. case p of PLive q \<Rightarrow> Inr q | _ \<Rightarrow> Inl BadPointer)"

definition set_pcb :: "int \<Rightarrow> pcb_ptr \<Rightarrow> 'a procs_scheme \<Rightarrow> 'a procs_scheme result" where
  "set_pcb i p s = bindR (wr (pt_pcb (processTab s)) i p) (\<lambda>l. Inr (s\<lparr>processTab := (processTab s)\<lparr>pt_pcb := l\<rparr>\<rparr>))"

definition upd_pcb :: "int \<Rightarrow> (PCB \<Rightarrow> PCB) \<Rightarrow> 'a procs_scheme \<Rightarrow> 'a procs_scheme result" where
  "upd_pcb i f s = bindR (get_pcb s i) (\<lambda>p. set_pcb i (PLive (f p)) s)"

definition SetExitCode :: "int \<Rightarrow> PCB \<Rightarrow> PCB" where
  "SetExitCode ec p = p\<lparr>exitcode := ec\<rparr>"

definition IncNumWait :: "PCB \<Rightarrow> PCB" where
  "IncNumWait p = p\<lparr>numwait := numwait p + 1\<rparr>"

definition DecNumWait :: "PCB \<Rightarrow> PCB" where
  "DecNumWait p = (if numwait p \<noteq> 0 then p\<lparr>numwait := numwait p - 1\<rparr> else p)"

definition GetNameThread :: "'a procs_scheme \<Rightarrow> PCB \<Rightarrow> string result" where
  "GetNameThread s p = (case pthread p of None \<Rightarrow> Inl BadPointer
     | Some t \<Rightarrow> bindR (get_thread (kn s) t) (\<lambda>x. Inr (tname x)))"

definition JoinWait :: "int \<Rightarrow> 'a procs_scheme \<Rightarrow> (unit, 'a procs_scheme) out result" where
  "JoinWait i s = bindR (get_pcb s i) (\<lambda>p.
     bindR (set_pcb i (PLive (IncNumWait (p\<lparr>JoinStatus := parentID p\<rparr>))) s) (\<lambda>s1. sem_P (joinsem p) s1))"

definition JoinRelease :: "int \<Rightarrow> 'a procs_scheme \<Rightarrow> (unit, 'a procs_scheme) out result" where
  "JoinRelease i s = bindR (get_pcb s i) (\<lambda>p.
     bindR (set_pcb i (PLive (DecNumWait p)) s) (\<lambda>s1. sem_V (joinsem p) s1))"

definition ExitWait :: "int \<Rightarrow> 'a procs_scheme \<Rightarrow> (unit, 'a procs_scheme) out result" where
  "ExitWait i s = bindR (get_pcb s i) (\<lambda>p. sem_P (exitsem p) s)"

definition ExitRelease :: "int \<Rightarrow> 'a procs_scheme \<Rightarrow> (unit, 'a procs_scheme) out result" where
  "ExitRelease i s = bindR (get_pcb s i) (\<lambda>p. sem_V (exitsem p) s)"

text \<open>\<^verbatim>\<open>Thread::Fork\<close>: the thread gets a stack and becomes ready.\<close>

definition fork_thread :: "tid \<Rightarrow> 'a procs_scheme \<Rightarrow> 'a procs_scheme result" where
  "fork_thread t s = bindR (bindR (upd_thread t StackAllocate (kn s)) (ReadyToRun t)) (\<lambda>k. Inr (s\<lparr>kn := k\<rparr>))"

text \<open>\<open>t\<close> is the address of the new thread and \<open>junk\<close> what its register array holds.\<close>

definition PCB_Exec :: "tid \<Rightarrow> u32 list \<Rightarrow> int \<Rightarrow> string \<Rightarrow> int \<Rightarrow> 'a procs_scheme \<Rightarrow> (int, 'a procs_scheme) out result" where
  "PCB_Exec t junk i filename pID s = bindR (get_pcb s i) (\<lambda>p.
     bindW (sem_P (mutex p) s) (\<lambda>_ s1.
     bindR (set_pcb i (PLive (p\<lparr>pthread := Some t\<rparr>))
       (s1\<lparr>kn := (kn s1)\<lparr>threads := (threads (kn s1))(t \<mapsto> (Thread_Thread junk filename 0)\<lparr>threadID := pID\<rparr>)\<rparr>\<rparr>)) (\<lambda>s2.
     bindR (fork_thread t s2) (\<lambda>s3.
     bindW (sem_V (mutex p) s3) (\<lambda>_ s4. ret pID s4)))))"

section \<open>The process table\<close>

definition PTable_PTable :: "(nat \<Rightarrow> u32) \<Rightarrow> sid \<Rightarrow> sid \<times> sid \<times> sid \<Rightarrow> tid \<Rightarrow> u32 list \<Rightarrow> int \<Rightarrow> 'a procs_scheme \<Rightarrow> 'a procs_scheme result" where
  "PTable_PTable jw bs sms t junk sz s =
     bindR (BitMap_BitMap jw sz) (\<lambda>b.
     let s1 = new_sem bs ''BMsem'' 1 s in
     bindR (PCB_PCB sms 0 s1) (\<lambda>(p, s2).
     bindR (BitMap_Mark b 0) (\<lambda>b1.
     Inr (s2\<lparr>kn := (kn s2)\<lparr>threads := (threads (kn s2))(t \<mapsto> Thread_Thread junk ''main'' 0), currentThread := t\<rparr>,
       processTab := \<lparr>pt_bm = b1, pt_pcb = PLive p # replicate (MAXPROCESS - 1) PNull, psize = sz, bmsem = bs\<rparr>\<rparr>))))"

text \<open>The destructor leaves the process control blocks alone.\<close>

definition delete_PTable :: "'a procs_scheme \<Rightarrow> 'a procs_scheme" where
  "delete_PTable s = delete_sem (bmsem (processTab s)) s"

definition PTable_GetFreeSlot :: "'a procs_scheme \<Rightarrow> (int \<times> 'a procs_scheme) result" where
  "PTable_GetFreeSlot s = bindR (BitMap_FindFreeSlot (pt_bm (processTab s))) (\<lambda>(i, b).
     Inr (i, s\<lparr>processTab := (processTab s)\<lparr>pt_bm := b\<rparr>\<rparr>))"

definition IsExist :: "'a procs_scheme \<Rightarrow> int \<Rightarrow> bool result" where
  "IsExist s i = (if i < 0 \<or> i > 9 then Inr False else BitMap_Test (pt_bm (processTab s)) i)"

text \<open>Without a process of that number the function ends without returning a value.\<close>

definition PTable_GetName :: "'a procs_scheme \<Rightarrow> int \<Rightarrow> string result" where
  "PTable_GetName s i = bindR (if i \<ge> 0 \<and> i < 10 then BitMap_Test (pt_bm (processTab s)) i else Inr False) (\<lambda>e.
     if e then bindR (get_pcb s i) (GetNameThread s) else Inl BadPointer)"

definition PTable_Remove :: "int \<Rightarrow> 'a procs_scheme \<Rightarrow> 'a procs_scheme result" where
  "PTable_Remove i s = (if i < 0 \<or> i > 9 then Inr s
     else bindR (BitMap_Test (pt_bm (processTab s)) i) (\<lambda>e.
     if e then bindR (BitMap_Clear (pt_bm (processTab s)) i) (\<lambda>b.
       bindR (get_pcb s i) (\<lambda>p.
       set_pcb i PFreed (delete_PCB p (s\<lparr>processTab := (processTab s)\<lparr>pt_bm := b\<rparr>\<rparr>))))
     else Inr s))"

text \<open>
  \<open>found\<close> is whether \<^verbatim>\<open>fileSystem->Open(filename)\<close> finds the file. When the semaphore \<^verbatim>\<open>bmsem\<close> does not let
  the thread pass, nothing else has happened yet and the call starts again.
\<close>

definition ExecUpdate :: "bool \<Rightarrow> sid \<times> sid \<times> sid \<Rightarrow> tid \<Rightarrow> u32 list \<Rightarrow> string \<Rightarrow> 'a procs_scheme \<Rightarrow> (int, 'a procs_scheme) out result" where
  "ExecUpdate found sms t junk filename s = (let bs = bmsem (processTab s) in
     bindW (sem_P bs s) (\<lambda>_ s1.
     if \<not> found then bindW (sem_V bs s1) (\<lambda>_ s2. ret (-1) s2)
     else bindR (get_thread (kn s1) (currentThread (kn s1))) (\<lambda>x.
     if filename = tname x then bindW (sem_V bs s1) (\<lambda>_ s2. ret (-1) s2)
     else bindR (PTable_GetFreeSlot s1) (\<lambda>(i, s2).
     if i = -1 then bindW (sem_V bs s2) (\<lambda>_ s3. ret (-1) s3)
     else bindR (PCB_PCB sms i s2) (\<lambda>(p, s3).
     bindR (set_pcb i (PLive p) s3) (\<lambda>s4.
     bindR (BitMap_Mark (pt_bm (processTab s4)) i) (\<lambda>b.
     bindW (PCB_Exec t junk i filename i (s4\<lparr>processTab := (processTab s4)\<lparr>pt_bm := b\<rparr>\<rparr>)) (\<lambda>pID s5.
     bindW (sem_V bs s5) (\<lambda>_ s6. ret pID s6)))))))))"

text \<open>The end of \<^verbatim>\<open>ExitUpdate\<close>, after \<^verbatim>\<open>ExitWait\<close>.\<close>

definition exit_rest :: "int \<Rightarrow> int \<Rightarrow> 'a procs_scheme \<Rightarrow> (int, 'a procs_scheme) out result" where
  "exit_rest i ec s = bindR (PTable_Remove i s) (\<lambda>s1. ret ec s1)"

definition ExitUpdate :: "int \<Rightarrow> 'a procs_scheme \<Rightarrow> (int, 'a procs_scheme) out result" where
  "ExitUpdate ec s = bindR (GetProcessID s) (\<lambda>i.
     bindR (IsExist s i) (\<lambda>e.
     if \<not> e then ret (-1) s
     else if i = 0 then Inr (Halts s)
     else bindR (upd_pcb i (SetExitCode ec) s) (\<lambda>s1.
     bindR (get_pcb s1 i) (\<lambda>p.
     if JoinStatus p \<noteq> -1 then bindW (JoinRelease i s1) (\<lambda>_ s2. bindW (ExitWait i s2) (\<lambda>_ s3. exit_rest i ec s3))
     else exit_rest i ec s1))))"

definition exit_resume :: "int \<Rightarrow> int \<Rightarrow> 'a procs_scheme \<Rightarrow> (int, 'a procs_scheme) out result" where
  "exit_resume i ec s = bindW (ExitWait i s) (\<lambda>_ s1. exit_rest i ec s1)"

text \<open>The end of \<^verbatim>\<open>JoinUpdate\<close>, after \<^verbatim>\<open>JoinWait\<close>.\<close>

definition join_rest :: "int \<Rightarrow> 'a procs_scheme \<Rightarrow> (int, 'a procs_scheme) out result" where
  "join_rest i s = bindR (get_pcb s i) (\<lambda>p.
     if exitcode p \<noteq> 0 then ret (-1) s else bindW (ExitRelease i s) (\<lambda>_ s1. ret 0 s1))"

definition JoinUpdate :: "int \<Rightarrow> 'a procs_scheme \<Rightarrow> (int, 'a procs_scheme) out result" where
  "JoinUpdate i s = (if i \<le> 0 \<or> i > 9 then ret (-1) s
     else bindR (rd (pt_pcb (processTab s)) i) (\<lambda>ptr.
     if ptr = PNull then ret (-1) s
     else bindR (get_pcb s i) (\<lambda>p. bindR (GetProcessID s) (\<lambda>me.
     if me \<noteq> parentID p then ret (-1) s
     else bindW (JoinWait i s) (\<lambda>_ s1. join_rest i s1)))))"

definition join_resume :: "int \<Rightarrow> 'a procs_scheme \<Rightarrow> (int, 'a procs_scheme) out result" where
  "join_resume i s = bindR (get_pcb s i) (\<lambda>p. bindW (sem_P (joinsem p) s) (\<lambda>_ s1. join_rest i s1))"

section \<open>The table of user semaphores\<close>

definition STable_STable :: "(nat \<Rightarrow> u32) \<Rightarrow> 'a procs_scheme \<Rightarrow> 'a procs_scheme result" where
  "STable_STable jw s = bindR (BitMap_BitMap jw (int MAX_SEMAPHORES)) (\<lambda>b.
     Inr (s\<lparr>semaphoreTable := \<lparr>semTab = replicate MAX_SEMAPHORES None, st_bm = b\<rparr>\<rparr>))"

definition delete_STable :: "'a procs_scheme \<Rightarrow> 'a procs_scheme" where
  "delete_STable s = fold (\<lambda>ptr s. case ptr of None \<Rightarrow> s | Some sm \<Rightarrow> delete_sem sm s) (semTab (semaphoreTable s)) s"

definition sem_name :: "'a procs_scheme \<Rightarrow> sid option \<Rightarrow> string result" where
  "sem_name s ptr = (case ptr of None \<Rightarrow> Inl BadPointer | Some sm \<Rightarrow> bindR (get_sem (kn s) sm) (\<lambda>S. Inr (sname S)))"

text \<open>The loop of \<^verbatim>\<open>Create\<close> from index \<open>i\<close>: is the name already there?\<close>

fun name_taken_from :: "'a procs_scheme \<Rightarrow> string \<Rightarrow> int \<Rightarrow> nat \<Rightarrow> bool result" where
  "name_taken_from s name i 0 = Inr False"
| "name_taken_from s name i (Suc n) =
     bindR (BitMap_Test (st_bm (semaphoreTable s)) i) (\<lambda>t.
     bindR (if t then bindR (rd (semTab (semaphoreTable s)) i) (\<lambda>p. bindR (sem_name s p) (\<lambda>nm. Inr (nm = name))) else Inr False) (\<lambda>same.
     if same then Inr True else name_taken_from s name (i + 1) n))"

definition STable_GetFreeSlot :: "'a procs_scheme \<Rightarrow> (int \<times> 'a procs_scheme) result" where
  "STable_GetFreeSlot s = bindR (BitMap_FindFreeSlot (st_bm (semaphoreTable s))) (\<lambda>(i, b).
     Inr (i, s\<lparr>semaphoreTable := (semaphoreTable s)\<lparr>st_bm := b\<rparr>\<rparr>))"

definition STable_Create :: "sid \<Rightarrow> string \<Rightarrow> int \<Rightarrow> 'a procs_scheme \<Rightarrow> (int, 'a procs_scheme) out result" where
  "STable_Create sm name init s =
     bindR (name_taken_from s name 0 MAX_SEMAPHORES) (\<lambda>taken.
     if taken then ret (-1) s
     else bindR (STable_GetFreeSlot s) (\<lambda>(i, s1).
     if i = -1 then ret (-1) s1
     else bindR (wr (semTab (semaphoreTable s1)) i (Some sm)) (\<lambda>l.
     bindR (BitMap_Mark (st_bm (semaphoreTable s1)) i) (\<lambda>b.
     ret i ((new_sem sm name init s1)\<lparr>semaphoreTable := \<lparr>semTab = l, st_bm = b\<rparr>\<rparr>)))))"

text \<open>The loop of \<^verbatim>\<open>Wait\<close> and \<^verbatim>\<open>Signal\<close> from index \<open>i\<close>.\<close>

fun find_sem_from :: "'a procs_scheme \<Rightarrow> string \<Rightarrow> int \<Rightarrow> nat \<Rightarrow> int result" where
  "find_sem_from s name i 0 = Inr (-1)"
| "find_sem_from s name i (Suc n) =
     bindR (rd (semTab (semaphoreTable s)) i) (\<lambda>p.
     bindR (if p \<noteq> None then bindR (sem_name s p) (\<lambda>nm. Inr (nm = name)) else Inr False) (\<lambda>same.
     if same then Inr i else find_sem_from s name (i + 1) n))"

definition sem_at :: "'a procs_scheme \<Rightarrow> int \<Rightarrow> sid result" where
  "sem_at s i = bindR (rd (semTab (semaphoreTable s)) i) (\<lambda>p. case p of None \<Rightarrow> Inl BadPointer | Some sm \<Rightarrow> Inr sm)"

definition STable_Wait :: "string \<Rightarrow> 'a procs_scheme \<Rightarrow> (int, 'a procs_scheme) out result" where
  "STable_Wait name s = bindR (find_sem_from s name 0 MAX_SEMAPHORES) (\<lambda>i.
     if i = -1 then ret (-1) s
     else bindR (sem_at s i) (\<lambda>sm. bindW (sem_P sm s) (\<lambda>_ s1. ret 0 s1)))"

definition STable_Signal :: "string \<Rightarrow> 'a procs_scheme \<Rightarrow> (int, 'a procs_scheme) out result" where
  "STable_Signal name s = bindR (find_sem_from s name 0 MAX_SEMAPHORES) (\<lambda>i.
     if i = -1 then ret (-1) s
     else bindR (sem_at s i) (\<lambda>sm. bindW (sem_V sm s) (\<lambda>_ s1. ret 0 s1)))"

section \<open>Semaphores and pointers\<close>

lemma upd_order [simp]: "s\<lparr>processTab := a, kn := b\<rparr> = s\<lparr>kn := b, processTab := a\<rparr>" for s :: "'a procs_scheme"
  by (cases s) simp

lemma upd_order_ptable [simp]: "T\<lparr>pt_pcb := a, pt_bm := b\<rparr> = T\<lparr>pt_bm := b, pt_pcb := a\<rparr>" for T :: PTable
  by simp

lemma upd_order_kernel [simp]:
  "k\<lparr>sems := a, threads := b\<rparr> = k\<lparr>threads := b, sems := a\<rparr>" "k\<lparr>sems := a, readyList := c\<rparr> = k\<lparr>readyList := c, sems := a\<rparr>"
  "k\<lparr>readyList := c, threads := b\<rparr> = k\<lparr>threads := b, readyList := c\<rparr>" for k :: "'a kernel_scheme"
  by (cases k; simp)+

lemma bindW_ret [simp]: "bindW (ret x s) f = f x s"
  by (simp add: ret_def)

lemma sem_P_pass:
  "sems (kn s) sm = Some S \<Longrightarrow> svalue S \<noteq> 0 \<Longrightarrow>
   sem_P sm s = ret () (s\<lparr>kn := set_sem sm (S\<lparr>svalue := svalue S - 1\<rparr>) (kn s)\<rparr>)"
  by (simp add: sem_P_def get_sem_def)

lemma sem_P_wait:
  "sems (kn s) sm = Some S \<Longrightarrow> svalue S = 0 \<Longrightarrow> threads (kn s) (currentThread (kn s)) = Some x \<Longrightarrow>
   sem_P sm s = Inr (WaitsAt sm (s\<lparr>kn := (kn s)\<lparr>threads := (threads (kn s))(currentThread (kn s) \<mapsto> x\<lparr>tstatus := BLOCKED\<rparr>),
     sems := (sems (kn s))(sm \<mapsto> S\<lparr>queue := queue S @ [currentThread (kn s)]\<rparr>)\<rparr>\<rparr>))"
  by (simp add: sem_P_def get_sem_def upd_thread_def get_thread_def set_sem_def)

lemma sem_V_free:
  "sems (kn s) sm = Some S \<Longrightarrow> queue S = [] \<Longrightarrow>
   sem_V sm s = ret () (s\<lparr>kn := set_sem sm (S\<lparr>svalue := svalue S + 1\<rparr>) (kn s)\<rparr>)"
  by (simp add: sem_V_def v_body_def get_sem_def)

lemma sem_V_wake:
  "sems (kn s) sm = Some S \<Longrightarrow> queue S = t # ts \<Longrightarrow> threads (kn s) t = Some x \<Longrightarrow>
   sem_V sm s = ret () (s\<lparr>kn := (kn s)\<lparr>threads := (threads (kn s))(t \<mapsto> x\<lparr>tstatus := READY\<rparr>), readyList := readyList (kn s) @ [t],
     sems := (sems (kn s))(sm \<mapsto> S\<lparr>queue := ts, svalue := svalue S + 1\<rparr>)\<rparr>\<rparr>)"
  by (simp add: sem_V_def v_body_def get_sem_def ReadyToRun_def upd_thread_def get_thread_def set_sem_def)

lemma get_pcb_live: "pt_pcb (processTab s) ! n = PLive p \<Longrightarrow> n < length (pt_pcb (processTab s)) \<Longrightarrow> get_pcb s (int n) = Inr p"
  by (simp add: get_pcb_def)

lemma set_pcb_ok: "n < length (pt_pcb (processTab s)) \<Longrightarrow>
  set_pcb (int n) q s = Inr (s\<lparr>processTab := (processTab s)\<lparr>pt_pcb := (pt_pcb (processTab s))[n := q]\<rparr>\<rparr>)"
  by (simp add: set_pcb_def)

lemma GetProcessID_ok: "threads (kn s) (currentThread (kn s)) = Some x \<Longrightarrow> GetProcessID s = Inr (threadID x)"
  by (simp add: GetProcessID_def get_thread_def)

section \<open>The invariant of the process table\<close>

definition pcb_sems :: "PCB \<Rightarrow> sid list" where
  "pcb_sems p = [joinsem p, exitsem p, mutex p]"

definition live :: "'a procs_scheme \<Rightarrow> nat \<Rightarrow> PCB option" where
  "live s n = (if n < length (pt_pcb (processTab s)) then case pt_pcb (processTab s) ! n of PLive p \<Rightarrow> Some p | _ \<Rightarrow> None else None)"

text \<open>
  The bitmap says which processes exist, a process has the number of its place, and all semaphores
  of the table exist and are different objects.
\<close>

definition pt_inv :: "'a procs_scheme \<Rightarrow> bool" where
  "pt_inv s \<longleftrightarrow> wf_bitmap (pt_bm (processTab s)) \<and> capacity (pt_bm (processTab s)) = 10 \<and> length (pt_pcb (processTab s)) = 10 \<and>
     (\<forall>n. n \<in> marked (pt_bm (processTab s)) \<longleftrightarrow> live s n \<noteq> None) \<and>
     (\<forall>n p. live s n = Some p \<longrightarrow> pid p = int n \<and> distinct (pcb_sems p) \<and> set (pcb_sems p) \<subseteq> dom (sems (kn s)) \<and>
        bmsem (processTab s) \<notin> set (pcb_sems p)) \<and>
     (\<forall>n m p q. live s n = Some p \<longrightarrow> live s m = Some q \<longrightarrow> n \<noteq> m \<longrightarrow> set (pcb_sems p) \<inter> set (pcb_sems q) = {}) \<and>
     bmsem (processTab s) \<in> dom (sems (kn s)) \<and> live s 0 \<noteq> None"

lemma pt_invD:
  assumes "pt_inv s"
  shows "wf_bitmap (pt_bm (processTab s))" "capacity (pt_bm (processTab s)) = 10" "length (pt_pcb (processTab s)) = 10"
    "n \<in> marked (pt_bm (processTab s)) \<longleftrightarrow> live s n \<noteq> None"
    "live s n = Some p \<Longrightarrow> pid p = int n" "live s n = Some p \<Longrightarrow> distinct (pcb_sems p)"
    "live s n = Some p \<Longrightarrow> set (pcb_sems p) \<subseteq> dom (sems (kn s))" "live s n = Some p \<Longrightarrow> bmsem (processTab s) \<notin> set (pcb_sems p)"
    "live s n = Some p \<Longrightarrow> live s m = Some q \<Longrightarrow> n \<noteq> m \<Longrightarrow> set (pcb_sems p) \<inter> set (pcb_sems q) = {}"
    "bmsem (processTab s) \<in> dom (sems (kn s))" "live s 0 \<noteq> None"
  using assms unfolding pt_inv_def by blast+

lemma live_nth: "live s n = Some p \<Longrightarrow> n < length (pt_pcb (processTab s)) \<and> pt_pcb (processTab s) ! n = PLive p"
  by (auto simp: live_def split: if_splits pcb_ptr.splits)

lemma IsExist_ok: "pt_inv s \<Longrightarrow> n < 10 \<Longrightarrow> IsExist s (int n) = Inr (live s n \<noteq> None)"
  using bm.test_slot [of "pt_bm (processTab s)" n] pt_invD(1,2) [of s] pt_invD(4) [of s n]
  by (simp add: IsExist_def)

text \<open>Changes of the kernel that keep all semaphores do not touch the table.\<close>

lemma pt_inv_kn:
  assumes "pt_inv s" "processTab s' = processTab s" "dom (sems (kn s)) \<subseteq> dom (sems (kn s'))"
  shows "pt_inv s'"
proof -
  have "live s' = live s" using assms(2) by (auto simp: live_def)
  then show ?thesis using assms unfolding pt_inv_def by (simp only:) blast
qed

section \<open>Starting a process\<close>

definition started :: "tid \<Rightarrow> u32 list \<Rightarrow> string \<Rightarrow> int \<Rightarrow> Thread" where
  "started t junk filename i = \<lparr>tname = filename, tstatus = READY, threadID = i, stack = Some STACK_FENCEPOST,
     userRegisters = junk, space = None, kstack = [Startup, Body]\<rparr>"

definition new_pcb :: "sid \<times> sid \<times> sid \<Rightarrow> tid \<Rightarrow> int \<Rightarrow> int \<Rightarrow> PCB" where
  "new_pcb sms t i parent = (case sms of (j, e, m) \<Rightarrow> \<lparr>joinsem = j, exitsem = e, mutex = m, exitcode = 0, pthread = Some t,
     pid = i, numwait = 0, parentID = parent, JoinStatus = -1\<rparr>)"

definition new_sems :: "sid \<times> sid \<times> sid \<Rightarrow> (sid \<Rightarrow> Semaphore option) \<Rightarrow> (sid \<Rightarrow> Semaphore option)" where
  "new_sems sms f = (case sms of (j, e, m) \<Rightarrow> f(j \<mapsto> Semaphore_Semaphore ''JoinSem'' 0, e \<mapsto> Semaphore_Semaphore ''ExitSem'' 0,
     m \<mapsto> Semaphore_Semaphore ''Mutex'' 1))"

lemma PCB_Exec_ok:
  assumes p: "pt_pcb (processTab s) ! n = PLive p" "n < length (pt_pcb (processTab s))"
    and m: "sems (kn s) (mutex p) = Some M" "svalue M \<noteq> 0" "queue M = []"
  shows "PCB_Exec t junk (int n) filename i s = ret i (s\<lparr>kn := (kn s)\<lparr>threads := (threads (kn s))(t \<mapsto> started t junk filename i),
      readyList := readyList (kn s) @ [t]\<rparr>, processTab := (processTab s)\<lparr>pt_pcb := (pt_pcb (processTab s))[n := PLive (p\<lparr>pthread := Some t\<rparr>)]\<rparr>\<rparr>)"
proof -
  have e: "(sems (kn s))(mutex p \<mapsto> M) = sems (kn s)" using m(1) by auto
  show ?thesis
    using p m e
    by (simp add: PCB_Exec_def get_pcb_live sem_P_pass set_pcb_ok fork_thread_def upd_thread_def get_thread_def ReadyToRun_def
        StackAllocate_def Thread_Thread_def set_sem_def sem_V_free started_def)
qed

lemma ExecUpdate_starts:
  assumes inv: "pt_inv s" and S: "sems (kn s) (bmsem (processTab s)) = Some S" "svalue S \<noteq> 0" "queue S = []"
    and x: "threads (kn s) (currentThread (kn s)) = Some x" "filename \<noteq> tname x" and free: "marked (pt_bm (processTab s)) \<noteq> {..<10}"
    and sms: "sms = (j, e, m)" "distinct [j, e, m]" "{j, e, m} \<inter> dom (sems (kn s)) = {}"
  shows "\<exists>n b. n < 10 \<and> live s n = None \<and> wf_bitmap b \<and> capacity b = 10 \<and> marked b = insert n (marked (pt_bm (processTab s))) \<and>
    ExecUpdate True sms t junk filename s = ret (int n) (s\<lparr>
      kn := (kn s)\<lparr>threads := (threads (kn s))(t \<mapsto> started t junk filename (int n)), readyList := readyList (kn s) @ [t],
        sems := new_sems sms (sems (kn s))\<rparr>,
      processTab := (processTab s)\<lparr>pt_bm := b, pt_pcb := (pt_pcb (processTab s))[n := PLive (new_pcb sms t (int n) (threadID x))]\<rparr>\<rparr>)"
proof -
  note i = pt_invD [OF inv]
  let ?T = "processTab s" and ?bs = "bmsem (processTab s)"
  obtain n b1 where n: "BitMap_Find (pt_bm ?T) = Inr (int n, b1)" "n < 10" "n \<notin> marked (pt_bm ?T)" "wf_bitmap b1" "capacity b1 = 10"
    "marked b1 = insert n (marked (pt_bm ?T))" using Find_free [OF i(1)] free i(2) by auto
  obtain b where b: "BitMap_Mark b1 (int n) = Inr b" "wf_bitmap b" "capacity b = 10" "marked b = insert n (marked (pt_bm ?T))"
    using Mark_ok [OF n(4), of n] n(2,5,6) by auto
  have ne: "?bs \<noteq> j" "?bs \<noteq> e" "?bs \<noteq> m" using S(1) sms(3) by auto
  have n0: "n \<noteq> 0" using n(3) i(4) [of 0] i(11) by (cases n) auto
  define f where "f = (sems (kn s))(?bs \<mapsto> S\<lparr>svalue := svalue S - 1\<rparr>)"
  have rb: "(new_sems sms f)(?bs \<mapsto> S) = new_sems sms (sems (kn s))"
    using S(1) ne by (auto simp: f_def new_sems_def sms(1))
  have "ExecUpdate True sms t junk filename s = ret (int n) (s\<lparr>
      kn := (kn s)\<lparr>threads := (threads (kn s))(t \<mapsto> started t junk filename (int n)), readyList := readyList (kn s) @ [t],
        sems := (new_sems sms f)(?bs \<mapsto> S)\<rparr>,
      processTab := ?T\<lparr>pt_bm := b, pt_pcb := (pt_pcb ?T)[n := PLive (new_pcb sms t (int n) (threadID x))]\<rparr>\<rparr>)"
  proof -
    define s1 where "s1 = s\<lparr>kn := (kn s)\<lparr>sems := f\<rparr>\<rparr>"
    have 1: "sem_P ?bs s = ret () s1" using sem_P_pass [OF S(1,2)] by (simp add: s1_def f_def set_sem_def)
    define s2 where "s2 = s1\<lparr>processTab := ?T\<lparr>pt_bm := b1\<rparr>\<rparr>"
    have 2: "PTable_GetFreeSlot s1 = Inr (int n, s2)" using n(1) by (simp add: PTable_GetFreeSlot_def FindFreeSlot_eq s1_def s2_def)
    define p where "p = (new_pcb sms t (int n) (threadID x))\<lparr>pthread := None\<rparr>"
    define s3 where "s3 = s2\<lparr>kn := (kn s)\<lparr>sems := new_sems sms f\<rparr>\<rparr>"
    have 3: "PCB_PCB sms (int n) s2 = Inr (p, s3)"
      using x(1) n0 by (simp add: PCB_PCB_def sms(1) new_sem_def s3_def s2_def s1_def p_def new_pcb_def new_sems_def set_sem_def GetProcessID_ok)
    define s4 where "s4 = s3\<lparr>processTab := ?T\<lparr>pt_bm := b, pt_pcb := (pt_pcb ?T)[n := PLive p]\<rparr>\<rparr>"
    have l: "n < length (pt_pcb ?T)" using n(2) i(3) by simp
    have 4: "set_pcb (int n) (PLive p) s3 = Inr (s4\<lparr>processTab := (processTab s4)\<lparr>pt_bm := b1\<rparr>\<rparr>)"
      using l by (simp add: set_pcb_ok s4_def s3_def s2_def)
    define s5 where "s5 = s4\<lparr>kn := (kn s)\<lparr>threads := (threads (kn s))(t \<mapsto> started t junk filename (int n)), readyList := readyList (kn s) @ [t],
        sems := new_sems sms f\<rparr>, processTab := ?T\<lparr>pt_bm := b, pt_pcb := (pt_pcb ?T)[n := PLive (new_pcb sms t (int n) (threadID x))]\<rparr>\<rparr>"
    have 5: "PCB_Exec t junk (int n) filename (int n) s4 = ret (int n) s5"
    proof -
      have "sems (kn s4) (mutex p) = Some (Semaphore_Semaphore ''Mutex'' 1)"
        by (simp add: s4_def s3_def p_def new_pcb_def new_sems_def sms(1))
      then show ?thesis using PCB_Exec_ok [of s4 n p] l
        by (simp add: s4_def s3_def s2_def s1_def s5_def Semaphore_Semaphore_def p_def new_pcb_def sms(1))
    qed
    have "new_sems sms f ?bs = Some (S\<lparr>svalue := svalue S - 1\<rparr>)" using ne by (simp add: new_sems_def sms(1) f_def)
    then have "sem_V ?bs s5 = ret () (s5\<lparr>kn := (kn s5)\<lparr>sems := (new_sems sms f)(?bs \<mapsto> S)\<rparr>\<rparr>)"
      using S(3) by (simp add: sem_V_free s5_def set_sem_def)
    then show ?thesis using 1 2 3 4 5 x b(1) n0
      by (simp add: ExecUpdate_def get_thread_def s1_def s4_def s5_def) (simp add: s3_def s2_def s1_def)
  qed
  then show ?thesis unfolding rb using n(2,3) b(2-4) i(4) by auto
qed

lemma ExecUpdate_refuses:
  assumes inv: "pt_inv s" and S: "sems (kn s) (bmsem (processTab s)) = Some S" "svalue S \<noteq> 0" "queue S = []"
    and x: "threads (kn s) (currentThread (kn s)) = Some x"
    and no: "\<not> found \<or> filename = tname x \<or> marked (pt_bm (processTab s)) = {..<10}"
  shows "ExecUpdate found sms t junk filename s = ret (-1) s"
proof -
  let ?bs = "bmsem (processTab s)"
  define s1 where "s1 = s\<lparr>kn := (kn s)\<lparr>sems := (sems (kn s))(?bs \<mapsto> S\<lparr>svalue := svalue S - 1\<rparr>)\<rparr>\<rparr>"
  have P: "sem_P ?bs s = ret () s1" using sem_P_pass [OF S(1,2)] by (simp add: s1_def set_sem_def)
  have "(sems (kn s))(?bs \<mapsto> S) = sems (kn s)" using S(1) by auto
  then have V: "sem_V ?bs s1 = ret () s" using S(3) by (simp add: sem_V_free s1_def set_sem_def)
  have F: "PTable_GetFreeSlot s1 = Inr (-1, s1)" if "marked (pt_bm (processTab s)) = {..<10}"
    using Find_full [OF pt_invD(1) [OF inv]] pt_invD(2) [OF inv] that by (simp add: PTable_GetFreeSlot_def FindFreeSlot_eq s1_def)
  have T: "get_thread (kn s1) (currentThread (kn s1)) = Inr x" using x by (simp add: s1_def get_thread_def)
  consider "\<not> found" | "found" "filename = tname x" | "found" "filename \<noteq> tname x" "marked (pt_bm (processTab s)) = {..<10}"
    using no by blast
  then show ?thesis
  proof cases
    case 1
    then show ?thesis using P V by (simp add: ExecUpdate_def)
  next
    case 2
    then show ?thesis using P V T by (simp add: ExecUpdate_def)
  next
    case 3
    show ?thesis unfolding ExecUpdate_def Let_def P bindW_ret T F [OF 3(3)] bindR.simps using 3(1,2) V by simp
  qed
qed

lemma pt_inv_start:
  assumes inv: "pt_inv s" and n: "n < 10" "live s n = None" and b: "wf_bitmap b" "capacity b = 10" "marked b = insert n (marked (pt_bm (processTab s)))"
    and sms: "sms = (j, e, m)" "distinct [j, e, m]" "{j, e, m} \<inter> dom (sems (kn s)) = {}"
    and s': "processTab s' = (processTab s)\<lparr>pt_bm := b, pt_pcb := (pt_pcb (processTab s))[n := PLive (new_pcb sms t (int n) par)]\<rparr>"
      "sems (kn s') = new_sems sms (sems (kn s))"
  shows "pt_inv s'" "live s' n = Some (new_pcb sms t (int n) par)"
proof -
  note i = pt_invD [OF inv]
  have l: "live s' k = (if k = n then Some (new_pcb sms t (int n) par) else live s k)" for k
    using n(1) i(3) by (simp add: live_def s'(1) nth_list_update)
  then show "live s' n = Some (new_pcb sms t (int n) par)" by simp
  have ps: "pcb_sems (new_pcb sms t (int n) par) = [j, e, m]" by (simp add: pcb_sems_def new_pcb_def sms(1))
  have d: "dom (sems (kn s')) = dom (sems (kn s)) \<union> {j, e, m}" by (auto simp: s'(2) new_sems_def sms(1))
  have old: "{j, e, m} \<inter> set (pcb_sems p) = {}" if "live s k = Some p" for k p using i(7) [OF that] sms(3) by blast
  show "pt_inv s'" unfolding pt_inv_def
  proof (intro conjI allI impI)
    show "wf_bitmap (pt_bm (processTab s'))" "capacity (pt_bm (processTab s')) = 10" "length (pt_pcb (processTab s')) = 10"
      using b(1,2) i(3) by (simp_all add: s'(1))
    show "(k \<in> marked (pt_bm (processTab s'))) = (live s' k \<noteq> None)" for k
      using b(3) i(4) [of k] by (auto simp: s'(1) l)
    show "bmsem (processTab s') \<in> dom (sems (kn s'))" using i(10) d by (simp add: s'(1))
    show "live s' 0 \<noteq> None" using i(11) by (simp add: l)
    fix k p assume "live s' k = Some p"
    then have cs: "k = n \<and> p = new_pcb sms t (int n) par \<or> k \<noteq> n \<and> live s k = Some p" by (auto simp: l split: if_splits)
    show "pid p = int k" using cs i(5) [of k p] by (auto simp: new_pcb_def sms(1))
    show "distinct (pcb_sems p)" using cs i(6) [of k p] sms(2) ps by auto
    show "set (pcb_sems p) \<subseteq> dom (sems (kn s'))" using cs i(7) [of k p] ps d by auto
    show "bmsem (processTab s') \<notin> set (pcb_sems p)"
      using cs i(8) [of k p] i(10) sms(3) ps by (auto simp: s'(1))
    fix k' q assume "live s' k' = Some q" "k \<noteq> k'"
    then have "k' = n \<and> q = new_pcb sms t (int n) par \<or> k' \<noteq> n \<and> live s k' = Some q" by (auto simp: l split: if_splits)
    then show "set (pcb_sems p) \<inter> set (pcb_sems q) = {}"
      using cs \<open>k \<noteq> k'\<close> old [of k p] old [of k' q] i(9) [of k p k' q] ps by auto
  qed
qed

section \<open>Join and exit\<close>

text \<open>The scheduler gives the processor to another thread.\<close>

definition switch_to :: "tid \<Rightarrow> 'a procs_scheme \<Rightarrow> 'a procs_scheme" where
  "switch_to t s = s\<lparr>kn := (kn s)\<lparr>currentThread := t\<rparr>\<rparr>"

text \<open>The situation of a parent, thread \<open>tp\<close>, that is about to join its child, process \<open>n\<close> with thread \<open>tc\<close>.\<close>

definition can_join :: "'a procs_scheme \<Rightarrow> tid \<Rightarrow> tid \<Rightarrow> nat \<Rightarrow> PCB \<Rightarrow> bool" where
  "can_join s tp tc n p \<longleftrightarrow> pt_inv s \<and> 0 < n \<and> n < 10 \<and> live s n = Some p \<and> tp \<noteq> tc \<and> currentThread (kn s) = tp \<and>
     (\<exists>xp. threads (kn s) tp = Some xp \<and> threadID xp = parentID p) \<and> (\<exists>xc. threads (kn s) tc = Some xc \<and> threadID xc = int n) \<and>
     parentID p \<noteq> -1 \<and> (\<exists>J. sems (kn s) (joinsem p) = Some J \<and> svalue J = 0 \<and> queue J = []) \<and>
     (\<exists>E. sems (kn s) (exitsem p) = Some E \<and> svalue E = 0 \<and> queue E = [])"

definition with_pcb :: "nat \<Rightarrow> PCB \<Rightarrow> 'a procs_scheme \<Rightarrow> 'a procs_scheme" where
  "with_pcb n p s = s\<lparr>processTab := (processTab s)\<lparr>pt_pcb := (pt_pcb (processTab s))[n := PLive p]\<rparr>\<rparr>"

lemma with_pcb_simps [simp]:
  "kn (with_pcb n p s) = kn s" "length (pt_pcb (processTab (with_pcb n p s))) = length (pt_pcb (processTab s))"
  "pt_bm (processTab (with_pcb n p s)) = pt_bm (processTab s)" "with_pcb n p (with_pcb n q s) = with_pcb n p s"
  by (simp_all add: with_pcb_def)

lemma pcb_access:
  assumes "n < length (pt_pcb (processTab s))" "processTab s = processTab (with_pcb n p s0)" "n < length (pt_pcb (processTab s0))"
  shows "get_pcb s (int n) = Inr p" "set_pcb (int n) (PLive q) s = Inr (with_pcb n q s)"
  using assms by (simp_all add: get_pcb_def set_pcb_def with_pcb_def)

lemma join_waits:
  assumes "can_join s tp tc n p"
  shows "\<exists>s1. JoinUpdate (int n) s = Inr (WaitsAt (joinsem p) s1) \<and>
    processTab s1 = processTab (with_pcb n (IncNumWait (p\<lparr>JoinStatus := parentID p\<rparr>)) s) \<and>
    (\<exists>xp. threads (kn s1) tp = Some xp) \<and> threads (kn s1) tc = threads (kn s) tc \<and> readyList (kn s1) = readyList (kn s) \<and>
    (\<exists>J. sems (kn s1) (joinsem p) = Some J \<and> svalue J = 0 \<and> queue J = [tp]) \<and> sems (kn s1) (exitsem p) = sems (kn s) (exitsem p)"
proof -
  obtain xp J where c: "pt_inv s" "0 < n" "n < 10" "live s n = Some p" "currentThread (kn s) = tp" "tp \<noteq> tc"
    "threads (kn s) tp = Some xp" "threadID xp = parentID p" "sems (kn s) (joinsem p) = Some J" "svalue J = 0" "queue J = []"
    using assms unfolding can_join_def by blast
  note l = live_nth [OF c(4)]
  have ne: "joinsem p \<noteq> exitsem p" using pt_invD(6) [OF c(1,4)] by (simp add: pcb_sems_def)
  define s0 where "s0 = with_pcb n (IncNumWait (p\<lparr>JoinStatus := parentID p\<rparr>)) s"
  define s1 where "s1 = s0\<lparr>kn := (kn s)\<lparr>threads := (threads (kn s))(tp \<mapsto> xp\<lparr>tstatus := BLOCKED\<rparr>),
     sems := (sems (kn s))(joinsem p \<mapsto> J\<lparr>queue := [tp]\<rparr>)\<rparr>\<rparr>"
  have "get_pcb s (int n) = Inr p" using l by (simp add: get_pcb_live)
  moreover have "set_pcb (int n) (PLive (IncNumWait (p\<lparr>JoinStatus := parentID p\<rparr>))) s = Inr s0" using l by (simp add: set_pcb_def s0_def with_pcb_def)
  moreover have "sem_P (joinsem p) s0 = Inr (WaitsAt (joinsem p) s1)"
    using sem_P_wait [of s0 "joinsem p" J xp] c(5,7,9,10,11) by (simp add: s0_def s1_def)
  moreover have "GetProcessID s = Inr (parentID p)" using GetProcessID_ok [of s xp] c(5,7,8) by simp
  ultimately have "JoinUpdate (int n) s = Inr (WaitsAt (joinsem p) s1)"
    using c(2,3) l by (simp add: JoinUpdate_def JoinWait_def)
  then show ?thesis using c(6,10) ne by (intro exI [of _ s1]) (simp add: s1_def s0_def)
qed

lemma exit_waits:
  assumes inv: "pt_inv s" and n: "0 < n" "n < 10" "live s n = Some p" and pt: "processTab s1 = processTab (with_pcb n q s)"
    and q: "joinsem q = joinsem p" "exitsem q = exitsem p" "JoinStatus q \<noteq> -1"
    and t: "threads (kn s1) tp = Some xp" "threads (kn s1) tc = Some xc" "threadID xc = int n" "tp \<noteq> tc" "currentThread (kn s1) = tc"
    and J: "sems (kn s1) (joinsem p) = Some J" "svalue J = 0" "queue J = [tp]"
    and E: "sems (kn s1) (exitsem p) = Some E" "svalue E = 0" "queue E = []"
  shows "\<exists>s2. ExitUpdate ec s1 = Inr (WaitsAt (exitsem p) s2) \<and> processTab s2 = processTab (with_pcb n (DecNumWait (SetExitCode ec q)) s) \<and>
    (\<exists>xp. threads (kn s2) tp = Some xp) \<and> (\<exists>xc. threads (kn s2) tc = Some xc) \<and> readyList (kn s2) = readyList (kn s1) @ [tp] \<and>
    (\<exists>J. sems (kn s2) (joinsem p) = Some J \<and> svalue J = 1 \<and> queue J = []) \<and>
    (\<exists>E. sems (kn s2) (exitsem p) = Some E \<and> svalue E = 0 \<and> queue E = [tc])"
proof -
  note i = pt_invD [OF inv]
  have l: "n < length (pt_pcb (processTab s))" "n < length (pt_pcb (processTab s1))" using n(2) i(3) pt by simp_all
  have ne: "joinsem p \<noteq> exitsem p" using i(6) [OF n(3)] by (simp add: pcb_sems_def)
  have ex: "IsExist s1 (int n) = Inr True"
    using IsExist_ok [OF inv n(2)] n(3) pt by (simp add: IsExist_def split: if_splits)
  have pidn: "GetProcessID s1 = Inr (int n)" using GetProcessID_ok [of s1 xc] t by simp
  define a where "a = with_pcb n (SetExitCode ec q) s1"
  define b where "b = with_pcb n (DecNumWait (SetExitCode ec q)) s1"
  have pa: "processTab a = processTab (with_pcb n (SetExitCode ec q) s)" and pb: "processTab b = processTab (with_pcb n (DecNumWait (SetExitCode ec q)) s)"
    using pt by (simp_all add: a_def b_def with_pcb_def)
  have 1: "upd_pcb (int n) (SetExitCode ec) s1 = Inr a" using pcb_access [OF l(2) pt l(1)] by (simp add: upd_pcb_def a_def)
  have la: "n < length (pt_pcb (processTab a))" "n < length (pt_pcb (processTab b))" using l by (simp_all add: a_def b_def)
  have 2: "get_pcb a (int n) = Inr (SetExitCode ec q)" "set_pcb (int n) (PLive (DecNumWait (SetExitCode ec q))) a = Inr b"
    using pcb_access [OF la(1) pa l(1)] by (simp_all add: a_def b_def)
  define k1 where "k1 = (kn s1)\<lparr>threads := (threads (kn s1))(tp \<mapsto> xp\<lparr>tstatus := READY\<rparr>), readyList := readyList (kn s1) @ [tp],
     sems := (sems (kn s1))(joinsem p \<mapsto> J\<lparr>queue := [], svalue := svalue J + 1\<rparr>)\<rparr>"
  have 3: "sem_V (joinsem p) b = ret () (b\<lparr>kn := k1\<rparr>)"
    using sem_V_wake [of b "joinsem p" J tp "[]" xp] J t(1) by (simp add: b_def k1_def)
  define s2 where "s2 = b\<lparr>kn := k1\<lparr>threads := (threads k1)(tc \<mapsto> xc\<lparr>tstatus := BLOCKED\<rparr>), sems := (sems k1)(exitsem p \<mapsto> E\<lparr>queue := [tc]\<rparr>)\<rparr>\<rparr>"
  have 4: "sem_P (exitsem p) (b\<lparr>kn := k1\<rparr>) = Inr (WaitsAt (exitsem p) s2)"
    using sem_P_wait [of "b\<lparr>kn := k1\<rparr>" "exitsem p" E xc] E t ne by (simp add: k1_def s2_def)
  have 5: "get_pcb (b\<lparr>kn := k1\<rparr>) (int n) = Inr (DecNumWait (SetExitCode ec q))"
    using pcb_access(1) [of n "b\<lparr>kn := k1\<rparr>" _ s] la(2) pb l(1) by simp
  have f: "joinsem (SetExitCode ec q) = joinsem p" "exitsem (DecNumWait (SetExitCode ec q)) = exitsem p" "JoinStatus (SetExitCode ec q) \<noteq> -1"
    using q by (simp_all add: SetExitCode_def DecNumWait_def)
  have "ExitUpdate ec s1 = Inr (WaitsAt (exitsem p) s2)"
    using pidn ex n(1) 1 2 3 4 5 f by (simp add: ExitUpdate_def JoinRelease_def ExitWait_def)
  then show ?thesis using pb J E t ne by (intro exI [of _ s2]) (simp add: s2_def k1_def)
qed

lemma join_returns:
  assumes inv: "pt_inv s" and n: "n < 10" "live s n = Some p" and pt: "processTab s2 = processTab (with_pcb n q s)"
    and q: "joinsem q = joinsem p" "exitsem q = exitsem p" and t: "threads (kn s2) tc = Some xc"
    and J: "sems (kn s2) (joinsem p) = Some J" "svalue J = 1" and E: "sems (kn s2) (exitsem p) = Some E" "svalue E = 0" "queue E = [tc]"
  shows "exitcode q \<noteq> 0 \<Longrightarrow> \<exists>s3. join_resume (int n) s2 = ret (-1) s3 \<and> processTab s3 = processTab s2 \<and>
      readyList (kn s3) = readyList (kn s2) \<and> threads (kn s3) = threads (kn s2) \<and> sems (kn s3) (exitsem p) = Some E"
    "exitcode q = 0 \<Longrightarrow> \<exists>s3. join_resume (int n) s2 = ret 0 s3 \<and> processTab s3 = processTab s2 \<and>
      readyList (kn s3) = readyList (kn s2) @ [tc] \<and> (\<exists>E. sems (kn s3) (exitsem p) = Some E \<and> svalue E = 1)"
proof -
  note i = pt_invD [OF inv]
  have l: "n < length (pt_pcb (processTab s))" "n < length (pt_pcb (processTab s2))" using n(1) i(3) pt by simp_all
  have ne: "joinsem p \<noteq> exitsem p" using i(6) [OF n(2)] by (simp add: pcb_sems_def)
  define a where "a = s2\<lparr>kn := set_sem (joinsem p) (J\<lparr>svalue := 0\<rparr>) (kn s2)\<rparr>"
  have g: "get_pcb s2 (int n) = Inr q" "get_pcb a (int n) = Inr q" using pcb_access(1) [OF l(2) pt l(1)] by (simp_all add: a_def get_pcb_def)
  have P: "sem_P (joinsem p) s2 = ret () a" using sem_P_pass [OF J(1)] J(2) by (simp add: a_def)
  have Ea: "sems (kn a) (exitsem p) = Some E" using E(1) ne by (simp add: a_def set_sem_def)
  show "\<exists>s3. join_resume (int n) s2 = ret (-1) s3 \<and> processTab s3 = processTab s2 \<and>
      readyList (kn s3) = readyList (kn s2) \<and> threads (kn s3) = threads (kn s2) \<and> sems (kn s3) (exitsem p) = Some E" if "exitcode q \<noteq> 0"
    using that g P q Ea by (intro exI [of _ a]) (simp add: join_resume_def join_rest_def, simp add: a_def set_sem_def)
  show "\<exists>s3. join_resume (int n) s2 = ret 0 s3 \<and> processTab s3 = processTab s2 \<and>
      readyList (kn s3) = readyList (kn s2) @ [tc] \<and> (\<exists>E. sems (kn s3) (exitsem p) = Some E \<and> svalue E = 1)" if "exitcode q = 0"
  proof -
    have "threads (kn a) tc = Some xc" using t by (simp add: a_def set_sem_def)
    note V = sem_V_wake [OF Ea E(3) this]
    show ?thesis using that g P q E(2) by (simp add: join_resume_def join_rest_def ExitRelease_def V) (simp add: ret_def a_def set_sem_def)
  qed
qed

lemma Remove_process:
  assumes inv: "pt_inv s" and n: "n < 10" "live s n = Some p" and pt: "processTab a = processTab (with_pcb n q s)"
  shows "\<exists>s4. PTable_Remove (int n) a = Inr s4 \<and> IsExist s4 (int n) = Inr False \<and> live s4 = (live s)(n := None) \<and>
    threads (kn s4) = threads (kn a) \<and> currentThread (kn s4) = currentThread (kn a) \<and> readyList (kn s4) = readyList (kn a)"
proof -
  note i = pt_invD [OF inv]
  have l: "n < length (pt_pcb (processTab s))" "n < length (pt_pcb (processTab a))" using n(1) i(3) pt by simp_all
  have g: "get_pcb a (int n) = Inr q" using pcb_access(1) [OF l(2) pt l(1)] .
  have bm: "pt_bm (processTab a) = pt_bm (processTab s)" using pt by simp
  have t: "BitMap_Test (pt_bm (processTab s)) (int n) = Inr True"
    using bm.test_slot [OF i(1), of n] i(2) n i(4) [of n] by simp
  obtain b where b: "BitMap_Clear (pt_bm (processTab s)) (int n) = Inr b" "wf_bitmap b" "capacity b = 10" "marked b = marked (pt_bm (processTab s)) - {n}"
    using bm.clear_slot [OF i(1), of n] i(2) n(1) by auto
  define s4 where "s4 = (delete_PCB q a)\<lparr>processTab := \<lparr>pt_bm = b, pt_pcb = (pt_pcb (processTab a))[n := PFreed], psize = psize (processTab a),
    bmsem = bmsem (processTab a)\<rparr>\<rparr>"
  have kd: "processTab (delete_PCB q x) = processTab x" for x :: "'a procs_scheme" by (simp add: delete_PCB_def delete_sem_def)
  have "PTable_Remove (int n) a = Inr s4"
    using n(1) t b(1) g l(2) bm
    by (simp add: PTable_Remove_def set_pcb_def kd) (simp add: s4_def delete_PCB_def delete_sem_def)
  moreover have "IsExist s4 (int n) = Inr False"
    using bm.test_slot [OF b(2), of n] b(3,4) n(1) by (simp add: IsExist_def s4_def)
  moreover have "live s4 m = (if m = n then None else live s m)" for m
    using l pt n(1) by (auto simp: live_def s4_def with_pcb_def nth_list_update)
  then have "live s4 = (live s)(n := None)" by auto
  ultimately show ?thesis by (intro exI [of _ s4]) (simp add: s4_def delete_PCB_def delete_sem_def)
qed

lemma exit_ends:
  assumes inv: "pt_inv s" and n: "0 < n" "n < 10" "live s n = Some p" and pt: "processTab s3 = processTab (with_pcb n q s)"
    and q: "exitsem q = exitsem p" and E: "sems (kn s3) (exitsem p) = Some E" "svalue E = 1"
  shows "\<exists>s4. exit_resume (int n) ec s3 = ret ec s4 \<and> IsExist s4 (int n) = Inr False"
proof -
  have l: "n < length (pt_pcb (processTab s))" "n < length (pt_pcb (processTab s3))" using n(2) pt_invD(3) [OF inv] pt by simp_all
  define a where "a = s3\<lparr>kn := set_sem (exitsem p) (E\<lparr>svalue := 0\<rparr>) (kn s3)\<rparr>"
  have g: "get_pcb s3 (int n) = Inr q" using pcb_access(1) [OF l(2) pt l(1)] .
  have P: "sem_P (exitsem p) s3 = ret () a" using sem_P_pass [OF E(1)] E(2) by (simp add: a_def)
  have "processTab a = processTab (with_pcb n q s)" using pt by (simp add: a_def)
  from Remove_process [OF inv n(2,3) this] show ?thesis
    using g P q by (auto simp: exit_resume_def ExitWait_def exit_rest_def)
qed

section \<open>The table at boot\<close>

definition boot_procs :: "kernel \<Rightarrow> procs" where
  "boot_procs k = \<lparr>kn = k, processTab = \<lparr>pt_bm = \<lparr>numBits = 0, numWords = 0, bmap = []\<rparr>, pt_pcb = [], psize = 0, bmsem = 0\<rparr>,
     semaphoreTable = \<lparr>semTab = [], st_bm = \<lparr>numBits = 0, numWords = 0, bmap = []\<rparr>\<rparr>\<rparr>"

text \<open>The constructor makes a consistent table with one process, number 0.\<close>

lemma PTable_PTable_ok:
  assumes d: "distinct [bs, j, e, m]"
  shows "\<exists>s'. PTable_PTable jw bs (j, e, m) t junk 10 s = Inr s' \<and> pt_inv s' \<and> (\<forall>n. 0 < n \<longrightarrow> live s' n = None) \<and>
    currentThread (kn s') = t \<and> threads (kn s') = (threads (kn s))(t \<mapsto> Thread_Thread junk ''main'' 0) \<and>
    bmsem (processTab s') = bs \<and> sems (kn s') bs = Some (Semaphore_Semaphore ''BMsem'' 1) \<and>
    dom (sems (kn s')) = insert bs {j, e, m} \<union> dom (sems (kn s))"
proof -
  obtain b where b: "BitMap_BitMap jw 10 = Inr b" "wf_bitmap b" "capacity b = 10" "marked b = {}"
    using BitMap_new_ok [of 10 jw] by auto
  obtain b1 where b1: "BitMap_Mark b 0 = Inr b1" "wf_bitmap b1" "capacity b1 = 10" "marked b1 = {0}"
    using Mark_ok [OF b(2), of 0] b(3,4) by auto
  define p where "p = (new_pcb (j, e, m) t 0 0)\<lparr>pthread := None\<rparr>"
  define s' where "s' = s\<lparr>kn := (kn s)\<lparr>threads := (threads (kn s))(t \<mapsto> Thread_Thread junk ''main'' 0), currentThread := t,
      sems := new_sems (j, e, m) ((sems (kn s))(bs \<mapsto> Semaphore_Semaphore ''BMsem'' 1))\<rparr>,
    processTab := \<lparr>pt_bm = b1, pt_pcb = PLive p # replicate 9 PNull, psize = 10, bmsem = bs\<rparr>\<rparr>"
  have eq: "PTable_PTable jw bs (j, e, m) t junk 10 s = Inr s'"
    by (cases "kn s") (simp add: PTable_PTable_def b(1) b1(1) PCB_PCB_def new_sem_def set_sem_def s'_def new_sems_def p_def new_pcb_def MAXPROCESS_def)
  have l: "live s' n = (if n = 0 then Some p else None)" for n
    by (cases n) (auto simp: live_def s'_def nth_Cons' split: pcb_ptr.splits)
  have dm: "dom (sems (kn s')) = insert bs {j, e, m} \<union> dom (sems (kn s))" by (auto simp: s'_def new_sems_def)
  have ps: "pcb_sems p = [j, e, m]" "pid p = 0" by (simp_all add: pcb_sems_def p_def new_pcb_def)
  have "pt_inv s'" unfolding pt_inv_def l dm using b1 d ps by (auto simp: s'_def)
  then show ?thesis using eq l dm d by (intro exI [of _ s']) (simp_all add: s'_def new_sems_def)
qed

definition demo_kernel :: kernel where
  "demo_kernel = \<lparr>threads = Map.empty, currentThread = 0, toBeDestroyed = None, readyList = [], sems = Map.empty\<rparr>"

definition demo_procs :: procs where
  "demo_procs = (case PTable_PTable (\<lambda>_. 0) 1 (2, 3, 4) 0 [] 10 (boot_procs demo_kernel) of Inr s \<Rightarrow> s)"

lemma demo_procs_ok:
  "pt_inv demo_procs" "0 < n \<Longrightarrow> live demo_procs n = None" "bmsem (processTab demo_procs) = 1"
  "sems (kn demo_procs) 1 = Some (Semaphore_Semaphore ''BMsem'' 1)" "currentThread (kn demo_procs) = 0"
  "threads (kn demo_procs) 0 = Some (Thread_Thread [] ''main'' 0)" "dom (sems (kn demo_procs)) = {1, 2, 3, 4}"
proof -
  have "distinct [1, 2, 3, 4 :: nat]" by simp
  from PTable_PTable_ok [OF this, of "\<lambda>_. 0" 0 "[]" "boot_procs demo_kernel"] obtain s where
    s: "PTable_PTable (\<lambda>_. 0) 1 (2, 3, 4) 0 [] 10 (boot_procs demo_kernel) = Inr s" "pt_inv s" "\<forall>n. 0 < n \<longrightarrow> live s n = None"
      "currentThread (kn s) = 0" "threads (kn s) = (threads (kn (boot_procs demo_kernel)))(0 \<mapsto> Thread_Thread [] ''main'' 0)"
      "bmsem (processTab s) = 1" "sems (kn s) 1 = Some (Semaphore_Semaphore ''BMsem'' 1)"
      "dom (sems (kn s)) = insert 1 {2, 3, 4} \<union> dom (sems (kn (boot_procs demo_kernel)))" by blast
  have e: "demo_procs = s" by (simp add: demo_procs_def s(1) del: One_nat_def)
  show "pt_inv demo_procs" "bmsem (processTab demo_procs) = 1" "currentThread (kn demo_procs) = 0"
    "sems (kn demo_procs) 1 = Some (Semaphore_Semaphore ''BMsem'' 1)" unfolding e by (fact s)+
  show "0 < n \<Longrightarrow> live demo_procs n = None" unfolding e using s(3) by blast
  show "threads (kn demo_procs) 0 = Some (Thread_Thread [] ''main'' 0)" unfolding e s(5) by simp
  show "dom (sems (kn demo_procs)) = {1, 2, 3, 4}" unfolding e s(8) by (simp add: boot_procs_def demo_kernel_def)
qed

text \<open>The first process started from there, by thread 7 with the semaphores 5, 6 and 7.\<close>

lemma demo_child:
  "\<exists>n s. ExecUpdate True (5, 6, 7) 7 [] ''prog'' demo_procs = ret (int n) s \<and> can_join s 0 7 n (new_pcb (5, 6, 7) 7 (int n) 0)"
proof -
  note d = demo_procs_ok
  have S: "sems (kn demo_procs) (bmsem (processTab demo_procs)) = Some (Semaphore_Semaphore ''BMsem'' 1)" using d(3,4) by simp
  have x: "threads (kn demo_procs) (currentThread (kn demo_procs)) = Some (Thread_Thread [] ''main'' 0)" using d(5,6) by simp
  have free: "marked (pt_bm (processTab demo_procs)) \<noteq> {..<10}"
  proof
    assume a: "marked (pt_bm (processTab demo_procs)) = {..<10}"
    have "1 \<in> marked (pt_bm (processTab demo_procs))" unfolding a by simp
    then show False using pt_invD(4) [OF d(1), of 1] d(2) [OF zero_less_one] by blast
  qed
  have fresh: "{5, 6, 7} \<inter> dom (sems (kn demo_procs)) = {}" unfolding d(7) by simp
  obtain n b where n: "n < 10" "live demo_procs n = None" "wf_bitmap b" "capacity b = 10" "marked b = insert n (marked (pt_bm (processTab demo_procs)))"
    and ex: "ExecUpdate True (5, 6, 7) 7 [] ''prog'' demo_procs = ret (int n) (demo_procs\<lparr>
        kn := (kn demo_procs)\<lparr>threads := (threads (kn demo_procs))(7 \<mapsto> started 7 [] ''prog'' (int n)), readyList := readyList (kn demo_procs) @ [7],
          sems := new_sems (5, 6, 7) (sems (kn demo_procs))\<rparr>,
        processTab := (processTab demo_procs)\<lparr>pt_bm := b, pt_pcb := (pt_pcb (processTab demo_procs))[n := PLive (new_pcb (5, 6, 7) 7 (int n) 0)]\<rparr>\<rparr>)"
      (is "_ = ret _ ?s'")
    using ExecUpdate_starts [OF d(1) S _ _ x _ free, of "''prog''" "(5, 6, 7)" 5 6 7 7 "[]"] fresh
    by (auto simp: Thread_Thread_def Semaphore_Semaphore_def)
  have st: "pt_inv ?s'" "live ?s' n = Some (new_pcb (5, 6, 7) 7 (int n) 0)"
    using pt_inv_start [OF d(1) n, of "(5, 6, 7)" 5 6 7 ?s' 7 0] fresh by simp_all
  have "0 < n" using n(2) pt_invD(11) [OF d(1)] by (cases n) auto
  then have "can_join ?s' 0 7 n (new_pcb (5, 6, 7) 7 (int n) 0)" using st n(1) d(5,6)
    by (simp add: can_join_def Thread_Thread_def started_def new_pcb_def new_sems_def Semaphore_Semaphore_def)
  then show ?thesis using ex by blast
qed

section \<open>Properties\<close>

text \<open>
  C11: \<^verbatim>\<open>ExecUpdate\<close> refuses a program that does not exist, the program that is running, and an eleventh process, and
  changes nothing then. Otherwise the new process gets a place that was free, its own three semaphores, the
  caller as its parent and a thread at the end of the ready list; all other processes are as before, and
  the table stays consistent.
\<close>

theorem ExecUpdate_correct:
  assumes inv: "pt_inv s" and S: "sems (kn s) (bmsem (processTab s)) = Some S" "svalue S \<noteq> 0" "queue S = []"
    and x: "threads (kn s) (currentThread (kn s)) = Some x"
    and sms: "sms = (j, e, m)" "distinct [j, e, m]" "{j, e, m} \<inter> dom (sems (kn s)) = {}"
  shows "if \<not> found \<or> filename = tname x \<or> (\<forall>n<10. live s n \<noteq> None)
    then ExecUpdate found sms t junk filename s = ret (-1) s
    else \<exists>n p s'. ExecUpdate found sms t junk filename s = ret (int n) s' \<and> pt_inv s' \<and> 0 < n \<and> n < 10 \<and> live s n = None \<and>
      live s' = (live s)(n \<mapsto> p) \<and> pid p = int n \<and> parentID p = threadID x \<and> JoinStatus p = -1 \<and> pthread p = Some t \<and>
      readyList (kn s') = readyList (kn s) @ [t] \<and> threads (kn s') = (threads (kn s))(t \<mapsto> started t junk filename (int n))"
    (is "if _ then _ else \<exists>n p s'. ?R n p s'")
proof -
  note i = pt_invD [OF inv]
  have full: "(\<forall>n<10. live s n \<noteq> None) = (marked (pt_bm (processTab s)) = {..<10})"
    using i(4) bm.used_sub [OF i(1)] i(2) by auto
  show ?thesis
  proof (cases "\<not> found \<or> filename = tname x \<or> (\<forall>n<10. live s n \<noteq> None)")
    case True
    then have "ExecUpdate found sms t junk filename s = ret (-1) s" unfolding full by (rule ExecUpdate_refuses [OF inv S x])
    then show ?thesis unfolding if_P [OF True] .
  next
    case False
    then have ok: "found = True" "filename \<noteq> tname x" "marked (pt_bm (processTab s)) \<noteq> {..<10}" unfolding full by blast+
    obtain n b where n: "n < 10" "live s n = None" "wf_bitmap b" "capacity b = 10" "marked b = insert n (marked (pt_bm (processTab s)))"
      and ex: "ExecUpdate True sms t junk filename s = ret (int n) (s\<lparr>
        kn := (kn s)\<lparr>threads := (threads (kn s))(t \<mapsto> started t junk filename (int n)), readyList := readyList (kn s) @ [t],
          sems := new_sems sms (sems (kn s))\<rparr>,
        processTab := (processTab s)\<lparr>pt_bm := b, pt_pcb := (pt_pcb (processTab s))[n := PLive (new_pcb sms t (int n) (threadID x))]\<rparr>\<rparr>)" (is "_ = ret _ ?s'")
      using ExecUpdate_starts [OF inv S x ok(2,3) sms] by blast
    have st: "pt_inv ?s'" "live ?s' n = Some (new_pcb sms t (int n) (threadID x))"
      using pt_inv_start [OF inv n sms, of ?s' t "threadID x"] by simp_all
    have lv: "live ?s' = (live s)(n \<mapsto> new_pcb sms t (int n) (threadID x))"
      using n(1) i(3) by (intro ext) (simp add: live_def nth_list_update)
    have n0: "0 < n" using n(2) i(11) by (cases n) auto
    have np: "pid (new_pcb sms t (int n) (threadID x)) = int n" "parentID (new_pcb sms t (int n) (threadID x)) = threadID x"
      "JoinStatus (new_pcb sms t (int n) (threadID x)) = -1" "pthread (new_pcb sms t (int n) (threadID x)) = Some t"
      by (simp_all add: new_pcb_def sms(1))
    have "readyList (kn ?s') = readyList (kn s) @ [t]" "threads (kn ?s') = (threads (kn s))(t \<mapsto> started t junk filename (int n))" by simp_all
    then have "?R n (new_pcb sms t (int n) (threadID x)) ?s'" unfolding ok(1) by (intro conjI ex st(1) n0 n(1,2) lv np)
    then show ?thesis unfolding if_not_P [OF False] by blast
  qed
qed


lemma ExecUpdate_correct_witness:
  "\<exists>n s'. ExecUpdate True (5, 6, 7) 7 [] ''prog'' demo_procs = ret (int n) s' \<and> pt_inv s' \<and> live demo_procs n = None"
proof -
  note d = demo_procs_ok
  have S: "sems (kn demo_procs) (bmsem (processTab demo_procs)) = Some (Semaphore_Semaphore ''BMsem'' 1)" using d(3,4) by simp
  have x: "threads (kn demo_procs) (currentThread (kn demo_procs)) = Some (Thread_Thread [] ''main'' 0)" using d(5,6) by simp
  have s1: "svalue (Semaphore_Semaphore ''BMsem'' 1) \<noteq> 0" "queue (Semaphore_Semaphore ''BMsem'' 1) = []"
    by (simp_all add: Semaphore_Semaphore_def)
  have fresh: "{5, 6, 7} \<inter> dom (sems (kn demo_procs)) = {}" unfolding d(7) by simp
  have no: "\<not> (\<not> True \<or> ''prog'' = tname (Thread_Thread [] ''main'' 0) \<or> (\<forall>n<10. live demo_procs n \<noteq> None))"
    using d(2) [OF zero_less_one] by (auto simp: Thread_Thread_def intro!: exI [of _ 1])
  have "distinct [5, 6, 7 :: nat]" by simp
  from ExecUpdate_correct [OF d(1) S s1 x refl this fresh, of True "''prog''" 7 "[]", unfolded if_not_P [OF no]]
  show ?thesis by blast
qed


end
