(* ===== verification/UserSems.thy ===== *)
theory UserSems
  imports Processes
begin

text \<open>
  The table of user semaphores of \<^verbatim>\<open>userprog/table.cc\<close> (the definitions are in the theory \<open>Processes\<close>): the invariant
  of the table, the loops that look for a name, and what the operations do in terms of names.
\<close>

section \<open>The invariant\<close>

definition sem_names :: "'a procs_scheme \<Rightarrow> nat \<Rightarrow> string option" where
  "sem_names s k = (if k < length (semTab (semaphoreTable s)) then
     case semTab (semaphoreTable s) ! k of None \<Rightarrow> None | Some sm \<Rightarrow> map_option sname (sems (kn s) sm) else None)"

text \<open>The bitmap says which places are taken, the semaphores at them exist, and their names are different.\<close>

definition st_inv :: "'a procs_scheme \<Rightarrow> bool" where
  "st_inv s \<longleftrightarrow> wf_bitmap (st_bm (semaphoreTable s)) \<and> capacity (st_bm (semaphoreTable s)) = 10 \<and> length (semTab (semaphoreTable s)) = 10 \<and>
     (\<forall>k<10. (k \<in> marked (st_bm (semaphoreTable s))) = (semTab (semaphoreTable s) ! k \<noteq> None)) \<and>
     (\<forall>k<10. \<forall>sm. semTab (semaphoreTable s) ! k = Some sm \<longrightarrow> sm \<in> dom (sems (kn s))) \<and>
     inj_on (sem_names s) (dom (sem_names s))"

lemma st_invD:
  assumes "st_inv s"
  shows "wf_bitmap (st_bm (semaphoreTable s))" "capacity (st_bm (semaphoreTable s)) = 10" "length (semTab (semaphoreTable s)) = 10"
    "k < 10 \<Longrightarrow> (k \<in> marked (st_bm (semaphoreTable s))) = (semTab (semaphoreTable s) ! k \<noteq> None)"
    "k < 10 \<Longrightarrow> semTab (semaphoreTable s) ! k = Some sm \<Longrightarrow> sm \<in> dom (sems (kn s))" "inj_on (sem_names s) (dom (sem_names s))"
  using assms unfolding st_inv_def by blast+

lemma sem_names_at:
  assumes "st_inv s" "k < 10"
  shows "sem_names s k = (case semTab (semaphoreTable s) ! k of None \<Rightarrow> None | Some sm \<Rightarrow> Some (sname (the (sems (kn s) sm))))"
  using st_invD(5) [OF assms] st_invD(3) [OF assms(1)] assms(2) by (auto simp: sem_names_def split: option.splits)

lemma sem_name_at:
  assumes "st_inv s" "k < 10" "semTab (semaphoreTable s) ! k = Some sm"
  shows "sem_name s (Some sm) = Inr (the (sem_names s k))"
  using sem_names_at [OF assms(1,2)] st_invD(5) [OF assms] assms(3) by (auto simp: sem_name_def get_sem_def)

section \<open>The loops over the table\<close>

lemma find_sem_from_eq:
  "st_inv s \<Longrightarrow> k + n = 10 \<Longrightarrow>
   find_sem_from s nm (int k) n = Inr (if \<exists>j<10. k \<le> j \<and> sem_names s j = Some nm then int (LEAST j. k \<le> j \<and> sem_names s j = Some nm) else -1)"
proof (induction n arbitrary: k)
  case (Suc n)
  have k: "k < 10" "k < length (semTab (semaphoreTable s))" using Suc.prems st_invD(3) [OF Suc.prems(1)] by auto
  have IH: "find_sem_from s nm (int k + 1) n = Inr (if \<exists>j<10. Suc k \<le> j \<and> sem_names s j = Some nm then int (LEAST j. Suc k \<le> j \<and> sem_names s j = Some nm) else -1)"
    using Suc.IH [of "Suc k"] Suc.prems by (simp add: add.commute)
  show ?case
  proof (cases "sem_names s k = Some nm")
    case True
    then obtain sm where sm: "semTab (semaphoreTable s) ! k = Some sm" using sem_names_at [OF Suc.prems(1) k(1)] by (auto split: option.splits)
    have "(LEAST j. k \<le> j \<and> sem_names s j = Some nm) = k" using True by (intro Least_equality) auto
    then show ?thesis using True k sm sem_name_at [OF Suc.prems(1) k(1) sm] by auto
  next
    case False
    then have step: "find_sem_from s nm (int k) (Suc n) = find_sem_from s nm (int k + 1) n"
      using k sem_names_at [OF Suc.prems(1) k(1)] sem_name_at [OF Suc.prems(1) k(1)] by (auto split: option.splits)
    have "(k \<le> j \<and> sem_names s j = Some nm) = (Suc k \<le> j \<and> sem_names s j = Some nm)" for j
      using False by (auto simp: Suc_le_eq le_less)
    then show ?thesis unfolding step IH by (simp only:)
  qed
qed auto

lemma name_taken_from_eq:
  "st_inv s \<Longrightarrow> k + n = 10 \<Longrightarrow> name_taken_from s nm (int k) n = Inr (\<exists>j<10. k \<le> j \<and> sem_names s j = Some nm)"
proof (induction n arbitrary: k)
  case (Suc n)
  have k: "k < 10" "k < length (semTab (semaphoreTable s))" using Suc.prems st_invD(3) [OF Suc.prems(1)] by auto
  have IH: "name_taken_from s nm (int k + 1) n = Inr (\<exists>j<10. Suc k \<le> j \<and> sem_names s j = Some nm)"
    using Suc.IH [of "Suc k"] Suc.prems by (simp add: add.commute)
  have t: "BitMap_Test (st_bm (semaphoreTable s)) (int k) = Inr (semTab (semaphoreTable s) ! k \<noteq> None)"
    using bm.test_slot [OF st_invD(1) [OF Suc.prems(1)], of k] st_invD(2,4) [OF Suc.prems(1)] k(1) by simp
  have "(\<exists>j<10. k \<le> j \<and> sem_names s j = Some nm) = (sem_names s k = Some nm \<or> (\<exists>j<10. Suc k \<le> j \<and> sem_names s j = Some nm))"
    using k(1) by (auto simp: Suc_le_eq order_le_less)
  then show ?case using k t IH sem_names_at [OF Suc.prems(1) k(1)] sem_name_at [OF Suc.prems(1) k(1)]
    by (cases "semTab (semaphoreTable s) ! k") auto
qed auto


lemma sem_names_range:
  assumes "st_inv s"
  shows "(\<exists>j<10. sem_names s j = Some nm) = (Some nm \<in> range (sem_names s))"
proof
  assume "Some nm \<in> range (sem_names s)"
  then obtain j where j: "sem_names s j = Some nm" by (auto dest: sym)
  then have "j < length (semTab (semaphoreTable s))" by (auto simp: sem_names_def split: if_splits)
  then show "\<exists>j<10. sem_names s j = Some nm" using j st_invD(3) [OF assms] by auto
qed (metis rangeI)

lemma names_taken: "st_inv s \<Longrightarrow> name_taken_from s nm 0 10 = Inr (Some nm \<in> range (sem_names s))"
  using name_taken_from_eq [of s 0 10 nm] sem_names_range [of s nm] by simp

section \<open>The operations\<close>

lemma STable_Create_taken:
  assumes inv: "st_inv s" and t: "Some nm \<in> range (sem_names s) \<or> marked (st_bm (semaphoreTable s)) = {..<10}"
  shows "STable_Create sm nm v s = ret (-1) s"
proof -
  have "BitMap_FindFreeSlot (st_bm (semaphoreTable s)) = Inr (-1, st_bm (semaphoreTable s))" if "marked (st_bm (semaphoreTable s)) = {..<10}"
    using bm.fnd_full [OF st_invD(1) [OF inv]] st_invD(2) [OF inv] that by (simp only: BitMap_FindFreeSlot_def BitMap_Find_def)
  then show ?thesis using t names_taken [OF inv, of nm]
    by (auto simp: STable_Create_def MAX_SEMAPHORES_def STable_GetFreeSlot_def)
qed

lemma STable_Create_new:
  assumes inv: "st_inv s" and t: "Some nm \<notin> range (sem_names s)" "marked (st_bm (semaphoreTable s)) \<noteq> {..<10}" and sm: "sm \<notin> dom (sems (kn s))"
  shows "\<exists>i s'. STable_Create sm nm v s = ret (int i) s' \<and> i < 10 \<and> sem_names s i = None \<and> st_inv s' \<and> sem_names s' = (sem_names s)(i \<mapsto> nm) \<and>
    semTab (semaphoreTable s') = (semTab (semaphoreTable s))[i := Some sm] \<and> sems (kn s') = (sems (kn s))(sm \<mapsto> Semaphore_Semaphore nm v)"
proof -
  note i = st_invD [OF inv]
  obtain k b where k: "BitMap_Find (st_bm (semaphoreTable s)) = Inr (int k, b)" "k < 10" "k \<notin> marked (st_bm (semaphoreTable s))" "wf_bitmap b" "capacity b = 10"
    "marked b = insert k (marked (st_bm (semaphoreTable s)))" using bm.fnd_free [OF i(1)] t(2) i(2) by metis
  obtain b' where b': "BitMap_Mark b (int k) = Inr b'" "wf_bitmap b'" "capacity b' = 10" "marked b' = insert k (marked b)"
    using Mark_ok [OF k(4), of k] k(2,5) by metis
  let ?s = "(new_sem sm nm v s)\<lparr>semaphoreTable := \<lparr>semTab = (semTab (semaphoreTable s))[k := Some sm], st_bm = b'\<rparr>\<rparr>"
  have "name_taken_from s nm 0 10 = Inr False" using t(1) unfolding names_taken [OF inv] by simp
  then have eq: "STable_Create sm nm v s = ret (int k) ?s"
    using k(1,2) b'(1) i(3) by (simp add: STable_Create_def MAX_SEMAPHORES_def STable_GetFreeSlot_def BitMap_FindFreeSlot_def BitMap_Find_def new_sem_def)
  have free: "semTab (semaphoreTable s) ! k = None" using i(4) [OF k(2)] k(3) by auto
  have names: "sem_names ?s = (sem_names s)(k \<mapsto> nm)"
    using k(2) i(3) i(5) sm by (auto simp: sem_names_def fun_eq_iff new_sem_def set_sem_def nth_list_update Semaphore_Semaphore_def split: option.splits)
  have "st_inv ?s" unfolding st_inv_def names
  proof (intro conjI allI impI)
    show "wf_bitmap (st_bm (semaphoreTable ?s))" "capacity (st_bm (semaphoreTable ?s)) = 10" "length (semTab (semaphoreTable ?s)) = 10"
      using b' i(3) by simp_all
    show "(j \<in> marked (st_bm (semaphoreTable ?s))) = (semTab (semaphoreTable ?s) ! j \<noteq> None)" if "j < 10" for j
      using that b'(4) k(6) i(3) i(4) [OF that] k(2) by (auto simp: nth_list_update)
    show "x \<in> dom (sems (kn ?s))" if "j < 10" "semTab (semaphoreTable ?s) ! j = Some x" for j x
      using that i(3) i(5) [of j x] by (cases "j = k") (auto simp: new_sem_def set_sem_def)
    show "inj_on ((sem_names s)(k \<mapsto> nm)) (dom ((sem_names s)(k \<mapsto> nm)))"
      using i(6) t(1) by (auto simp: inj_on_def image_iff) (metis)+
  qed
  moreover have "sem_names s k = None" using free k(2) i(3) by (simp add: sem_names_def)
  ultimately show ?thesis using eq k(2) names by (intro exI [of _ k] exI [of _ ?s]) (simp add: new_sem_def set_sem_def)
qed

lemma STable_lookup:
  assumes inv: "st_inv s"
  shows "sem_names s k = Some nm \<Longrightarrow> find_sem_from s nm 0 10 = Inr (int k)" "Some nm \<notin> range (sem_names s) \<Longrightarrow> find_sem_from s nm 0 10 = Inr (-1)"
proof -
  have f: "find_sem_from s nm 0 10 = Inr (if Some nm \<in> range (sem_names s) then int (LEAST j. sem_names s j = Some nm) else -1)"
    using find_sem_from_eq [OF inv, of 0 10 nm] sem_names_range [OF inv, of nm] by simp
  show "find_sem_from s nm 0 10 = Inr (int k)" if k: "sem_names s k = Some nm"
  proof -
    have u: "j = k" if j: "sem_names s j = Some nm" for j
    proof (rule inj_onD [OF st_invD(6) [OF inv]])
      show "sem_names s j = sem_names s k" "j \<in> dom (sem_names s)" "k \<in> dom (sem_names s)" using j k by (simp_all add: domI)
    qed
    have "(LEAST j. sem_names s j = Some nm) = k" using k by (rule Least_equality) (drule u, simp)
    moreover have "Some nm \<in> range (sem_names s)" using k by (metis rangeI)
    ultimately show ?thesis using f by simp
  qed
  show "find_sem_from s nm 0 10 = Inr (-1)" if "Some nm \<notin> range (sem_names s)" using f that by simp
qed


lemma STable_at:
  assumes inv: "st_inv s" and k: "sem_names s k = Some nm"
  shows "\<exists>sm. semTab (semaphoreTable s) ! k = Some sm \<and> sem_at s (int k) = Inr sm"
proof -
  have "k < length (semTab (semaphoreTable s))" using k by (auto simp: sem_names_def split: if_splits)
  then show ?thesis using k by (auto simp: sem_at_def sem_names_def split: option.splits)
qed

text \<open>The constructor makes an empty table.\<close>

lemma STable_STable_ok: "\<exists>s'. STable_STable jw s = Inr s' \<and> st_inv s' \<and> sem_names s' = Map.empty \<and> kn s' = kn s"
proof -
  obtain b where b: "BitMap_BitMap jw 10 = Inr b" "wf_bitmap b" "capacity b = 10" "marked b = {}"
    using BitMap_new_ok [of 10 jw] by auto
  let ?s = "s\<lparr>semaphoreTable := \<lparr>semTab = replicate 10 None, st_bm = b\<rparr>\<rparr>"
  have n: "sem_names ?s = Map.empty" by (simp add: sem_names_def fun_eq_iff)
  have "st_inv ?s" unfolding st_inv_def n using b by simp
  then show ?thesis using b(1) n by (intro exI [of _ ?s]) (simp add: STable_STable_def MAX_SEMAPHORES_def)
qed

section \<open>Properties\<close>

text \<open>
  C24: the table of user semaphores is a map from names to semaphores with at most ten names. \<^verbatim>\<open>Create\<close> refuses a
  name that is there and an eleventh semaphore, and otherwise adds the name with a new semaphore; \<^verbatim>\<open>Wait\<close>
  and \<^verbatim>\<open>Signal\<close> are \<^verbatim>\<open>P\<close> and \<^verbatim>\<open>V\<close> of the semaphore of that name, or return \<open>-1\<close>.
\<close>

theorem user_semaphores:
  assumes inv: "st_inv s" and sm: "sm \<notin> dom (sems (kn s))"
  shows "(if Some nm \<in> range (sem_names s) \<or> marked (st_bm (semaphoreTable s)) = {..<10} then STable_Create sm nm v s = ret (-1) s
     else \<exists>i s'. STable_Create sm nm v s = ret (int i) s' \<and> i < 10 \<and> sem_names s i = None \<and> st_inv s' \<and> sem_names s' = (sem_names s)(i \<mapsto> nm) \<and>
       semTab (semaphoreTable s') = (semTab (semaphoreTable s))[i := Some sm] \<and> sems (kn s') = (sems (kn s))(sm \<mapsto> Semaphore_Semaphore nm v)) \<and>
    (if Some nm \<notin> range (sem_names s) then STable_Wait nm s = ret (-1) s \<and> STable_Signal nm s = ret (-1) s
     else \<exists>k x. sem_names s k = Some nm \<and> semTab (semaphoreTable s) ! k = Some x \<and>
       STable_Wait nm s = bindW (sem_P x s) (\<lambda>_ s1. ret 0 s1) \<and> STable_Signal nm s = bindW (sem_V x s) (\<lambda>_ s1. ret 0 s1))"
proof (rule conjI)
  show "if Some nm \<in> range (sem_names s) \<or> marked (st_bm (semaphoreTable s)) = {..<10} then STable_Create sm nm v s = ret (-1) s
     else \<exists>i s'. STable_Create sm nm v s = ret (int i) s' \<and> i < 10 \<and> sem_names s i = None \<and> st_inv s' \<and> sem_names s' = (sem_names s)(i \<mapsto> nm) \<and>
       semTab (semaphoreTable s') = (semTab (semaphoreTable s))[i := Some sm] \<and> sems (kn s') = (sems (kn s))(sm \<mapsto> Semaphore_Semaphore nm v)"
  proof (cases "Some nm \<in> range (sem_names s) \<or> marked (st_bm (semaphoreTable s)) = {..<10}")
    case True
    then show ?thesis unfolding if_P [OF True] by (rule STable_Create_taken [OF inv])
  next
    case False
    then have "Some nm \<notin> range (sem_names s)" "marked (st_bm (semaphoreTable s)) \<noteq> {..<10}" by blast+
    then show ?thesis unfolding if_not_P [OF False] by (rule STable_Create_new [OF inv _ _ sm])
  qed
  show "if Some nm \<notin> range (sem_names s) then STable_Wait nm s = ret (-1) s \<and> STable_Signal nm s = ret (-1) s
     else \<exists>k x. sem_names s k = Some nm \<and> semTab (semaphoreTable s) ! k = Some x \<and>
       STable_Wait nm s = bindW (sem_P x s) (\<lambda>_ s1. ret 0 s1) \<and> STable_Signal nm s = bindW (sem_V x s) (\<lambda>_ s1. ret 0 s1)"
  proof (cases "Some nm \<in> range (sem_names s)")
    case True
    then obtain k where k: "sem_names s k = Some nm" by (metis imageE)
    then obtain x where "semTab (semaphoreTable s) ! k = Some x" "sem_at s (int k) = Inr x" using STable_at [OF inv] by blast
    then show ?thesis using True k STable_lookup(1) [OF inv k] by (auto simp: STable_Wait_def STable_Signal_def MAX_SEMAPHORES_def)
  next
    case False
    then show ?thesis using STable_lookup(2) [OF inv] by (simp add: STable_Wait_def STable_Signal_def MAX_SEMAPHORES_def)
  qed
qed

lemma user_semaphores_witness:
  "\<exists>s i s'. STable_STable (\<lambda>_. 0) demo_procs = Inr s \<and> STable_Create 9 ''mutex'' 1 s = ret (int i) s' \<and> sem_names s' = [i \<mapsto> ''mutex'']"
proof -
  obtain s where s: "STable_STable (\<lambda>_. 0) demo_procs = Inr s" "st_inv s" "sem_names s = Map.empty" "kn s = kn demo_procs"
    using STable_STable_ok by blast
  have fresh: "9 \<notin> dom (sems (kn s))" unfolding s(4) demo_procs_ok(7) by simp
  have "marked (st_bm (semaphoreTable s)) \<noteq> {..<10}"
  proof
    assume "marked (st_bm (semaphoreTable s)) = {..<10}"
    then have "semTab (semaphoreTable s) ! 0 \<noteq> None" using st_invD(4) [OF s(2), of 0] by simp
    then show False using sem_names_at [OF s(2), of 0] s(3) by (auto split: option.splits)
  qed
  then have "\<not> (Some ''mutex'' \<in> range (sem_names s) \<or> marked (st_bm (semaphoreTable s)) = {..<10})" unfolding s(3) by auto
  from conjunct1 [OF user_semaphores [OF s(2) fresh, of "''mutex''" 1], unfolded if_not_P [OF this]] show ?thesis using s(1,3) by auto
qed

end
