(* ===== verification/Syscalls.thy ===== *)
theory Syscalls
  imports Processes FileSys MipsSim
begin

text \<open>
  The system calls: \<^verbatim>\<open>userprog/exception.cc\<close>, with \<^verbatim>\<open>SynchConsole::Write\<close> and the start of a process,
  \<^verbatim>\<open>MyStartProcess\<close>. Every case of the switch in \<^verbatim>\<open>ExceptionHandler\<close> is a definition; the state is that of
  the process table together with the machine, the file system on its disk and the console. An operation
  ends in one of the ways of the type \<open>out\<close>; a call that sleeps in the middle is taken up again by the
  definition that ends in \<open>_resume\<close>. Messages that the kernel prints for its own operator are left out.
  An exception that a memory access of the handler raises is answered by \<^verbatim>\<open>Halt\<close>, which does not return.
\<close>

section \<open>State\<close>

text \<open>
  \<open>conin\<close> are the characters the console will still deliver and \<open>conout\<close> those it has been given;
  \<open>floats\<close> are the \<^verbatim>\<open>float\<close> objects the kernel has allocated, by address, as bit patterns.
\<close>

record os = procs +
  mach :: Machine
  fsys :: FileSystem
  dk :: dsk
  physMap :: BitMap
  conin :: "byte list"
  conout :: "byte list"
  floats :: "u32 \<Rightarrow> u32 option"

text \<open>
  What the kernel gets from its host: the contents of new memory and of uninitialised variables, the
  addresses of new objects, and the conversions \<^verbatim>\<open>atof\<close> and \<^verbatim>\<open>sprintf("%f")\<close> of the C library.
\<close>

record host =
  gb :: garbage
  h_sems :: "sid \<times> sid \<times> sid"
  h_tid :: tid
  h_regs :: "u32 list"
  h_sem :: sid
  h_char :: byte
  h_int :: int
  h_null :: "nat \<Rightarrow> bool"
  h_float :: u32
  h_space :: AddrSpace
  h_exe :: "byte list"
  h_atof :: "byte list \<Rightarrow> u32"
  h_fmt :: "u32 \<Rightarrow> byte list"

type_synonym 'a call = "('a, os) out result"

definition MaxFileLength :: nat where "MaxFileLength = 32"
definition MaxString :: nat where "MaxString = 256"

definition SC_Halt :: int where "SC_Halt = 0"
definition SC_Exit :: int where "SC_Exit = 1"
definition SC_Exec :: int where "SC_Exec = 2"
definition SC_Join :: int where "SC_Join = 3"
definition SC_Create :: int where "SC_Create = 4"
definition SC_Open :: int where "SC_Open = 5"
definition SC_Read :: int where "SC_Read = 6"
definition SC_Write :: int where "SC_Write = 7"
definition SC_Close :: int where "SC_Close = 8"
definition SC_Fork :: int where "SC_Fork = 9"
definition SC_Yield :: int where "SC_Yield = 10"
definition SC_ReadInt :: int where "SC_ReadInt = 11"
definition SC_PrintInt :: int where "SC_PrintInt = 12"
definition SC_ReadFloat :: int where "SC_ReadFloat = 13"
definition SC_PrintFloat :: int where "SC_PrintFloat = 14"
definition SC_ReadChar :: int where "SC_ReadChar = 15"
definition SC_PrintChar :: int where "SC_PrintChar = 16"
definition SC_ReadString :: int where "SC_ReadString = 17"
definition SC_PrintString :: int where "SC_PrintString = 18"
definition SC_WriteF2File :: int where "SC_WriteF2File = 19"
definition SC_CompareFloat :: int where "SC_CompareFloat = 20"
definition SC_ClearFloat :: int where "SC_ClearFloat = 21"
definition SC_Up :: int where "SC_Up = 22"
definition SC_Down :: int where "SC_Down = 23"
definition SC_Sleep :: int where "SC_Sleep = 24"
definition SC_CreateSemaphore :: int where "SC_CreateSemaphore = 25"
definition SC_ReadFileFormat :: int where "SC_ReadFileFormat = 26"
definition SC_WriteInt2File :: int where "SC_WriteInt2File = 27"

lemmas sc_numbers = SC_Halt_def SC_Exit_def SC_Exec_def SC_Join_def SC_Create_def SC_Open_def SC_Read_def SC_Write_def
  SC_Close_def SC_Fork_def SC_Yield_def SC_ReadInt_def SC_PrintInt_def SC_ReadFloat_def SC_PrintFloat_def SC_ReadChar_def
  SC_PrintChar_def SC_ReadString_def SC_PrintString_def SC_WriteF2File_def SC_CompareFloat_def SC_ClearFloat_def SC_Up_def
  SC_Down_def SC_Sleep_def SC_CreateSemaphore_def SC_ReadFileFormat_def SC_WriteInt2File_def

section \<open>Registers, user memory and the console\<close>

text \<open>A sum or product of the host's \<^verbatim>\<open>int\<close>, which wraps around.\<close>

definition c_int :: "int \<Rightarrow> int" where
  "c_int n = sint (of_int n :: u32)"

definition int_reg :: "int \<Rightarrow> os \<Rightarrow> int result" where
  "int_reg r s = bindR (ReadRegister (mach s) r) (\<lambda>v. Inr (sint v))"

definition result2 :: "int \<Rightarrow> os \<Rightarrow> unit call" where
  "result2 v s = bindR (WriteRegister (mach s) 2 (of_int v)) (\<lambda>m. ret () (s\<lparr>mach := m\<rparr>))"

definition IncPCReg :: "os \<Rightarrow> unit call" where
  "IncPCReg s =
     bindR (ReadRegister (mach s) (int PCReg)) (\<lambda>curPC.
     bindR (WriteRegister (mach s) (int PrevPCReg) curPC) (\<lambda>m1.
     bindR (ReadRegister m1 (int NextPCReg)) (\<lambda>nextPC.
     bindR (WriteRegister m1 (int PCReg) nextPC) (\<lambda>m2.
     bindR (WriteRegister m2 (int NextPCReg) (nextPC + 4)) (\<lambda>m3.
     ret () (s\<lparr>mach := m3\<rparr>))))))"

definition user_read :: "u32 \<Rightarrow> nat \<Rightarrow> os \<Rightarrow> u32 call" where
  "user_read addr sz s = bindR (ReadMem (mach s) addr sz) (\<lambda>(r, m). case r of
     Inl e \<Rightarrow> Inr (Halts (s\<lparr>mach := m\<rparr>)) | Inr v \<Rightarrow> ret v (s\<lparr>mach := m\<rparr>))"

definition user_write :: "u32 \<Rightarrow> nat \<Rightarrow> u32 \<Rightarrow> os \<Rightarrow> unit call" where
  "user_write addr sz v s = bindR (WriteMem (mach s) addr sz v) (\<lambda>(r, m). case r of
     Inl e \<Rightarrow> Inr (Halts (s\<lparr>mach := m\<rparr>)) | Inr _ \<Rightarrow> ret () (s\<lparr>mach := m\<rparr>))"

text \<open>The loop of \<^verbatim>\<open>User2System\<close>: \<open>n\<close> characters may still be read.\<close>

fun u2s_loop :: "u32 \<Rightarrow> nat \<Rightarrow> byte list \<Rightarrow> os \<Rightarrow> byte list call" where
  "u2s_loop addr 0 acc s = ret acc s"
| "u2s_loop addr (Suc n) acc s = bindW (user_read addr 1 s) (\<lambda>oneChar s1.
     if oneChar = 0 then ret (acc @ [0]) s1 else u2s_loop (addr + 1) n (acc @ [ucast oneChar]) s1)"

definition User2System :: "int \<Rightarrow> nat \<Rightarrow> os \<Rightarrow> byte list call" where
  "User2System virtAddr limit s = bindW (u2s_loop (of_int virtAddr) limit [] s) (\<lambda>bs s1.
     ret (bs @ replicate (limit + 1 - length bs) 0) s1)"

text \<open>The loop of \<^verbatim>\<open>System2User\<close> at index \<open>i\<close>, with \<open>n\<close> characters left.\<close>

fun s2u_loop :: "u32 \<Rightarrow> byte list \<Rightarrow> nat \<Rightarrow> nat \<Rightarrow> os \<Rightarrow> int call" where
  "s2u_loop addr buffer i 0 s = ret (int i) s"
| "s2u_loop addr buffer i (Suc n) s = bindR (rd buffer (int i)) (\<lambda>oneChar.
     bindW (user_write (addr + of_nat i) 1 (scast oneChar) s) (\<lambda>_ s1.
     if oneChar \<noteq> 0 then s2u_loop addr buffer (Suc i) n s1 else ret (int (Suc i)) s1))"

definition System2User :: "int \<Rightarrow> int \<Rightarrow> byte list \<Rightarrow> os \<Rightarrow> int call" where
  "System2User virtAddr len buffer s =
     (if len < 0 then ret (-1) s else if len = 0 then ret len s else s2u_loop (of_int virtAddr) buffer 0 (nat len) s)"

fun s2u_int_loop :: "u32 \<Rightarrow> u32 list \<Rightarrow> nat \<Rightarrow> nat \<Rightarrow> os \<Rightarrow> int call" where
  "s2u_int_loop addr buffer i 0 s = ret (int i) s"
| "s2u_int_loop addr buffer i (Suc n) s = bindR (rd buffer (int i)) (\<lambda>v.
     bindW (user_write (addr + of_nat i) 4 v s) (\<lambda>_ s1. s2u_int_loop addr buffer (Suc i) n s1))"

definition System2UserInt :: "int \<Rightarrow> int \<Rightarrow> u32 list \<Rightarrow> os \<Rightarrow> int call" where
  "System2UserInt virtAddr len buffer s =
     (if len < 0 then ret (-1) s else if len = 0 then ret len s else s2u_int_loop (of_int virtAddr) buffer 0 (nat len) s)"

text \<open>\<^verbatim>\<open>new char[n]\<close>: with a negative number the host stops the kernel.\<close>

definition new_buf :: "host \<Rightarrow> int \<Rightarrow> byte list result" where
  "new_buf h n = (if n < 0 then Inl HostTrap else Inr (map (g_byte (gb h)) [0..<nat n]))"

definition ptr_at :: "byte list \<Rightarrow> int \<Rightarrow> byte list result" where
  "ptr_at buffer i = (if 0 \<le> i \<and> i \<le> int (length buffer) then Inr (drop (nat i) buffer) else Inl OutOfBounds)"

fun con_write_loop :: "byte list \<Rightarrow> nat \<Rightarrow> nat \<Rightarrow> byte list result" where
  "con_write_loop frm i 0 = Inr []"
| "con_write_loop frm i (Suc n) = bindR (rd frm (int i)) (\<lambda>c. bindR (con_write_loop frm (Suc i) n) (\<lambda>cs. Inr (c # cs)))"

definition SynchConsole_Write :: "byte list \<Rightarrow> int \<Rightarrow> os \<Rightarrow> int call" where
  "SynchConsole_Write frm n s = bindR (con_write_loop frm 0 (nat n)) (\<lambda>cs.
     ret n (s\<lparr>conout := conout s @ cs\<rparr>))"

text \<open>\<^verbatim>\<open>SynchConsole::Read\<close> into a buffer; it waits while the characters so far do not end the call.\<close>

definition con_read :: "host \<Rightarrow> byte list \<Rightarrow> int \<Rightarrow> os \<Rightarrow> (int \<times> byte list) call" where
  "con_read h buffer n s = (if n > int (length buffer) then Inl OutOfBounds
     else case SynchConsole_Read (h_char h) (nat n) (conin s) of None \<Rightarrow> Inr (NeedsInput s)
       | Some (k, into, rest) \<Rightarrow> ret (k, overlay into buffer) (s\<lparr>conin := rest\<rparr>))"

text \<open>A C string as a name of the process and semaphore tables.\<close>

definition str_of :: "byte list \<Rightarrow> string" where
  "str_of bs = map (\<lambda>b. char_of (unat b)) (cstr bs)"

definition bytes_of :: "string \<Rightarrow> byte list" where
  "bytes_of cs = map of_char cs"

section \<open>Files\<close>

definition get_file :: "int \<Rightarrow> os \<Rightarrow> OpenFile option result" where
  "get_file fID s = rd (openFileList (fsys s)) fID"

definition set_file :: "int \<Rightarrow> OpenFile option \<Rightarrow> os \<Rightarrow> os result" where
  "set_file fID f s = bindR (wr (openFileList (fsys s)) fID f) (\<lambda>l. Inr (s\<lparr>fsys := (fsys s)\<lparr>openFileList := l\<rparr>\<rparr>))"

definition sys_Create :: "host \<Rightarrow> os \<Rightarrow> unit call" where
  "sys_Create h s = bindR (int_reg 4 s) (\<lambda>virtAddr.
     bindW (User2System virtAddr (MaxFileLength + 1) s) (\<lambda>filename s1.
     bindR (FileSystem_Create (gb h) (fsys s1) (cstr filename) 0 (dk s1)) (\<lambda>(ok, d).
     result2 (if ok then 0 else -1) (s1\<lparr>dk := d\<rparr>))))"

definition sys_Open :: "host \<Rightarrow> os \<Rightarrow> unit call" where
  "sys_Open h s = bindR (int_reg 4 s) (\<lambda>virtAddr. bindR (int_reg 5 s) (\<lambda>t.
     if t \<noteq> 0 \<and> t \<noteq> 1 then result2 (-1) s
     else bindW (User2System virtAddr (MaxFileLength + 1) s) (\<lambda>filename s1.
     bindR (FindFreeBlock (fsys s1)) (\<lambda>freeBlock.
     if freeBlock = -1 then result2 (-1) s1
     else bindR (FileSystem_Open (gb h) (fsys s1) (cstr filename) t (dk s1)) (\<lambda>f. case f of
       None \<Rightarrow> result2 (-1) s1
     | Some file \<Rightarrow> bindR (set_file freeBlock (Some file) s1) (\<lambda>s2. result2 freeBlock s2))))))"

definition sys_Close :: "os \<Rightarrow> unit call" where
  "sys_Close s = bindR (int_reg 4 s) (\<lambda>fid.
     if fid < 2 \<or> fid > 9 then result2 (-1) s
     else bindR (get_file fid s) (\<lambda>f.
     if f = None then result2 (-1) s
     else bindR (FileSystem_Close (fsys s) fid) (\<lambda>(ok, fs).
     if \<not> ok then result2 (-1) (s\<lparr>fsys := fs\<rparr>)
     else bindR (set_file fid None (s\<lparr>fsys := fs\<rparr>)) (\<lambda>s1. result2 0 s1))))"

text \<open>The search for a zero or an end-of-file character among the characters read, from index \<open>i\<close>.\<close>

fun read_scan :: "byte list \<Rightarrow> nat \<Rightarrow> nat \<Rightarrow> (int \<times> byte list \<times> bool) result" where
  "read_scan buffer i 0 = Inr (int i, buffer, False)"
| "read_scan buffer i (Suc n) = bindR (rd buffer (int i)) (\<lambda>c.
     if c = 0 then Inr (int i + 1, buffer, False)
     else if c = EOF_char then bindR (wr buffer (int i) 0) (\<lambda>b. Inr (int i + 1, b, True))
     else read_scan buffer (Suc i) n)"

text \<open>
  In the branch for the console the variable \<^verbatim>\<open>size\<close> is declared again, and its own uninitialised value is
  the number of characters asked for.
\<close>

definition sys_Read :: "host \<Rightarrow> os \<Rightarrow> unit call" where
  "sys_Read h s = bindR (int_reg 4 s) (\<lambda>addr. bindR (int_reg 5 s) (\<lambda>sz. bindR (int_reg 6 s) (\<lambda>fID.
     if fID = 0 then
       bindR (new_buf h (sz + 1)) (\<lambda>buffer.
       bindW (con_read h buffer (h_int h) s) (\<lambda>(n, b) s1.
       bindR (wr b n 0) (\<lambda>b1.
       bindW (System2User addr (n + 1) b1 s1) (\<lambda>_ s2. result2 n s2))))
     else if fID < 2 \<or> fID > 9 then result2 (-1) s
     else bindR (get_file fID s) (\<lambda>f. case f of
       None \<Rightarrow> result2 (-1) s
     | Some file \<Rightarrow>
         bindR (new_buf h (sz + 1)) (\<lambda>buffer.
         bindR (OpenFile_Read file sz (dk s)) (\<lambda>(bs, file1).
         bindR (set_file fID (Some file1) s) (\<lambda>s1.
         bindR (wr (overlay bs buffer) (int (length bs)) 0) (\<lambda>b1.
         bindR (read_scan b1 0 (length bs)) (\<lambda>(len, b2, isEOF).
         bindW (System2User addr (len + 1) b2 s1) (\<lambda>_ s2.
         result2 (if isEOF then -2 else len) s2)))))))))) "

text \<open>The loop that prints a string character by character, at index \<open>i\<close>.\<close>

fun put_chars :: "byte list \<Rightarrow> nat \<Rightarrow> nat \<Rightarrow> int \<Rightarrow> os \<Rightarrow> int call" where
  "put_chars buffer i 0 cnt s = bindR (rd buffer (int i)) (\<lambda>_. ret cnt s)"
| "put_chars buffer i (Suc n) cnt s = bindR (rd buffer (int i)) (\<lambda>c.
     if c \<noteq> 0 then bindR (ptr_at buffer (int i)) (\<lambda>p.
       bindW (SynchConsole_Write p 1 s) (\<lambda>k s1. put_chars buffer (Suc i) n (cnt + k) s1))
     else ret cnt s)"

definition sys_Write :: "host \<Rightarrow> os \<Rightarrow> unit call" where
  "sys_Write h s = bindR (int_reg 4 s) (\<lambda>virtAddr. bindR (int_reg 5 s) (\<lambda>sz. bindR (int_reg 6 s) (\<lambda>fID.
     if fID = 1 then
       bindW (User2System virtAddr MaxString s) (\<lambda>buffer s1.
       bindW (put_chars buffer 0 MaxString 0 s1) (\<lambda>cnt s2. result2 cnt s2))
     else if fID < 2 \<or> fID > 9 then result2 (-1) s
     else bindR (get_file fID s) (\<lambda>f. case f of
       None \<Rightarrow> result2 (-1) s
     | Some file \<Rightarrow>
         if GetType file = 1 then result2 (-1) s
         else bindW (User2System virtAddr MaxString s) (\<lambda>buffer s1.
         bindR (OpenFile_Write (g_byte (gb h)) file buffer sz (dk s1)) (\<lambda>(len, file1, d).
         bindR (set_file fID (Some file1) (s1\<lparr>dk := d\<rparr>)) (\<lambda>s2.
         result2 (if len \<noteq> sz - 1 then -2 else len) s2)))))))"

text \<open>The digits of a number, from the last one; \<open>n\<close> is how many places of the buffer are left.\<close>

function count_digits :: "int \<Rightarrow> int \<Rightarrow> int" where
  "count_digits temp len = (if temp > 0 then count_digits (c_div temp 10) (len + 1) else len)"
  by pat_completeness auto
termination by (relation "measure (\<lambda>(temp, len). nat temp)") auto

declare count_digits.simps [simp del]

fun put_digits :: "byte list \<Rightarrow> nat \<Rightarrow> int \<Rightarrow> byte list result" where
  "put_digits buffer 0 v = Inr buffer"
| "put_digits buffer (Suc n) v = bindR (wr buffer (int n) (of_int (c_mod v 10 + 48))) (\<lambda>b. put_digits b n (c_div v 10))"

definition sys_WriteInt2File :: "host \<Rightarrow> os \<Rightarrow> unit call" where
  "sys_WriteInt2File h s = bindR (int_reg 4 s) (\<lambda>virtAddr. bindR (int_reg 5 s) (\<lambda>fID.
     if fID = 1 then
       bindW (User2System virtAddr MaxString s) (\<lambda>buffer s1.
       bindW (put_chars buffer 0 MaxString 0 s1) (\<lambda>cnt s2. result2 cnt s2))
     else if fID < 2 \<or> fID > 9 then result2 (-1) s
     else bindR (get_file fID s) (\<lambda>f. case f of
       None \<Rightarrow> result2 (-1) s
     | Some file \<Rightarrow>
         if GetType file = 1 then result2 (-1) s
         else let len = (if virtAddr = 0 then 1 else count_digits virtAddr 0) in
         bindR (new_buf h (len + 1)) (\<lambda>buffer.
         bindR (put_digits buffer (nat len) virtAddr) (\<lambda>b.
         bindR (OpenFile_Write (g_byte (gb h)) file b len (dk s)) (\<lambda>(sz, file1, d).
         bindR (set_file fID (Some file1) (s\<lparr>dk := d\<rparr>)) (\<lambda>s1.
         result2 (if len \<noteq> sz then -2 else sz) s1)))))))"

section \<open>Floating point numbers\<close>

text \<open>The order of two IEEE single precision numbers, by their bit patterns.\<close>

definition f_nan :: "u32 \<Rightarrow> bool" where
  "f_nan w \<longleftrightarrow> w AND 0x7fffffff > 0x7f800000"

definition f_key :: "u32 \<Rightarrow> int" where
  "f_key w = (if bit w 31 then - uint (w AND 0x7fffffff) else uint (w AND 0x7fffffff))"

definition f_gt :: "u32 \<Rightarrow> u32 \<Rightarrow> bool" where
  "f_gt a b \<longleftrightarrow> \<not> f_nan a \<and> \<not> f_nan b \<and> f_key a > f_key b"

definition f_eq :: "u32 \<Rightarrow> u32 \<Rightarrow> bool" where
  "f_eq a b \<longleftrightarrow> \<not> f_nan a \<and> \<not> f_nan b \<and> f_key a = f_key b"

definition get_float :: "u32 \<Rightarrow> os \<Rightarrow> u32 result" where
  "get_float p s = (case floats s p of None \<Rightarrow> Inl BadPointer | Some w \<Rightarrow> Inr w)"

text \<open>\<^verbatim>\<open>sprintf\<close> into a new buffer of \<^verbatim>\<open>MaxString\<close> characters.\<close>

definition sprintf_buf :: "byte list \<Rightarrow> byte list result" where
  "sprintf_buf bs = (if length bs < MaxString then Inr bs else Inl OutOfBounds)"

definition sys_WriteF2File :: "host \<Rightarrow> os \<Rightarrow> unit call" where
  "sys_WriteF2File h s = bindR (ReadRegister (mach s) 4) (\<lambda>number. bindR (int_reg 5 s) (\<lambda>fID.
     if fID < 2 \<or> fID > 9 then result2 (-1) s
     else bindR (get_file fID s) (\<lambda>f. case f of
       None \<Rightarrow> result2 (-1) s
     | Some file \<Rightarrow>
         if GetType file \<noteq> 0 then result2 (-1) s
         else bindR (get_float number s) (\<lambda>w.
         bindR (sprintf_buf (h_fmt h w)) (\<lambda>text. let len = int (length text) in
         bindR (OpenFile_Write (g_byte (gb h)) file text len (dk s)) (\<lambda>(cnt, file1, d).
         bindR (set_file fID (Some file1) (s\<lparr>dk := d\<rparr>)) (\<lambda>s1.
         result2 (if cnt \<noteq> len - 1 then -2 else cnt) s1)))))))"

definition sys_CompareFloat :: "os \<Rightarrow> unit call" where
  "sys_CompareFloat s = bindR (ReadRegister (mach s) 4) (\<lambda>p. bindR (ReadRegister (mach s) 5) (\<lambda>q.
     bindR (get_float p s) (\<lambda>a. bindR (get_float q s) (\<lambda>b.
     result2 (if f_gt a b then 1 else if f_eq a b then 0 else -1) s))))"

definition sys_ClearFloat :: "os \<Rightarrow> unit call" where
  "sys_ClearFloat s = bindR (ReadRegister (mach s) 4) (\<lambda>p.
     if p \<noteq> 0 then bindR (get_float p s) (\<lambda>_. ret () (s\<lparr>floats := (floats s)(p := None)\<rparr>)) else ret () s)"

text \<open>\<^verbatim>\<open>fromFToI\<close> gives the address of the number, not the number.\<close>

definition fromFToI :: "u32 \<Rightarrow> int" where
  "fromFToI num = sint num"

definition sys_ReadFloat :: "host \<Rightarrow> os \<Rightarrow> unit call" where
  "sys_ReadFloat h s = bindR (new_buf h (int MaxString)) (\<lambda>buffer.
     bindW (con_read h buffer 40 s) (\<lambda>(numOfChars, b) s1.
     let w = (if numOfChars > 0 then h_atof h b else 0) in
     result2 (fromFToI (h_float h)) (s1\<lparr>floats := (floats s1)(h_float h \<mapsto> w)\<rparr>)))"

definition sys_PrintFloat :: "host \<Rightarrow> os \<Rightarrow> unit call" where
  "sys_PrintFloat h s = bindR (ReadRegister (mach s) 4) (\<lambda>number. bindR (get_float number s) (\<lambda>w.
     bindR (sprintf_buf (h_fmt h w)) (\<lambda>text.
     bindW (SynchConsole_Write text (int (length text)) s) (\<lambda>cnt s1. result2 cnt s1))))"

section \<open>Numbers, characters and strings\<close>

text \<open>The loop of \<^verbatim>\<open>SC_ReadInt\<close> at index \<open>i\<close>; the result is \<^verbatim>\<open>number\<close> and \<^verbatim>\<open>multiplier\<close> after it.\<close>

function readint_loop :: "byte list \<Rightarrow> int \<Rightarrow> int \<Rightarrow> int \<Rightarrow> int \<Rightarrow> (int \<times> int) result" where
  "readint_loop buffer numOfChars i number multiplier =
     (if i < numOfChars then bindR (rd buffer i) (\<lambda>c.
        if i = 0 \<and> c = 45 then readint_loop buffer numOfChars (i + 1) number (-1)
        else if i = 0 \<and> c = 43 then readint_loop buffer numOfChars (i + 1) number multiplier
        else if sint c < 48 \<or> sint c > 57 then Inr (0, multiplier)
        else readint_loop buffer (if i = 0 \<and> numOfChars = 11 then 10 else numOfChars) (i + 1)
          (number * 10 + (sint c - 48)) multiplier)
      else Inr (number, multiplier))"
  by pat_completeness auto
termination by (relation "measure (\<lambda>(b, n, i, x, m). nat (n - i))") (auto split: if_splits)

declare readint_loop.simps [simp del]

definition sys_ReadInt :: "host \<Rightarrow> os \<Rightarrow> unit call" where
  "sys_ReadInt h s = bindR (new_buf h 12) (\<lambda>buffer.
     bindW (con_read h buffer 11 s) (\<lambda>(numOfChars, b) s1.
     if numOfChars > 0 then bindR (readint_loop b numOfChars 0 0 1) (\<lambda>(number, multiplier). result2 (number * multiplier) s1)
     else result2 0 s1))"

text \<open>The loop of \<^verbatim>\<open>SC_PrintInt\<close> at index \<open>i\<close>, with \<open>n\<close> rounds left.\<close>

fun printint_loop :: "nat \<Rightarrow> nat \<Rightarrow> int \<Rightarrow> byte list \<Rightarrow> int \<Rightarrow> (byte list \<times> int) result" where
  "printint_loop i 0 number buffer printPos = Inr (buffer, printPos)"
| "printint_loop i (Suc n) number buffer printPos =
     (if number = 0 then bindR (wr buffer (11 - int i) 48) (\<lambda>b. Inr (b, printPos))
      else bindR (wr buffer (11 - int i) (of_int (c_mod number 10 + 48))) (\<lambda>b.
        printint_loop (Suc i) n (c_div number 10) b (11 - int i)))"

definition sys_PrintInt :: "host \<Rightarrow> os \<Rightarrow> unit call" where
  "sys_PrintInt h s = bindR (new_buf h 12) (\<lambda>buffer. bindR (int_reg 4 s) (\<lambda>number.
     bindR (printint_loop 0 12 (if number < 0 then c_int (- number) else number) buffer 11) (\<lambda>(b, printPos).
     bindR (if number < 0 then bindR (wr b printPos 45) (\<lambda>b1. Inr (b1, printPos - 1)) else Inr (b, printPos)) (\<lambda>(b2, p).
     bindR (ptr_at b2 p) (\<lambda>frm.
     bindW (SynchConsole_Write frm (12 - p) s) (\<lambda>_ s1. ret () s1))))))"

definition sys_ReadChar :: "host \<Rightarrow> os \<Rightarrow> unit call" where
  "sys_ReadChar h s = bindR (new_buf h (int MaxString)) (\<lambda>buffer.
     bindW (con_read h buffer (int MaxString) s) (\<lambda>(sz, b) s1.
     if sz = 0 then result2 0 s1 else if sz > 1 then result2 0 s1
     else bindR (rd b 0) (\<lambda>c. result2 (sint c) s1)))"

definition sys_PrintChar :: "os \<Rightarrow> unit call" where
  "sys_PrintChar s = bindR (ReadRegister (mach s) 4) (\<lambda>v.
     bindW (SynchConsole_Write [ucast v] 1 s) (\<lambda>_ s1. ret () s1))"

definition sys_ReadString :: "host \<Rightarrow> os \<Rightarrow> unit call" where
  "sys_ReadString h s = bindR (int_reg 4 s) (\<lambda>addr. bindR (int_reg 5 s) (\<lambda>len.
     bindR (new_buf h (len + 1)) (\<lambda>buffer.
     bindW (con_read h buffer len s) (\<lambda>(sz, b) s1.
     bindR (wr b sz 0) (\<lambda>b1.
     bindW (System2User addr (sz + 1) b1 s1) (\<lambda>_ s2. result2 sz s2))))))"

definition sys_PrintString :: "os \<Rightarrow> unit call" where
  "sys_PrintString s = bindR (int_reg 4 s) (\<lambda>addr.
     bindW (User2System addr MaxString s) (\<lambda>buffer s1.
     bindW (put_chars buffer 0 MaxString 0 s1) (\<lambda>cnt s2. result2 cnt s2)))"

section \<open>Processes, semaphores and threads\<close>

text \<open>The program file is looked up on the disk, which does not change it.\<close>

definition exec_call :: "host \<Rightarrow> byte list \<Rightarrow> os \<Rightarrow> unit call" where
  "exec_call h name s = bindR (FileSystem_Open1 (gb h) (fsys s) (cstr name) (dk s)) (\<lambda>f.
     bindW (ExecUpdate (f \<noteq> None) (h_sems h) (h_tid h) (h_regs h) (str_of name) s) (\<lambda>pID s1. result2 pID s1))"

definition sys_Exec :: "host \<Rightarrow> os \<Rightarrow> unit call" where
  "sys_Exec h s = bindR (int_reg 4 s) (\<lambda>addr. bindW (User2System addr MaxString s) (\<lambda>name s1. exec_call h name s1))"

definition sys_CreateSemaphore :: "host \<Rightarrow> os \<Rightarrow> unit call" where
  "sys_CreateSemaphore h s = bindR (int_reg 4 s) (\<lambda>nameAddr. bindR (int_reg 5 s) (\<lambda>semval.
     bindW (User2System nameAddr MaxString s) (\<lambda>name s1.
     bindW (STable_Create (h_sem h) (str_of name) semval s1) (\<lambda>i s2. result2 (if i \<noteq> -1 then 0 else -1) s2))))"

definition sys_Up :: "os \<Rightarrow> unit call" where
  "sys_Up s = bindR (int_reg 4 s) (\<lambda>addr. bindW (User2System addr MaxString s) (\<lambda>name s1.
     bindW (STable_Signal (str_of name) s1) (\<lambda>i s2. result2 (if i \<noteq> -1 then 0 else -1) s2)))"

definition sys_Down :: "os \<Rightarrow> unit call" where
  "sys_Down s = bindR (int_reg 4 s) (\<lambda>addr. bindW (User2System addr MaxString s) (\<lambda>name s1.
     bindW (STable_Wait (str_of name) s1) (\<lambda>i s2. result2 (if i \<noteq> -1 then 0 else -1) s2)))"

definition sys_Join :: "os \<Rightarrow> unit call" where
  "sys_Join s = bindR (int_reg 4 s) (\<lambda>pID.
     if pID < 0 \<or> pID > 9 then result2 (-1) s
     else bindR (IsExist s pID) (\<lambda>e.
     if \<not> e then result2 (-1) s
     else bindW (JoinUpdate pID s) (\<lambda>r s1. result2 r s1)))"

definition sys_Exit :: "os \<Rightarrow> unit call" where
  "sys_Exit s = bindR (int_reg 4 s) (\<lambda>exitCode. bindW (ExitUpdate exitCode s) (\<lambda>r s1. result2 r s1))"

text \<open>The running thread itself is forked: it gets a new stack and is put on the ready list.\<close>

definition sys_Fork :: "os \<Rightarrow> unit call" where
  "sys_Fork s = bindR (ReadRegister (mach s) 4) (\<lambda>_.
     bindR (fork_thread (currentThread (kn s)) s) (\<lambda>s1. ret () s1))"

text \<open>\<^verbatim>\<open>Thread::Yield\<close> up to the switch to the next thread.\<close>

definition sys_Yield :: "os \<Rightarrow> unit call" where
  "sys_Yield s = (let (nextThread, k) = FindNextToRun (kn s) in case nextThread of
     None \<Rightarrow> ret () s
   | Some t \<Rightarrow> bindR (ReadyToRun (currentThread k) k) (\<lambda>k1.
       bindR (upd_thread t (\<lambda>x. x\<lparr>tstatus := RUNNING\<rparr>) k1) (\<lambda>k2.
       Inr (Yields (s\<lparr>kn := k2\<lparr>currentThread := t\<rparr>\<rparr>)))))"

text \<open>\<^verbatim>\<open>Thread::Sleep\<close> requires that interrupts are disabled; in a system call they are enabled.\<close>

definition sys_Sleep :: "os \<Rightarrow> unit call" where
  "sys_Sleep s = Inl AssertFailed"

section \<open>The file format of a time table\<close>

text \<open>
  \<^verbatim>\<open>SC_ReadFileFormat\<close> reads one character at a time into \<^verbatim>\<open>*temp\<close>, which a read at the end of the file
  leaves as it was, so that these loops need not end: \<open>None\<close> is a run that does not. The first one reads
  the number of lines; its result is \<^verbatim>\<open>stopRun\<close>, the number, \<^verbatim>\<open>*temp\<close> and the file.
\<close>

partial_function (option) rff_total :: "OpenFile \<Rightarrow> byte \<Rightarrow> int \<Rightarrow> dsk \<Rightarrow> (bool \<times> int \<times> byte \<times> OpenFile) result option" where
  "rff_total f t tot d = (case OpenFile_Read f 1 d of
     Inl e \<Rightarrow> Some (Inl e)
   | Inr (bs, f1) \<Rightarrow> (let t1 = (if bs = [] then t else hd bs) in
       if 48 \<le> sint t1 \<and> sint t1 \<le> 57 then rff_total f1 t1 (c_int (tot * 10 + (sint t1 - 48))) d
       else if t1 = 10 then Some (Inr (False, tot, t1, f1))
       else Some (Inr (True, tot, t1, f1))))"

text \<open>The numbers of a line; the cells for them are allocated but never linked to \<^verbatim>\<open>bigHead\<close>.\<close>

partial_function (option) rff_line :: "OpenFile \<Rightarrow> byte \<Rightarrow> int \<Rightarrow> int \<Rightarrow> bool \<Rightarrow> dsk \<Rightarrow> (bool \<times> int \<times> byte \<times> OpenFile) result option" where
  "rff_line f t curNum sz isSet d = (case OpenFile_Read f 1 d of
     Inl e \<Rightarrow> Some (Inl e)
   | Inr (bs, f1) \<Rightarrow> (let t1 = (if bs = [] then t else hd bs) in
       if t1 \<noteq> 32 \<and> t1 \<noteq> 10 \<and> (sint t1 < 48 \<or> sint t1 > 57) then Some (Inr (True, sz, t1, f1))
       else if t1 = 10 then Some (Inr (False, if isSet then sz + 1 else sz, t1, f1))
       else if t1 = 32 \<and> isSet then rff_line f1 t1 0 (sz + 1) False d
       else if t1 = 32 then rff_line f1 t1 curNum sz isSet d
       else rff_line f1 t1 (c_int (curNum * 10 + (sint t1 - 48))) sz True d))"

text \<open>The lines; a line is stored at \<^verbatim>\<open>bigHead[index]\<close> whatever \<^verbatim>\<open>index\<close> is. The loop ends only with \<^verbatim>\<open>stopRun\<close>.\<close>

partial_function (option) rff_lines :: "OpenFile \<Rightarrow> byte \<Rightarrow> int \<Rightarrow> int \<Rightarrow> dsk \<Rightarrow> (int \<times> OpenFile) result option" where
  "rff_lines f t tot index d =
     (if \<not> (0 \<le> index \<and> index < tot) then Some (Inl OutOfBounds)
      else case rff_line f t 0 0 False d of
        None \<Rightarrow> None
      | Some (Inl e) \<Rightarrow> Some (Inl e)
      | Some (Inr (stopRun, sz, t1, f1)) \<Rightarrow>
          (if stopRun then Some (Inr (index + 1, f1)) else rff_lines f1 t1 tot (index + 1) d))"

text \<open>\<open>k\<close> is how many of the pointers have been set; \<open>null\<close> says which of the others happen to be null.\<close>

definition delete2DimNodeArr :: "(nat \<Rightarrow> bool) \<Rightarrow> int \<Rightarrow> int \<Rightarrow> unit result" where
  "delete2DimNodeArr null k sz =
     (if sz \<le> 0 then Inr () else if list_all null [nat k..<nat sz] then Inr () else Inl BadPointer)"

text \<open>As the loop over the lines ends with \<^verbatim>\<open>stopRun\<close>, the part that would copy the numbers to the program is not reached.\<close>

definition sys_ReadFileFormat :: "host \<Rightarrow> os \<Rightarrow> unit call option" where
  "sys_ReadFileFormat h s = (case bindR (int_reg 5 s) (\<lambda>fID. bindR (get_file fID s) (\<lambda>f. Inr (fID, f))) of
     Inl e \<Rightarrow> Some (Inl e)
   | Inr (fID, None) \<Rightarrow> Some (result2 (-1) s)
   | Inr (fID, Some file) \<Rightarrow> (case rff_total file (h_char h) 0 (dk s) of
       None \<Rightarrow> None
     | Some (Inl e) \<Rightarrow> Some (Inl e)
     | Some (Inr (stopRun, tot, t1, f1)) \<Rightarrow>
         if stopRun then Some (bindR (set_file fID (Some f1) s) (\<lambda>s1. ret () s1))
         else (case rff_lines f1 t1 tot 0 (dk s) of
           None \<Rightarrow> None
         | Some (Inl e) \<Rightarrow> Some (Inl e)
         | Some (Inr (k, f2)) \<Rightarrow> Some (bindR (set_file fID (Some f2) s) (\<lambda>s1.
             bindR (delete2DimNodeArr (h_null h) k tot) (\<lambda>_. ret () s1))))))"

section \<open>The exception handler\<close>

definition syscall :: "host \<Rightarrow> int \<Rightarrow> os \<Rightarrow> unit call option" where
  "syscall h t s =
     (if t = SC_Halt then Some (Inr (Halts s))
      else if t = SC_Create then Some (sys_Create h s)
      else if t = SC_Open then Some (sys_Open h s)
      else if t = SC_Close then Some (sys_Close s)
      else if t = SC_Read then Some (sys_Read h s)
      else if t = SC_Write then Some (sys_Write h s)
      else if t = SC_WriteF2File then Some (sys_WriteF2File h s)
      else if t = SC_CompareFloat then Some (sys_CompareFloat s)
      else if t = SC_ClearFloat then Some (sys_ClearFloat s)
      else if t = SC_ReadInt then Some (sys_ReadInt h s)
      else if t = SC_PrintInt then Some (sys_PrintInt h s)
      else if t = SC_ReadFloat then Some (sys_ReadFloat h s)
      else if t = SC_PrintFloat then Some (sys_PrintFloat h s)
      else if t = SC_ReadChar then Some (sys_ReadChar h s)
      else if t = SC_PrintChar then Some (sys_PrintChar s)
      else if t = SC_ReadString then Some (sys_ReadString h s)
      else if t = SC_PrintString then Some (sys_PrintString s)
      else if t = SC_Exec then Some (sys_Exec h s)
      else if t = SC_CreateSemaphore then Some (sys_CreateSemaphore h s)
      else if t = SC_Up then Some (sys_Up s)
      else if t = SC_Down then Some (sys_Down s)
      else if t = SC_Join then Some (sys_Join s)
      else if t = SC_Exit then Some (sys_Exit s)
      else if t = SC_Fork then Some (sys_Fork s)
      else if t = SC_Yield then Some (sys_Yield s)
      else if t = SC_Sleep then Some (sys_Sleep s)
      else if t = SC_ReadFileFormat then sys_ReadFileFormat h s
      else if t = SC_WriteInt2File then Some (sys_WriteInt2File h s)
      else Some (Inr (Halts s)))"

definition ExceptionHandler :: "host \<Rightarrow> ExceptionType \<Rightarrow> os \<Rightarrow> unit call option" where
  "ExceptionHandler h which s = (case int_reg 2 s of
     Inl e \<Rightarrow> Some (Inl e)
   | Inr t \<Rightarrow> (case which of
       NoException \<Rightarrow> Some (ret () s)
     | SyscallException \<Rightarrow> map_option (\<lambda>c. bindW c (\<lambda>_ s1. IncPCReg s1)) (syscall h t s)
     | _ \<Rightarrow> Some (Inr (Halts s))))"

text \<open>The rest of a call whose thread slept or yielded, when it runs again.\<close>

definition exec_resume :: "host \<Rightarrow> byte list \<Rightarrow> os \<Rightarrow> unit call" where
  "exec_resume h name s = bindW (exec_call h name s) (\<lambda>_ s1. IncPCReg s1)"

definition down_resume :: "sid \<Rightarrow> os \<Rightarrow> unit call" where
  "down_resume sm s = bindW (sem_P sm s) (\<lambda>_ s1. bindW (result2 0 s1) (\<lambda>_ s2. IncPCReg s2))"

definition sys_join_resume :: "int \<Rightarrow> os \<Rightarrow> unit call" where
  "sys_join_resume pID s = bindW (join_resume pID s) (\<lambda>r s1. bindW (result2 r s1) (\<lambda>_ s2. IncPCReg s2))"

definition sys_exit_resume :: "int \<Rightarrow> int \<Rightarrow> os \<Rightarrow> unit call" where
  "sys_exit_resume pID ec s = bindW (exit_resume pID ec s) (\<lambda>r s1. bindW (result2 r s1) (\<lambda>_ s2. IncPCReg s2))"

definition yield_resume :: "os \<Rightarrow> unit call" where
  "yield_resume s = IncPCReg s"

text \<open>One round of the loop of \<^verbatim>\<open>Machine::Run\<close>; the clock is that of the theory \<open>Interrupt\<close>.\<close>

definition run_step :: "host \<Rightarrow> os \<Rightarrow> unit call option" where
  "run_step h s = (case OneInstruction (mach s) of
     Inl e \<Rightarrow> Some (Inl e)
   | Inr (None, m) \<Rightarrow> Some (ret () (s\<lparr>mach := m\<rparr>))
   | Inr (Some e, m) \<Rightarrow> ExceptionHandler h e (s\<lparr>mach := m\<rparr>))"

text \<open>
  \<^verbatim>\<open>MyStartProcess\<close> up to \<^verbatim>\<open>machine->Run\<close>. When the program cannot be loaded the address space keeps what its
  memory held, with no pages in the second case, and the process starts all the same.
\<close>

definition loaded_space :: "host \<Rightarrow> load_result \<Rightarrow> AddrSpace" where
  "loaded_space h r = (case r of Loaded sp \<Rightarrow> sp | NotOpened \<Rightarrow> h_space h | NoMemory \<Rightarrow> (h_space h)\<lparr>numPages := 0\<rparr>)"

definition MyStartProcess :: "host \<Rightarrow> int \<Rightarrow> os \<Rightarrow> os result" where
  "MyStartProcess h pID s = bindR (PTable_GetName s pID) (\<lambda>filename.
     bindR (FileSystem_Open1 (gb h) (fsys s) (bytes_of filename) (dk s)) (\<lambda>f.
     bindR (AddrSpace_file (h_exe h) (map_option (\<lambda>file. content (hdr file) (dk s)) f) (physMap s) (mainMemory (mach s))) (\<lambda>(r, bm, mem).
     let sp = loaded_space h r in
     bindR (upd_thread (currentThread (kn s)) (\<lambda>x. x\<lparr>space := Some sp\<rparr>) (kn s)) (\<lambda>k.
     bindR (InitRegisters sp ((mach s)\<lparr>mainMemory := mem\<rparr>)) (\<lambda>m.
     Inr (s\<lparr>kn := k, physMap := bm, mach := AddrSpace_RestoreState sp m\<rparr>))))))"

text \<open>
  \<^verbatim>\<open>StartProcess\<close> of \<^verbatim>\<open>userprog/progtest.cc\<close>, which the main thread calls for the program of the command line, up to
  \<^verbatim>\<open>machine->Run\<close>. When there is no memory the constructor has deleted the file, which is deleted again.
\<close>

definition StartProcess :: "host \<Rightarrow> byte list \<Rightarrow> os \<Rightarrow> os result" where
  "StartProcess h filename s = bindR (FileSystem_Open1 (gb h) (fsys s) filename (dk s)) (\<lambda>f. case f of
     None \<Rightarrow> Inr s
   | Some file \<Rightarrow>
       bindR (AddrSpace_OpenFile (h_exe h) (content (hdr file) (dk s)) (physMap s) (mainMemory (mach s))) (\<lambda>(r, bm, mem).
       if r = NoMemory then Inl BadPointer
       else let sp = loaded_space h r in
         bindR (upd_thread (currentThread (kn s)) (\<lambda>x. x\<lparr>space := Some sp\<rparr>) (kn s)) (\<lambda>k.
         bindR (InitRegisters sp ((mach s)\<lparr>mainMemory := mem\<rparr>)) (\<lambda>m.
         Inr (s\<lparr>kn := k, physMap := bm, mach := AddrSpace_RestoreState sp m\<rparr>)))))"

end
