(* ===== verification/SyscallProps.thy ===== *)
theory SyscallProps
  imports Syscalls
begin

text \<open>
  Properties of the system calls: the calling convention and the types of the state, which every call
  keeps; strings and numbers between the console and user memory; files; processes.
\<close>

section \<open>What every call keeps\<close>

text \<open>
  Between two moments of a call, the user program sees the same registers except the result in register
  2, and the same translation; the tables keep their sizes.
\<close>

definition table_sizes :: "os \<Rightarrow> nat \<times> nat \<times> nat" where
  "table_sizes s = (length (openFileList (fsys s)), length (pt_pcb (processTab s)), length (semTab (semaphoreTable s)))"

definition os_ok :: "os \<Rightarrow> bool" where
  "os_ok s \<longleftrightarrow> wf_machine (mach s) \<and> table_sizes s = (10, 10, 10)"

definition keeps :: "os \<Rightarrow> os \<Rightarrow> bool" where
  "keeps s0 s \<longleftrightarrow> os_ok s \<and> (\<forall>r. r \<noteq> 2 \<longrightarrow> reg (mach s) r = reg (mach s0) r) \<and> xlate (mach s) = xlate (mach s0)"

definition kept :: "os \<Rightarrow> 'a call \<Rightarrow> bool" where
  "kept s0 c \<longleftrightarrow> (case c of Inl e \<Rightarrow> True | Inr (Ret x s) \<Rightarrow> keeps s0 s | Inr (WaitsAt sm s) \<Rightarrow> keeps s0 s
     | Inr (NeedsInput s) \<Rightarrow> keeps s0 s | Inr (Yields s) \<Rightarrow> keeps s0 s | Inr (Halts s) \<Rightarrow> os_ok s)"

named_theorems kept_rules
named_theorems kept_state
named_theorems same_mach

lemma os_keeps_refl: "os_ok s \<Longrightarrow> keeps s s"
  by (simp add: keeps_def)

lemma keeps_ok: "keeps s0 s \<Longrightarrow> os_ok s"
  by (simp add: keeps_def)

text \<open>A change of the state that touches neither the machine nor the sizes of the tables.\<close>

definition similar :: "os \<Rightarrow> os \<Rightarrow> bool" where
  "similar s s' \<longleftrightarrow> mach s' = mach s \<and> table_sizes s' = table_sizes s"

lemma keeps_similar: "keeps s0 s \<Longrightarrow> similar s s' \<Longrightarrow> keeps s0 s'"
  by (simp add: keeps_def similar_def os_ok_def)

lemma os_ok_similar: "os_ok s \<Longrightarrow> similar s s' \<Longrightarrow> os_ok s'"
  by (simp add: similar_def os_ok_def)

lemma similar_trans: "similar s s1 \<Longrightarrow> similar s1 s2 \<Longrightarrow> similar s s2"
  by (simp add: similar_def)

lemma similar_upd [simp]:
  "similar s s" "similar s (s\<lparr>kn := k\<rparr>)" "similar s (s\<lparr>dk := d\<rparr>)" "similar s (s\<lparr>conin := ci\<rparr>)" "similar s (s\<lparr>conout := co\<rparr>)"
  "similar s (s\<lparr>floats := fl\<rparr>)" "similar s (s\<lparr>processTab := (processTab s)\<lparr>pt_bm := b\<rparr>\<rparr>)"
  "similar s (s\<lparr>semaphoreTable := (semaphoreTable s)\<lparr>st_bm := b\<rparr>\<rparr>)"
  by (simp_all add: similar_def table_sizes_def)

lemma kept_ret [kept_rules]: "keeps s0 s \<Longrightarrow> kept s0 (ret x s)"
  by (simp add: kept_def ret_def)

lemma kept_simps [kept_rules]:
  "kept s0 (Inl e)" "keeps s0 s \<Longrightarrow> kept s0 (Inr (WaitsAt sm s))" "keeps s0 s \<Longrightarrow> kept s0 (Inr (NeedsInput s))"
  "keeps s0 s \<Longrightarrow> kept s0 (Inr (Yields s))" "os_ok s \<Longrightarrow> kept s0 (Inr (Halts s))"
  by (simp_all add: kept_def)

lemma kept_bindR [kept_rules]: "(\<And>x. m = Inr x \<Longrightarrow> kept s0 (f x)) \<Longrightarrow> kept s0 (bindR m f)"
  by (cases m) (simp_all add: kept_def)

lemma kept_bindW [kept_rules]: "kept s0 c \<Longrightarrow> (\<And>x s. keeps s0 s \<Longrightarrow> kept s0 (f x s)) \<Longrightarrow> kept s0 (bindW c f)"
proof (cases c)
  case (Inr y)
  assume "kept s0 c" "\<And>x s. keeps s0 s \<Longrightarrow> kept s0 (f x s)"
  then show ?thesis using Inr by (cases y) (simp_all add: kept_def)
qed (simp add: kept_def)

lemma kept_if [kept_rules]: "(b \<Longrightarrow> kept s0 c) \<Longrightarrow> (\<not> b \<Longrightarrow> kept s0 d) \<Longrightarrow> kept s0 (if b then c else d)"
  by simp

lemma kept_option [kept_rules]: "(x = None \<Longrightarrow> kept s0 c) \<Longrightarrow> (\<And>y. x = Some y \<Longrightarrow> kept s0 (f y)) \<Longrightarrow> kept s0 (case x of None \<Rightarrow> c | Some y \<Rightarrow> f y)"
  by (cases x) simp_all

lemma kept_prod [kept_rules]: "(\<And>a b. x = (a, b) \<Longrightarrow> kept s0 (f a b)) \<Longrightarrow> kept s0 (case x of (a, b) \<Rightarrow> f a b)"
  by (cases x) simp

lemma kept_prod_state [kept_rules]: "(\<And>a b. x = (a, b) \<Longrightarrow> kept s0 (f a b s)) \<Longrightarrow> kept s0 ((case x of (a, b) \<Rightarrow> f a b) s)"
  by (cases x) simp

lemma kept_let [kept_rules]: "kept s0 (f x) \<Longrightarrow> kept s0 (let y = x in f y)"
  by simp

section \<open>The basic operations\<close>

lemma ReadMem_keeps:
  assumes "os_ok s" "sz \<in> {1, 2, 4}" "ReadMem (mach s) a sz = Inr (r, m)"
  shows "case r of Inl e \<Rightarrow> os_ok (s\<lparr>mach := m\<rparr>) | Inr v \<Rightarrow> keeps s (s\<lparr>mach := m\<rparr>)"
proof -
  have wf: "wf_machine (mach s)" using assms(1) by (simp add: os_ok_def)
  show ?thesis
  proof (cases "xlate (mach s) (unat a) sz False")
    case (Inl e)
    then show ?thesis using ReadMem_trap [OF wf assms(2) Inl] assms(1,3)
      by (auto simp: os_ok_def table_sizes_def same_memory_def nachos_wf)
  next
    case (Inr pa)
    then show ?thesis using ReadMem_value [OF wf assms(2) Inr] assms(1,3)
      by (auto simp: keeps_def os_ok_def table_sizes_def same_memory_def reg_def)
  qed
qed

lemma WriteMem_keeps:
  assumes "os_ok s" "sz \<in> {1, 2, 4}" "WriteMem (mach s) a sz v = Inr (r, m)"
  shows "case r of Inl e \<Rightarrow> os_ok (s\<lparr>mach := m\<rparr>) | Inr _ \<Rightarrow> keeps s (s\<lparr>mach := m\<rparr>)"
proof -
  have wf: "wf_machine (mach s)" using assms(1) by (simp add: os_ok_def)
  show ?thesis
  proof (cases "xlate (mach s) (unat a) sz True")
    case (Inl e)
    then show ?thesis using WriteMem_trap [OF wf assms(2) Inl, of v] assms(1,3)
      by (auto simp: os_ok_def table_sizes_def same_memory_def nachos_wf)
  next
    case (Inr pa)
    then obtain bs mem m1 where w: "WriteMem (mach s) a sz v = Inr (Inr (), m1\<lparr>mainMemory := mem\<rparr>)" "same_memory (mach s) m1"
      "mem_write (mainMemory (mach s)) pa bs = Inr mem" using WriteMem_value [OF wf assms(2) Inr, of v] by auto
    then have "wf_machine (m1\<lparr>mainMemory := mem\<rparr>)" using mem_write_length by (auto simp: same_memory_def intro!: wf_mainMemory)
    then show ?thesis using w assms(1,3)
      by (auto simp: keeps_def os_ok_def table_sizes_def same_memory_def reg_def)
  qed
qed

lemma keeps_trans: "keeps s0 s \<Longrightarrow> keeps s s' \<Longrightarrow> keeps s0 s'"
  by (simp add: keeps_def)

lemma kept_user_read [kept_rules]:
  assumes "keeps s0 s"
  shows "kept s0 (user_read a 1 s)"
  unfolding user_read_def
proof (rule kept_bindR, clarify, goal_cases)
  case (1 r m)
  then show ?case using ReadMem_keeps [OF keeps_ok [OF assms], of 1 a r m] keeps_trans [OF assms]
    by (cases r) (auto intro!: kept_rules)
qed

lemma kept_user_write [kept_rules]:
  assumes "keeps s0 s"
  shows "kept s0 (user_write a 1 v s)" "kept s0 (user_write a 4 v s)"
proof -
  have "kept s0 (user_write a sz v s)" if "sz \<in> {1, 2, 4}" for sz
    unfolding user_write_def
  proof (rule kept_bindR, clarify, goal_cases)
    case (1 r m)
    then show ?case using WriteMem_keeps [OF keeps_ok [OF assms] that, of a v r m] keeps_trans [OF assms]
      by (cases r) (auto intro!: kept_rules)
  qed
  then show "kept s0 (user_write a 1 v s)" "kept s0 (user_write a 4 v s)" by simp_all
qed

lemmas kept_user_access [kept_rules] = kept_user_read [unfolded One_nat_def] kept_user_write(1) [unfolded One_nat_def]

lemma WriteRegister_ok: "wf_machine m \<Longrightarrow> r < 40 \<Longrightarrow> WriteRegister m (int r) v = Inr (set_reg m r v)"
  using wf_machine_regs [of m] by (simp add: WriteRegister_def set_reg_def wr_def)

lemma ReadRegister_ok: "wf_machine m \<Longrightarrow> r < 40 \<Longrightarrow> ReadRegister m (int r) = Inr (reg m r)"
  using wf_machine_regs [of m] by (simp add: ReadRegister_def reg_def rd_def)

lemma xlate_set_reg [simp]: "xlate (set_reg m r v) = xlate m"
  by (rule xlate_cong) simp_all

lemma result2_eq: "os_ok s \<Longrightarrow> result2 v s = ret () (s\<lparr>mach := set_reg (mach s) 2 (of_int v)\<rparr>)"
  using WriteRegister_ok [of "mach s" 2 "of_int v"] by (simp add: result2_def os_ok_def)

lemma kept_result2 [kept_rules]:
  assumes "keeps s0 s"
  shows "kept s0 (result2 v s)"
proof -
  have ok: "os_ok s" using assms by (rule keeps_ok)
  then have "keeps s (s\<lparr>mach := set_reg (mach s) 2 (of_int v)\<rparr>)"
    using wf_machine_regs [of "mach s"] by (auto simp: keeps_def os_ok_def table_sizes_def reg_set_reg intro!: nachos_wf)
  then show ?thesis using keeps_trans [OF assms] by (simp add: result2_eq [OF ok] kept_ret)
qed

lemma kept_u2s_loop [kept_rules]: "keeps s0 s \<Longrightarrow> kept s0 (u2s_loop a n acc s)"
  by (induction n arbitrary: a acc s) (auto intro!: kept_rules)

lemma kept_User2System [kept_rules]: "keeps s0 s \<Longrightarrow> kept s0 (User2System a n s)"
  unfolding User2System_def by (intro kept_rules)

lemma kept_s2u_loop [kept_rules]: "keeps s0 s \<Longrightarrow> kept s0 (s2u_loop a b i n s)"
  by (induction n arbitrary: i s) (auto intro!: kept_rules)

lemma kept_System2User [kept_rules]: "keeps s0 s \<Longrightarrow> kept s0 (System2User a n b s)"
  unfolding System2User_def by (intro kept_rules)

lemma kept_SynchConsole_Write [kept_rules]: "keeps s0 s \<Longrightarrow> kept s0 (SynchConsole_Write b n s)"
  unfolding SynchConsole_Write_def by (intro kept_rules) (erule keeps_similar, simp)

lemma kept_con_read [kept_rules]: "keeps s0 s \<Longrightarrow> kept s0 (con_read h b n s)"
  unfolding con_read_def by (intro kept_rules) (erule keeps_similar, simp)+

lemma kept_put_chars [kept_rules]: "keeps s0 s \<Longrightarrow> kept s0 (put_chars b i n c s)"
  by (induction n arbitrary: i c s) (auto intro!: kept_rules)

section \<open>Processes\<close>

lemma kept_similar: "keeps s0 s \<Longrightarrow> similar s s' \<Longrightarrow> (\<And>s. keeps s0 s \<Longrightarrow> kept s0 (f s)) \<Longrightarrow> kept s0 (f s')"
  using keeps_similar by blast

lemma similar_ops [same_mach]:
  "set_pcb i p s = Inr s' \<Longrightarrow> similar s s'" "PCB_PCB sms i s = Inr (q, s') \<Longrightarrow> similar s s'"
  "fork_thread t s = Inr s' \<Longrightarrow> similar s s'" "PTable_GetFreeSlot s = Inr (j, s') \<Longrightarrow> similar s s'"
  "STable_GetFreeSlot s = Inr (j, s') \<Longrightarrow> similar s s'" "set_file fd f s = Inr s' \<Longrightarrow> similar s s'"
  "similar s (delete_PCB q s)" "similar s (new_sem sm nm v s)"
  by (auto simp: similar_def table_sizes_def set_pcb_def PCB_PCB_def fork_thread_def PTable_GetFreeSlot_def STable_GetFreeSlot_def set_file_def
      delete_PCB_def delete_sem_def new_sem_def bindR_eq_Inr wr_def Let_def split: if_splits prod.splits)

lemma similar_upd_pcb [same_mach]: "upd_pcb i f s = Inr s' \<Longrightarrow> similar s s'"
  by (auto simp: upd_pcb_def bindR_eq_Inr same_mach)

lemma similar_Remove [same_mach]: "PTable_Remove i s = Inr s' \<Longrightarrow> similar s s'"
  by (auto simp: PTable_Remove_def bindR_eq_Inr split: if_splits dest!: similar_ops(1) intro: similar_trans [OF similar_upd(7) similar_trans [OF similar_ops(7)]])

lemma kept_sem_P [kept_rules]: "keeps s0 s \<Longrightarrow> kept s0 (sem_P sm s)"
  unfolding sem_P_def by (intro kept_rules; erule keeps_similar; simp)

lemma kept_sem_V [kept_rules]: "keeps s0 s \<Longrightarrow> kept s0 (sem_V sm s)"
  unfolding sem_V_def by (intro kept_rules; erule keeps_similar; simp)


text \<open>The steps that only change tables, as rules on what comes after them.\<close>

lemma kept_upd [kept_state]:
  "keeps s0 s \<Longrightarrow> keeps s0 (s\<lparr>kn := k\<rparr>)" "keeps s0 s \<Longrightarrow> keeps s0 (s\<lparr>dk := d\<rparr>)" "keeps s0 s \<Longrightarrow> keeps s0 (s\<lparr>conin := ci\<rparr>)"
  "keeps s0 s \<Longrightarrow> keeps s0 (s\<lparr>floats := fl\<rparr>)" "keeps s0 s \<Longrightarrow> keeps s0 (s\<lparr>processTab := (processTab s)\<lparr>pt_bm := b\<rparr>\<rparr>)"
  "keeps s0 s \<Longrightarrow> keeps s0 (new_sem sm nm v s)"
  by (erule keeps_similar, simp add: same_mach)+

lemma kept_state_bind [kept_state]:
  assumes "keeps s0 s"
  shows "(\<And>s. keeps s0 s \<Longrightarrow> kept s0 (f s)) \<Longrightarrow> kept s0 (bindR (set_pcb i p s) f)"
    "(\<And>s. keeps s0 s \<Longrightarrow> kept s0 (f s)) \<Longrightarrow> kept s0 (bindR (upd_pcb i u s) f)"
    "(\<And>s. keeps s0 s \<Longrightarrow> kept s0 (f s)) \<Longrightarrow> kept s0 (bindR (fork_thread t s) f)"
    "(\<And>s. keeps s0 s \<Longrightarrow> kept s0 (f s)) \<Longrightarrow> kept s0 (bindR (set_file fd x s) f)"
    "(\<And>s. keeps s0 s \<Longrightarrow> kept s0 (f s)) \<Longrightarrow> kept s0 (bindR (PTable_Remove i s) f)"
    "(\<And>q s. keeps s0 s \<Longrightarrow> kept s0 (g q s)) \<Longrightarrow> kept s0 (bindR (PCB_PCB sms i s) (\<lambda>(q, s). g q s))"
    "(\<And>j s. keeps s0 s \<Longrightarrow> kept s0 (g' j s)) \<Longrightarrow> kept s0 (bindR (PTable_GetFreeSlot s) (\<lambda>(j, s). g' j s))"
  by (rule kept_bindR; clarify?; drule same_mach; metis keeps_similar [OF assms])+

lemma kept_PCB_Exec [kept_rules]: "keeps s0 s \<Longrightarrow> kept s0 (PCB_Exec t junk i nm k s)"
  unfolding PCB_Exec_def by (rule kept_state | rule kept_rules | assumption)+

lemma kept_ExecUpdate [kept_rules]: "keeps s0 s \<Longrightarrow> kept s0 (ExecUpdate found sms t junk nm s)"
  unfolding ExecUpdate_def by (rule kept_state | rule kept_rules | assumption)+

lemma kept_JoinRelease [kept_rules]: "keeps s0 s \<Longrightarrow> kept s0 (JoinRelease i s)"
  unfolding JoinRelease_def by (rule kept_state | rule kept_rules | assumption)+

lemma kept_JoinWait [kept_rules]: "keeps s0 s \<Longrightarrow> kept s0 (JoinWait i s)"
  unfolding JoinWait_def by (rule kept_state | rule kept_rules | assumption)+

lemma kept_ExitWait [kept_rules]: "keeps s0 s \<Longrightarrow> kept s0 (ExitWait i s)"
  unfolding ExitWait_def by (rule kept_state | rule kept_rules | assumption)+

lemma kept_ExitUpdate [kept_rules]: "keeps s0 s \<Longrightarrow> kept s0 (ExitUpdate ec s)"
  unfolding ExitUpdate_def exit_rest_def by (rule kept_state | rule kept_rules | assumption | erule keeps_ok)+

lemma kept_JoinUpdate [kept_rules]: "keeps s0 s \<Longrightarrow> kept s0 (JoinUpdate i s)"
  unfolding JoinUpdate_def join_rest_def ExitRelease_def by (rule kept_state | rule kept_rules | assumption)+

lemma kept_STable_Create [kept_rules]:
  assumes "keeps s0 s"
  shows "kept s0 (STable_Create sm nm v s)"
proof -
  have k: "keeps s0 ((new_sem sm nm v s1)\<lparr>semaphoreTable := \<lparr>semTab = l, st_bm = b\<rparr>\<rparr>)"
    if "STable_GetFreeSlot s = Inr (i, s1)" "wr (semTab (semaphoreTable s1)) i p = Inr l" for i s1 l b p
  proof (rule keeps_similar [OF assms])
    have "length l = length (semTab (semaphoreTable s1))" using that(2) wr_length by metis
    then show "similar s ((new_sem sm nm v s1)\<lparr>semaphoreTable := \<lparr>semTab = l, st_bm = b\<rparr>\<rparr>)"
      using same_mach(5) [OF that(1)] by (simp add: similar_def table_sizes_def new_sem_def)
  qed
  show ?thesis unfolding STable_Create_def
    by (rule kept_rules assms | clarify | erule (1) k | drule same_mach(5), erule keeps_similar [OF assms])+
qed

lemma kept_STable_Wait [kept_rules]: "keeps s0 s \<Longrightarrow> kept s0 (STable_Wait nm s)"
  unfolding STable_Wait_def by (rule kept_rules | assumption)+

lemma kept_STable_Signal [kept_rules]: "keeps s0 s \<Longrightarrow> kept s0 (STable_Signal nm s)"
  unfolding STable_Signal_def by (rule kept_rules | assumption)+

section \<open>Every call keeps the convention\<close>

lemma keeps_set_file: "keeps s0 s \<Longrightarrow> set_file fd x s = Inr s' \<Longrightarrow> keeps s0 s'"
  using keeps_similar similar_ops(6) by blast

lemma kept_Close [kept_rules]:
  assumes "keeps s0 s"
  shows "kept s0 (sys_Close s)"
proof -
  have "similar s (s\<lparr>fsys := fs\<rparr>)" if "FileSystem_Close (fsys s) i = Inr (b, fs)" for i b fs
    using that by (auto simp: FileSystem_Close_def similar_def table_sizes_def bindR_eq_Inr wr_def split: if_splits)
  then have k: "keeps s0 (s\<lparr>fsys := fs\<rparr>)" if "FileSystem_Close (fsys s) i = Inr (b, fs)" for i b fs
    using that keeps_similar [OF assms] by blast
  show ?thesis unfolding sys_Close_def
    by (rule kept_rules assms | (simp only: , erule k) | (erule keeps_set_file [rotated], simp only: , erule k))+
qed

lemma kept_Yield [kept_rules]: "keeps s0 s \<Longrightarrow> kept s0 (sys_Yield s)"
  unfolding sys_Yield_def by (rule kept_state | rule kept_rules | assumption)+

lemma kept_exec_call [kept_rules]: "keeps s0 s \<Longrightarrow> kept s0 (exec_call h name s)"
  unfolding exec_call_def by (rule kept_rules | assumption)+

lemma kept_calls [kept_rules]:
  assumes "keeps s0 s"
  shows "kept s0 (sys_Create h s)" "kept s0 (sys_Open h s)" "kept s0 (sys_Read h s)" "kept s0 (sys_Write h s)"
    "kept s0 (sys_WriteInt2File h s)" "kept s0 (sys_WriteF2File h s)" "kept s0 (sys_CompareFloat s)" "kept s0 (sys_ClearFloat s)"
    "kept s0 (sys_ReadInt h s)" "kept s0 (sys_PrintInt h s)" "kept s0 (sys_ReadFloat h s)" "kept s0 (sys_PrintFloat h s)"
    "kept s0 (sys_ReadChar h s)" "kept s0 (sys_PrintChar s)" "kept s0 (sys_ReadString h s)" "kept s0 (sys_PrintString s)"
    "kept s0 (sys_Exec h s)" "kept s0 (sys_CreateSemaphore h s)" "kept s0 (sys_Up s)" "kept s0 (sys_Down s)" "kept s0 (sys_Join s)"
    "kept s0 (sys_Exit s)" "kept s0 (sys_Fork s)" "kept s0 (sys_Sleep s)"
  unfolding sys_Create_def sys_Open_def sys_Read_def sys_Write_def sys_WriteInt2File_def sys_WriteF2File_def sys_CompareFloat_def
    sys_ClearFloat_def sys_ReadInt_def sys_PrintInt_def sys_ReadFloat_def sys_PrintFloat_def sys_ReadChar_def sys_PrintChar_def
    sys_ReadString_def sys_PrintString_def sys_Exec_def sys_CreateSemaphore_def sys_Up_def sys_Down_def sys_Join_def sys_Exit_def
    sys_Fork_def sys_Sleep_def
  by (rule kept_state | rule kept_rules assms | assumption)+

lemma kept_ReadFileFormat:
  assumes "keeps s0 s" "sys_ReadFileFormat h s = Some c"
  shows "kept s0 c"
  using assms(2) unfolding sys_ReadFileFormat_def
  by (auto split: sum.splits option.splits if_splits intro!: kept_rules assms(1)) (erule keeps_set_file [OF assms(1)])+

lemma kept_syscall:
  assumes "os_ok s" "syscall h t s = Some c"
  shows "kept s c"
proof -
  have k: "keeps s s" using assms(1) by (rule os_keeps_refl)
  show ?thesis
  proof (cases "t = SC_ReadFileFormat")
    case True
    then show ?thesis using assms(2) kept_ReadFileFormat [OF k] by (simp add: syscall_def sc_numbers)
  next
    case False
    then show ?thesis using assms(2) unfolding syscall_def
      by (auto intro!: kept_calls [OF k] kept_Yield [OF k] kept_Close [OF k] kept_simps(5) [OF assms(1)] split: if_splits)
  qed
qed

definition pc_advanced :: "Machine \<Rightarrow> Machine \<Rightarrow> Machine" where
  "pc_advanced m0 m = set_reg (set_reg (set_reg m PrevPCReg (reg m0 PCReg)) PCReg (reg m0 NextPCReg)) NextPCReg (reg m0 NextPCReg + 4)"

lemma IncPCReg_eq:
  assumes "os_ok s"
  shows "IncPCReg s = ret () (s\<lparr>mach := pc_advanced (mach s) (mach s)\<rparr>)"
proof -
  have wf: "wf_machine (mach s)" using assms by (simp add: os_ok_def)
  let ?m1 = "set_reg (mach s) 36 (reg (mach s) 34)"
  have w1: "wf_machine ?m1" using wf by (intro nachos_wf) simp_all
  have r1: "reg ?m1 35 = reg (mach s) 35" using wf_machine_regs [OF wf] by (simp add: reg_set_reg)
  have w2: "wf_machine (set_reg ?m1 34 (reg (mach s) 35))" using w1 by (rule wf_set_reg) simp
  show ?thesis
    using ReadRegister_ok [OF wf, of 34] WriteRegister_ok [OF wf, of 36] ReadRegister_ok [OF w1, of 35] WriteRegister_ok [OF w1, of 34]
      WriteRegister_ok [OF w2, of 35] r1
    by (simp add: IncPCReg_def pc_advanced_def)
qed

end
