(* ===== verification/UserIO.thy ===== *)
theory UserIO
  imports SyscallProps
begin

text \<open>
  Numbers and strings between the console, the kernel and the memory of the program, and what the system calls that
  carry them do: \<^verbatim>\<open>SC_PrintInt\<close>, \<^verbatim>\<open>SC_ReadInt\<close>, \<^verbatim>\<open>SC_PrintString\<close>, \<^verbatim>\<open>SC_ReadString\<close> and \<^verbatim>\<open>SC_Write\<close>.
\<close>

section \<open>Decimal numbers\<close>

fun dec :: "nat \<Rightarrow> byte list" where
  "dec n = (if n < 10 then [of_nat (n + 48)] else dec (n div 10) @ [of_nat (n mod 10 + 48)])"

declare dec.simps [simp del]

lemma dec_not_Nil [simp]: "dec n \<noteq> []"
  by (subst dec.simps) simp

lemma length_dec: "n < 10 ^ k \<Longrightarrow> 0 < k \<Longrightarrow> length (dec n) \<le> k"
proof (induction k arbitrary: n)
  case (Suc k)
  show ?case
  proof (cases "n < 10")
    case False
    then have "0 < k" using Suc.prems by (cases k) auto
    moreover have "n div 10 < 10 ^ k" using Suc.prems by (simp add: div_less_iff_less_mult mult.commute)
    ultimately show ?thesis using Suc.IH [of "n div 10"] False by (subst dec.simps) simp
  qed (subst dec.simps, simp)
qed simp

lemma sint_digit: "n < 10 \<Longrightarrow> sint (of_nat (n + 48) :: byte) = int n + 48"
proof -
  assume n: "n < 10"
  define k where "k = n + 48"
  have "int k < 2 ^ 7" using n by (simp add: k_def)
  then have "sint (of_nat k :: byte) = int k" by (simp add: signed_of_nat signed_take_bit_int_eq_self_iff)
  then show ?thesis by (simp add: k_def)
qed

lemma digit_byte: "n < 10 \<Longrightarrow> (word_of_int (int n + 48) :: byte) = of_nat (n + 48)"
  by (metis of_int_of_nat_eq of_nat_add of_nat_numeral)

definition digit :: "byte \<Rightarrow> bool" where
  "digit c \<longleftrightarrow> 48 \<le> sint c \<and> sint c \<le> 57"

definition digits_value :: "int \<Rightarrow> byte list \<Rightarrow> int" where
  "digits_value = foldl (\<lambda>x c. x * 10 + (sint c - 48))"

lemma dec_digits: "\<forall>c \<in> set (dec n). digit c"
proof (induction n rule: dec.induct)
  case (1 n)
  show ?case using 1 sint_digit [of "n mod 10"] sint_digit [of n] by (subst dec.simps) (auto simp: digit_def)
qed

lemma dec_value: "digits_value 0 (dec n) = int n"
proof (induction n rule: dec.induct)
  case (1 n)
  show ?case
  proof (cases "n < 10")
    case True
    then show ?thesis using sint_digit [of n] by (subst dec.simps) (simp add: digits_value_def)
  next
    case False
    then have "digits_value 0 (dec n) = digits_value 0 (dec (n div 10)) * 10 + int (n mod 10)"
      using sint_digit [of "n mod 10"] by (subst dec.simps) (simp add: digits_value_def)
    then show ?thesis using 1 False by (simp add: zdiv_int zmod_int)
  qed
qed

lemma printint_loop_digits:
  "0 < m \<Longrightarrow> length (dec m) < n \<Longrightarrow> i + n = 12 \<Longrightarrow> length buf = 12 \<Longrightarrow>
   printint_loop i n (int m) buf pp =
     Inr (take (11 - i - length (dec m)) buf @ 48 # dec m @ drop (12 - i) buf, 12 - int i - int (length (dec m)))"
proof (induction n arbitrary: i m buf pp)
  case (Suc n)
  have w: "wr buf (11 - int i) v = Inr (buf[11 - i := v])" for v using Suc.prems by (simp add: wr_def nat_diff_distrib')
  define d where "d = (of_nat (m mod 10 + 48) :: byte)"
  have d: "of_int (c_mod (int m) 10 + 48) = d" using digit_byte [of "m mod 10"] by (simp add: d_def zmod_int)
  have dr: "drop (11 - i) (buf[11 - i := d]) = d # drop (12 - i) buf"
  proof -
    have "Suc (11 - i) = 12 - i" using Suc.prems(3) by simp
    then show ?thesis using Suc.prems(3,4) Cons_nth_drop_Suc [of "11 - i" "buf[11 - i := d]"] by simp
  qed
  show ?case
  proof (cases "m < 10")
    case True
    then have dm: "dec m = [d]" by (subst dec.simps) (simp add: d_def)
    then obtain n' where n': "n = Suc n'" using Suc.prems(2) by (cases n) auto
    have w2: "wr (buf[11 - i := d]) (11 - int (Suc i)) 48 = Inr (buf[11 - i := d, 10 - i := 48])"
      using Suc.prems n' by (simp add: wr_def nat_diff_distrib')
    have "buf[11 - i := d, 10 - i := 48] = take (10 - i) buf @ 48 # d # drop (12 - i) buf"
      using Suc.prems n' dr by (simp add: upd_conv_take_nth_drop Suc_diff_Suc)
    then show ?thesis using Suc.prems True w w2 d dm n' by simp
  next
    case False
    then have dm: "dec m = dec (m div 10) @ [d]" by (subst dec.simps) (simp add: d_def)
    have "printint_loop (Suc i) n (int (m div 10)) (buf[11 - i := d]) (11 - int i) =
      Inr (take (11 - Suc i - length (dec (m div 10))) (buf[11 - i := d]) @ 48 # dec (m div 10) @ drop (12 - Suc i) (buf[11 - i := d]),
        12 - int (Suc i) - int (length (dec (m div 10))))"
      using Suc.prems False dm by (intro Suc.IH) auto
    then show ?thesis using Suc.prems False w d dm dr by (simp add: zdiv_int)
  qed
qed simp


lemma con_write_loop_take: "i + n \<le> length frm \<Longrightarrow> con_write_loop frm i n = Inr (take n (drop i frm))"
proof (induction n arbitrary: i)
  case (Suc n)
  then have "drop i frm = frm ! i # drop (Suc i) frm" by (simp add: Cons_nth_drop_Suc)
  then show ?case using Suc by simp
qed simp

lemma SynchConsole_Write_all: "SynchConsole_Write frm (int (length frm)) s = ret (int (length frm)) (s\<lparr>conout := conout s @ frm\<rparr>)"
  by (simp add: SynchConsole_Write_def con_write_loop_take)

lemma int_reg_ok: "os_ok s \<Longrightarrow> r < 40 \<Longrightarrow> int_reg (int r) s = Inr (sint (reg (mach s) r))"
  by (simp add: int_reg_def os_ok_def ReadRegister_ok)

lemmas int_reg_args = int_reg_ok [of _ 2, simplified] int_reg_ok [of _ 4, simplified] int_reg_ok [of _ 5, simplified] int_reg_ok [of _ 6, simplified]

lemma new_buf_12: "\<exists>buf. new_buf h 12 = Inr buf \<and> length buf = 12"
  by (simp add: new_buf_def)

lemma length_dec_int: "m < 2 ^ 31 \<Longrightarrow> length (dec m) \<le> 10"
  by (rule length_dec) simp_all

lemma PrintInt_prints:
  assumes ok: "os_ok s" and n: "n = sint (reg (mach s) 4)" "n \<noteq> - (2 ^ 31)"
  shows "sys_PrintInt h s = ret () (s\<lparr>conout := conout s @
    (if 0 \<le> n then dec (nat n) else [48, 45] @ tl (dec (nat (- n))))\<rparr>)"
proof -
  obtain buf where buf: "new_buf h 12 = Inr buf" "length buf = 12" using new_buf_12 by blast
  define m where "m = nat \<bar>n\<bar>"
  define L where "L = length (dec m)"
  have b: "- (2 ^ 31) \<le> n" "n < 2 ^ 31" using sint_u32_bounds [of "reg (mach s) 4"] n(1) by simp_all
  have "c_int (- n) = - n" if "n < 0" unfolding c_int_def by (rule sint_of_int_id) (use b n(2) that in \<open>simp add: in_int_def\<close>)
  then have m: "m < 2 ^ 31" "(if n < 0 then c_int (- n) else n) = int m" using b n(2) by (auto simp: m_def)
  have L: "0 < L" "L \<le> 10" using length_dec_int [OF m(1)] by (simp_all add: L_def)
  show ?thesis
  proof (cases "n = 0")
    case True
    have "printint_loop 0 12 0 buf 11 = Inr (buf[11 := 48], 11)" using buf(2) by (simp add: numeral_eq_Suc wr_def)
    moreover have "drop 11 (buf[11 := 48]) = [48]" using buf(2) by (simp add: drop_eq_nths [symmetric] list_eq_iff_nth_eq)
    moreover have "dec 0 = [48]" by (subst dec.simps) simp
    ultimately show ?thesis using buf int_reg_args(2) [OF ok] True n(1) SynchConsole_Write_all [of "[48]" s]
      by (simp add: sys_PrintInt_def ptr_at_def)
  next
    case False
    then have m0: "0 < m" by (simp add: m_def)
    define b where "b = take (11 - L) buf @ 48 # dec m"
    have lb: "length b = 12" using L buf(2) by (simp add: b_def L_def [symmetric])
    have lp: "printint_loop 0 12 (int m) buf 11 = Inr (b, 12 - int L)"
      using printint_loop_digits [OF m0, of 12 0 buf 11] L buf(2) by (simp add: b_def L_def [symmetric])
    have d: "drop (12 - L) b = dec m" "take (11 - L) b = take (11 - L) buf" "b ! (11 - L) = 48"
      using L buf(2) by (simp_all add: b_def Suc_diff_le nth_append)
    show ?thesis
    proof (cases "n < 0")
      case True
      obtain c cs where c: "dec m = c # cs" by (cases "dec m") auto
      have Suc12: "12 - L = Suc (11 - L)" using L by simp
      have w: "wr b (12 - int L) 45 = Inr (b[12 - L := 45])" using L lb by (simp add: wr_def nat_diff_distrib')
      have "b[12 - L := 45] = take (11 - L) buf @ 48 # 45 # cs"
        unfolding Suc12 using L buf(2) c by (simp add: b_def list_update_append)
      then have "ptr_at (b[12 - L := 45]) (11 - int L) = Inr (48 # 45 # cs)"
        using L buf(2) by (simp add: ptr_at_def nat_diff_distrib')
      moreover have "12 - (11 - int L) = int (length (48 # 45 # cs))" using c by (simp add: L_def)
      ultimately show ?thesis
        using buf(1) int_reg_args(2) [OF ok] True n(1) m(2) lp w c SynchConsole_Write_all [of "48 # 45 # cs" s]
        by (simp add: sys_PrintInt_def m_def)
    next
      case False
      have "ptr_at b (12 - int L) = Inr (dec m)" using L lb d(1) by (simp add: ptr_at_def nat_diff_distrib')
      moreover have "12 - (12 - int L) = int (length (dec m))" by (simp add: L_def)
      ultimately show ?thesis
        using buf(1) int_reg_args(2) [OF ok] False n(1) m(2) lp SynchConsole_Write_all [of "dec m" s]
        by (simp add: sys_PrintInt_def m_def)
    qed
  qed
qed


lemma readint_digits:
  "\<forall>c \<in> set cs. digit c \<Longrightarrow> i \<noteq> 0 \<or> int i + int (length cs) \<noteq> 11 \<Longrightarrow> cs \<noteq> [] \<or> i \<noteq> 0 \<Longrightarrow>
   i + length cs \<le> length buf \<Longrightarrow> take (length cs) (drop i buf) = cs \<Longrightarrow>
   readint_loop buf (int i + int (length cs)) (int i) v mul = Inr (digits_value v cs, mul)"
proof (induction cs arbitrary: i v)
  case Nil
  then show ?case by (subst readint_loop.simps) (simp add: digits_value_def)
next
  case (Cons c cs)
  have b: "drop i buf = buf ! i # drop (Suc i) buf" using Cons.prems(4) by (simp add: Cons_nth_drop_Suc)
  then have c: "buf ! i = c" "take (length cs) (drop (Suc i) buf) = cs" using Cons.prems(5) by simp_all
  have "digit c" using Cons.prems(1) by simp
  then have d: "c \<noteq> 45" "c \<noteq> 43" "\<not> (sint c < 48 \<or> sint c > 57)" by (auto simp: digit_def)
  have "readint_loop buf (int (Suc i) + int (length cs)) (int (Suc i)) (v * 10 + (sint c - 48)) mul =
      Inr (digits_value (v * 10 + (sint c - 48)) cs, mul)"
    using Cons.prems c(2) by (intro Cons.IH) auto
  then show ?case using d c(1) Cons.prems(2,4)
    by (subst readint_loop.simps) (auto simp: digits_value_def ac_simps)
qed


lemma con_read_line:
  assumes "\<forall>c \<in> set line. c \<notin> {EOF_char, 10, 1}" "conin s = line @ 10 # rest" "length line < n" "n \<le> length buf"
  shows "con_read h buf (int n) s = ret (int (length line), line @ replicate (n - length line) 0 @ drop n buf) (s\<lparr>conin := rest\<rparr>)"
proof -
  obtain k where "n - length line = Suc k" using assms(3) by (metis Suc_diff_Suc)
  moreover have "(10 :: byte) \<noteq> EOF_char" by (simp add: EOF_char_def)
  ultimately have "SynchConsole_Read (h_char h) n (conin s) = Some (int (length line), line @ replicate (n - length line) 0, rest)"
    using read_loop_line [OF assms(1), of n "h_char h" "[]" "10 # rest"] assms(2,3) by (simp add: SynchConsole_Read_def)
  then show ?thesis using assms(3,4) by (simp add: con_read_def overlay_def)
qed

lemma digit_typed: "digit c \<Longrightarrow> c \<notin> {EOF_char, 10, 1}"
  by (auto simp: digit_def EOF_char_def)

lemma ReadInt_reads:
  assumes ok: "os_ok t" and m: "m < 2 ^ 31" and c: "conin t = dec m @ 10 # rest"
  shows "sys_ReadInt h t = ret () (t\<lparr>conin := rest, mach := set_reg (mach t) 2 (of_nat m)\<rparr>)"
proof -
  obtain buf where buf: "new_buf h 12 = Inr buf" "length buf = 12" using new_buf_12 by blast
  define b where "b = dec m @ replicate (11 - length (dec m)) 0 @ drop 11 buf"
  have L: "length (dec m) \<le> 10" using m by (rule length_dec_int)
  have "\<forall>c \<in> set (dec m). c \<notin> {EOF_char, 10, 1}" using dec_digits digit_typed by blast
  then have r: "con_read h buf 11 t = ret (int (length (dec m)), b) (t\<lparr>conin := rest\<rparr>)"
    using con_read_line [of "dec m" t rest 11 buf h] c L buf(2) by (simp add: b_def)
  have lp: "readint_loop b (int (length (dec m))) 0 0 1 = Inr (int m, 1)"
    using readint_digits [of "dec m" 0 b 0 1] dec_digits [of m] L dec_value [of m] by (simp add: b_def)
  have "os_ok (t\<lparr>conin := rest\<rparr>)" using os_ok_similar [OF ok] by simp
  then show ?thesis using buf(1) r lp result2_eq [of "t\<lparr>conin := rest\<rparr>" "int m"]
    by (simp add: sys_ReadInt_def)
qed



section \<open>Strings in user memory\<close>

text \<open>The bytes a program has in its memory from address \<open>va\<close> on.\<close>

definition user_bytes :: "Machine \<Rightarrow> u32 \<Rightarrow> byte list \<Rightarrow> bool" where
  "user_bytes m va bs \<longleftrightarrow> (\<forall>i<length bs. \<exists>pa. xlate m (unat (va + of_nat i)) 1 False = Inr pa \<and> mainMemory m ! pa = bs ! i)"

lemma user_bytes_Cons:
  "user_bytes m va (b # bs) \<longleftrightarrow> (\<exists>pa. xlate m (unat va) 1 False = Inr pa \<and> mainMemory m ! pa = b) \<and> user_bytes m (va + 1) bs"
  by (simp add: user_bytes_def All_less_Suc2 add.assoc)

lemma user_bytes_same: "same_memory m m' \<Longrightarrow> user_bytes m' va bs = user_bytes m va bs"
  by (simp add: user_bytes_def same_memory_def)

lemma same_memory_trans: "same_memory m m1 \<Longrightarrow> same_memory m1 m2 \<Longrightarrow> same_memory m m2"
  by (simp add: same_memory_def)

lemma os_ok_same: "os_ok s \<Longrightarrow> same_memory (mach s) m \<Longrightarrow> os_ok (s\<lparr>mach := m\<rparr>)"
  by (simp add: os_ok_def same_memory_def table_sizes_def)

lemma ucast_scast_byte [simp]: "(ucast (scast (b :: byte) :: u32) :: byte) = b"
  by (rule bit_word_eqI) (simp add: bit_ucast_iff bit_signed_iff)

lemma scast_byte_0 [simp]: "(scast (b :: byte) :: u32) = 0 \<longleftrightarrow> b = 0"
  by (metis ucast_scast_byte ucast_0 signed_0)

lemma user_read_ok:
  assumes ok: "os_ok s" and x: "xlate (mach s) (unat va) 1 False = Inr pa"
  shows "\<exists>m. user_read va 1 s = ret (scast (mainMemory (mach s) ! pa)) (s\<lparr>mach := m\<rparr>) \<and> same_memory (mach s) m"
proof -
  have wf: "wf_machine (mach s)" using ok by (simp add: os_ok_def)
  obtain v m where v: "ReadMem (mach s) va 1 = Inr (Inr v, m)" "same_memory (mach s) m"
    "load_value 1 (take 1 (drop pa (mainMemory (mach s)))) = Inr v" using ReadMem_value [OF wf _ x] by auto
  have "pa < length (mainMemory (mach s))" using xlate_in_memory(1) [OF wf _ x] by simp
  then have "take 1 (drop pa (mainMemory (mach s))) = [mainMemory (mach s) ! pa]" by (simp add: take_Suc hd_drop_conv_nth)
  then have "v = scast (mainMemory (mach s) ! pa)" using v(3) by (simp add: load_value_def)
  then show ?thesis using v(1,2) by (auto simp: user_read_def)
qed

lemma u2s_loop_string:
  "os_ok s \<Longrightarrow> 0 \<notin> set bs \<Longrightarrow> user_bytes (mach s) va (take n (bs @ [0])) \<Longrightarrow>
   \<exists>m. u2s_loop va n acc s = ret (acc @ take n (bs @ [0])) (s\<lparr>mach := m\<rparr>) \<and> same_memory (mach s) m"
proof (induction n arbitrary: va bs acc s)
  case 0
  then show ?case using same_memory_refl [of "mach s"] by (intro exI [of _ "mach s"]) (simp add: os_ok_def)
next
  case (Suc n)
  obtain b where b: "b = hd (bs @ [0])" by simp
  then have ub: "user_bytes (mach s) va (b # take n (tl (bs @ [0])))" using Suc.prems(3) by (cases bs) simp_all
  then obtain pa where pa: "xlate (mach s) (unat va) 1 False = Inr pa" "mainMemory (mach s) ! pa = b"
    and r: "user_bytes (mach s) (va + 1) (take n (tl (bs @ [0])))" unfolding user_bytes_Cons by blast
  obtain m where m: "user_read va 1 s = ret (scast b) (s\<lparr>mach := m\<rparr>)" "same_memory (mach s) m"
    using user_read_ok [OF Suc.prems(1) pa(1)] pa(2) by auto
  show ?case
  proof (cases bs)
    case Nil
    then show ?thesis using m b by (intro exI [of _ m]) simp
  next
    case (Cons c cs)
    have "0 \<notin> set cs" "c \<noteq> 0" using Suc.prems(2) Cons by auto
    obtain m' where "u2s_loop (va + 1) n (acc @ [c]) (s\<lparr>mach := m\<rparr>) = ret ((acc @ [c]) @ take n (cs @ [0])) (s\<lparr>mach := m'\<rparr>)" "same_memory m m'"
      using Suc.IH [OF os_ok_same [OF Suc.prems(1) m(2)] \<open>0 \<notin> set cs\<close>, of "va + 1" "acc @ [c]"] r Cons
      by (auto simp: user_bytes_same [OF m(2)])
    then show ?thesis using m b Cons \<open>c \<noteq> 0\<close> same_memory_trans [OF m(2)] by (intro exI [of _ m']) simp
  qed
qed

lemma User2System_string:
  assumes "os_ok s" "0 \<notin> set bs" "user_bytes (mach s) (of_int a) (take n (bs @ [0]))"
  shows "\<exists>m k. User2System a n s = ret (take n bs @ replicate (Suc k) 0) (s\<lparr>mach := m\<rparr>) \<and> same_memory (mach s) m \<and> min n (length bs) + k = n"
proof -
  obtain m where m: "u2s_loop (of_int a) n [] s = ret (take n (bs @ [0])) (s\<lparr>mach := m\<rparr>)" "same_memory (mach s) m"
    using u2s_loop_string [OF assms, of "[]"] by auto
  show ?thesis
  proof (cases "length bs < n")
    case True
    then have "replicate (n - length bs) 0 = [0] @ replicate (n - Suc (length bs)) (0 :: byte)"
      by (cases "n - length bs") auto
    then show ?thesis using m True by (intro exI [of _ m] exI [of _ "n - length bs"]) (simp add: User2System_def)
  next
    case False
    then show ?thesis using m by (intro exI [of _ m] exI [of _ 0]) (simp add: User2System_def)
  qed
qed

lemma put_chars_string:
  "0 \<notin> set bs \<Longrightarrow> length bs \<le> n \<Longrightarrow> i + length bs < length buf \<Longrightarrow> drop i buf = bs @ 0 # zs \<Longrightarrow>
   put_chars buf i n c s = ret (c + int (length bs)) (s\<lparr>conout := conout s @ bs\<rparr>)"
proof (induction bs arbitrary: i n c s)
  case Nil
  then have "buf ! i = 0" by (metis append_Nil hd_drop_conv_nth list.sel(1) list.size(3) add_0_right)
  then show ?case using Nil by (cases n) simp_all
next
  case (Cons b bs)
  then obtain n' where n': "n = Suc n'" by (cases n) auto
  have i: "i < length buf" using Cons.prems(3) by simp
  then have "buf ! i # drop (Suc i) buf = b # bs @ 0 # zs" using Cons.prems(4) by (simp add: Cons_nth_drop_Suc)
  then have b: "buf ! i = b" "drop (Suc i) buf = bs @ 0 # zs" by simp_all
  have w: "SynchConsole_Write (drop i buf) 1 s = ret 1 (s\<lparr>conout := conout s @ [b]\<rparr>)"
    using Cons.prems(4) by (simp add: SynchConsole_Write_def rd_def)
  show ?case using Cons.IH [of n' "Suc i" "c + 1" "s\<lparr>conout := conout s @ [b]\<rparr>"] Cons.prems n' i b w
    by (simp add: ptr_at_def add.assoc)
qed

lemma PrintString_prints:
  assumes ok: "os_ok s" and bs: "0 \<notin> set bs" "user_bytes (mach s) (reg (mach s) 4) (take 256 (bs @ [0]))"
  shows "\<exists>m. sys_PrintString s = ret () (s\<lparr>conout := conout s @ take 256 bs, mach := set_reg m 2 (of_nat (min 256 (length bs)))\<rparr>) \<and>
    same_memory (mach s) m"
proof -
  obtain m k where m: "User2System (sint (reg (mach s) 4)) 256 s = ret (take 256 bs @ replicate (Suc k) 0) (s\<lparr>mach := m\<rparr>)"
    "same_memory (mach s) m" "min 256 (length bs) + k = 256"
    using User2System_string [OF ok bs(1), of "sint (reg (mach s) 4)" 256] bs(2) by auto
  have p: "put_chars (take 256 bs @ replicate (Suc k) 0) 0 256 0 (s\<lparr>mach := m\<rparr>) =
      ret (int (length (take 256 bs))) (s\<lparr>mach := m, conout := conout s @ take 256 bs\<rparr>)"
    using put_chars_string [of "take 256 bs" 256 0 "take 256 bs @ replicate (Suc k) 0" "replicate k 0" 0 "s\<lparr>mach := m\<rparr>"] bs(1)
    by (auto dest: in_set_takeD)
  have "os_ok (s\<lparr>mach := m, conout := conout s @ take 256 bs\<rparr>)" using os_ok_same [OF ok m(2)] by (simp add: os_ok_def table_sizes_def)
  then show ?thesis using m(1,2) p int_reg_args(2) [OF ok] result2_eq [of "s\<lparr>mach := m, conout := conout s @ take 256 bs\<rparr>" "int (length (take 256 bs))"]
    by (intro exI [of _ m]) (simp add: sys_PrintString_def MaxString_def min.commute)
qed


text \<open>Room of \<open>k\<close> bytes in the memory of the program, at different physical addresses.\<close>

definition user_room :: "Machine \<Rightarrow> u32 \<Rightarrow> nat list \<Rightarrow> bool" where
  "user_room m va pas \<longleftrightarrow> distinct pas \<and> (\<forall>i<length pas. xlate m (unat (va + of_nat i)) 1 True = Inr (pas ! i))"

fun store :: "byte list \<Rightarrow> nat list \<Rightarrow> byte list \<Rightarrow> byte list" where
  "store mem (p # ps) (b # bs) = store (mem[p := b]) ps bs"
| "store mem _ _ = mem"

lemma length_store [simp]: "length (store mem pas bs) = length mem"
  by (induction mem pas bs rule: store.induct) simp_all

lemma store_other: "p \<notin> set pas \<Longrightarrow> store mem pas bs ! p = mem ! p"
  by (induction mem pas bs rule: store.induct) simp_all

lemma store_nth:
  "distinct pas \<Longrightarrow> length pas = length bs \<Longrightarrow> set pas \<subseteq> {..<length mem} \<Longrightarrow> i < length pas \<Longrightarrow> store mem pas bs ! (pas ! i) = bs ! i"
proof (induction mem pas bs arbitrary: i rule: store.induct)
  case (1 mem p ps b bs)
  then show ?case by (cases i) (simp_all add: store_other)
qed simp_all

lemma xlate_write_read: "xlate m va sz True = Inr pa \<Longrightarrow> xlate m va sz False = Inr pa"
  by (auto simp: xlate_def Let_def split: if_splits option.splits)

lemma user_write_ok:
  assumes ok: "os_ok s" and x: "xlate (mach s) (unat va) 1 True = Inr pa"
  shows "\<exists>m. user_write va 1 (scast c) s = ret () (s\<lparr>mach := m\<rparr>) \<and> registers m = registers (mach s) \<and>
    mainMemory m = (mainMemory (mach s))[pa := c] \<and> xlate m = xlate (mach s) \<and> wf_machine m"
proof -
  have wf: "wf_machine (mach s)" using ok by (simp add: os_ok_def)
  obtain bs mem m1 where w: "WriteMem (mach s) va 1 (scast c) = Inr (Inr (), m1\<lparr>mainMemory := mem\<rparr>)" "same_memory (mach s) m1"
    "length bs = 1" "mem_write (mainMemory (mach s)) pa bs = Inr mem" "load_value 1 bs = Inr (truncated 1 (scast c))"
    using WriteMem_value [OF wf _ x, of "scast c"] by auto
  obtain b where b: "bs = [b]" using w(3) by (cases bs) auto
  have "(scast b :: u32) = scast c" using w(5) b by (simp add: load_value_def truncated_def)
  then have c: "b = c" by (metis ucast_scast_byte)
  have "pa < length (mainMemory (mach s))" using xlate_in_memory(1) [OF wf _ x] by simp
  then have "mem = (mainMemory (mach s))[pa := c]" using w(4) b c by (simp add: mem_write_def upd_conv_take_nth_drop)
  then show ?thesis using w(1,2) wf_mainMemory [of m1 mem]
    by (intro exI [of _ "m1\<lparr>mainMemory := mem\<rparr>"]) (simp add: user_write_def same_memory_def)
qed


lemma s2u_loop_string:
  "os_ok s \<Longrightarrow> 0 \<notin> set cs \<Longrightarrow> drop i buf = cs @ 0 # zs \<Longrightarrow> length pas = Suc (length cs) \<Longrightarrow>
   \<forall>j<length pas. xlate (mach s) (unat (va + of_nat (i + j))) 1 True = Inr (pas ! j) \<Longrightarrow>
   \<exists>m. s2u_loop va buf i (Suc (length cs)) s = ret (int (i + Suc (length cs))) (s\<lparr>mach := m\<rparr>) \<and> registers m = registers (mach s) \<and>
     mainMemory m = store (mainMemory (mach s)) pas (cs @ [0]) \<and> xlate m = xlate (mach s) \<and> wf_machine m"
proof (induction cs arbitrary: i pas s)
  case Nil
  then obtain pa where pa: "pas = [pa]" by (cases pas) auto
  have i: "i < length buf" using Nil.prems(3) by (cases "i < length buf") simp_all
  then have b: "buf ! i = 0" using Nil.prems(3) by (simp add: Cons_nth_drop_Suc [symmetric])
  have "xlate (mach s) (unat (va + of_nat i)) 1 True = Inr pa" using Nil.prems(5) pa by simp
  from user_write_ok [OF Nil.prems(1) this, of 0] show ?case using i b pa by auto
next
  case (Cons c cs)
  then obtain pa ps where pa: "pas = pa # ps" "length ps = Suc (length cs)" by (cases pas) auto
  have i: "i < length buf" using Cons.prems(3) by (cases "i < length buf") simp_all
  then have b: "buf ! i = c" "drop (Suc i) buf = cs @ 0 # zs" using Cons.prems(3) by (simp_all add: Cons_nth_drop_Suc [symmetric])
  have c0: "c \<noteq> 0" "0 \<notin> set cs" using Cons.prems(2) by auto
  have "xlate (mach s) (unat (va + of_nat i)) 1 True = Inr pa" using Cons.prems(5) pa(1) by auto
  from user_write_ok [OF Cons.prems(1) this, of c] obtain m where
    m: "user_write (va + of_nat i) 1 (scast c) s = ret () (s\<lparr>mach := m\<rparr>)" "registers m = registers (mach s)"
      "mainMemory m = (mainMemory (mach s))[pa := c]" "xlate m = xlate (mach s)" "wf_machine m" by blast
  have ok: "os_ok (s\<lparr>mach := m\<rparr>)" using Cons.prems(1) m(5) by (simp add: os_ok_def table_sizes_def)
  have x: "\<forall>j<length ps. xlate m (unat (va + of_nat (Suc i + j))) 1 True = Inr (ps ! j)"
  proof (intro allI impI)
    fix j assume "j < length ps"
    then have "Suc j < length pas" using pa(1) by simp
    then show "xlate m (unat (va + of_nat (Suc i + j))) 1 True = Inr (ps ! j)"
      using Cons.prems(5) [rule_format, of "Suc j"] pa(1) m(4) by simp
  qed
  obtain m' where "s2u_loop va buf (Suc i) (Suc (length cs)) (s\<lparr>mach := m\<rparr>) = ret (int (Suc i + Suc (length cs))) (s\<lparr>mach := m'\<rparr>)"
    "registers m' = registers m" "mainMemory m' = store (mainMemory m) ps (cs @ [0])" "xlate m' = xlate m" "wf_machine m'"
    using Cons.IH [OF ok c0(2) b(2) pa(2)] x by auto
  then show ?case using m i b(1) c0(1) pa(1) by (intro exI [of _ m']) simp
qed

lemma user_room_bytes:
  assumes "wf_machine m0" "user_room m0 va pas" "length pas = length bs" "xlate m = xlate m0" "mainMemory m = store (mainMemory m0) pas bs"
  shows "user_bytes m va bs"
  unfolding user_bytes_def
proof (intro allI impI)
  fix i assume i: "i < length bs"
  have x: "xlate m0 (unat (va + of_nat k)) 1 True = Inr (pas ! k)" if "k < length pas" for k
    using assms(2) that by (simp add: user_room_def)
  have "set pas \<subseteq> {..<length (mainMemory m0)}" using x xlate_in_memory(1) [OF assms(1)] by (fastforce simp: in_set_conv_nth)
  then have "mainMemory m ! (pas ! i) = bs ! i" using store_nth assms(2,3,5) i by (simp add: user_room_def)
  then show "\<exists>pa. xlate m (unat (va + of_nat i)) 1 False = Inr pa \<and> mainMemory m ! pa = bs ! i"
    using x [of i] i assms(3,4) xlate_write_read by metis
qed

lemma ReadString_reads:
  assumes ok: "os_ok s" and line: "\<forall>c \<in> set line. c \<notin> {EOF_char, 10, 1, 0}" "conin s = line @ 10 # rest"
    and n: "int (length line) < sint (reg (mach s) 5)" and room: "user_room (mach s) (reg (mach s) 4) pas" "length pas = Suc (length line)"
  shows "\<exists>m. sys_ReadString h s = ret () (s\<lparr>conin := rest, mach := set_reg m 2 (of_nat (length line))\<rparr>) \<and> registers m = registers (mach s) \<and>
    user_bytes m (reg (mach s) 4) (line @ [0]) \<and> xlate m = xlate (mach s) \<and> wf_machine m"
proof -
  define len where "len = nat (sint (reg (mach s) 5))"
  have len: "sint (reg (mach s) 5) = int len" "length line < len" using n by (simp_all add: len_def)
  define buf where "buf = map (g_byte (gb h)) [0..<Suc len]"
  have buf: "new_buf h (int len + 1) = Inr buf" "length buf = Suc len" by (simp_all add: new_buf_def buf_def nat_add_distrib)
  obtain k where k: "len - length line = Suc k" using len(2) by (metis Suc_diff_Suc)
  define b where "b = line @ replicate (Suc k) 0 @ drop len buf"
  have typed: "\<forall>c \<in> set line. c \<notin> {EOF_char, 10, 1}" "0 \<notin> set line" using line(1) by auto
  have r: "con_read h buf (int len) s = ret (int (length line), b) (s\<lparr>conin := rest\<rparr>)"
    using con_read_line [OF typed(1) line(2) len(2), of buf h] buf(2) k by (simp add: b_def)
  have w: "wr b (int (length line)) 0 = Inr b" using k by (simp add: wr_def b_def list_update_append)
  have ok1: "os_ok (s\<lparr>conin := rest\<rparr>)" using os_ok_similar [OF ok] by simp
  have x: "\<forall>j<length pas. xlate (mach (s\<lparr>conin := rest\<rparr>)) (unat (reg (mach s) 4 + of_nat (0 + j))) 1 True = Inr (pas ! j)"
    using room(1) by (simp add: user_room_def)
  have "drop 0 b = line @ 0 # replicate k 0 @ drop len buf" by (simp add: b_def)
  from s2u_loop_string [OF ok1 typed(2) this room(2) x] obtain m where
    m: "s2u_loop (reg (mach s) 4) b 0 (Suc (length line)) (s\<lparr>conin := rest\<rparr>) = ret (int (Suc (length line))) (s\<lparr>conin := rest, mach := m\<rparr>)"
      "registers m = registers (mach s)" "mainMemory m = store (mainMemory (mach s)) pas (line @ [0])" "xlate m = xlate (mach s)" "wf_machine m"
    by auto
  have "System2User (sint (reg (mach s) 4)) (int (length line) + 1) b (s\<lparr>conin := rest\<rparr>) = ret (int (Suc (length line))) (s\<lparr>conin := rest, mach := m\<rparr>)"
    using m(1) by (simp add: System2User_def nat_add_distrib)
  moreover have "os_ok (s\<lparr>conin := rest, mach := m\<rparr>)" using ok1 m(5) by (simp add: os_ok_def table_sizes_def)
  ultimately have "sys_ReadString h s = ret () (s\<lparr>conin := rest, mach := set_reg m 2 (of_nat (length line))\<rparr>)"
    using buf(1) r w int_reg_args(2,3) [OF ok] len(1) result2_eq [of "s\<lparr>conin := rest, mach := m\<rparr>" "int (length line)"]
    by (simp add: sys_ReadString_def)
  moreover have "user_bytes m (reg (mach s) 4) (line @ [0])"
    using user_room_bytes [OF _ room(1) _ m(4,3)] ok room(2) by (simp add: os_ok_def)
  ultimately show ?thesis using m by blast
qed

lemma user_bytes_register: "user_bytes (set_reg m r v) a bs = user_bytes m a bs"
  by (simp add: user_bytes_def)

lemma user_bytes_take: "user_bytes m va bs \<Longrightarrow> user_bytes m va (take n bs)"
  by (simp add: user_bytes_def)

lemma u2s_loop_trap:
  "os_ok s \<Longrightarrow> 0 \<notin> set bs \<Longrightarrow> length bs < n \<Longrightarrow> user_bytes (mach s) va bs \<Longrightarrow> xlate (mach s) (unat (va + of_nat (length bs))) 1 False = Inl e \<Longrightarrow>
   \<exists>m. u2s_loop va n acc s = Inr (Halts (s\<lparr>mach := m\<rparr>)) \<and> mainMemory m = mainMemory (mach s)"
proof (induction bs arbitrary: va n acc s)
  case Nil
  then obtain n' where n': "n = Suc n'" by (cases n) auto
  have "wf_machine (mach s)" using Nil.prems(1) by (simp add: os_ok_def)
  moreover have "xlate (mach s) (unat va) 1 False = Inl e" using Nil.prems(5) by simp
  ultimately obtain m' where "ReadMem (mach s) va 1 = Inr (Inl e, RaiseException m' va)" "same_memory (mach s) m'"
    using ReadMem_trap [of "mach s" 1 va e] by auto
  then show ?case using n' by (auto simp: user_read_def same_memory_def)
next
  case (Cons b bs)
  then obtain n' where n': "n = Suc n'" by (cases n) auto
  obtain pa where pa: "xlate (mach s) (unat va) 1 False = Inr pa" "mainMemory (mach s) ! pa = b" and r: "user_bytes (mach s) (va + 1) bs"
    using Cons.prems(4) unfolding user_bytes_Cons by blast
  obtain m where m: "user_read va 1 s = ret (scast b) (s\<lparr>mach := m\<rparr>)" "same_memory (mach s) m"
    using user_read_ok [OF Cons.prems(1) pa(1)] pa(2) by auto
  have "user_bytes m (va + 1) bs" using r by (simp add: user_bytes_same [OF m(2)])
  moreover have "xlate m (unat (va + 1 + of_nat (length bs))) 1 False = Inl e" using Cons.prems(5) m(2) by (simp add: same_memory_def add.assoc)
  ultimately obtain m' where "u2s_loop (va + 1) n' (acc @ [b]) (s\<lparr>mach := m\<rparr>) = Inr (Halts (s\<lparr>mach := m'\<rparr>))" "mainMemory m' = mainMemory m"
    using Cons.IH [OF os_ok_same [OF Cons.prems(1) m(2)], of n' "va + 1" "acc @ [b]"] Cons.prems(2,3) n' by auto
  then show ?case using m n' Cons.prems(2) by (auto simp: same_memory_def)
qed



section \<open>A state to try the properties on\<close>

definition demo_os :: "u32 list \<Rightarrow> byte list \<Rightarrow> os" where
  "demo_os args typed_in = \<lparr>kn = kn demo_procs, processTab = processTab demo_procs,
     semaphoreTable = \<lparr>semTab = replicate 10 None, st_bm = \<lparr>numBits = 10, numWords = 1, bmap = [0]\<rparr>\<rparr>,
     mach = demo_machine\<lparr>registers := replicate 4 0 @ args @ replicate (36 - length args) 0\<rparr>,
     fsys = \<lparr>openFileList = replicate 3 None @ [Some \<lparr>hdr = demo_hdr, fileID = 7, ftype = 0, seekPosition = 0\<rparr>] @ replicate 6 None,
       freeMapFile = \<lparr>hdr = demo_hdr, fileID = 0, ftype = 0, seekPosition = 0\<rparr>,
       directoryFile = \<lparr>hdr = demo_hdr, fileID = 1, ftype = 0, seekPosition = 0\<rparr>\<rparr>,
     dk = demo_dsk, physMap = \<lparr>numBits = 0, numWords = 0, bmap = []\<rparr>, conin = typed_in, conout = [], floats = Map.empty\<rparr>"

definition demo_host :: host where
  "demo_host = \<lparr>gb = demo_garbage, h_sems = (5, 6, 7), h_tid = 7, h_regs = [], h_sem = 8, h_char = 0, h_int = 5, h_null = \<lambda>_. False,
     h_float = 64, h_space = \<lparr>as_pageTable = [], numPages = 0\<rparr>, h_exe = [], h_atof = \<lambda>_. 0, h_fmt = \<lambda>_. []\<rparr>"

lemma demo_os_machine:
  assumes "length args \<le> 3"
  shows "os_ok (demo_os args typed_in)" "i < length args \<Longrightarrow> reg (mach (demo_os args typed_in)) (4 + i) = args ! i"
    "xlate (mach (demo_os args typed_in)) va 1 w = (if va < 512 then Inr (1536 + va) else Inl AddressErrorException)"
    "mainMemory (mach (demo_os args typed_in)) = replicate 65536 0"
proof -
  have l: "length (pt_pcb (processTab demo_procs)) = 10" using pt_invD(3) [OF demo_procs_ok(1)] .
  have r: "reg (demo_machine\<lparr>registers := replicate 4 0 @ args @ replicate (36 - length args) 0\<rparr>) 37 = 0"
    using assms by (simp add: reg_def nth_append)
  show "os_ok (demo_os args typed_in)" using l assms r
    by (simp add: os_ok_def demo_os_def table_sizes_def wf_machine_def demo_machine_def Machine_Machine_def machine_consts)
  show "reg (mach (demo_os args typed_in)) (4 + i) = args ! i" if "i < length args"
    using that by (simp add: demo_os_def reg_def nth_append)
  show "mainMemory (mach (demo_os args typed_in)) = replicate 65536 0"
    by (simp add: demo_os_def demo_machine_def Machine_Machine_def machine_consts)
  have "va div 512 = 0 \<longleftrightarrow> va < 512" by (simp add: div_eq_0_iff)
  then have "va div 512 = 0 \<longleftrightarrow> va < 512" "Suc 0 \<le> va div 512 \<longleftrightarrow> \<not> va < 512" by linarith+
  then show "xlate (mach (demo_os args typed_in)) va 1 w = (if va < 512 then Inr (1536 + va) else Inl AddressErrorException)"
    by (simp add: demo_os_def xlate_def aligned_def entry_index_def current_table_def demo_machine_def Machine_Machine_def miss_def)
qed

section \<open>Properties\<close>

text \<open>
  C35: \<^verbatim>\<open>SC_PrintInt\<close> prints the decimal representation of a number that is not negative; typed as a line it is read
  back by \<^verbatim>\<open>SC_ReadInt\<close> as the same number. Before the rest of a negative number it prints \<open>0-\<close> in the place of the
  first digit: \<open>-123\<close> comes out as \<open>0-23\<close>.
\<close>

theorem PrintInt_ReadInt:
  assumes s: "os_ok s" "n = reg (mach s) 4" "sint n \<noteq> - (2 ^ 31)"
  shows "\<exists>line. sys_PrintInt h s = ret () (s\<lparr>conout := conout s @ line\<rparr>) \<and>
    (if 0 \<le> sint n
     then line = dec (nat (sint n)) \<and> (\<forall>t h' rest. os_ok t \<longrightarrow> conin t = line @ 10 # rest \<longrightarrow>
       sys_ReadInt h' t = ret () (t\<lparr>conin := rest, mach := set_reg (mach t) 2 n\<rparr>))
     else line = [48, 45] @ tl (dec (nat (- sint n))))"
proof -
  have p: "sys_PrintInt h s = ret () (s\<lparr>conout := conout s @ (if 0 \<le> sint n then dec (nat (sint n)) else [48, 45] @ tl (dec (nat (- sint n))))\<rparr>)"
    using PrintInt_prints [OF s(1) refl, of h] s(2,3) by simp
  have "nat (sint n) < 2 ^ 31" using sint_u32_bounds [of n] by simp
  then have r: "sys_ReadInt h' t = ret () (t\<lparr>conin := rest, mach := set_reg (mach t) 2 n\<rparr>)"
    if "0 \<le> sint n" "os_ok t" "conin t = dec (nat (sint n)) @ 10 # rest" for t h' rest
    using ReadInt_reads [OF that(2) _ that(3)] that(1) by simp
  show ?thesis using p r by (cases "0 \<le> sint n") auto
qed

lemma PrintInt_ReadInt_witness:
  "sys_PrintInt demo_host (demo_os [42] []) = ret () ((demo_os [42] [])\<lparr>conout := [52, 50]\<rparr>) \<and>
   sys_ReadInt demo_host (demo_os [] [52, 50, 10]) =
     ret () ((demo_os [] [52, 50, 10])\<lparr>conin := [], mach := set_reg (mach (demo_os [] [52, 50, 10])) 2 42\<rparr>)"
proof -
  have n: "42 = reg (mach (demo_os [42] [])) 4" using demo_os_machine(2) [of "[42]" 0] by simp
  have v: "sint (42 :: u32) = 42" by simp
  have d: "dec 42 = [52, 50]" by (simp add: dec.simps)
  have ok: "os_ok (demo_os [42] [])" "os_ok (demo_os [] [52, 50, 10])" using demo_os_machine(1) by simp_all
  have c: "conout (demo_os [42] []) = []" "conin (demo_os [] [52, 50, 10]) = [52, 50] @ 10 # []" by (simp_all add: demo_os_def)
  from PrintInt_ReadInt [OF ok(1) n, of demo_host] obtain line where
    "sys_PrintInt demo_host (demo_os [42] []) = ret () ((demo_os [42] [])\<lparr>conout := conout (demo_os [42] []) @ line\<rparr>)" "line = dec 42"
    "\<forall>t h' rest. os_ok t \<longrightarrow> conin t = line @ 10 # rest \<longrightarrow> sys_ReadInt h' t = ret () (t\<lparr>conin := rest, mach := set_reg (mach t) 2 42\<rparr>)"
    using v by auto
  then show ?thesis using c ok(2) d by simp
qed

text \<open>
  C36: a string typed at the console and read with \<^verbatim>\<open>SC_ReadString\<close> into the memory of the program is printed
  again by \<^verbatim>\<open>SC_PrintString\<close> from there, character by character; both calls return its length.
\<close>

theorem ReadString_PrintString:
  assumes "os_ok s" and "\<forall>c \<in> set line. c \<notin> {EOF_char, 10, 1, 0}" "conin s = line @ 10 # rest" "length line < 256"
    and "int (length line) < sint (reg (mach s) 5)" and "user_room (mach s) (reg (mach s) 4) pas" "length pas = Suc (length line)"
  shows "\<exists>s1 s2. sys_ReadString h s = ret () s1 \<and> conin s1 = rest \<and> reg (mach s1) 2 = of_nat (length line) \<and>
    sys_PrintString s1 = ret () s2 \<and> conout s2 = conout s @ line \<and> reg (mach s2) 2 = of_nat (length line)"
proof -
  obtain m where m: "sys_ReadString h s = ret () (s\<lparr>conin := rest, mach := set_reg m 2 (of_nat (length line))\<rparr>)" "registers m = registers (mach s)"
    "user_bytes m (reg (mach s) 4) (line @ [0])" "wf_machine m" using ReadString_reads [OF assms(1-3,5-7)] by blast
  define s1 where "s1 = s\<lparr>conin := rest, mach := set_reg m 2 (of_nat (length line))\<rparr>"
  have l: "length (registers m) = 40" using m(4) by (simp add: wf_machine_def)
  have ok: "os_ok s1" using assms(1) m(4) by (auto simp: os_ok_def table_sizes_def s1_def intro!: wf_set_reg)
  have r: "reg (mach s1) 4 = reg (mach s) 4" "reg (mach s1) 2 = of_nat (length line)" using l m(2) by (simp_all add: s1_def reg_set_reg) (simp add: reg_def)
  have z: "0 \<notin> set line" using assms(2) by auto
  have "user_bytes (mach s1) (reg (mach s1) 4) (take 256 (line @ [0]))"
    unfolding r(1) using user_bytes_take [OF m(3)] by (simp add: s1_def user_bytes_register del: take_append)
  from PrintString_prints [OF ok z this] obtain m' where
    p: "sys_PrintString s1 = ret () (s1\<lparr>conout := conout s1 @ take 256 line, mach := set_reg m' 2 (of_nat (min 256 (length line)))\<rparr>)"
      "same_memory (mach s1) m'" by blast
  have "length (registers m') = 40" using wf_machine_regs [OF same_memory_wf [OF p(2)]] by blast
  then have "reg (set_reg m' 2 (of_nat (min 256 (length line)))) 2 = of_nat (length line)" using assms(4) by (simp add: reg_set_reg)
  then show ?thesis using m(1) p(1) r(2) assms(4) 
    by (intro exI [of _ s1] exI [of _ "s1\<lparr>conout := conout s1 @ take 256 line, mach := set_reg m' 2 (of_nat (min 256 (length line)))\<rparr>"])
      (simp add: s1_def)
qed

text \<open>
  A string in memory that the program may not read, in whole or from some character on, does not disturb the
  kernel: \<^verbatim>\<open>SC_PrintString\<close> halts the machine without printing anything of it.
\<close>

lemma PrintString_bad_pointer:
  assumes "os_ok s" and "0 \<notin> set bs" "length bs < 256" and "user_bytes (mach s) (reg (mach s) 4) bs"
    and "xlate (mach s) (unat (reg (mach s) 4 + of_nat (length bs))) 1 False = Inl e"
  shows "\<exists>s'. sys_PrintString s = Inr (Halts s') \<and> conout s' = conout s \<and> mainMemory (mach s') = mainMemory (mach s)"
proof -
  obtain m where "u2s_loop (of_int (sint (reg (mach s) 4))) 256 [] s = Inr (Halts (s\<lparr>mach := m\<rparr>))" "mainMemory m = mainMemory (mach s)"
    using u2s_loop_trap [OF assms(1-5), of "[]"] by auto
  then show ?thesis using int_reg_args(2) [OF assms(1)] by (simp add: sys_PrintString_def User2System_def MaxString_def)
qed



lemma ReadString_PrintString_witness:
  "\<exists>s1 s2. sys_ReadString demo_host (demo_os [16, 20] [104, 105, 10, 120]) = ret () s1 \<and> conin s1 = [120] \<and>
     sys_PrintString s1 = ret () s2 \<and> conout s2 = [104, 105]"
proof -
  let ?s = "demo_os [16, 20] [104, 105, 10, 120]"
  have r: "reg (mach ?s) 4 = 16" "reg (mach ?s) 5 = 20" using demo_os_machine(2) [of "[16, 20]" 0] demo_os_machine(2) [of "[16, 20]" 1] by simp_all
  have ok: "os_ok ?s" using demo_os_machine(1) by simp
  have room: "user_room (mach ?s) (reg (mach ?s) 4) [1552, 1553, 1554]"
  proof -
    have x: "xlate (mach ?s) (16 + i) 1 True = Inr (1552 + i)" if "i < 3" for i using demo_os_machine(3) [of "[16, 20]" _ "16 + i"] that by simp
    show ?thesis unfolding user_room_def r using x [of 0] x [of 1] x [of 2] by (simp add: less_Suc_eq all_conj_distrib)
  qed
  have c: "conin ?s = [104, 105] @ 10 # [120]" "conout ?s = []" by (simp_all add: demo_os_def)
  have l: "\<forall>c \<in> set [104, 105]. c \<notin> {EOF_char, 10, 1, 0}" "length [104, 105 :: byte] < 256" by (simp_all add: EOF_char_def)
  have n: "int (length [104, 105 :: byte]) < sint (reg (mach ?s) 5)" unfolding r by simp
  from ReadString_PrintString [OF ok l(1) c(1) l(2) n room, of demo_host] show ?thesis using c(2) by auto
qed


end
