(* ===== verification/FileFormat.thy ===== *)
theory FileFormat
  imports UserIO
begin

text \<open>
  \<^verbatim>\<open>SC_ReadFileFormat\<close> on files of the format it is meant for: a line with the number of lines, and then lines of numbers,
  separated by blanks. The loops of the theory \<open>Syscalls\<close> are followed character by character.
\<close>

section \<open>Reading one character\<close>

lemma read_char:
  assumes "wf_hdr (hdr f)" "wf_dsk d" "seekPosition f = int p"
  shows "OpenFile_Read f 1 d = Inr (take 1 (drop p (content (hdr f) d)), f\<lparr>seekPosition := int (p + min 1 (length (content (hdr f) d) - p))\<rparr>)"
  using ReadAt_content [OF assms(1,2), of 1 p] assms(3) by (simp add: OpenFile_Read_def)

lemma read_char_Cons:
  assumes "wf_hdr (hdr f)" "wf_dsk d" "seekPosition f = int p" "drop p (content (hdr f) d) = c # cs"
  shows "OpenFile_Read f 1 d = Inr ([c], f\<lparr>seekPosition := int (Suc p)\<rparr>)" "drop (Suc p) (content (hdr f) d) = cs"
proof -
  have p: "p < length (content (hdr f) d)" using assms(4) by (cases "p < length (content (hdr f) d)") simp_all
  then have "min 1 (length (content (hdr f) d) - p) = 1" by simp
  then show "OpenFile_Read f 1 d = Inr ([c], f\<lparr>seekPosition := int (Suc p)\<rparr>)" using read_char [OF assms(1-3)] assms(4) by simp
  show "drop (Suc p) (content (hdr f) d) = cs" using assms(4) by (metis drop_Suc list.sel(3) tl_drop)
qed

lemma read_char_end:
  assumes "wf_hdr (hdr f)" "wf_dsk d" "seekPosition f = int p" "drop p (content (hdr f) d) = []"
  shows "OpenFile_Read f 1 d = Inr ([], f)"
  using read_char [OF assms(1-3)] assms(3,4) by simp

section \<open>The loops\<close>

lemma rff_total_digits:
  "\<forall>c \<in> set ds. digit c \<Longrightarrow> wf_hdr (hdr f) \<Longrightarrow> wf_dsk d \<Longrightarrow> seekPosition f = int p \<Longrightarrow> drop p (content (hdr f) d) = ds @ 10 # rest \<Longrightarrow>
   \<exists>m. rff_total f t n d = Some (Inr (False, m, 10, f\<lparr>seekPosition := int (p + length ds + 1)\<rparr>)) \<and>
     drop (p + length ds + 1) (content (hdr f) d) = rest"
proof (induction ds arbitrary: f t n p)
  case Nil
  have r: "OpenFile_Read f 1 d = Inr ([10], f\<lparr>seekPosition := int (Suc p)\<rparr>)" "drop (Suc p) (content (hdr f) d) = rest"
    using read_char_Cons [OF Nil.prems(2-4)] Nil.prems(5) by simp_all
  then show ?case by (subst rff_total.simps) simp
next
  case (Cons c ds)
  have r: "OpenFile_Read f 1 d = Inr ([c], f\<lparr>seekPosition := int (Suc p)\<rparr>)" "drop (Suc p) (content (hdr f) d) = ds @ 10 # rest"
    using read_char_Cons [OF Cons.prems(2-4)] Cons.prems(5) by simp_all
  have c: "48 \<le> sint c \<and> sint c \<le> 57" using Cons.prems(1) by (simp add: digit_def)
  have "\<exists>m. rff_total (f\<lparr>seekPosition := int (Suc p)\<rparr>) c (c_int (n * 10 + (sint c - 48))) d =
      Some (Inr (False, m, 10, f\<lparr>seekPosition := int (Suc p + length ds + 1)\<rparr>)) \<and>
      drop (Suc p + length ds + 1) (content (hdr f) d) = rest"
    using Cons.IH [of "f\<lparr>seekPosition := int (Suc p)\<rparr>" "Suc p"] Cons.prems(1-3) r(2) by simp
  then show ?case using r(1) c by (subst rff_total.simps) simp
qed

text \<open>The text of the lines: digits and blanks, and a newline at the end.\<close>

definition lines_text :: "byte list \<Rightarrow> bool" where
  "lines_text cs \<longleftrightarrow> (\<forall>c \<in> set cs. digit c \<or> c = 32 \<or> c = 10) \<and> (cs \<noteq> [] \<longrightarrow> last cs = 10)"

lemma rff_line_text:
  "lines_text cs \<Longrightarrow> wf_hdr (hdr f) \<Longrightarrow> wf_dsk d \<Longrightarrow> seekPosition f = int p \<Longrightarrow> drop p (content (hdr f) d) = cs \<Longrightarrow> cs \<noteq> [] \<or> t = 10 \<Longrightarrow>
   \<exists>k q cs'. rff_line f t n sz b d = Some (Inr (False, k, 10, f\<lparr>seekPosition := int q\<rparr>)) \<and> drop q (content (hdr f) d) = cs' \<and> lines_text cs'"
proof (induction cs arbitrary: f t n sz b p)
  case Nil
  have "OpenFile_Read f 1 d = Inr ([], f)" using read_char_end [OF Nil.prems(2-5)] .
  then have "rff_line f t n sz b d = Some (Inr (False, if b then sz + 1 else sz, 10, f\<lparr>seekPosition := int p\<rparr>))"
    using Nil.prems(4,6) by (subst rff_line.simps) simp
  then show ?case using Nil.prems(5) Nil.prems(1) by blast
next
  case (Cons c cs)
  have r: "OpenFile_Read f 1 d = Inr ([c], f\<lparr>seekPosition := int (Suc p)\<rparr>)" "drop (Suc p) (content (hdr f) d) = cs"
    using read_char_Cons [OF Cons.prems(2-5)] by simp_all
  show ?case
  proof (cases "c = 10")
    case True
    have "lines_text cs" using Cons.prems(1) by (simp add: lines_text_def split: if_splits)
    moreover have "rff_line f t n sz b d = Some (Inr (False, if b then sz + 1 else sz, 10, f\<lparr>seekPosition := int (Suc p)\<rparr>))"
      using r(1) True by (subst rff_line.simps) simp
    ultimately show ?thesis using r(2) by blast
  next
    case False
    then have cs: "lines_text cs" "cs \<noteq> []" "digit c \<or> c = 32" using Cons.prems(1) by (auto simp: lines_text_def split: if_splits)
    note IH = Cons.IH [OF cs(1), of "f\<lparr>seekPosition := int (Suc p)\<rparr>" "Suc p" c]
    have *: "\<exists>k q cs'. rff_line (f\<lparr>seekPosition := int (Suc p)\<rparr>) c n' sz' b' d = Some (Inr (False, k, 10, f\<lparr>seekPosition := int q\<rparr>)) \<and>
        drop q (content (hdr f) d) = cs' \<and> lines_text cs'" for n' sz' b'
      using IH [of n' sz' b'] Cons.prems(2,3) cs(2) r(2) by simp
    have "\<exists>n' sz' b'. rff_line f t n sz b d = rff_line (f\<lparr>seekPosition := int (Suc p)\<rparr>) c n' sz' b' d"
      using r(1) cs(3) False by (subst rff_line.simps) (auto simp: digit_def)
    then show ?thesis using * by metis
  qed
qed

lemma rff_lines_overrun:
  "lines_text cs \<Longrightarrow> wf_hdr (hdr f) \<Longrightarrow> wf_dsk d \<Longrightarrow> seekPosition f = int p \<Longrightarrow> drop p (content (hdr f) d) = cs \<Longrightarrow> 0 \<le> i \<Longrightarrow>
   rff_lines f 10 n i d = Some (Inl OutOfBounds)"
proof (induction "nat (n - i)" arbitrary: f i p cs)
  case 0
  then show ?case by (subst rff_lines.simps) simp
next
  case (Suc k)
  obtain m q cs' where l: "rff_line f 10 0 0 False d = Some (Inr (False, m, 10, f\<lparr>seekPosition := int q\<rparr>))" "drop q (content (hdr f) d) = cs'" "lines_text cs'"
    using rff_line_text [OF Suc.prems(1-5)] by blast
  have "rff_lines (f\<lparr>seekPosition := int q\<rparr>) 10 n (i + 1) d = Some (Inl OutOfBounds)"
    using Suc.hyps(1) [of "i + 1" cs' "f\<lparr>seekPosition := int q\<rparr>" q] Suc.hyps(2) Suc.prems(2,3,6) l by simp
  then show ?case using l(1) by (subst rff_lines.simps) simp
qed

section \<open>Properties\<close>

text \<open>
  C40: \<^verbatim>\<open>SC_ReadFileFormat\<close> on a file of the format it is written for, the number of lines and then lines of numbers, always
  stores behind the end of the array it allocates for the lines: the loop does not count them, and at the end of the file
  it reads the last newline again and again.
\<close>

theorem ReadFileFormat_overrun:
  assumes ok: "os_ok s" and f: "sint (reg (mach s) 5) = int fd" "fd < 10" "openFileList (fsys s) ! fd = Some f"
    and h: "wf_hdr (hdr f)" "wf_dsk (dk s)" "seekPosition f = int p" and c: "drop p (content (hdr f) (dk s)) = ds @ 10 # rest"
    and ds: "\<forall>c \<in> set ds. digit c" and rest: "lines_text rest"
  shows "sys_ReadFileFormat h s = Some (Inl OutOfBounds)"
proof -
  have l: "length (openFileList (fsys s)) = 10" using ok by (simp add: os_ok_def table_sizes_def)
  have g: "bindR (int_reg 5 s) (\<lambda>fID. bindR (get_file fID s) (\<lambda>f. Inr (fID, f))) = Inr (int fd, Some f)"
    using int_reg_args(3) [OF ok] f l by (simp add: get_file_def)
  obtain m where t: "rff_total f (h_char h) 0 (dk s) = Some (Inr (False, m, 10, f\<lparr>seekPosition := int (p + length ds + 1)\<rparr>))"
    "drop (p + length ds + 1) (content (hdr f) (dk s)) = rest" using rff_total_digits [OF ds h c] by blast+
  have "rff_lines (f\<lparr>seekPosition := int (p + length ds + 1)\<rparr>) 10 m 0 (dk s) = Some (Inl OutOfBounds)"
    using rff_lines_overrun [OF rest, of "f\<lparr>seekPosition := int (p + length ds + 1)\<rparr>" "dk s" "p + length ds + 1"] h(1,2) t(2) by simp
  then show ?thesis by (simp add: sys_ReadFileFormat_def g t(1))
qed

lemma ReadFileFormat_overrun_witness:
  "\<exists>d. sys_ReadFileFormat demo_host ((demo_os [0, 3] [])\<lparr>dk := d\<rparr>) = Some (Inl OutOfBounds)"
proof -
  let ?N = "nat (numBytes demo_hdr)"
  let ?f = "\<lparr>hdr = demo_hdr, fileID = 7, ftype = 0, seekPosition = 0\<rparr>"
  have N: "2 \<le> ?N" by (simp add: demo_hdr_def)
  have len: "length (content demo_hdr demo_dsk) = ?N" using length_content [OF wf_demo(1,2)] .
  define tx where "tx = 50 # replicate (?N - 1) (10 :: byte)"
  have "?N \<le> length tx" "?N \<noteq> 0" "0 < ?N" using N by (simp_all add: tx_def)
  from WriteAt_content [OF wf_demo(1,2) this, of "\<lambda>_. 0"] obtain d where
    d: "wf_dsk d" "content demo_hdr d = overwrite (content demo_hdr demo_dsk) 0 (take ?N tx)" by blast
  have c: "drop 0 (content demo_hdr d) = [50] @ 10 # replicate (?N - 2) 10"
    using d(2) N len by (simp add: overwrite_def tx_def numeral_2_eq_2 replicate_Suc [symmetric] Suc_diff_Suc del: replicate_Suc)
  let ?s = "(demo_os [0, 3] [])\<lparr>dk := d\<rparr>"
  have ok: "os_ok ?s" using demo_os_machine(1) [of "[0, 3]"] by (simp add: os_ok_def table_sizes_def)
  have r: "sint (reg (mach ?s) 5) = int 3" using demo_os_machine(2) [of "[0, 3]" 1] by simp
  have f: "openFileList (fsys ?s) ! 3 = Some ?f" by (simp add: demo_os_def nth_append)
  have t: "\<forall>c \<in> set [50]. digit c" "lines_text (replicate (?N - 2) 10)" by (simp_all add: digit_def lines_text_def last_replicate)
  have "sys_ReadFileFormat demo_host ?s = Some (Inl OutOfBounds)"
    by (rule ReadFileFormat_overrun [OF ok r _ f, where p = 0, OF _ _ _ _ _ t]) (use d(1) c wf_demo(1) in simp_all)
  then show ?thesis by blast
qed

end
