(* ===== verification/Post.thy ===== *)
theory Post
  imports Complex_Main Directories
begin

text \<open>
  The network: the device of \<^verbatim>\<open>machine/network.{h,cc}\<close>, and the post office of \<^verbatim>\<open>network/post.{h,cc}\<close> above
  it with the lists of \<^verbatim>\<open>threads/synchlist.cc\<close> as mailboxes. The UNIX socket is part of the state of the
  device: \<open>sock\<close> holds the datagrams that have arrived and \<open>wire\<close> those that were handed over, with the
  machine they are for. \<open>rnd n\<close> is what the \<open>n\<close>-th call of the host's random number generator returns,
  and \<open>g\<close> what new memory holds. The likelihood that a packet is delivered is a rational number.
\<close>

section \<open>State\<close>

text \<open>Lengths are \<^verbatim>\<open>unsigned\<close>, addresses are \<^verbatim>\<open>int\<close>; a header takes three words.\<close>

record PacketHeader =
  pto :: int
  pfrom :: int
  plength :: int

record MailHeader =
  mto :: int
  mfrom :: int
  mlength :: int

definition MaxWireSize :: int where "MaxWireSize = 64"
definition MaxPacketSize :: int where "MaxPacketSize = MaxWireSize - 12"
definition MaxMailSize :: int where "MaxMailSize = MaxPacketSize - 12"

record Mail =
  pktHdr :: PacketHeader
  mailHdr :: MailHeader
  mdata :: "byte list"

record Network =
  ident :: int
  chanceToWork :: rat
  sendBusy :: bool
  inHdr :: PacketHeader
  inbox :: "byte list"
  sock :: "byte list list"
  wire :: "(int \<times> byte list) list"
  sends :: nat

record PostOffice =
  netAddr :: int
  boxes :: "Mail list list"
  numBoxes :: int

record net = kernel +
  network :: Network
  post :: PostOffice

datatype ndev = NetworkReadPoll | NetworkSendDone

type_synonym nsim = "(ndev, net) sim"

text \<open>The addresses of the semaphores that the handlers signal.\<close>

definition messageAvailable :: sid where "messageAvailable = 0"
definition messageSent :: sid where "messageSent = 1"
definition net_sems :: "sid set" where "net_sems = {messageAvailable, messageSent}"

section \<open>Headers in memory\<close>

definition uint_at :: "byte list \<Rightarrow> nat \<Rightarrow> int" where
  "uint_at bs k = uint (of_nat (bytes_value (take 4 (drop k bs))) :: u32)"

definition pkt_bytes :: "PacketHeader \<Rightarrow> byte list" where
  "pkt_bytes h = int_bytes (pto h) @ int_bytes (pfrom h) @ int_bytes (plength h)"

definition pkt_of :: "byte list \<Rightarrow> PacketHeader" where
  "pkt_of bs = \<lparr>pto = int_at bs 0, pfrom = int_at bs 4, plength = uint_at bs 8\<rparr>"

definition mail_bytes :: "MailHeader \<Rightarrow> byte list" where
  "mail_bytes h = int_bytes (mto h) @ int_bytes (mfrom h) @ int_bytes (mlength h)"

definition mail_of :: "byte list \<Rightarrow> MailHeader" where
  "mail_of bs = \<lparr>mto = int_at bs 0, mfrom = int_at bs 4, mlength = uint_at bs 8\<rparr>"

text \<open>\<^verbatim>\<open>bcopy(from, to, n)\<close>, with the bytes at \<open>frm\<close> and those at the target.\<close>

definition bcopy :: "byte list \<Rightarrow> byte list \<Rightarrow> int \<Rightarrow> byte list result" where
  "bcopy frm tgt n = (if n \<le> int (length frm) \<and> n \<le> int (length tgt) then Inr (overlay (take (nat n) frm) tgt) else Inl OutOfBounds)"

section \<open>The device\<close>

definition set_net :: "Network \<Rightarrow> nsim \<Rightarrow> nsim" where
  "set_net n s = s\<lparr>kern := (kern s)\<lparr>network := n\<rparr>\<rparr>"

definition Network_Network :: "PacketHeader \<Rightarrow> (nat \<Rightarrow> byte) \<Rightarrow> int \<Rightarrow> rat \<Rightarrow> nsim \<Rightarrow> nsim result" where
  "Network_Network junk g addr reliability s = Schedule NetworkReadPoll 0 NetworkTime NetworkRecvInt
     (set_net \<lparr>ident = addr, chanceToWork = (if reliability < 0 then 0 else if reliability > 1 then 1 else reliability),
       sendBusy = False, inHdr = junk\<lparr>plength := 0\<rparr>, inbox = map g [0..<nat MaxPacketSize], sock = [], wire = [], sends = 0\<rparr> s)"

text \<open>The handlers of the post office, which the device calls.\<close>

definition IncomingPacket :: "nsim \<Rightarrow> nsim result" where
  "IncomingPacket s = on_kern (v_body messageAvailable) s"

definition PacketSent :: "nsim \<Rightarrow> nsim result" where
  "PacketSent s = on_kern (v_body messageSent) s"

text \<open>
  A poll of the socket. \<^verbatim>\<open>ReadFromSocket\<close> gets at most \<^verbatim>\<open>MaxWireSize\<close> bytes of a datagram and stops the kernel
  when there are fewer.
\<close>

definition CheckPktAvail :: "nsim \<Rightarrow> nsim result" where
  "CheckPktAvail s = bindR (Schedule NetworkReadPoll 0 NetworkTime NetworkRecvInt s) (\<lambda>s1.
     let n = network (kern s1) in
     if plength (inHdr n) \<noteq> 0 then Inr s1
     else case sock n of [] \<Rightarrow> Inr s1
     | dgram # rest \<Rightarrow> let buffer = take (nat MaxWireSize) dgram; h = pkt_of buffer in
         bindR (ASSERT (int (length buffer) = MaxWireSize)) (\<lambda>_.
         bindR (ASSERT (pto h = ident n \<and> plength h \<le> MaxPacketSize)) (\<lambda>_.
         bindR (bcopy (drop 12 buffer) (inbox n) (plength h)) (\<lambda>ib.
         IncomingPacket
           (set_net (n\<lparr>inHdr := h, inbox := ib, sock := rest\<rparr>)
             (s1\<lparr>stats := (stats s1)\<lparr>numPacketsRecvd := numPacketsRecvd (stats s1) + 1\<rparr>\<rparr>))))))"

definition Network_SendDone :: "nsim \<Rightarrow> nsim result" where
  "Network_SendDone s = PacketSent (set_net ((network (kern s))\<lparr>sendBusy := False\<rparr>)
     (s\<lparr>stats := (stats s)\<lparr>numPacketsSent := numPacketsSent (stats s) + 1\<rparr>\<rparr>))"

definition Network_Send :: "(nat \<Rightarrow> nat) \<Rightarrow> (nat \<Rightarrow> byte) \<Rightarrow> PacketHeader \<Rightarrow> byte list \<Rightarrow> nsim \<Rightarrow> nsim result" where
  "Network_Send rnd g h dat s = (let n = network (kern s); n1 = n\<lparr>sends := Suc (sends n)\<rparr> in
     bindR (ASSERT (\<not> sendBusy n \<and> plength h > 0 \<and> plength h \<le> MaxPacketSize \<and> pfrom h = ident n)) (\<lambda>_.
     bindR (Schedule NetworkSendDone 0 NetworkTime NetworkSendInt s) (\<lambda>s1.
     if of_int (c_mod (int (rnd (sends n))) 100) \<ge> chanceToWork n * 100 then Inr (set_net n1 s1)
     else let buffer = overlay (pkt_bytes h) (map g [0..<nat MaxWireSize]) in
       bindR (bcopy dat (drop 12 buffer) (plength h)) (\<lambda>b.
       Inr (set_net (n1\<lparr>wire := wire n @ [(pto h, take 12 buffer @ b)]\<rparr>) s1)))))"

definition Network_Receive :: "Network \<Rightarrow> byte list \<Rightarrow> (PacketHeader \<times> byte list \<times> Network) result" where
  "Network_Receive n dat = (let h = inHdr n; n1 = n\<lparr>inHdr := h\<lparr>plength := 0\<rparr>\<rparr> in
     if plength h \<noteq> 0 then bindR (bcopy (inbox n) dat (plength h)) (\<lambda>d. Inr (h, d, n1)) else Inr (h, dat, n1))"

fun run_net :: "ndev \<Rightarrow> int \<Rightarrow> nsim \<Rightarrow> nsim result" where
  "run_net NetworkReadPoll a s = CheckPktAvail s"
| "run_net NetworkSendDone a s = Network_SendDone s"

section \<open>Synchronised lists\<close>

text \<open>
  \<^verbatim>\<open>Lock::Acquire\<close>, \<^verbatim>\<open>Lock::Release\<close> and \<^verbatim>\<open>Condition::Signal\<close> have empty bodies, and \<^verbatim>\<open>Condition::Wait\<close> is
  \<^verbatim>\<open>ASSERT(FALSE)\<close>. The list is the sequence that the theory \<open>LinkedList\<close> shows the class \<^verbatim>\<open>List\<close> to implement.
\<close>

definition Lock_Acquire :: "'s \<Rightarrow> 's" where "Lock_Acquire s = s"
definition Lock_Release :: "'s \<Rightarrow> 's" where "Lock_Release s = s"
definition Condition_Wait :: "'s \<Rightarrow> 's result" where "Condition_Wait s = bindR (ASSERT False) (\<lambda>_. Inr s)"
definition Condition_Signal :: "'s \<Rightarrow> 's" where "Condition_Signal s = s"

definition SynchList_Append :: "'a \<Rightarrow> 'a list \<Rightarrow> 'a list" where
  "SynchList_Append x l = Lock_Release (Condition_Signal (Lock_Acquire l @ [x]))"

text \<open>\<^verbatim>\<open>while (list->IsEmpty()) listEmpty->Wait(lock);\<close> then the first item is taken off.\<close>

function synch_wait :: "'a list \<Rightarrow> 'a list result" where
  "synch_wait l = (if l = [] then bindR (Condition_Wait l) synch_wait else Inr l)"
  by pat_completeness auto
termination by (relation "{}") (auto simp: Condition_Wait_def)

declare synch_wait.simps [simp del]

definition SynchList_Remove :: "'a list \<Rightarrow> ('a \<times> 'a list) result" where
  "SynchList_Remove l = bindR (synch_wait (Lock_Acquire l)) (\<lambda>l1. Inr (hd l1, Lock_Release (tl l1)))"

definition SynchList_Mapcar :: "('a \<Rightarrow> 's \<Rightarrow> 's) \<Rightarrow> 'a list \<Rightarrow> 's \<Rightarrow> 's" where
  "SynchList_Mapcar func l s = Lock_Release (fold func l (Lock_Acquire s))"

section \<open>Mailboxes and the post office\<close>

definition Mail_Mail :: "(nat \<Rightarrow> byte) \<Rightarrow> PacketHeader \<Rightarrow> MailHeader \<Rightarrow> byte list \<Rightarrow> Mail result" where
  "Mail_Mail g p m msg = bindR (ASSERT (mlength m \<le> MaxMailSize)) (\<lambda>_.
     bindR (bcopy msg (map g [0..<nat MaxMailSize]) (mlength m)) (\<lambda>d. Inr \<lparr>pktHdr = p, mailHdr = m, mdata = d\<rparr>))"

definition MailBox_Put :: "(nat \<Rightarrow> byte) \<Rightarrow> PacketHeader \<Rightarrow> MailHeader \<Rightarrow> byte list \<Rightarrow> Mail list \<Rightarrow> Mail list result" where
  "MailBox_Put g p m dat mb = bindR (Mail_Mail g p m dat) (\<lambda>mail. Inr (SynchList_Append mail mb))"

text \<open>The bytes that \<^verbatim>\<open>Get\<close> copies to the caller's buffer are the last part of the result.\<close>

definition MailBox_Get :: "Mail list \<Rightarrow> ((PacketHeader \<times> MailHeader \<times> byte list) \<times> Mail list) result" where
  "MailBox_Get mb = bindR (SynchList_Remove mb) (\<lambda>(mail, mb1).
     Inr ((pktHdr mail, mailHdr mail, take (nat (mlength (mailHdr mail))) (mdata mail)), mb1))"

definition set_post :: "PostOffice \<Rightarrow> nsim \<Rightarrow> nsim" where
  "set_post po s = s\<lparr>kern := (kern s)\<lparr>post := po\<rparr>\<rparr>"

text \<open>\<open>t\<close> is the address of the new thread, and \<open>regs\<close> what its registers hold.\<close>

definition PostOffice_PostOffice :: "(ndev \<Rightarrow> int \<Rightarrow> nsim \<Rightarrow> nsim result) \<Rightarrow> PacketHeader \<Rightarrow> (nat \<Rightarrow> byte) \<Rightarrow>
    int \<Rightarrow> rat \<Rightarrow> nat \<Rightarrow> tid \<Rightarrow> u32 list \<Rightarrow> nsim \<Rightarrow> nsim result option" where
  "PostOffice_PostOffice run junk g addr reliability nBoxes t regs s =
     (let k1 = set_sem messageAvailable (Semaphore_Semaphore ''message available'' 0) (kern s);
          k2 = set_sem messageSent (Semaphore_Semaphore ''message sent'' 0) k1;
          s1 = set_post \<lparr>netAddr = addr, boxes = replicate nBoxes [], numBoxes = int nBoxes\<rparr> (s\<lparr>kern := k2\<rparr>)
      in bindO (Some (Network_Network junk g addr reliability s1)) (\<lambda>s2.
         Fork run t (s2\<lparr>kern := (kern s2)\<lparr>threads := (threads (kern s2))(t \<mapsto> Thread_Thread regs ''postal worker'' 0)\<rparr>\<rparr>)))"

text \<open>
  A round of \<^verbatim>\<open>PostalDelivery\<close>, the loop of the postal worker, is \<^verbatim>\<open>P\<close>, in whose frame the thread is left, and then
  \<open>postal_round\<close>; \<open>buffer\<close> is the local buffer.
\<close>

definition PostalDelivery :: "(ndev \<Rightarrow> int \<Rightarrow> nsim \<Rightarrow> nsim result) \<Rightarrow> nsim \<Rightarrow> nsim result option" where
  "PostalDelivery run s = Semaphore_P run messageAvailable s"

definition postal_round :: "(nat \<Rightarrow> byte) \<Rightarrow> byte list \<Rightarrow> nsim \<Rightarrow> (byte list \<times> nsim) result" where
  "postal_round g buffer s = (let po = post (kern s) in
     bindR (Network_Receive (network (kern s)) buffer) (\<lambda>(p, b, n).
     let m = mail_of b in
     bindR (ASSERT (0 \<le> mto m \<and> mto m < numBoxes po)) (\<lambda>_.
     bindR (ASSERT (mlength m \<le> MaxMailSize)) (\<lambda>_.
     bindR (rd (boxes po) (mto m)) (\<lambda>mb.
     bindR (MailBox_Put g p m (drop 12 b) mb) (\<lambda>mb1.
     bindR (wr (boxes po) (mto m) mb1) (\<lambda>bxs.
     Inr (b, set_post (po\<lparr>boxes := bxs\<rparr>) (set_net n s)))))))))"

text \<open>\<^verbatim>\<open>PostOffice::Send\<close> up to the call of the network, and as a whole, where the thread is left in \<^verbatim>\<open>P\<close>.\<close>

definition post_send :: "(nat \<Rightarrow> nat) \<Rightarrow> (nat \<Rightarrow> byte) \<Rightarrow> PacketHeader \<Rightarrow> MailHeader \<Rightarrow> byte list \<Rightarrow> nsim \<Rightarrow> nsim result" where
  "post_send rnd g p m dat s = (let po = post (kern s) in
     bindR (ASSERT (mlength m \<le> MaxMailSize)) (\<lambda>_.
     bindR (ASSERT (0 \<le> mto m \<and> mto m < numBoxes po)) (\<lambda>_.
     let buffer = overlay (mail_bytes m) (map g [0..<nat MaxPacketSize]) in
     bindR (bcopy dat (drop 12 buffer) (mlength m)) (\<lambda>b.
     Network_Send rnd g (p\<lparr>pfrom := netAddr po, plength := mlength m + 12\<rparr>) (take 12 buffer @ b) (Lock_Acquire s)))))"

definition PostOffice_Send :: "(ndev \<Rightarrow> int \<Rightarrow> nsim \<Rightarrow> nsim result) \<Rightarrow> (nat \<Rightarrow> nat) \<Rightarrow> (nat \<Rightarrow> byte) \<Rightarrow>
    PacketHeader \<Rightarrow> MailHeader \<Rightarrow> byte list \<Rightarrow> nsim \<Rightarrow> nsim result option" where
  "PostOffice_Send run rnd g p m dat s = bindO (Some (post_send rnd g p m dat s)) (Semaphore_P run messageSent)"

definition PostOffice_Receive :: "int \<Rightarrow> nsim \<Rightarrow> ((PacketHeader \<times> MailHeader \<times> byte list) \<times> nsim) result" where
  "PostOffice_Receive bx s = (let po = post (kern s) in
     bindR (ASSERT (bx \<ge> 0 \<and> bx < numBoxes po)) (\<lambda>_.
     bindR (rd (boxes po) bx) (\<lambda>mb.
     bindR (MailBox_Get mb) (\<lambda>((p, m, d), mb1).
     bindR (wr (boxes po) bx mb1) (\<lambda>bxs.
     bindR (ASSERT (mlength m \<le> MaxMailSize)) (\<lambda>_.
     Inr ((p, m, d), set_post (po\<lparr>boxes := bxs\<rparr>) s)))))))"

section \<open>Datagrams and letters\<close>

text \<open>What a mailbox holds for a reader: the two headers and the message.\<close>

type_synonym letter = "PacketHeader \<times> MailHeader \<times> byte list"

definition letter_in :: "PacketHeader \<Rightarrow> byte list \<Rightarrow> letter" where
  "letter_in h b = (h, mail_of b, take (nat (mlength (mail_of b))) (drop 12 b))"

definition packet_ok :: "nat \<Rightarrow> PacketHeader \<Rightarrow> byte list \<Rightarrow> bool" where
  "packet_ok nb h b \<longleftrightarrow> length b = 52 \<and> mlength (mail_of b) \<le> 40 \<and> plength h = mlength (mail_of b) + 12 \<and>
     0 \<le> mto (mail_of b) \<and> mto (mail_of b) < int nb"

lemma uint_at_nonneg [simp]: "0 \<le> uint_at bs k"
  by (simp add: uint_at_def)

lemma mlength_nonneg [simp]: "0 \<le> mlength (mail_of b)" "0 \<le> plength (pkt_of b)"
  by (simp_all add: mail_of_def pkt_of_def)

lemma bytes_value_int_bytes: "bytes_value (int_bytes v) = nat (v mod 2 ^ 32)"
proof -
  have "nat (v mod 2 ^ 32) mod 256 ^ 4 = nat (v mod 2 ^ 32)" by (simp add: nat_mod_distrib [symmetric])
  then show ?thesis by (simp only: int_bytes_def bytes_value_bytes)
qed

lemma uint_at_bytes:
  assumes "0 \<le> v" "v < 2 ^ 32" "take 4 (drop k bs) = int_bytes v"
  shows "uint_at bs k = v"
proof -
  have "v mod 2 ^ 32 = v" using assms(1,2) by (intro mod_pos_pos_trivial)
  then have "uint_at bs k = uint (of_nat (nat v) :: u32)" by (simp only: uint_at_def assms(3) bytes_value_int_bytes)
  also have "\<dots> = v" using assms(1,2) by (simp add: of_nat_nat uint_word_of_int)
  finally show ?thesis .
qed

lemma length_headers [simp]: "length (pkt_bytes h) = 12" "length (mail_bytes m) = 12"
  by (simp_all add: pkt_bytes_def mail_bytes_def)

lemma pkt_of_bytes:
  assumes "in_int (pto h)" "in_int (pfrom h)" "0 \<le> plength h" "plength h < 2 ^ 32"
  shows "pkt_of (pkt_bytes h @ bs) = h"
proof -
  have "int_at (pkt_bytes h @ bs) 0 = pto h" "int_at (pkt_bytes h @ bs) 4 = pfrom h"
    using assms(1,2) by (auto intro!: int_at_bytes simp: pkt_bytes_def)
  moreover have "uint_at (pkt_bytes h @ bs) 8 = plength h" using assms(3,4) by (rule uint_at_bytes) (simp add: pkt_bytes_def)
  ultimately show ?thesis by (simp add: pkt_of_def)
qed

lemma mail_of_bytes:
  assumes "in_int (mto m)" "in_int (mfrom m)" "0 \<le> mlength m" "mlength m < 2 ^ 32"
  shows "mail_of (mail_bytes m @ bs) = m"
proof -
  have "int_at (mail_bytes m @ bs) 0 = mto m" "int_at (mail_bytes m @ bs) 4 = mfrom m"
    using assms(1,2) by (auto intro!: int_at_bytes simp: mail_bytes_def)
  moreover have "uint_at (mail_bytes m @ bs) 8 = mlength m" using assms(3,4) by (rule uint_at_bytes) (simp add: mail_bytes_def)
  ultimately show ?thesis by (simp add: mail_of_def)
qed

lemma mail_of_prefix: "12 \<le> k \<Longrightarrow> mail_of (take k b) = mail_of b"
  by (simp add: mail_of_def int_at_def uint_at_def take_drop [symmetric] drop_take min_def)

lemma mail_of_append: "12 \<le> length b \<Longrightarrow> mail_of (b @ c) = mail_of b"
  using mail_of_prefix [of "length b" "b @ c"] by simp

lemma bcopy_ok: "0 \<le> n \<Longrightarrow> n \<le> int (length frm) \<Longrightarrow> n \<le> int (length tgt) \<Longrightarrow>
  bcopy frm tgt n = Inr (take (nat n) frm @ drop (nat n) tgt)"
  by (simp add: bcopy_def overlay_def min_absorb2)

lemmas net_sizes = MaxWireSize_def MaxPacketSize_def MaxMailSize_def

text \<open>
  What machine \<open>me\<close> may find on its socket: a datagram that \<^verbatim>\<open>PostOffice::Send\<close> of some machine with as many
  boxes handed to the network for it. The letter is what the sender gave, with the headers filled in.
\<close>

definition posted :: "int \<Rightarrow> nat \<Rightarrow> letter \<Rightarrow> byte list \<Rightarrow> bool" where
  "posted me nb l bs \<longleftrightarrow> (\<exists>rnd g p m d a a'. post_send rnd g p m d a = Inr a' \<and>
     wire (network (kern a')) = wire (network (kern a)) @ [(me, bs)] \<and> numBoxes (post (kern a)) = int nb \<and>
     in_int me \<and> in_int (netAddr (post (kern a))) \<and> in_int (mto m) \<and> in_int (mfrom m) \<and> int (length d) = mlength m \<and>
     l = (\<lparr>pto = me, pfrom = netAddr (post (kern a)), plength = mlength m + 12\<rparr>, m, d))"

lemma Network_Send_wire:
  assumes "Network_Send rnd g h b a = Inr a'" and "0 \<le> plength h"
    and "wire (network (kern a')) = wire (network (kern a)) @ [(me, bs)]"
  shows "pto h = me" "bs = pkt_bytes h @ take (nat (plength h)) b @ drop (nat (plength h)) (map g [12..<64])"
    "plength h \<le> 52" "plength h \<le> int (length b)"
proof -
  obtain s1 where s1: "Schedule NetworkSendDone 0 NetworkTime NetworkSendInt a = Inr s1" "kern s1 = kern a"
    using frame_Schedule [of NetworkTime NetworkSendDone 0 NetworkSendInt a] by (auto simp: NetworkTime_def)
  have d: "drop 12 (map g [0..<64]) = map g [12..<64]" by (simp add: drop_map)
  have n: "\<not> of_int (c_mod (int (rnd (sends (network (kern a))))) 100) \<ge> chanceToWork (network (kern a)) * 100"
    using assms(1,3) s1 by (auto simp: Network_Send_def Let_def set_net_def bindR_eq_Inr split: if_splits)
  then obtain c where c: "bcopy b (map g [12..<64]) (plength h) = Inr c" "plength h \<le> 52" "(me, bs) = (pto h, pkt_bytes h @ c)"
    using assms(1,3) s1 d by (auto simp: Network_Send_def Let_def set_net_def bindR_eq_Inr overlay_def net_sizes split: if_splits)
  then show "pto h = me" "plength h \<le> 52" by simp_all
  show l: "plength h \<le> int (length b)" using c(1) by (simp add: bcopy_def split: if_splits)
  show "bs = pkt_bytes h @ take (nat (plength h)) b @ drop (nat (plength h)) (map g [12..<64])"
    using c bcopy_ok [OF assms(2) l, of "map g [12..<64]"] by simp
qed

lemma posted_letter:
  assumes "posted me nb l bs"
  shows "length bs = 64" "pto (pkt_of bs) = me" "packet_ok nb (pkt_of bs) (drop 12 bs)" "letter_in (pkt_of bs) (drop 12 bs) = l"
proof -
  obtain rnd g p m d a a' where s: "post_send rnd g p m d a = Inr a'" "wire (network (kern a')) = wire (network (kern a)) @ [(me, bs)]"
    "numBoxes (post (kern a)) = int nb" "in_int me" "in_int (netAddr (post (kern a)))" "in_int (mto m)" "in_int (mfrom m)" "int (length d) = mlength m"
    and l: "l = (\<lparr>pto = me, pfrom = netAddr (post (kern a)), plength = mlength m + 12\<rparr>, m, d)"
    using assms unfolding posted_def by blast
  let ?h = "p\<lparr>pfrom := netAddr (post (kern a)), plength := mlength m + 12\<rparr>"
  let ?b = "mail_bytes m @ d @ drop (length d) (map g [12..<52])"
  have ld: "length d \<le> 40" "0 \<le> mto m" "mto m < int nb" using s(1,3,8) by (auto simp: post_send_def Let_def bindR_eq_Inr net_sizes)
  have m0: "0 \<le> mlength m" "mlength m \<le> 40" using s(8) ld(1) by linarith+
  have dr: "drop 12 (map g [0..<52]) = map g [12..<52]" by (simp add: drop_map)
  have nd: "nat (mlength m) = length d" using s(8) by linarith
  have "bcopy d (map g [12..<52]) (mlength m) = Inr (take (nat (mlength m)) d @ drop (nat (mlength m)) (map g [12..<52]))"
    by (rule bcopy_ok) (use m0 s(8) in simp_all)
  then have bc: "bcopy d (map g [12..<52]) (mlength m) = Inr (d @ drop (length d) (map g [12..<52]))" unfolding nd by simp
  have "Network_Send rnd g ?h ?b a = Inr a'"
    using s(1) dr bc by (simp add: post_send_def Let_def bindR_eq_Inr net_sizes overlay_def Lock_Acquire_def)
  from Network_Send_wire [OF this _ s(2)] m0
  have w: "pto ?h = me" "bs = pkt_bytes ?h @ take (nat (plength ?h)) ?b @ drop (nat (plength ?h)) (map g [12..<64])" by auto
  have lb: "length ?b = 52" using ld(1) by simp
  have pl: "nat (plength ?h) = 12 + length d" using m0 by (simp add: nat_add_distrib nd)
  let ?q = "mail_bytes m @ d @ drop (12 + length d) (map g [12..<64])"
  have bs: "bs = pkt_bytes ?h @ ?q" using w(2) unfolding pl by simp
  then show "length bs = 64" using ld(1) by simp
  have h: "?h = \<lparr>pto = me, pfrom = netAddr (post (kern a)), plength = mlength m + 12\<rparr>" using w(1) by simp
  have pk: "pkt_of bs = ?h" unfolding bs using s(4,5) m0 w(1) by (intro pkt_of_bytes) auto
  then show "pto (pkt_of bs) = me" using w(1) by simp
  have dq: "drop 12 bs = ?q" unfolding bs by simp
  have mk: "mail_of ?q = m" using s(6,7) m0 by (intro mail_of_bytes) auto
  show "packet_ok nb (pkt_of bs) (drop 12 bs)" unfolding dq packet_ok_def mk pk using ld m0 by simp
  show "letter_in (pkt_of bs) (drop 12 bs) = l" unfolding dq letter_in_def mk l pk h by (simp add: nd)
qed

section \<open>The receiving side\<close>

definition for_box :: "nat \<Rightarrow> letter list \<Rightarrow> letter list" where
  "for_box i ls = filter (\<lambda>(p, m, d). mto m = int i) ls"

definition in_box :: "Mail \<Rightarrow> letter" where
  "in_box m = (pktHdr m, mailHdr m, take (nat (mlength (mailHdr m))) (mdata m))"

definition buffered :: "Network \<Rightarrow> letter list" where
  "buffered n = (if plength (inHdr n) = 0 then [] else [letter_in (inHdr n) (inbox n)])"

text \<open>All letters for box \<open>i\<close> that have arrived and are not taken: in the box, in the device, on the socket.\<close>

definition mail_for :: "nat \<Rightarrow> net \<Rightarrow> letter list" where
  "mail_for i k = map in_box (boxes (post k) ! i) @
     for_box i (buffered (network k) @ map (\<lambda>bs. letter_in (pkt_of bs) (drop 12 bs)) (sock (network k)))"

definition dgram_ok :: "int \<Rightarrow> nat \<Rightarrow> byte list \<Rightarrow> bool" where
  "dgram_ok me nb bs \<longleftrightarrow> length bs = 64 \<and> pto (pkt_of bs) = me \<and> packet_ok nb (pkt_of bs) (drop 12 bs)"

text \<open>
  The invariant; \<open>w\<close> says that the postal worker has passed \<^verbatim>\<open>P\<close> and not yet fetched the packet. The semaphore
  counts the packet in the device, if there is one.
\<close>

definition net_ok :: "nat \<Rightarrow> bool \<Rightarrow> Network \<Rightarrow> bool" where
  "net_ok nb full n \<longleftrightarrow> length (inbox n) = 52 \<and> (\<forall>bs \<in> set (sock n). dgram_ok (ident n) nb bs) \<and>
     (plength (inHdr n) \<noteq> 0) = full \<and> (full \<longrightarrow> packet_ok nb (inHdr n) (inbox n))"

definition boxes_ok :: "nat \<Rightarrow> PostOffice \<Rightarrow> bool" where
  "boxes_ok nb po \<longleftrightarrow> numBoxes po = int nb \<and> length (boxes po) = nb \<and>
     (\<forall>mb \<in> set (boxes po). \<forall>m \<in> set mb. mlength (mailHdr m) \<le> 40)"

definition post_ok :: "nat \<Rightarrow> bool \<Rightarrow> net \<Rightarrow> bool" where
  "post_ok nb w k \<longleftrightarrow> kinv net_sems k \<and> boxes_ok nb (post k) \<and>
     (\<exists>S. sems k messageAvailable = Some S \<and> 0 \<le> svalue S \<and> svalue S + of_bool w \<le> 1 \<and>
        net_ok nb (svalue S + of_bool w = 1) (network k))"

lemma kinv_net [simp]: "kinv D (k\<lparr>network := n\<rparr>) = kinv D k" "kinv D (k\<lparr>post := p\<rparr>) = kinv D k"
proof -
  have w: "waiting (k\<lparr>network := n\<rparr>) = waiting k" "waiting (k\<lparr>post := p\<rparr>) = waiting k" by (simp_all add: waiting_def fun_eq_iff)
  show "kinv D (k\<lparr>network := n\<rparr>) = kinv D k" "kinv D (k\<lparr>post := p\<rparr>) = kinv D k"
    unfolding kinv_def w by (simp_all add: has_status_def)
qed

lemma v_body_net:
  fixes k :: net
  assumes "v_body sm k = Inr k'"
  shows "network k' = network k" "post k' = post k"
    "\<exists>S S'. sems k sm = Some S \<and> sems k' sm = Some S' \<and> svalue S' = svalue S + 1"
  using assms by (auto simp: v_body_def get_sem_def set_sem_def ReadyToRun_def upd_thread_def get_thread_def bindR_eq_Inr
      split: option.splits list.splits)

text \<open>A datagram that is taken from the socket becomes the packet in the device.\<close>

lemma take_packet:
  assumes n: "net_ok nb False n" "sock n = bs # rest"
  shows "length bs = 64" "pto (pkt_of bs) = ident n" "plength (pkt_of bs) \<le> 52" "plength (pkt_of bs) \<noteq> 0"
    "\<exists>ib. bcopy (drop 12 bs) (inbox n) (plength (pkt_of bs)) = Inr ib \<and> net_ok nb True (n\<lparr>inHdr := pkt_of bs, inbox := ib, sock := rest\<rparr>) \<and>
       letter_in (pkt_of bs) ib = letter_in (pkt_of bs) (drop 12 bs)"
proof -
  have d: "length (inbox n) = 52" "dgram_ok (ident n) nb bs" "\<forall>bs \<in> set rest. dgram_ok (ident n) nb bs"
    using n by (auto simp: net_ok_def)
  then have p: "length bs = 64" "pto (pkt_of bs) = ident n" "packet_ok nb (pkt_of bs) (drop 12 bs)" by (simp_all add: dgram_ok_def)
  then show "length bs = 64" "pto (pkt_of bs) = ident n" by simp_all
  let ?h = "pkt_of bs" and ?m = "mail_of (drop 12 bs)"
  have l: "plength ?h = mlength ?m + 12" "mlength ?m \<le> 40" using p(3) by (simp_all add: packet_ok_def)
  then show l2: "plength ?h \<le> 52" "plength ?h \<noteq> 0" using mlength_nonneg(1) [of "drop 12 bs"] by linarith+
  define k where "k = nat (plength ?h)"
  have "k = nat (mlength ?m) + 12" using l(1) by (simp add: k_def nat_add_distrib)
  then have k: "12 \<le> k" "k \<le> 52" "k - 12 = nat (mlength ?m)" using l(2) by simp_all
  define ib where "ib = take k (drop 12 bs) @ drop k (inbox n)"
  have b: "bcopy (drop 12 bs) (inbox n) (plength ?h) = Inr ib"
    unfolding ib_def k_def using l2(1) p(1) d(1) by (intro bcopy_ok) simp_all
  have "mail_of ib = mail_of (take k (drop 12 bs))" unfolding ib_def using k(1,2) p(1) by (intro mail_of_append) simp
  then have m: "mail_of ib = ?m" using mail_of_prefix [OF k(1)] by simp
  have "drop 12 ib = take (k - 12) (drop 24 bs) @ drop k (inbox n)" using k(1,2) p(1) by (simp add: ib_def drop_take)
  then have t: "take (k - 12) (drop 12 ib) = take (k - 12) (drop 24 bs)" using k(2) p(1) by simp
  have "length ib = 52" using k(2) p(1) d(1) by (simp add: ib_def)
  then have "net_ok nb True (n\<lparr>inHdr := ?h, inbox := ib, sock := rest\<rparr>)" using d(3) l2(2) p(3) m by (simp add: net_ok_def packet_ok_def)
  moreover have "letter_in ?h ib = letter_in ?h (drop 12 bs)" using t k(3) by (simp add: letter_in_def m)
  ultimately show "\<exists>ib. bcopy (drop 12 bs) (inbox n) (plength ?h) = Inr ib \<and> net_ok nb True (n\<lparr>inHdr := ?h, inbox := ib, sock := rest\<rparr>) \<and>
       letter_in ?h ib = letter_in ?h (drop 12 bs)" using b by blast
qed

lemma poll_ok:
  assumes "post_ok nb w (kern s)"
  shows "\<exists>s'. CheckPktAvail s = Inr s' \<and> post_ok nb w (kern s') \<and> (\<forall>i. mail_for i (kern s') = mail_for i (kern s)) \<and>
    handler_frame s s' \<and> wake net_sems (kern s) (kern s') \<and> post (kern s') = post (kern s) \<and> ident (network (kern s')) = ident (network (kern s))"
proof -
  obtain S where S: "kinv net_sems (kern s)" "boxes_ok nb (post (kern s))" "sems (kern s) messageAvailable = Some S" "0 \<le> svalue S"
    "svalue S + of_bool w \<le> 1" "net_ok nb (svalue S + of_bool w = 1) (network (kern s))" using assms by (auto simp: post_ok_def)
  obtain s1 where s1: "Schedule NetworkReadPoll 0 NetworkTime NetworkRecvInt s = Inr s1" "handler_frame s s1" "kern s1 = kern s"
    using frame_Schedule [of NetworkTime NetworkReadPoll 0 NetworkRecvInt s] by (auto simp: NetworkTime_def)
  have same: "post_ok nb w (kern s1)" "mail_for i (kern s1) = mail_for i (kern s)" for i using assms s1(3) by (simp_all add: post_ok_def mail_for_def)
  let ?n = "network (kern s)"
  show ?thesis
  proof (cases "plength (inHdr ?n) \<noteq> 0 \<or> sock ?n = []")
    case True
    then have "CheckPktAvail s = Inr s1" using s1(1,3) by (auto simp: CheckPktAvail_def Let_def)
    then show ?thesis using s1(2,3) same wake_refl [OF S(1)] by simp
  next
    case False
    then obtain bs rest where b: "sock ?n = bs # rest" "plength (inHdr ?n) = 0" by (cases "sock ?n") auto
    then have v: "svalue S + of_bool w = 0" and e: "net_ok nb False ?n" using S(4,5,6) by (auto simp: net_ok_def)
    note t = take_packet [OF e b(1)]
    then obtain ib where ib: "bcopy (drop 12 bs) (inbox ?n) (plength (pkt_of bs)) = Inr ib"
      "net_ok nb True (?n\<lparr>inHdr := pkt_of bs, inbox := ib, sock := rest\<rparr>)" "letter_in (pkt_of bs) ib = letter_in (pkt_of bs) (drop 12 bs)" by blast
    define s2 where "s2 = set_net (?n\<lparr>inHdr := pkt_of bs, inbox := ib, sock := rest\<rparr>)
      (s1\<lparr>stats := (stats s1)\<lparr>numPacketsRecvd := numPacketsRecvd (stats s1) + 1\<rparr>\<rparr>)"
    have k2: "kern s2 = (kern s)\<lparr>network := ?n\<lparr>inHdr := pkt_of bs, inbox := ib, sock := rest\<rparr>\<rparr>" using s1(3) by (simp add: s2_def set_net_def)
    have "handler_frame s1 s2" by (intro frame_refl) (simp_all add: ticks_of_def s2_def set_net_def)
    then have f: "handler_frame s s2" using s1(2) frame_trans by blast
    have "messageAvailable \<in> net_sems" by (simp add: net_sems_def)
    with v_body_wake [of net_sems "kern s2"] S(1) obtain k' where k': "v_body messageAvailable (kern s2) = Inr k'" "wake net_sems (kern s2) k'" by (auto simp: k2)
    note n' = v_body_net [OF k'(1)]
    have c: "CheckPktAvail s = Inr (s2\<lparr>kern := k'\<rparr>)"
      using s1(1,3) b t ib(1) k'(1) by (simp add: CheckPktAvail_def Let_def net_sizes IncomingPacket_def on_kern_def s2_def [symmetric])
    have "\<exists>S'. sems k' messageAvailable = Some S' \<and> svalue S' = svalue S + 1" using n'(3) S(3) by (auto simp: k2)
    moreover have "kinv net_sems k'" using k'(2) by (simp add: wake_def)
    ultimately have o: "post_ok nb w k'" using S(2,4) v ib(2) n'(1,2) by (auto simp: post_ok_def k2)
    have m: "mail_for i k' = mail_for i (kern s)" for i
      using n'(1,2) b t(4) ib(3) by (simp add: mail_for_def k2 buffered_def)
    have "handler_frame s2 (s2\<lparr>kern := k'\<rparr>)" by (intro frame_refl) (simp_all add: ticks_of_def)
    then have "handler_frame s (s2\<lparr>kern := k'\<rparr>)" using f frame_trans by blast
    moreover have "wake net_sems (kern s) k'" using k'(2) unfolding k2 by (simp add: wake_def)
    ultimately show ?thesis using c o m n'(1,2) by (intro exI [of _ "s2\<lparr>kern := k'\<rparr>"]) (simp add: k2)
  qed
qed

lemma boxes_ok_update:
  assumes "boxes_ok nb po" "\<forall>m \<in> set mb. mlength (mailHdr m) \<le> 40"
  shows "boxes_ok nb (po\<lparr>boxes := (boxes po)[i := mb]\<rparr>)"
  using assms by (auto simp: boxes_ok_def dest!: subsetD [OF set_update_subset_insert])

lemma for_box_append [simp]: "for_box i (xs @ ys) = for_box i xs @ for_box i ys"
  by (simp add: for_box_def)

lemma Receive_packet:
  assumes "net_ok nb True n" "length b = 52"
  shows "\<exists>b'. Network_Receive n b = Inr (inHdr n, b', n\<lparr>inHdr := (inHdr n)\<lparr>plength := 0\<rparr>\<rparr>) \<and> length b' = 52 \<and> packet_ok nb (inHdr n) b' \<and>
    letter_in (inHdr n) b' = letter_in (inHdr n) (inbox n)"
proof -
  let ?h = "inHdr n" and ?m = "mail_of (inbox n)"
  have p: "length (inbox n) = 52" "plength ?h = mlength ?m + 12" "mlength ?m \<le> 40" "plength ?h \<noteq> 0" "packet_ok nb ?h (inbox n)"
    using assms(1) by (auto simp: net_ok_def packet_ok_def)
  define k where "k = nat (plength ?h)"
  have "k = nat (mlength ?m) + 12" using p(2) by (simp add: k_def nat_add_distrib)
  then have k: "12 \<le> k" "k \<le> 52" "k - 12 = nat (mlength ?m)" using p(3) by simp_all
  define b' where "b' = take k (inbox n) @ drop k b"
  have "0 \<le> plength ?h" "plength ?h \<le> 52" using p(2,3) mlength_nonneg(1) [of "inbox n"] by linarith+
  then have "bcopy (inbox n) b (plength ?h) = Inr b'" unfolding b'_def k_def using p(1) assms(2) by (intro bcopy_ok) simp_all
  then have r: "Network_Receive n b = Inr (?h, b', n\<lparr>inHdr := ?h\<lparr>plength := 0\<rparr>\<rparr>)" using p(4) by (simp add: Network_Receive_def Let_def)
  have l: "length b' = 52" using p(1) k(2) assms(2) by (simp add: b'_def)
  have "mail_of b' = mail_of (take k (inbox n))" unfolding b'_def using k(1,2) p(1) by (intro mail_of_append) simp
  then have m: "mail_of b' = ?m" using mail_of_prefix [OF k(1)] by simp
  have "take (k - 12) (drop 12 b') = take (k - 12) (drop 12 (inbox n))" using k(1,2) p(1) by (simp add: b'_def drop_take)
  then have "letter_in ?h b' = letter_in ?h (inbox n)" using k(3) by (simp add: letter_in_def m)
  then show ?thesis using r l m p(5) by (auto simp: packet_ok_def)
qed

lemma Put_letter:
  assumes "packet_ok nb h b"
  shows "\<exists>mail. MailBox_Put g h (mail_of b) (drop 12 b) mb = Inr (mb @ [mail]) \<and> in_box mail = letter_in h b \<and> mlength (mailHdr mail) \<le> 40"
proof -
  let ?m = "mail_of b"
  have l: "length b = 52" "mlength ?m \<le> 40" using assms by (simp_all add: packet_ok_def)
  define d where "d = take (nat (mlength ?m)) (drop 12 b) @ drop (nat (mlength ?m)) (map g [0..<40])"
  have "bcopy (drop 12 b) (map g [0..<40]) (mlength ?m) = Inr d" unfolding d_def using l by (intro bcopy_ok) simp_all
  then have "MailBox_Put g h ?m (drop 12 b) mb = Inr (mb @ [\<lparr>pktHdr = h, mailHdr = ?m, mdata = d\<rparr>])"
    using l(2) by (simp add: MailBox_Put_def Mail_Mail_def net_sizes SynchList_Append_def Lock_Acquire_def Lock_Release_def Condition_Signal_def)
  moreover have "take (nat (mlength ?m)) d = take (nat (mlength ?m)) (drop 12 b)" using l by (simp add: d_def)
  ultimately show ?thesis using l(2) by (auto simp: in_box_def letter_in_def)
qed

lemma round_ok:
  assumes ok: "post_ok nb True (kern s)" and b: "length b = 52"
  shows "\<exists>b' s'. postal_round g b s = Inr (b', s') \<and> length b' = 52 \<and> post_ok nb False (kern s') \<and> (\<forall>i < nb. mail_for i (kern s') = mail_for i (kern s)) \<and>
    ident (network (kern s')) = ident (network (kern s))"
proof -
  let ?n = "network (kern s)" and ?po = "post (kern s)"
  obtain S where S: "kinv net_sems (kern s)" "boxes_ok nb ?po" "sems (kern s) messageAvailable = Some S" "svalue S = 0" "net_ok nb True ?n"
    using ok by (fastforce simp: post_ok_def)
  obtain b' where r: "Network_Receive ?n b = Inr (inHdr ?n, b', ?n\<lparr>inHdr := (inHdr ?n)\<lparr>plength := 0\<rparr>\<rparr>)" "length b' = 52" "packet_ok nb (inHdr ?n) b'"
    "letter_in (inHdr ?n) b' = letter_in (inHdr ?n) (inbox ?n)" using Receive_packet [OF S(5) b] by blast
  obtain j where j: "mto (mail_of b') = int j" "j < nb" using r(3) by (auto simp: packet_ok_def dest: zero_le_imp_eq_int)
  have bx: "numBoxes ?po = int nb" "length (boxes ?po) = nb" using S(2) by (simp_all add: boxes_ok_def)
  obtain mail where p: "MailBox_Put g (inHdr ?n) (mail_of b') (drop 12 b') (boxes ?po ! j) = Inr (boxes ?po ! j @ [mail])"
    "in_box mail = letter_in (inHdr ?n) (inbox ?n)" "mlength (mailHdr mail) \<le> 40" using Put_letter [OF r(3)] r(4) by metis
  let ?bx = "(boxes ?po)[j := boxes ?po ! j @ [mail]]"
  define s' where "s' = set_post (?po\<lparr>boxes := ?bx\<rparr>) (set_net (?n\<lparr>inHdr := (inHdr ?n)\<lparr>plength := 0\<rparr>\<rparr>) s)"
  have "mlength (mail_of b') \<le> 40" using r(3) by (simp add: packet_ok_def)
  then have e: "postal_round g b s = Inr (b', s')" using r(1) j bx p(1) by (simp add: postal_round_def Let_def net_sizes s'_def)
  have "boxes ?po ! j \<in> set (boxes ?po)" using j(2) bx by simp
  then have "\<forall>m \<in> set (boxes ?po ! j @ [mail]). mlength (mailHdr m) \<le> 40" using S(2) p(3) unfolding boxes_ok_def by auto
  then have "boxes_ok nb (?po\<lparr>boxes := ?bx\<rparr>)" using S(2) by (intro boxes_ok_update)
  then have o: "post_ok nb False (kern s')" using S by (auto simp: post_ok_def s'_def set_post_def set_net_def net_ok_def)
  have mm: "mail_of b' = mail_of (inbox ?n)" using r(4) by (simp add: letter_in_def)
  have f: "for_box i (letter_in (inHdr ?n) (inbox ?n) # ls) = (if i = j then [letter_in (inHdr ?n) (inbox ?n)] else []) @ for_box i ls" for i ls
    using j(1) mm by (auto simp: for_box_def letter_in_def)
  have "plength (inHdr ?n) \<noteq> 0" using S(5) by (simp add: net_ok_def)
  then have "mail_for i (kern s') = mail_for i (kern s)" if "i < nb" for i
    using that j(2) bx(2) p(2) by (cases "i = j") (simp_all add: mail_for_def s'_def set_post_def set_net_def buffered_def f)
  then show ?thesis using e r(2) o by (auto simp: s'_def set_post_def set_net_def)
qed

text \<open>\<^verbatim>\<open>Receive\<close> takes the oldest letter of the box; when the box is empty it does not wait but stops the kernel.\<close>

lemma receive_ok:
  assumes ok: "post_ok nb w (kern s)" and i: "i < nb"
  shows "if boxes (post (kern s)) ! i = [] then PostOffice_Receive (int i) s = Inl AssertFailed
    else \<exists>l s'. PostOffice_Receive (int i) s = Inr (l, s') \<and> post_ok nb w (kern s') \<and> mail_for i (kern s) = l # mail_for i (kern s') \<and>
      (\<forall>j < nb. j \<noteq> i \<longrightarrow> mail_for j (kern s') = mail_for j (kern s)) \<and> network (kern s') = network (kern s)"
proof -
  let ?po = "post (kern s)"
  have bx: "numBoxes ?po = int nb" "length (boxes ?po) = nb" "\<forall>mb \<in> set (boxes ?po). \<forall>m \<in> set mb. mlength (mailHdr m) \<le> 40"
    using ok by (auto simp: post_ok_def boxes_ok_def)
  show ?thesis
  proof (cases "boxes ?po ! i")
    case Nil
    have "synch_wait ([] :: Mail list) = Inl AssertFailed" by (subst synch_wait.simps) (simp add: Condition_Wait_def)
    then show ?thesis using Nil i bx by (simp add: PostOffice_Receive_def Let_def MailBox_Get_def SynchList_Remove_def Lock_Acquire_def)
  next
    case (Cons m mb)
    have "boxes ?po ! i \<in> set (boxes ?po)" using i bx(2) by simp
    then have m: "mlength (mailHdr m) \<le> 40" "\<forall>x \<in> set mb. mlength (mailHdr x) \<le> 40" using bx(3) Cons by auto
    define s' where "s' = set_post (?po\<lparr>boxes := (boxes ?po)[i := mb]\<rparr>) s"
    have g: "MailBox_Get (m # mb) = Inr (in_box m, mb)"
      by (simp add: MailBox_Get_def SynchList_Remove_def Lock_Acquire_def Lock_Release_def synch_wait.simps in_box_def)
    then have e: "PostOffice_Receive (int i) s = Inr (in_box m, s')"
      using Cons i bx m(1) by (simp add: PostOffice_Receive_def Let_def s'_def in_box_def net_sizes)
    have "boxes_ok nb (?po\<lparr>boxes := (boxes ?po)[i := mb]\<rparr>)" using ok m(2) by (intro boxes_ok_update) (simp_all add: post_ok_def)
    then have "post_ok nb w (kern s')" using ok by (auto simp: post_ok_def s'_def set_post_def)
    moreover have "mail_for i (kern s) = in_box m # mail_for i (kern s')" using Cons i bx(2) by (simp add: mail_for_def s'_def set_post_def)
    moreover have "\<forall>j < nb. j \<noteq> i \<longrightarrow> mail_for j (kern s') = mail_for j (kern s)" by (simp add: mail_for_def s'_def set_post_def)
    moreover have "network (kern s') = network (kern s)" by (simp add: s'_def set_post_def)
    ultimately have "\<exists>l s'. PostOffice_Receive (int i) s = Inr (l, s') \<and> post_ok nb w (kern s') \<and> mail_for i (kern s) = l # mail_for i (kern s') \<and>
      (\<forall>j < nb. j \<noteq> i \<longrightarrow> mail_for j (kern s') = mail_for j (kern s)) \<and> network (kern s') = network (kern s)" using e by blast
    then show ?thesis using Cons by simp
  qed
qed

section \<open>The handlers meet their contract\<close>

lemma SendDone_ok:
  assumes "post_ok nb w (kern s)"
  shows "\<exists>s'. Network_SendDone s = Inr s' \<and> handler_frame s s' \<and> wake net_sems (kern s) (kern s') \<and> post_ok nb w (kern s') \<and>
    (\<forall>i. mail_for i (kern s') = mail_for i (kern s)) \<and> ident (network (kern s')) = ident (network (kern s))"
proof -
  define s1 where "s1 = set_net ((network (kern s))\<lparr>sendBusy := False\<rparr>)
     (s\<lparr>stats := (stats s)\<lparr>numPacketsSent := numPacketsSent (stats s) + 1\<rparr>\<rparr>)"
  have k1: "kern s1 = (kern s)\<lparr>network := (network (kern s))\<lparr>sendBusy := False\<rparr>\<rparr>" by (simp add: s1_def set_net_def)
  have i: "kinv net_sems (kern s)" using assms by (simp add: post_ok_def)
  have sm: "messageSent \<in> net_sems" by (simp add: net_sems_def)
  obtain k' where k': "v_body messageSent (kern s1) = Inr k'" "wake net_sems (kern s1) k'"
    using v_body_wake [of net_sems "kern s1" messageSent] i sm by (auto simp: k1)
  note n' = v_body_net(1,2) [OF k'(1)]
  have "sems k' messageAvailable = sems (kern s1) messageAvailable"
    using k'(1) by (auto simp: v_body_def get_sem_def set_sem_def ReadyToRun_def upd_thread_def get_thread_def bindR_eq_Inr
        messageAvailable_def messageSent_def split: option.splits list.splits)
  moreover have "net_ok nb f ((network (kern s))\<lparr>sendBusy := False\<rparr>) = net_ok nb f (network (kern s))" for f by (simp add: net_ok_def)
  moreover have "kinv net_sems k'" using k'(2) by (simp add: wake_def)
  ultimately have "post_ok nb w k'" using assms n' by (simp add: post_ok_def k1)
  moreover have "handler_frame s (s1\<lparr>kern := k'\<rparr>)" by (intro frame_refl) (simp_all add: ticks_of_def s1_def set_net_def)
  moreover have "Network_SendDone s = Inr (s1\<lparr>kern := k'\<rparr>)" using k'(1) by (simp add: Network_SendDone_def PacketSent_def on_kern_def s1_def [symmetric])
  moreover have "wake net_sems (kern s) k'" using k'(2) unfolding k1 by (simp add: wake_def)
  moreover have "mail_for i k' = mail_for i (kern s)" for i by (simp add: mail_for_def n' k1 buffered_def)
  ultimately show ?thesis using n'(1) by (intro exI [of _ "s1\<lparr>kern := k'\<rparr>"]) (simp add: k1)
qed

text \<open>What interrupts of the network do: they may wake threads, and move letters along without changing what is there for a box.\<close>

definition carries :: "nat \<Rightarrow> bool \<Rightarrow> net \<Rightarrow> net \<Rightarrow> bool" where
  "carries nb w k k' \<longleftrightarrow> wake net_sems k k' \<and> post_ok nb w k' \<and> (\<forall>i. mail_for i k' = mail_for i k) \<and> ident (network k') = ident (network k)"

interpretation nets: device_handlers run_net "carries nb w" for nb w
proof unfold_locales
  fix k1 k2 k3 :: net
  show "carries nb w k1 k2 \<Longrightarrow> carries nb w k2 k3 \<Longrightarrow> carries nb w k1 k3" unfolding carries_def using wake_trans [of net_sems k1 k2 k3] by simp
  show "carries nb w k1 k2 \<Longrightarrow> carries nb w k2 k2" unfolding carries_def using wake_right by blast
next
  fix s :: nsim and h a
  assume "carries nb w (kern s) (kern s)"
  then show "\<exists>s'. run_net h a s = Inr s' \<and> handler_frame s s' \<and> carries nb w (kern s) (kern s')"
    using poll_ok [of nb w s] SendDone_ok [of nb w s] unfolding carries_def by (cases h) fastforce+
qed

section \<open>Executions of the receiving machine\<close>

text \<open>
  An execution of the machine, as far as the post office is concerned: the state; whether the postal worker has passed
  \<^verbatim>\<open>P\<close> and not yet taken the packet, with its buffer; the letters that have been received from each box; and the letters that
  have arrived at the socket. Between the steps of the post office, other threads may do anything that leaves its data alone.
\<close>

type_synonym mail_state = "nsim \<times> bool \<times> byte list \<times> (nat \<Rightarrow> letter list) \<times> letter list"

definition post_apart :: "nsim \<Rightarrow> nsim \<Rightarrow> bool" where
  "post_apart s s' \<longleftrightarrow> wf_sim s' \<and> kinv net_sems (kern s') \<and> post (kern s') = post (kern s) \<and>
     ident (network (kern s')) = ident (network (kern s)) \<and> inHdr (network (kern s')) = inHdr (network (kern s)) \<and>
     inbox (network (kern s')) = inbox (network (kern s)) \<and> sock (network (kern s')) = sock (network (kern s)) \<and>
     map_option svalue (sems (kern s') messageAvailable) = map_option svalue (sems (kern s) messageAvailable)"

inductive mail_run :: "(nat \<Rightarrow> byte) \<Rightarrow> nat \<Rightarrow> nsim \<Rightarrow> mail_state \<Rightarrow> bool" for g nb s0 where
  start: "length b = nat MaxPacketSize \<Longrightarrow> mail_run g nb s0 (s0, False, b, \<lambda>_. [], [])"
| arrive: "mail_run g nb s0 (s, w, b, L, A) \<Longrightarrow> posted (ident (network (kern s))) nb l bs \<Longrightarrow>
    mail_run g nb s0 (set_net ((network (kern s))\<lparr>sock := sock (network (kern s)) @ [bs]\<rparr>) s, w, b, L, A @ [l])"
| tick: "mail_run g nb s0 (s, w, b, L, A) \<Longrightarrow> status s \<noteq> IdleMode \<Longrightarrow> OneTick run_net s = Some (Inr (y, s')) \<Longrightarrow>
    mail_run g nb s0 (s', w, b, L, A)"
| pass: "mail_run g nb s0 (s, False, b, L, A) \<Longrightarrow> sems (kern s) messageAvailable = Some S \<Longrightarrow> svalue S \<noteq> 0 \<Longrightarrow>
    mail_run g nb s0 (s\<lparr>kern := set_sem messageAvailable (S\<lparr>svalue := svalue S - 1\<rparr>) (kern s)\<rparr>, True, b, L, A)"
| deliver: "mail_run g nb s0 (s, True, b, L, A) \<Longrightarrow> postal_round g b s = Inr (b', s') \<Longrightarrow> mail_run g nb s0 (s', False, b', L, A)"
| receive: "mail_run g nb s0 (s, w, b, L, A) \<Longrightarrow> i < nb \<Longrightarrow> PostOffice_Receive (int i) s = Inr (l, s') \<Longrightarrow>
    mail_run g nb s0 (s', w, b, L(i := L i @ [l]), A)"
| other: "mail_run g nb s0 (s, w, b, L, A) \<Longrightarrow> post_apart s s' \<Longrightarrow> mail_run g nb s0 (s', w, b, L, A)"

definition post_start :: "nat \<Rightarrow> nsim \<Rightarrow> bool" where
  "post_start nb s \<longleftrightarrow> wf_sim s \<and> post_ok nb False (kern s) \<and> (\<forall>i < nb. mail_for i (kern s) = [])"

lemma arrive_ok:
  assumes "post_ok nb w k" "posted (ident (network k)) nb l bs"
  shows "post_ok nb w (k\<lparr>network := (network k)\<lparr>sock := sock (network k) @ [bs]\<rparr>\<rparr>)"
    "mail_for i (k\<lparr>network := (network k)\<lparr>sock := sock (network k) @ [bs]\<rparr>\<rparr>) = mail_for i k @ for_box i [l]"
proof -
  note p = posted_letter [OF assms(2)]
  then have "dgram_ok (ident (network k)) nb bs" by (simp add: dgram_ok_def)
  then show "post_ok nb w (k\<lparr>network := (network k)\<lparr>sock := sock (network k) @ [bs]\<rparr>\<rparr>)"
    using assms(1) by (auto simp: post_ok_def net_ok_def)
  show "mail_for i (k\<lparr>network := (network k)\<lparr>sock := sock (network k) @ [bs]\<rparr>\<rparr>) = mail_for i k @ for_box i [l]"
    using p(4) by (simp add: mail_for_def buffered_def)
qed

lemma pass_ok:
  assumes "post_ok nb False k" "sems k messageAvailable = Some S" "svalue S \<noteq> 0"
  shows "post_ok nb True (set_sem messageAvailable (S\<lparr>svalue := svalue S - 1\<rparr>) k)"
    "mail_for i (set_sem messageAvailable (S\<lparr>svalue := svalue S - 1\<rparr>) k) = mail_for i k"
proof -
  have v: "svalue S = 1" using assms by (auto simp: post_ok_def)
  have "kinv net_sems (set_sem messageAvailable (S\<lparr>svalue := svalue S - 1\<rparr>) k)"
    using assms v by (intro kinv_set_sem) (auto simp: post_ok_def)
  then show "post_ok nb True (set_sem messageAvailable (S\<lparr>svalue := svalue S - 1\<rparr>) k)"
    using assms(1,2) v by (auto simp: post_ok_def set_sem_def)
  show "mail_for i (set_sem messageAvailable (S\<lparr>svalue := svalue S - 1\<rparr>) k) = mail_for i k" by (simp add: mail_for_def set_sem_def)
qed

lemma apart_ok:
  assumes "post_ok nb w (kern s)" "post_apart s s'"
  shows "post_ok nb w (kern s')" "mail_for i (kern s') = mail_for i (kern s)"
proof -
  have n: "net_ok nb f (network (kern s')) = net_ok nb f (network (kern s))" for f using assms(2) by (simp add: net_ok_def post_apart_def)
  obtain S where S: "sems (kern s) messageAvailable = Some S" "0 \<le> svalue S \<and> svalue S + of_bool w \<le> 1"
    "net_ok nb (svalue S + of_bool w = 1) (network (kern s))" using assms(1) by (auto simp: post_ok_def)
  obtain S' where "sems (kern s') messageAvailable = Some S'" "svalue S' = svalue S" using assms(2) S(1) by (auto simp: post_apart_def)
  then show "post_ok nb w (kern s')" using assms S n by (simp add: post_ok_def post_apart_def)
  show "mail_for i (kern s') = mail_for i (kern s)" using assms(2) by (simp add: mail_for_def buffered_def post_apart_def)
qed

lemma tick_ok:
  assumes "post_ok nb w (kern s)" "wf_sim s" "status s \<noteq> IdleMode"
  shows "\<exists>y s'. OneTick run_net s = Some (Inr (y, s')) \<and> wf_sim s' \<and> carries nb w (kern s) (kern s')"
proof -
  have "carries nb w (kern s) (kern s)" using assms(1) by (simp add: carries_def post_ok_def wake_refl)
  then show ?thesis using nets.OneTick_ok [OF assms(2,3)] by blast
qed

text \<open>Every step keeps the sum of what was received and what is still there.\<close>

definition mail_inv :: "nat \<Rightarrow> mail_state \<Rightarrow> bool" where
  "mail_inv nb c \<longleftrightarrow> (case c of (s, w, b, L, A) \<Rightarrow> wf_sim s \<and> post_ok nb w (kern s) \<and> length b = 52 \<and>
     (\<forall>i < nb. L i @ mail_for i (kern s) = for_box i A))"

lemma mail_run_inv:
  assumes "mail_run g nb s0 c" and s0: "post_start nb s0"
  shows "mail_inv nb c"
  using assms(1)
proof (induction rule: mail_run.induct)
  case (start b)
  then show ?case using s0 by (simp add: mail_inv_def post_start_def net_sizes for_box_def)
next
  case (arrive s w b L A l bs)
  then show ?case using arrive_ok [of nb w "kern s" l bs]
    by (simp add: mail_inv_def set_net_def wf_sim_def flip: append_assoc)
next
  case (tick s w b L A y s')
  then show ?case using tick_ok [of nb w s] by (auto simp: mail_inv_def carries_def)
next
  case (pass s b L A S)
  then show ?case using pass_ok [of nb "kern s" S] by (simp add: mail_inv_def wf_sim_def)
next
  case (deliver s b L A b' s')
  have "wf_sim s'" using deliver by (auto simp: mail_inv_def postal_round_def Let_def bindR_eq_Inr set_post_def set_net_def wf_sim_def)
  then show ?case using deliver round_ok [of nb s b g] by (auto simp: mail_inv_def)
next
  case (receive s w b L A i l s')
  have "wf_sim s'" using receive by (auto simp: mail_inv_def PostOffice_Receive_def Let_def bindR_eq_Inr set_post_def wf_sim_def)
  moreover have "\<exists>l' s''. PostOffice_Receive (int i) s = Inr (l', s'') \<and> post_ok nb w (kern s'') \<and> mail_for i (kern s) = l' # mail_for i (kern s'') \<and>
      (\<forall>j < nb. j \<noteq> i \<longrightarrow> mail_for j (kern s'') = mail_for j (kern s))"
    using receive_ok [of nb w s i] receive by (auto simp: mail_inv_def split: if_splits)
  ultimately show ?case using receive by (auto simp: mail_inv_def)
next
  case (other s w b L A s')
  then show ?case using apart_ok [of nb w s s'] by (simp add: mail_inv_def) (simp add: post_apart_def)
qed

text \<open>The constructor of the post office, up to the fork of the postal worker, makes such a start.\<close>

lemma post_office_starts:
  assumes k: "kinv D (kern s)" "messageAvailable \<notin> dom (sems (kern s))" "messageSent \<notin> dom (sems (kern s))" and wf: "wf_sim s"
  shows "\<exists>s2. post_start nBoxes s2 \<and> PostOffice_PostOffice run junk g addr rel nBoxes t regs s =
    Fork run t (s2\<lparr>kern := (kern s2)\<lparr>threads := (threads (kern s2))(t \<mapsto> Thread_Thread regs ''postal worker'' 0)\<rparr>\<rparr>)"
proof -
  define k1 where "k1 = set_sem messageAvailable (Semaphore_Semaphore ''message available'' 0) (kern s)"
  define k2 where "k2 = set_sem messageSent (Semaphore_Semaphore ''message sent'' 0) k1"
  define po where "po = \<lparr>netAddr = addr, boxes = replicate nBoxes ([] :: Mail list), numBoxes = int nBoxes\<rparr>"
  define n where "n = \<lparr>ident = addr, chanceToWork = (if rel < 0 then 0 else if rel > 1 then 1 else rel), sendBusy = False,
    inHdr = junk\<lparr>plength := 0\<rparr>, inbox = map g [0..<nat MaxPacketSize], sock = [], wire = [], sends = 0\<rparr>"
  have "kinv D k1" unfolding k1_def using k by (intro kinv_set_sem) (auto simp: Semaphore_Semaphore_def split: option.splits)
  then have "kinv D k2" unfolding k2_def using k(3)
    by (intro kinv_set_sem) (auto simp: Semaphore_Semaphore_def k1_def set_sem_def messageAvailable_def messageSent_def split: option.splits)
  moreover have sm: "sems k2 messageAvailable = Some (Semaphore_Semaphore ''message available'' 0)" "net_sems \<subseteq> dom (sems k2)"
    by (auto simp: k2_def k1_def set_sem_def net_sems_def messageAvailable_def messageSent_def)
  ultimately have kk: "kinv net_sems k2" by (simp add: kinv_def)
  let ?s = "set_net n (set_post po (s\<lparr>kern := k2\<rparr>))"
  obtain s2 where s2: "Schedule NetworkReadPoll 0 NetworkTime NetworkRecvInt ?s = Inr s2" "handler_frame ?s s2" "kern s2 = kern ?s"
    using frame_Schedule [of NetworkTime NetworkReadPoll 0 NetworkRecvInt ?s] by (auto simp: NetworkTime_def)
  have "wf_sim ?s" using wf by (simp add: wf_sim_def set_net_def set_post_def)
  then have "wf_sim s2" using frame_wf [OF s2(2)] by blast
  moreover have "post_ok nBoxes False (kern s2)"
    using kk sm(1) unfolding s2(3) by (simp add: post_ok_def set_net_def set_post_def boxes_ok_def net_ok_def n_def po_def net_sizes Semaphore_Semaphore_def)
  moreover have "\<forall>i < nBoxes. mail_for i (kern s2) = []"
    unfolding s2(3) by (simp add: mail_for_def set_net_def set_post_def buffered_def for_box_def n_def po_def)
  ultimately have "post_start nBoxes s2" by (simp add: post_start_def)
  moreover have "Network_Network junk g addr rel (set_post po (s\<lparr>kern := k2\<rparr>)) = Inr s2"
    using s2(1) by (simp add: Network_Network_def n_def)
  ultimately show ?thesis unfolding PostOffice_PostOffice_def Let_def k1_def [symmetric] k2_def [symmetric] po_def [symmetric] by auto
qed

section \<open>Properties\<close>


text \<open>A machine with number 1 and two mailboxes, which posts the bytes 7 and 8 from its box 0 to its own box 1.\<close>

definition demo_net :: nsim where
  "demo_net = (Interrupt_Interrupt None \<lparr>threads = [0 \<mapsto> main_thread (replicate 40 0)], currentThread = 0, toBeDestroyed = None, readyList = [],
     sems = [messageAvailable \<mapsto> Semaphore_Semaphore ''message available'' 0, messageSent \<mapsto> Semaphore_Semaphore ''message sent'' 0],
     network = \<lparr>ident = 1, chanceToWork = 1, sendBusy = False, inHdr = \<lparr>pto = 0, pfrom = 0, plength = 0\<rparr>, inbox = replicate 52 0, sock = [], wire = [], sends = 0\<rparr>,
     post = \<lparr>netAddr = 1, boxes = [[], []], numBoxes = 2\<rparr>\<rparr>)"

definition demo_mail :: MailHeader where
  "demo_mail = \<lparr>mto = 1, mfrom = 0, mlength = 2\<rparr>"

lemma demo_posted:
  "\<exists>bs. posted 1 2 (\<lparr>pto = 1, pfrom = 1, plength = 14\<rparr>, demo_mail, [7, 8]) bs"
proof -
  let ?p = "\<lparr>pto = 1, pfrom = 0, plength = 0\<rparr> :: PacketHeader"
  obtain s1 where s1: "Schedule NetworkSendDone 0 NetworkTime NetworkSendInt demo_net = Inr s1" "kern s1 = kern demo_net"
    using frame_Schedule [of NetworkTime NetworkSendDone 0 NetworkSendInt demo_net] by (auto simp: NetworkTime_def)
  have k: "network (kern demo_net) = \<lparr>ident = 1, chanceToWork = 1, sendBusy = False, inHdr = \<lparr>pto = 0, pfrom = 0, plength = 0\<rparr>, inbox = replicate 52 0, sock = [], wire = [], sends = 0\<rparr>"
    "post (kern demo_net) = \<lparr>netAddr = 1, boxes = [[], []], numBoxes = 2\<rparr>" by (simp_all add: demo_net_def Interrupt_Interrupt_def)
  have "\<exists>a' bs. post_send (\<lambda>_. 0) (\<lambda>_. 0) ?p demo_mail [7, 8] demo_net = Inr a' \<and> wire (network (kern a')) = [(1, bs)]"
    using s1 by (simp add: post_send_def Network_Send_def Let_def k demo_mail_def net_sizes bcopy_ok overlay_def Lock_Acquire_def set_net_def)
  then obtain a' bs where "post_send (\<lambda>_. 0) (\<lambda>_. 0) ?p demo_mail [7, 8] demo_net = Inr a'" "wire (network (kern a')) = wire (network (kern demo_net)) @ [(1, bs)]"
    by (auto simp: k)
  then have "posted 1 2 (\<lparr>pto = 1, pfrom = 1, plength = 14\<rparr>, demo_mail, [7, 8]) bs" unfolding posted_def
    by (intro exI [of _ "\<lambda>_. 0"] exI [of _ ?p] exI [of _ demo_mail] exI [of _ "[7, 8]"] exI [of _ demo_net] exI [of _ a'])
      (simp_all add: k demo_mail_def in_int_def)
  then show ?thesis by blast
qed

lemma demo_net_start: "post_start 2 demo_net"
proof -
  have "kinv net_sems (kern demo_net)"
    by (rule boot_kinv [of "replicate 40 0"]) (auto simp: demo_net_def Interrupt_Interrupt_def NumTotalRegs_def net_sems_def sems_ok_def Semaphore_Semaphore_def
        messageAvailable_def messageSent_def split: if_splits)
  moreover have "mail_for i (kern demo_net) = []" if "i < 2" for i
    using that by (auto simp: mail_for_def for_box_def buffered_def demo_net_def Interrupt_Interrupt_def less_2_cases_iff)
  ultimately show ?thesis
    by (simp add: post_start_def post_ok_def boxes_ok_def net_ok_def wf_sim_def demo_net_def Interrupt_Interrupt_def Semaphore_Semaphore_def
        Statistics_Statistics_def messageAvailable_def messageSent_def)
qed


end
