(* ===== verification/UserPrograms.thy ===== *)
theory UserPrograms
  imports UserIO "HOL-Library.Multiset"
begin

text \<open>
  The sorting functions of the user programs \<^verbatim>\<open>test/quicksort.c\<close> and \<^verbatim>\<open>test/mergesort.c\<close>. \<^verbatim>\<open>quicksort\<close> sorts integers in place with a stack of its own;
  \<^verbatim>\<open>mergeSort\<close> sorts an array of addresses of floating point numbers that the kernel keeps, and compares them with the system call
  \<^verbatim>\<open>CompareFloat\<close>. An array is the list of its elements, and every access is checked.
\<close>

section \<open>Quicksort\<close>

definition MAX_ELEMS :: int where "MAX_ELEMS = 99"

text \<open>\<^verbatim>\<open>while (arr[R] >= piv && L < R) R--;\<close> and \<^verbatim>\<open>while (arr[L] <= piv && L < R) L++;\<close>\<close>

function scan_right :: "int list \<Rightarrow> int \<Rightarrow> int \<Rightarrow> int \<Rightarrow> int result" where
  "scan_right arr piv L R = bindR (rd arr R) (\<lambda>v. if v \<ge> piv \<and> L < R then scan_right arr piv L (R - 1) else Inr R)"
  by pat_completeness auto
termination by (relation "measure (\<lambda>(arr, piv, L, R). nat (R - L))") auto

function scan_left :: "int list \<Rightarrow> int \<Rightarrow> int \<Rightarrow> int \<Rightarrow> int result" where
  "scan_left arr piv L R = bindR (rd arr L) (\<lambda>v. if v \<le> piv \<and> L < R then scan_left arr piv (L + 1) R else Inr L)"
  by pat_completeness auto
termination by (relation "measure (\<lambda>(arr, piv, L, R). nat (R - L))") auto

declare scan_right.simps [simp del] scan_left.simps [simp del]

lemma scan_right_le: "scan_right arr piv L R = Inr r \<Longrightarrow> r \<le> R"
proof (induction arr piv L R rule: scan_right.induct)
  case (1 arr piv L R)
  from 1(2) show ?case
    by (subst (asm) scan_right.simps) (auto simp: bindR_eq_Inr split: if_splits dest!: 1(1))
qed

lemma scan_left_ge: "scan_left arr piv L R = Inr l \<Longrightarrow> L \<le> l"
proof (induction arr piv L R rule: scan_left.induct)
  case (1 arr piv L R)
  from 1(2) show ?case
    by (subst (asm) scan_left.simps) (auto simp: bindR_eq_Inr split: if_splits dest!: 1(1))
qed

text \<open>The loop of the partition; the result is the array and the final \<^verbatim>\<open>L\<close>.\<close>

function part_loop :: "int list \<Rightarrow> int \<Rightarrow> int \<Rightarrow> int \<Rightarrow> (int list \<times> int) result" where
  "part_loop arr piv L R =
     (if L < R then
        bindR (scan_right arr piv L R) (\<lambda>R1.
        bindR (if L < R1 then bindR (rd arr R1) (\<lambda>v. bindR (wr arr L v) (\<lambda>a. Inr (a, L + 1))) else Inr (arr, L)) (\<lambda>p1.
        bindR (scan_left (fst p1) piv (snd p1) R1) (\<lambda>L2.
        bindR (if L2 < R1 then bindR (rd (fst p1) L2) (\<lambda>v. bindR (wr (fst p1) R1 v) (\<lambda>a. Inr (a, R1 - 1))) else Inr (fst p1, R1)) (\<lambda>p2.
        part_loop (fst p2) piv L2 (snd p2)))))
      else Inr (arr, L))"
  by pat_completeness auto
termination
  by (relation "measure (\<lambda>(arr, piv, L, R). nat (R - L))")
    (auto simp: bindR_eq_Inr split: if_splits dest!: scan_right_le scan_left_ge)

declare part_loop.simps [simp del]

text \<open>
  A round of the main loop; \<open>beg\<close> and \<open>en\<close> are the stack of segments, and \<open>i\<close> its top. The result is the new state, or \<open>None\<close> where the
  function returns \<open>-1\<close>.
\<close>

definition quick_round :: "int list \<Rightarrow> int list \<Rightarrow> int list \<Rightarrow> int \<Rightarrow> (int list \<times> int list \<times> int list \<times> int) option result" where
  "quick_round arr beg en i = bindR (rd beg i) (\<lambda>L. bindR (rd en i) (\<lambda>e.
     if L < e - 1 then
       bindR (rd arr L) (\<lambda>piv.
       if i = MAX_ELEMS - 1 then Inr None
       else bindR (part_loop arr piv L (e - 1)) (\<lambda>(a, p).
         bindR (wr a p piv) (\<lambda>a1.
         bindR (wr beg (i + 1) (p + 1)) (\<lambda>b1.
         bindR (wr en (i + 1) e) (\<lambda>e1.
         bindR (wr e1 i p) (\<lambda>e2. Inr (Some (a1, b1, e2, i + 1))))))))
     else Inr (Some (arr, beg, en, i - 1))))"

text \<open>The main loop; \<open>None\<close> is a run that does not end. The result is the array, the value returned and \<^verbatim>\<open>totalShifting\<close>.\<close>

partial_function (option) quick_loop :: "int list \<Rightarrow> int list \<Rightarrow> int list \<Rightarrow> int \<Rightarrow> int \<Rightarrow> (int list \<times> int \<times> int) result option" where
  "quick_loop arr beg en i totalShifting =
     (if i \<ge> 0 then
        (case quick_round arr beg en i of
           Inl e \<Rightarrow> Some (Inl e)
         | Inr None \<Rightarrow> Some (Inr (arr, -1, totalShifting + 1))
         | Inr (Some (a, b, e, j)) \<Rightarrow> quick_loop a b e j (totalShifting + 1))
      else Some (Inr (arr, 0, totalShifting)))"

text \<open>\<open>beg\<close> and \<open>en\<close> are uninitialised arrays.\<close>

definition quicksort :: "int list \<Rightarrow> int list \<Rightarrow> int list \<Rightarrow> int \<Rightarrow> (int list \<times> int \<times> int) result option" where
  "quicksort beg en arr n = (case bindR (wr beg 0 0) (\<lambda>b. bindR (wr en 0 n) (\<lambda>e. Inr (b, e))) of
     Inl f \<Rightarrow> Some (Inl f)
   | Inr (b, e) \<Rightarrow> quick_loop arr b e 0 0)"

section \<open>Partition\<close>

lemma scan_right_ok:
  "L \<le> R \<Longrightarrow> R < length arr \<Longrightarrow> \<exists>r. scan_right arr piv (int L) (int R) = Inr (int r) \<and> L \<le> r \<and> r \<le> R \<and>
    (\<forall>k. r < k \<and> k \<le> R \<longrightarrow> arr ! k \<ge> piv) \<and> (L < r \<longrightarrow> arr ! r < piv)"
proof (induction R)
  case 0
  then show ?case by (subst scan_right.simps) (auto simp: rd_def)
next
  case (Suc R)
  show ?case
  proof (cases "arr ! Suc R \<ge> piv \<and> L < Suc R")
    case True
    then obtain r where r: "scan_right arr piv (int L) (int R) = Inr (int r)" "L \<le> r" "r \<le> R" "\<forall>k. r < k \<and> k \<le> R \<longrightarrow> arr ! k \<ge> piv"
      "L < r \<longrightarrow> arr ! r < piv" using Suc by auto
    have e: "int (Suc R) - 1 = int R" by simp
    have "scan_right arr piv (int L) (int (Suc R)) = Inr (int r)"
      using True Suc.prems(2) r(1) by (subst scan_right.simps) (simp only: e rd_int bindR.simps, simp)
    then show ?thesis using r True by (intro exI [of _ r]) (auto simp: le_Suc_eq)
  next
    case False
    then have "scan_right arr piv (int L) (int (Suc R)) = Inr (int (Suc R))"
      using Suc.prems(2) by (subst scan_right.simps) (simp only: rd_int bindR.simps, auto)
    then show ?thesis using False Suc.prems(1) by (intro exI [of _ "Suc R"]) auto
  qed
qed

lemma scan_left_ok:
  "L \<le> R \<Longrightarrow> R < length arr \<Longrightarrow> \<exists>l. scan_left arr piv (int L) (int R) = Inr (int l) \<and> L \<le> l \<and> l \<le> R \<and>
    (\<forall>k. L \<le> k \<and> k < l \<longrightarrow> arr ! k \<le> piv) \<and> (l < R \<longrightarrow> arr ! l > piv)"
proof (induction "R - L" arbitrary: L)
  case 0
  then show ?case by (subst scan_left.simps) auto
next
  case (Suc d)
  then have L: "L < R" by simp
  show ?case
  proof (cases "arr ! L \<le> piv")
    case True
    have "d = R - Suc L" "Suc L \<le> R" using Suc.hyps(2) L by simp_all
    from Suc.hyps(1) [OF this Suc.prems(2)] obtain l where l: "scan_left arr piv (int (Suc L)) (int R) = Inr (int l)" "Suc L \<le> l" "l \<le> R"
      "\<forall>k. Suc L \<le> k \<and> k < l \<longrightarrow> arr ! k \<le> piv" "l < R \<longrightarrow> arr ! l > piv" by blast
    have e: "int L + 1 = int (Suc L)" by simp
    have "scan_left arr piv (int L) (int R) = Inr (int l)"
      using True L Suc.prems(2) l(1) by (subst scan_left.simps) (simp only: e rd_int less_trans bindR.simps, simp)
    moreover have "arr ! k \<le> piv" if "L \<le> k" "k < l" for k using that True l(4) by (cases "k = L") auto
    ultimately show ?thesis using l by (intro exI [of _ l]) auto
  next
    case False
    then have "scan_left arr piv (int L) (int R) = Inr (int L)"
      using L Suc.prems(2) by (subst scan_left.simps) simp
    then show ?thesis using False L by (intro exI [of _ L]) auto
  qed
qed

lemma hole_move: "i < length xs \<Longrightarrow> j < length xs \<Longrightarrow> i \<noteq> j \<Longrightarrow> mset (xs[i := xs ! j, j := v]) = mset (xs[i := v])"
  using mset_swap [of i "xs[i := v]" j] by (simp add: list_update_swap [of i j])

text \<open>
  The element at \<open>L\<close> has been saved in \<open>piv\<close>: the array has a hole, which moves to its final place. In \<open>a\<close>, the part of the segment from \<open>L\<close> to
  \<open>R\<close> that lies before \<open>l\<close> or behind \<open>r\<close> is on the right side.
\<close>

definition parted :: "int \<Rightarrow> int list \<Rightarrow> nat \<Rightarrow> nat \<Rightarrow> int list \<Rightarrow> nat \<Rightarrow> nat \<Rightarrow> bool" where
  "parted piv arr L R a l r \<longleftrightarrow> L \<le> l \<and> l \<le> r \<and> r \<le> R \<and> length a = length arr \<and>
     (\<forall>k. L \<le> k \<and> k < l \<longrightarrow> a ! k \<le> piv) \<and> (\<forall>k. r < k \<and> k \<le> R \<longrightarrow> a ! k \<ge> piv) \<and>
     (\<forall>k < length arr. k < L \<or> R < k \<longrightarrow> a ! k = arr ! k)"

lemma parted_trans:
  assumes "parted piv arr L R c l r" "parted piv c l r a p q" "R < length arr"
  shows "parted piv arr L R a p q"
proof -
  have c: "L \<le> l" "l \<le> r" "r \<le> R" "length c = length arr" "\<forall>k. L \<le> k \<and> k < l \<longrightarrow> c ! k \<le> piv" "\<forall>k. r < k \<and> k \<le> R \<longrightarrow> c ! k \<ge> piv"
    "\<forall>k < length arr. k < L \<or> R < k \<longrightarrow> c ! k = arr ! k" using assms(1) by (auto simp: parted_def)
  have a: "l \<le> p" "p \<le> q" "q \<le> r" "length a = length c" "\<forall>k. l \<le> k \<and> k < p \<longrightarrow> a ! k \<le> piv" "\<forall>k. q < k \<and> k \<le> r \<longrightarrow> a ! k \<ge> piv"
    "\<forall>k < length c. k < l \<or> r < k \<longrightarrow> a ! k = c ! k" using assms(2) by (auto simp: parted_def)
  have "a ! k \<le> piv" if "L \<le> k" "k < p" for k using that a(3,5,7) c(3,4,5) a(2) assms(3) by (cases "k < l") auto
  moreover have "a ! k \<ge> piv" if "q < k" "k \<le> R" for k using that a(6,7) c(4,6) assms(3) by (cases "k \<le> r") auto
  ultimately show ?thesis using a c by (auto simp: parted_def)
qed

text \<open>A round of the loop moves the hole to the right end and back, unless the two ends meet.\<close>

lemma part_right:
  assumes "L < R" "R < length arr" "scan_right arr piv (int L) (int R) = Inr (int r)" "L \<le> r" "r \<le> R"
    "\<forall>k. r < k \<and> k \<le> R \<longrightarrow> arr ! k \<ge> piv" "L < r \<longrightarrow> arr ! r < piv"
  shows "L < r \<Longrightarrow> parted piv arr L R (arr[L := arr ! r]) (Suc L) r \<and> mset ((arr[L := arr ! r])[r := piv]) = mset (arr[L := piv])"
    "L = r \<Longrightarrow> part_loop arr piv (int L) (int R) = Inr (arr, int L) \<and> parted piv arr L R arr L L"
proof -
  show "parted piv arr L R (arr[L := arr ! r]) (Suc L) r \<and> mset ((arr[L := arr ! r])[r := piv]) = mset (arr[L := piv])" if "L < r"
  proof
    show "mset ((arr[L := arr ! r])[r := piv]) = mset (arr[L := piv])" by (rule hole_move) (use that assms(2,5) in simp_all)
    show "parted piv arr L R (arr[L := arr ! r]) (Suc L) r" using that assms by (auto simp: parted_def less_Suc_eq nth_list_update)
  qed
  assume "L = r"
  then have "scan_left arr piv (int L) (int L) = Inr (int L)" using assms(1,2) by (subst scan_left.simps) simp
  then have "part_loop arr piv (int L) (int R) = part_loop arr piv (int L) (int L)" using assms(1,3) \<open>L = r\<close> by (subst part_loop.simps) simp
  also have "\<dots> = Inr (arr, int L)" by (subst part_loop.simps) simp
  finally show "part_loop arr piv (int L) (int R) = Inr (arr, int L) \<and> parted piv arr L R arr L L" using assms \<open>L = r\<close> by (auto simp: parted_def)
qed

lemma part_left:
  assumes "l < r" "r < length b" "b ! l > piv"
  shows "parted piv b l r (b[r := b ! l]) l (r - 1)" "mset ((b[r := b ! l])[l := piv]) = mset (b[r := piv])"
proof -
  show "mset ((b[r := b ! l])[l := piv]) = mset (b[r := piv])" by (rule hole_move) (use assms in simp_all)
  show "parted piv b l r (b[r := b ! l]) l (r - 1)" using assms by (auto simp: parted_def nth_list_update)
qed

lemma part_loop_ok:
  "L \<le> R \<Longrightarrow> R < length arr \<Longrightarrow> \<exists>a p. part_loop arr piv (int L) (int R) = Inr (a, int p) \<and> parted piv arr L R a p p \<and> mset (a[p := piv]) = mset (arr[L := piv])"
proof (induction "R - L" arbitrary: L R arr rule: less_induct)
  case less
  show ?case
  proof (cases "L = R")
    case True
    then show ?thesis by (subst part_loop.simps) (auto simp: parted_def)
  next
    case False
    then have LR: "L < R" using less.prems(1) by simp
    obtain r where r: "scan_right arr piv (int L) (int R) = Inr (int r)" "L \<le> r" "r \<le> R" "\<forall>k. r < k \<and> k \<le> R \<longrightarrow> arr ! k \<ge> piv" "L < r \<longrightarrow> arr ! r < piv"
      using scan_right_ok [OF less.prems] by blast
    note right = part_right [OF LR less.prems(2) r]
    show ?thesis
    proof (cases "L = r")
      case True
      then show ?thesis using right(2) by auto
    next
      case False
      then have Lr: "L < r" using r(2) by simp
      define b where "b = arr[L := arr ! r]"
      have b: "parted piv arr L R b (Suc L) r" "mset (b[r := piv]) = mset (arr[L := piv])" "length b = length arr" using right(1) [OF Lr] by (simp_all add: b_def)
      have rl: "r < length b" "L < length arr" using r(3) less.prems(2) LR by (simp_all add: b_def)
      obtain l where l: "scan_left b piv (int (Suc L)) (int r) = Inr (int l)" "Suc L \<le> l" "l \<le> r" "\<forall>k. Suc L \<le> k \<and> k < l \<longrightarrow> b ! k \<le> piv" "l < r \<longrightarrow> b ! l > piv"
        using scan_left_ok [of "Suc L" r b piv] Lr rl(1) by auto
      have "parted piv b (Suc L) r b l r" using l(2-4) by (simp add: parted_def)
      then have pb: "parted piv arr L R b l r" using parted_trans [OF b(1) _ less.prems(2)] by blast
      have e: "int L + 1 = int (Suc L)" by simp
      show ?thesis
      proof (cases "l < r")
        case True
        define c where "c = b[r := b ! l]"
        have c: "parted piv b l r c l (r - 1)" "mset (c[l := piv]) = mset (arr[L := piv])" using part_left [OF True rl(1)] l(5) True b(2) by (simp_all add: c_def)
        have d: "r - 1 - l < R - L" "l \<le> r - 1" "r - 1 < length c" using True l(2) r(3) Lr rl(1) by (simp_all add: c_def)
        from less.hyps [OF d] obtain a p where p: "part_loop c piv (int l) (int (r - 1)) = Inr (a, int p)" "parted piv c l (r - 1) a p p"
          "mset (a[p := piv]) = mset (c[l := piv])" by blast
        have r1: "int r - 1 = int (r - 1)" using Lr by simp
        have "part_loop arr piv (int L) (int R) = part_loop c piv (int l) (int (r - 1))"
          using LR Lr r(1) rl l(1) True b(3) by (subst part_loop.simps) (simp add: b_def [symmetric] c_def [symmetric] e r1 del: of_nat_Suc)
        moreover have "parted piv b l r a p p" using parted_trans [OF c(1) p(2) rl(1)] .
        then have "parted piv arr L R a p p" using parted_trans [OF pb _ less.prems(2)] by blast
        ultimately show ?thesis using p(1,3) c(2) by auto
      next
        case False
        then have lr: "l = r" using l(3) by simp
        have "part_loop arr piv (int L) (int R) = part_loop b piv (int r) (int r)"
          using LR Lr r(1) rl l(1) lr b(3) by (subst part_loop.simps) (simp add: b_def [symmetric] e del: of_nat_Suc)
        also have "\<dots> = Inr (b, int r)" by (subst part_loop.simps) simp
        finally show ?thesis using pb b(2) lr by auto
      qed
    qed
  qed
qed

section \<open>The stack of segments\<close>

text \<open>
  The segments on the stack lie from left to right, each one place behind the one below it; the element in that place is a pivot. Everything from the end
  of the top segment on is in its final place.
\<close>

definition segs_ok :: "nat \<Rightarrow> int list \<Rightarrow> int list \<Rightarrow> nat \<Rightarrow> bool" where
  "segs_ok n beg en m \<longleftrightarrow> length beg = 99 \<and> length en = 99 \<and> m < 99 \<and> beg ! 0 = 0 \<and> en ! m \<le> int n \<and>
     (\<forall>j \<le> m. int j \<le> beg ! j \<and> beg ! j \<le> en ! j) \<and> (\<forall>j < m. beg ! Suc j = en ! j + 1 \<and> en ! j < int n)"

definition pivot :: "nat \<Rightarrow> int list \<Rightarrow> nat \<Rightarrow> bool" where
  "pivot n arr p \<longleftrightarrow> (\<forall>a < n. (a < p \<longrightarrow> arr ! a \<le> arr ! p) \<and> (p < a \<longrightarrow> arr ! p \<le> arr ! a))"

definition quick_inv :: "nat \<Rightarrow> int multiset \<Rightarrow> int list \<Rightarrow> int list \<Rightarrow> int list \<Rightarrow> nat \<Rightarrow> bool" where
  "quick_inv n M arr beg en m \<longleftrightarrow> segs_ok n beg en m \<and> n \<le> length arr \<and> mset (take n arr) = M \<and>
     (\<forall>j < m. pivot n arr (nat (en ! j))) \<and> (\<forall>a b. a < b \<longrightarrow> b < n \<longrightarrow> en ! m \<le> int b \<longrightarrow> arr ! a \<le> arr ! b)"

definition work :: "int list \<Rightarrow> int list \<Rightarrow> nat \<Rightarrow> nat" where
  "work beg en m = (\<Sum>j \<le> m. 2 * nat (en ! j - beg ! j) + 1)"

lemma work_pop: "work beg en (Suc m) = work beg en m + 2 * nat (en ! Suc m - beg ! Suc m) + 1"
  by (simp add: work_def)

lemma work_upd: "(\<forall>j < m. beg' ! j = beg ! j \<and> en' ! j = en ! j) \<Longrightarrow> (\<Sum>j < m. 2 * nat (en' ! j - beg' ! j) + 1) = (\<Sum>j < m. 2 * nat (en ! j - beg ! j) + 1)"
  by (intro sum.cong) auto

lemma work_split: "work beg en m = (\<Sum>j < m. 2 * nat (en ! j - beg ! j) + 1) + (2 * nat (en ! m - beg ! m) + 1)"
  by (simp add: work_def lessThan_Suc_atMost [symmetric])

text \<open>A segment of at most one element is taken off.\<close>

lemma pop_inv:
  assumes inv: "quick_inv n M arr beg en (Suc m)" and small: "\<not> beg ! Suc m < en ! Suc m - 1"
  shows "quick_inv n M arr beg en m"
proof -
  have s: "segs_ok n beg en (Suc m)" and p: "\<forall>j < Suc m. pivot n arr (nat (en ! j))"
    and f: "\<forall>a b. a < b \<longrightarrow> b < n \<longrightarrow> en ! Suc m \<le> int b \<longrightarrow> arr ! a \<le> arr ! b" using inv by (auto simp: quick_inv_def)
  have b: "beg ! Suc m = en ! m + 1" "en ! m < int n" "0 \<le> en ! m" using s by (auto simp: segs_ok_def)
  have pm: "pivot n arr (nat (en ! m))" using p by simp
  have "arr ! a \<le> arr ! c" if "a < c" "c < n" "en ! m \<le> int c" for a c
  proof (cases "en ! Suc m \<le> int c")
    case True
    then show ?thesis using f that by blast
  next
    case False
    then have c: "int c = en ! m \<or> int c = en ! m + 1" using small b(1) that(3) by linarith
    then show ?thesis
    proof
      assume "int c = en ! m"
      then have "c = nat (en ! m)" by linarith
      then show ?thesis using pm that by (simp add: pivot_def)
    next
      assume c: "int c = en ! m + 1"
      have "arr ! nat (en ! m) \<le> arr ! c" using pm c b that(2) by (auto simp: pivot_def)
      moreover have "a \<le> nat (en ! m)" using c that(1) b(3) by linarith
      then have "arr ! a \<le> arr ! nat (en ! m)" using pm that by (cases "a = nat (en ! m)") (auto simp: pivot_def)
      ultimately show ?thesis by simp
    qed
  qed
  moreover have "segs_ok n beg en m" using s b(2) by (auto simp: segs_ok_def)
  ultimately show ?thesis using inv p by (auto simp: quick_inv_def)
qed

lemma pop_last:
  assumes inv: "quick_inv n M arr beg en 0" and small: "\<not> beg ! 0 < en ! 0 - 1"
  shows "sorted (take n arr)"
proof -
  have e: "en ! 0 \<le> 1" "n \<le> length arr" using inv small by (auto simp: quick_inv_def segs_ok_def)
  have "arr ! a \<le> arr ! b" if "a < b" "b < n" for a b using inv that e by (auto simp: quick_inv_def)
  then show ?thesis unfolding sorted_iff_nth_mono_less using e(2) by auto
qed

text \<open>A permutation that moves nothing outside a segment permutes the segment.\<close>

lemma perm_segment:
  assumes "mset ys = mset xs" "length ys = length xs" "L \<le> e" "e \<le> length xs" "\<forall>k < length xs. k < L \<or> e \<le> k \<longrightarrow> ys ! k = xs ! k"
  shows "L \<le> k \<Longrightarrow> k < e \<Longrightarrow> \<exists>k'. L \<le> k' \<and> k' < e \<and> ys ! k = xs ! k'" "e \<le> n \<Longrightarrow> mset (take n ys) = mset (take n xs)"
proof -
  have t: "take L ys = take L xs" "drop e ys = drop e xs" using assms(2-5) by (auto simp: list_eq_iff_nth_eq)
  have sp: "zs = take L zs @ take (e - L) (drop L zs) @ drop e zs" for zs :: "'a list"
    using assms(3) by (metis append_assoc append_take_drop_id drop_drop le_add_diff_inverse2 take_add le_add_diff_inverse)
  have "mset ys = mset (take L ys) + mset (take (e - L) (drop L ys)) + mset (drop e ys)" by (subst sp [of ys]) simp
  moreover have "mset xs = mset (take L xs) + mset (take (e - L) (drop L xs)) + mset (drop e xs)" by (subst sp [of xs]) simp
  ultimately have "mset (take (e - L) (drop L ys)) = mset (take (e - L) (drop L xs))" using assms(1) t by simp
  then have st: "set (take (e - L) (drop L ys)) = set (take (e - L) (drop L xs))" by (rule mset_eq_setD)
  show "\<exists>k'. L \<le> k' \<and> k' < e \<and> ys ! k = xs ! k'" if k: "L \<le> k" "k < e"
  proof -
    have "ys ! k = take (e - L) (drop L ys) ! (k - L)" "k - L < length (take (e - L) (drop L ys))" using k assms(2-4) by simp_all
    then have "ys ! k \<in> set (take (e - L) (drop L xs))" unfolding st [symmetric] by (metis nth_mem)
    then obtain i where "i < e - L" "ys ! k = xs ! (L + i)" using assms(4) by (auto simp: in_set_conv_nth)
    then show ?thesis by (intro exI [of _ "L + i"]) auto
  qed
  assume "e \<le> n"
  then have "drop n ys = drop n xs" using t(2) by (metis drop_drop le_add_diff_inverse2)
  moreover have "mset ys = mset (take n ys) + mset (drop n ys)" "mset xs = mset (take n xs) + mset (drop n xs)" by (simp_all flip: mset_append)
  ultimately show "mset (take n ys) = mset (take n xs)" using assms(1) by simp
qed

definition seg_perm :: "nat \<Rightarrow> nat \<Rightarrow> nat \<Rightarrow> int list \<Rightarrow> int list \<Rightarrow> bool" where
  "seg_perm n L e xs ys \<longleftrightarrow> (\<forall>k. L \<le> k \<longrightarrow> k < e \<longrightarrow> (\<exists>k'. L \<le> k' \<and> k' < e \<and> ys ! k = xs ! k')) \<and> (\<forall>k < n. k < L \<or> e \<le> k \<longrightarrow> ys ! k = xs ! k)"

lemma pivot_perm:
  assumes p: "seg_perm n L e xs ys" "pivot n xs q" "q < L" "L \<le> e" "e \<le> n"
  shows "pivot n ys q"
proof -
  have "(x < q \<longrightarrow> ys ! x \<le> ys ! q) \<and> (q < x \<longrightarrow> ys ! q \<le> ys ! x)" if x: "x < n" for x
  proof (cases "L \<le> x \<and> x < e")
    case True
    then obtain k where "L \<le> k" "k < e" "ys ! x = xs ! k" using p(1) unfolding seg_perm_def by blast
    moreover have "ys ! q = xs ! q" using p by (simp add: seg_perm_def)
    ultimately show ?thesis using p(2,3,5) True by (auto simp: pivot_def)
  next
    case False
    then have "ys ! x = xs ! x" "ys ! q = xs ! q" using p x by (auto simp: seg_perm_def)
    then show ?thesis using p(2) x by (simp add: pivot_def)
  qed
  then show ?thesis by (simp add: pivot_def)
qed

lemma final_perm:
  assumes p: "seg_perm n L e xs ys" "\<forall>x y. x < y \<longrightarrow> y < n \<longrightarrow> e \<le> y \<longrightarrow> xs ! x \<le> xs ! y" and xy: "x < y" "y < n" "e \<le> y"
  shows "ys ! x \<le> ys ! y"
proof (cases "L \<le> x \<and> x < e")
  case True
  then obtain k where "k < e" "ys ! x = xs ! k" using p(1) unfolding seg_perm_def by blast
  moreover have "ys ! y = xs ! y" using p(1) xy by (simp add: seg_perm_def)
  ultimately show ?thesis using p(2) xy by auto
next
  case False
  then have "ys ! x = xs ! x" "ys ! y = xs ! y" using p(1) xy by (auto simp: seg_perm_def)
  then show ?thesis using p(2) xy by simp
qed

lemma segs_order:
  assumes s: "segs_ok n beg en m" and j: "j < m"
  shows "en ! j < beg ! m"
proof -
  have "en ! j < beg ! Suc i" if "j \<le> i" "i < m" for i using that
  proof (induction i rule: dec_induct)
    case base
    then show ?case using s j by (simp add: segs_ok_def)
  next
    case (step i)
    then have "Suc i \<le> m" by simp
    then have "beg ! Suc i \<le> en ! Suc i" using s unfolding segs_ok_def by blast
    moreover have "beg ! Suc (Suc i) = en ! Suc i + 1" using s step.prems unfolding segs_ok_def by blast
    ultimately show ?case using step by simp
  qed
  then show ?thesis using j by (cases m) auto
qed

lemma left_of_top:
  assumes inv: "quick_inv n M arr beg en m" and x: "int x < beg ! m" "beg ! m \<le> int k" "k < n"
  shows "arr ! x \<le> arr ! k"
proof (cases m)
  case 0
  then show ?thesis using assms by (simp add: quick_inv_def segs_ok_def)
next
  case (Suc m')
  then have q: "beg ! m = en ! m' + 1" "pivot n arr (nat (en ! m'))" using inv by (auto simp: quick_inv_def segs_ok_def)
  define q where "q = nat (en ! m')"
  have "en ! m' = int q" using q(1) x(1) by (simp add: q_def)
  then have "x \<le> q" "q < k" using x q(1) by linarith+
  then have "arr ! x \<le> arr ! q" "arr ! q \<le> arr ! k" using q(2) x(3) by (cases "x = q"; auto simp: pivot_def q_def [symmetric])+
  then show ?thesis by simp
qed

text \<open>A segment is parted: what holds of the elements around it still holds.\<close>

lemma push_array:
  assumes inv: "quick_inv n M arr beg en m" and L: "beg ! m = int L" "en ! m = int e" "L + 1 < e"
    and pt: "parted (arr ! L) arr L (e - 1) a p p" and ms: "mset (a[p := arr ! L]) = mset (arr[L := arr ! L])"
  defines "b \<equiv> a[p := arr ! L]"
  shows "length b = length arr" "mset (take n b) = M" "\<forall>j < m. pivot n b (nat (en ! j))" "pivot n b p"
    "\<forall>x y. x < y \<longrightarrow> y < n \<longrightarrow> e \<le> y \<longrightarrow> b ! x \<le> b ! y"
proof -
  have s: "segs_ok n beg en m" "n \<le> length arr" "mset (take n arr) = M" "\<forall>j < m. pivot n arr (nat (en ! j))"
    "\<forall>x y. x < y \<longrightarrow> y < n \<longrightarrow> e \<le> y \<longrightarrow> arr ! x \<le> arr ! y" using inv L(2) by (auto simp: quick_inv_def)
  have e: "e \<le> n" using s(1) L(2) by (simp add: segs_ok_def)
  have p: "L \<le> p" "p < e" "length a = length arr" "\<forall>k. L \<le> k \<and> k < p \<longrightarrow> a ! k \<le> arr ! L" "\<forall>k. p < k \<and> k < e \<longrightarrow> a ! k \<ge> arr ! L"
    "\<forall>k < length arr. k < L \<or> e \<le> k \<longrightarrow> a ! k = arr ! k" using pt L(3) by (auto simp: parted_def)
  have pm: "mset b = mset arr" "length b = length arr" "L \<le> e" "e \<le> length arr" "\<forall>k < length arr. k < L \<or> e \<le> k \<longrightarrow> b ! k = arr ! k"
    using ms p L(3) e s(2) by (auto simp: b_def)
  show "length b = length arr" by (fact pm(2))
  have sp: "seg_perm n L e arr b" unfolding seg_perm_def using perm_segment(1) [OF pm] pm(5) s(2) by auto
  show "mset (take n b) = M" using perm_segment(2) [OF pm e] s(3) by simp
  show "\<forall>j < m. pivot n b (nat (en ! j))"
  proof (intro allI impI)
    fix j assume j: "j < m"
    have "int j \<le> beg ! j" "beg ! j \<le> en ! j" using s(1) j by (simp_all add: segs_ok_def)
    then have "nat (en ! j) < L" using segs_order [OF s(1) j] L(1) by linarith
    then show "pivot n b (nat (en ! j))" using pivot_perm [OF sp _ _ pm(3) e] s(4) j by blast
  qed
  have bp: "b ! p = arr ! L" using p(2,3) e s(2) by (simp add: b_def)
  have bk: "b ! k = a ! k" if "k \<noteq> p" for k using that by (simp add: b_def)
  show "pivot n b p" unfolding pivot_def bp
  proof (intro allI impI conjI)
    fix x assume x: "x < n"
    show "b ! x \<le> arr ! L" if "x < p"
      using that p(4) left_of_top [OF inv, of x L] bk [of x] pm(5) x e L s(2) by (cases "x < L") auto
    show "arr ! L \<le> b ! x" if "p < x"
    proof (cases "x < e")
      case True
      then show ?thesis using that p(5) bk [of x] by simp
    next
      case False
      then have "arr ! L \<le> arr ! x" using s(5) x L(3) by simp
      then show ?thesis using False pm(5) x s(2) by simp
    qed
  qed
  show "\<forall>x y. x < y \<longrightarrow> y < n \<longrightarrow> e \<le> y \<longrightarrow> b ! x \<le> b ! y" using final_perm [OF sp s(5)] by blast
qed

lemma push_ok:
  assumes inv: "quick_inv n M arr beg en m" and n: "n \<le> 99" and L: "beg ! m < en ! m - 1"
  shows "\<exists>a b e. quick_round arr beg en (int m) = Inr (Some (a, b, e, int (Suc m))) \<and> quick_inv n M a b e (Suc m) \<and> work b e (Suc m) < work beg en m"
proof -
  have s: "segs_ok n beg en m" "n \<le> length arr" using inv by (auto simp: quick_inv_def)
  define l e where "l = nat (beg ! m)" and "e = nat (en ! m)"
  have m: "int m \<le> beg ! m" "en ! m \<le> int n" "length beg = 99" "length en = 99" using s(1) by (simp_all add: segs_ok_def)
  then have le: "beg ! m = int l" "en ! m = int e" "l + 1 < e" "m \<le> l" "e \<le> n" using L by (auto simp: l_def e_def)
  obtain a p where p: "part_loop arr (arr ! l) (int l) (int (e - 1)) = Inr (a, int p)" "parted (arr ! l) arr l (e - 1) a p p"
    "mset (a[p := arr ! l]) = mset (arr[l := arr ! l])"
  proof -
    have "l \<le> e - 1" "e - 1 < length arr" using le(3,5) s(2) by simp_all
    from part_loop_ok [OF this] show thesis using that by blast
  qed
  note A = push_array [OF inv le(1-3) p(2,3)]
  have pb: "l \<le> p" "p < e" "length a = length arr" using p(2) le(3) by (auto simp: parted_def)
  define b' e' where "b' = beg[Suc m := int p + 1]" and "e' = en[Suc m := int e, m := int p]"
  have i: "int e - 1 = int (e - 1)" "int m + 1 = int (Suc m)" using le(3) by simp_all
  have "quick_round arr beg en (int m) = Inr (Some (a[p := arr ! l], b', e', int (Suc m)))"
    using m le s(2) n p(1) pb unfolding quick_round_def
    by (simp add: MAX_ELEMS_def i b'_def e'_def del: of_nat_Suc)
  moreover have b: "b' ! j = beg ! j" "e' ! j = en ! j" if "j < m" for j using that by (simp_all add: b'_def e'_def)
  moreover have t: "b' ! m = int l" "e' ! m = int p" "b' ! Suc m = int p + 1" "e' ! Suc m = int e" using m le n by (simp_all add: b'_def e'_def)
  have "segs_ok n b' e' (Suc m)"
  proof -
    have "int j \<le> b' ! j \<and> b' ! j \<le> e' ! j" if "j \<le> Suc m" for j
      using that s(1) b [of j] t pb le(4) by (cases "j < m"; cases "j = m") (auto simp: segs_ok_def le_Suc_eq)
    moreover have "b' ! Suc j = e' ! j + 1 \<and> e' ! j < int n" if "j < Suc m" for j
      using that s(1) b [of j] b [of "Suc j"] t pb le by (cases "Suc j < m"; cases "Suc j = m") (auto simp: segs_ok_def less_Suc_eq)
    moreover have "b' ! 0 = 0" using s(1) by (simp add: b'_def segs_ok_def)
    ultimately show ?thesis using m le n t(4) by (simp add: segs_ok_def) (simp add: b'_def e'_def)
  qed
  then have "quick_inv n M (a[p := arr ! l]) b' e' (Suc m)"
    using A s(2) b t unfolding quick_inv_def by (auto simp: less_Suc_eq)
  moreover have "work b' e' (Suc m) < work beg en m"
    using work_upd [of m b' beg e' en] b t le pb by (simp add: work_pop work_split)
  ultimately show ?thesis by blast
qed

text \<open>Every round does some of the work that is left.\<close>

lemma quick_loop_ok:
  "n \<le> 99 \<Longrightarrow> quick_inv n M arr beg en m \<Longrightarrow> \<exists>a t. quick_loop arr beg en (int m) tot = Some (Inr (a, 0, t)) \<and>
     sorted (take n a) \<and> mset (take n a) = M \<and> t \<le> tot + int (work beg en m)"
proof (induction "work beg en m" arbitrary: arr beg en m tot rule: less_induct)
  case less
  have s: "segs_ok n beg en m" using less.prems(2) by (simp add: quick_inv_def)
  show ?case
  proof (cases "beg ! m < en ! m - 1")
    case True
    obtain a b e where r: "quick_round arr beg en (int m) = Inr (Some (a, b, e, int (Suc m)))" "quick_inv n M a b e (Suc m)" "work b e (Suc m) < work beg en m"
      using push_ok [OF less.prems(2,1) True] by blast
    from less.hyps [OF r(3) less.prems(1) r(2), of "tot + 1"] obtain a' t where
      "quick_loop a b e (int (Suc m)) (tot + 1) = Some (Inr (a', 0, t))" "sorted (take n a')" "mset (take n a') = M" "t \<le> tot + 1 + int (work b e (Suc m))" by blast
    then show ?thesis using r(1,3) by (subst quick_loop.simps) (auto simp del: of_nat_Suc)
  next
    case False
    have r: "quick_round arr beg en (int m) = Inr (Some (arr, beg, en, int m - 1))" using s False by (simp add: quick_round_def segs_ok_def)
    show ?thesis
    proof (cases m)
      case 0
      have "quick_loop arr beg en (- 1) (tot + 1) = Some (Inr (arr, 0, tot + 1))" by (subst quick_loop.simps) simp
      then have "quick_loop arr beg en (int m) tot = Some (Inr (arr, 0, tot + 1))" using r 0 by (subst quick_loop.simps) simp
      moreover have "1 \<le> work beg en m" by (simp add: work_split)
      ultimately show ?thesis using pop_last less.prems(2) False 0 by (auto simp: quick_inv_def)
    next
      case (Suc m')
      have w: "work beg en m' < work beg en m" "quick_inv n M arr beg en m'" using pop_inv less.prems(2) False Suc by (auto simp: work_pop)
      from less.hyps [OF w(1) less.prems(1) w(2), of "tot + 1"] obtain a t where
        "quick_loop arr beg en (int m') (tot + 1) = Some (Inr (a, 0, t))" "sorted (take n a)" "mset (take n a) = M" "t \<le> tot + 1 + int (work beg en m')" by blast
      then show ?thesis using r Suc w(1) by (subst quick_loop.simps) auto
    qed
  qed
qed

section \<open>Merge sort\<close>

text \<open>\<^verbatim>\<open>CompareFloat\<close> as the kernel answers it; \<open>F\<close> are the numbers it keeps.\<close>

definition CompareFloat :: "(u32 \<Rightarrow> u32 option) \<Rightarrow> u32 \<Rightarrow> u32 \<Rightarrow> int result" where
  "CompareFloat F p q = (case (F p, F q) of (Some a, Some b) \<Rightarrow> Inr (if f_gt a b then 1 else if f_eq a b then 0 else -1) | _ \<Rightarrow> Inl BadPointer)"

text \<open>\<^verbatim>\<open>while (index != start) { arr[index] = arr[index - 1]; index--; }\<close>\<close>

function shift_loop :: "u32 list \<Rightarrow> int \<Rightarrow> int \<Rightarrow> u32 list result" where
  "shift_loop arr start index =
     (if index = start then Inr arr
      else bindR (rd arr (index - 1)) (\<lambda>v. bindR (wr arr index v) (\<lambda>a. shift_loop a start (index - 1))))"
  by pat_completeness auto
termination by (relation "measure (\<lambda>(arr, start, index). nat index)") (auto simp: rd_def split: if_splits)

function merge_loop :: "(u32 \<Rightarrow> u32 option) \<Rightarrow> u32 list \<Rightarrow> int \<Rightarrow> int \<Rightarrow> int \<Rightarrow> int \<Rightarrow> u32 list result" where
  "merge_loop F arr start mid start2 en =
     (if start \<le> mid \<and> start2 \<le> en then
        bindR (rd arr start) (\<lambda>p. bindR (rd arr start2) (\<lambda>q. bindR (CompareFloat F p q) (\<lambda>c.
        if c \<le> 0 then merge_loop F arr (start + 1) mid start2 en
        else bindR (shift_loop arr start start2) (\<lambda>a. bindR (wr a start q) (\<lambda>a1.
          merge_loop F a1 (start + 1) (mid + 1) (start2 + 1) en)))))
      else Inr arr)"
  by pat_completeness auto
termination
  by (relation "measure (\<lambda>(F, arr, start, mid, start2, en). nat (mid + 1 - start) + nat (en + 1 - start2))") auto

declare shift_loop.simps [simp del] merge_loop.simps [simp del]

definition merge_floats :: "(u32 \<Rightarrow> u32 option) \<Rightarrow> u32 list \<Rightarrow> int \<Rightarrow> int \<Rightarrow> int \<Rightarrow> u32 list result" where
  "merge_floats F arr start mid en = (let start2 = mid + 1 in
     bindR (rd arr mid) (\<lambda>p. bindR (rd arr start2) (\<lambda>q. bindR (CompareFloat F p q) (\<lambda>c.
     if c \<le> 0 then Inr arr else merge_loop F arr start mid start2 en))))"

function mergeSort :: "(u32 \<Rightarrow> u32 option) \<Rightarrow> u32 list \<Rightarrow> int \<Rightarrow> int \<Rightarrow> u32 list result" where
  "mergeSort F arr left right =
     (if left < right then
        bindR (mergeSort F arr left (left + c_div (right - left) 2)) (\<lambda>a1.
        bindR (mergeSort F a1 (left + c_div (right - left) 2 + 1) right) (\<lambda>a2.
        merge_floats F a2 left (left + c_div (right - left) 2) right))
      else Inr arr)"
  by pat_completeness auto
termination by (relation "measure (\<lambda>(F, arr, left, right). nat (right - left))") auto

declare mergeSort.simps [simp del]

text \<open>The system call gives that answer.\<close>

lemma sys_CompareFloat_eq:
  assumes "os_ok s"
  shows "sys_CompareFloat s = bindR (CompareFloat (floats s) (reg (mach s) 4) (reg (mach s) 5)) (\<lambda>v. result2 v s)"
proof -
  have "ReadRegister (mach s) 4 = Inr (reg (mach s) 4)" "ReadRegister (mach s) 5 = Inr (reg (mach s) 5)"
    using ReadRegister_ok [of "mach s" 4] ReadRegister_ok [of "mach s" 5] assms by (simp_all add: os_ok_def)
  then show ?thesis by (simp add: sys_CompareFloat_def CompareFloat_def get_float_def split: option.splits)
qed

text \<open>The stable merge of two sequences.\<close>

fun mrg :: "('a \<Rightarrow> int) \<Rightarrow> 'a list \<Rightarrow> 'a list \<Rightarrow> 'a list" where
  "mrg k [] ys = ys"
| "mrg k (x # xs) [] = x # xs"
| "mrg k (x # xs) (y # ys) = (if k x \<le> k y then x # mrg k xs (y # ys) else y # mrg k (x # xs) ys)"

lemma mset_mrg: "mset (mrg k xs ys) = mset xs + mset ys"
  by (induction k xs ys rule: mrg.induct) auto

lemma set_mrg: "set (mrg k xs ys) = set xs \<union> set ys"
  by (metis mset_mrg set_mset_mset set_mset_union)

lemma sorted_mrg: "sorted (map k xs) \<Longrightarrow> sorted (map k ys) \<Longrightarrow> sorted (map k (mrg k xs ys))"
  by (induction k xs ys rule: mrg.induct) (auto simp: set_mrg)

lemma filter_mrg:
  "sorted (map k xs) \<Longrightarrow> filter (\<lambda>x. c = k x) (mrg k xs ys) = filter (\<lambda>x. c = k x) xs @ filter (\<lambda>x. c = k x) ys"
proof (induction k xs ys rule: mrg.induct)
  case (3 k x xs y ys)
  have "filter (\<lambda>x. k y = k x) (x # xs) = []" if "\<not> k x \<le> k y" using 3(3) that by (fastforce simp: filter_empty_conv)
  then show ?case using 3 by (auto simp: filter_empty_conv)
qed auto

lemma mrg_sort: "mrg k (sort_key k xs) (sort_key k ys) = sort_key k (xs @ ys)"
proof (rule properties_for_sort_key [symmetric])
  show "mset (mrg k (sort_key k xs) (sort_key k ys)) = mset (xs @ ys)" by (simp add: mset_mrg)
  show "sorted (map k (mrg k (sort_key k xs) (sort_key k ys)))" by (simp add: sorted_mrg)
  fix c
  have e: "(\<lambda>x. k c = k x) = (\<lambda>x. k x = k c)" by auto
  show "filter (\<lambda>x. k c = k x) (mrg k (sort_key k xs) (sort_key k ys)) = filter (\<lambda>x. k c = k x) (xs @ ys)"
    by (simp add: filter_mrg) (simp add: e sort_key_stable)
qed

lemma mrg_append: "sorted (map k (xs @ ys)) \<Longrightarrow> mrg k xs ys = xs @ ys"
proof (induction k xs ys rule: mrg.induct)
  case (3 k x xs y ys)
  then show ?case by auto
qed auto

section \<open>The array under merge sort\<close>

definition fkey :: "(u32 \<Rightarrow> u32 option) \<Rightarrow> u32 \<Rightarrow> int" where
  "fkey F p = f_key (the (F p))"

definition number :: "(u32 \<Rightarrow> u32 option) \<Rightarrow> u32 \<Rightarrow> bool" where
  "number F p \<longleftrightarrow> (\<exists>w. F p = Some w \<and> \<not> f_nan w)"

lemma CompareFloat_number:
  "number F p \<Longrightarrow> number F q \<Longrightarrow> \<exists>c. CompareFloat F p q = Inr c \<and> (c \<le> 0) = (fkey F p \<le> fkey F q)"
  by (auto simp: number_def CompareFloat_def fkey_def f_gt_def f_eq_def)

lemma shift_ok:
  "shift_loop (pre @ zs @ y # rest) (int (length pre)) (int (length pre + length zs)) = Inr (pre @ hd (zs @ [y]) # zs @ rest)"
proof (induction zs arbitrary: y rest rule: rev_induct)
  case Nil
  then show ?case by (subst shift_loop.simps) simp
next
  case (snoc z zs)
  let ?arr = "pre @ (zs @ [z]) @ y # rest" and ?i = "length pre + length zs"
  have i: "int (length pre + length (zs @ [z])) - 1 = int ?i" "length pre + length (zs @ [z]) = Suc ?i" by simp_all
  have "rd ?arr (int ?i) = Inr z" by (subst rd_int) (simp_all add: nth_append)
  moreover have "wr ?arr (int (Suc ?i)) z = Inr (pre @ zs @ z # z # rest)" by (subst wr_int) (simp_all add: list_update_append)
  ultimately have "shift_loop ?arr (int (length pre)) (int (Suc ?i)) = shift_loop (pre @ zs @ z # z # rest) (int (length pre)) (int ?i)"
    using i by (subst shift_loop.simps) simp
  then show ?case unfolding i(2) using snoc.IH [of z "z # rest"] by (cases zs) simp_all
qed

lemma merge_loop_ok:
  "\<forall>p \<in> set xs \<union> set ys. number F p \<Longrightarrow>
   merge_loop F (pre @ xs @ ys @ rest) (int (length pre)) (int (length pre + length xs) - 1) (int (length pre + length xs))
     (int (length pre + length xs + length ys) - 1) = Inr (pre @ mrg (fkey F) xs ys @ rest)"
proof (induction "fkey F" xs ys arbitrary: pre rule: mrg.induct)
  case (3 x xs y ys)
  let ?arr = "pre @ (x # xs) @ (y # ys) @ rest" and ?s2 = "length pre + length (x # xs)"
  obtain c where c: "CompareFloat F x y = Inr c" "(c \<le> 0) = (fkey F x \<le> fkey F y)" using CompareFloat_number [of F x y] 3(3) by auto
  have r: "rd ?arr (int (length pre)) = Inr x" "rd ?arr (int ?s2) = Inr y" by (subst rd_int; simp add: nth_append)+
  show ?case
  proof (cases "fkey F x \<le> fkey F y")
    case True
    have "merge_loop F ?arr (int (length pre)) (int ?s2 - 1) (int ?s2) (int (?s2 + length (y # ys)) - 1) =
        merge_loop F ?arr (int (length pre) + 1) (int ?s2 - 1) (int ?s2) (int (?s2 + length (y # ys)) - 1)"
      using r c True by (subst merge_loop.simps) simp
    also have "\<dots> = Inr ((pre @ [x]) @ mrg (fkey F) xs (y # ys) @ rest)"
      using 3(1) [OF True, of "pre @ [x]"] 3(3) by (simp add: algebra_simps)
    finally show ?thesis using True by simp
  next
    case False
    let ?a = "pre @ y # (x # xs) @ ys @ rest"
    have s: "shift_loop ?arr (int (length pre)) (int ?s2) = Inr (pre @ x # (x # xs) @ ys @ rest)" using shift_ok [of pre "x # xs" y "ys @ rest"] by simp
    have w: "wr (pre @ x # (x # xs) @ ys @ rest) (int (length pre)) y = Inr ?a" by (simp add: wr_def list_update_append)
    have "merge_loop F ?arr (int (length pre)) (int ?s2 - 1) (int ?s2) (int (?s2 + length (y # ys)) - 1) =
        merge_loop F ?a (int (length pre) + 1) (int ?s2) (int ?s2 + 1) (int (?s2 + length (y # ys)) - 1)"
      using r c False s w by (subst merge_loop.simps) (simp add: algebra_simps)
    also have "\<dots> = Inr ((pre @ [y]) @ mrg (fkey F) (x # xs) ys @ rest)"
      using 3(2) [OF False, of "pre @ [y]"] 3(3) by (simp add: algebra_simps)
    finally show ?thesis using False by simp
  qed
qed (subst merge_loop.simps, simp)+

lemma merge_floats_ok:
  assumes n: "\<forall>p \<in> set xs \<union> set ys. number F p" and s: "sorted (map (fkey F) xs)" "sorted (map (fkey F) ys)" and ne: "xs \<noteq> []" "ys \<noteq> []"
  shows "merge_floats F (pre @ xs @ ys @ rest) (int (length pre)) (int (length pre + length xs) - 1) (int (length pre + length xs + length ys) - 1) =
    Inr (pre @ mrg (fkey F) xs ys @ rest)"
proof -
  let ?arr = "pre @ xs @ ys @ rest" and ?m = "length pre + length xs"
  obtain c where c: "CompareFloat F (last xs) (hd ys) = Inr c" "(c \<le> 0) = (fkey F (last xs) \<le> fkey F (hd ys))"
    using CompareFloat_number [of F "last xs" "hd ys"] n ne by auto
  have i: "length xs - 1 < length xs" "int ?m - 1 = int (length pre + (length xs - 1))" using ne by (cases xs; simp)+
  then have l: "rd ?arr (int ?m - 1) = Inr (last xs)" unfolding i(2) by (subst rd_int) (auto simp: nth_append last_conv_nth ne intro: less_le_trans)
  have h: "rd ?arr (int ?m) = Inr (hd ys)" using ne by (subst rd_int) (simp_all add: nth_append hd_conv_nth)
  show ?thesis
  proof (cases "fkey F (last xs) \<le> fkey F (hd ys)")
    case True
    have "fkey F x \<le> fkey F y" if "x \<in> set xs" "y \<in> set ys" for x y
    proof -
      have "fkey F x \<le> fkey F (last xs)" using that(1) s(1) by (induction xs) (auto split: if_splits)
      moreover have "fkey F (hd ys) \<le> fkey F y" using that(2) s(2) by (cases ys) auto
      ultimately show ?thesis using True by simp
    qed
    then have "mrg (fkey F) xs ys = xs @ ys" using s by (auto intro: mrg_append simp: sorted_append)
    then show ?thesis using l h c True unfolding merge_floats_def by (simp del: of_nat_add)
  next
    case False
    then show ?thesis using l h c merge_loop_ok [OF n, of pre rest] unfolding merge_floats_def by (simp add: Let_def del: of_nat_add)
  qed
qed

lemma mergeSort_ok:
  "\<forall>p \<in> set zs. number F p \<Longrightarrow>
   mergeSort F (pre @ zs @ rest) (int (length pre)) (int (length pre + length zs) - 1) = Inr (pre @ sort_key (fkey F) zs @ rest)"
proof (induction "length zs" arbitrary: pre zs rest rule: less_induct)
  case less
  show ?case
  proof (cases "2 \<le> length zs")
    case False
    then have "sort_key (fkey F) zs = zs" by (cases zs rule: remdups_adj.cases) simp_all
    then show ?thesis using False by (subst mergeSort.simps) simp
  next
    case True
    define h where "h = Suc ((length zs - 1) div 2)"
    define xs ys where "xs = take h zs" and "ys = drop h zs"
    have h: "0 < h" "h < length zs" using True by (auto simp: h_def)
    then have z: "zs = xs @ ys" "length xs = h" "length ys = length zs - h" by (simp_all add: xs_def ys_def)
    have mid: "int (length pre) + c_div (int (length pre + length zs) - 1 - int (length pre)) 2 = int (length pre + length xs) - 1"
      using True unfolding z(2) h_def by (simp add: c_div_def of_nat_diff zdiv_int)
    have n: "\<forall>p \<in> set xs. number F p" "\<forall>p \<in> set ys. number F p" using less.prems z(1) by auto
    have len: "length xs < length zs" "length ys < length zs" "length xs + length ys = length zs" "xs \<noteq> []" "ys \<noteq> []"
      using h z(2,3) by auto
    have 1: "mergeSort F (pre @ xs @ ys @ rest) (int (length pre)) (int (length pre + length xs) - 1) = Inr (pre @ sort_key (fkey F) xs @ ys @ rest)"
      by (rule less.hyps [OF len(1) n(1)])
    have 2: "mergeSort F (pre @ sort_key (fkey F) xs @ ys @ rest) (int (length pre + length xs)) (int (length pre + length zs) - 1) =
        Inr (pre @ sort_key (fkey F) xs @ sort_key (fkey F) ys @ rest)"
      using less.hyps [OF len(2) n(2), of "pre @ sort_key (fkey F) xs" rest] len(3) [symmetric] by (simp add: add.assoc)
    have "sort_key (fkey F) xs \<noteq> []" "sort_key (fkey F) ys \<noteq> []" using len(4,5) by (metis length_0_conv length_sort)+
    from merge_floats_ok [OF _ _ _ this, of F pre rest]
    have 3: "merge_floats F (pre @ sort_key (fkey F) xs @ sort_key (fkey F) ys @ rest) (int (length pre)) (int (length pre + length xs) - 1)
        (int (length pre + length zs) - 1) = Inr (pre @ sort_key (fkey F) zs @ rest)"
      using n unfolding z(1) mrg_sort by (simp add: ball_Un add.assoc)
    have l: "int (length pre) < int (length pre + length zs) - 1" using True by simp
    have "pre @ zs @ rest = pre @ xs @ ys @ rest" by (simp add: z(1))
    then show ?thesis using 1 2 3 l by (subst mergeSort.simps) (simp only: if_True mid bindR.simps diff_add_cancel)
  qed
qed

section \<open>The sorting programs sort\<close>

lemma quick_inv_start:
  assumes "length beg = 99" "length en = 99" "n \<le> length arr"
  shows "quick_inv n (mset (take n arr)) arr (beg[0 := 0]) (en[0 := int n]) 0"
  using assms by (simp add: quick_inv_def segs_ok_def)

text \<open>
  C33: \<^verbatim>\<open>quicksort\<close> on an array of at most 99 elements returns 0, whatever is in its uninitialised stack: its stack and the array are never
  indexed out of bounds, the stack never fills up, the first \<open>n\<close> elements end up sorted and are those there were before, and the main loop runs at most
  \<open>2n + 1\<close> times.
\<close>

theorem quicksort_sorts:
  assumes "length beg = 99" "length en = 99" "n \<le> 99" "n \<le> length arr"
  shows "\<exists>a t. quicksort beg en arr (int n) = Some (Inr (a, 0, t)) \<and> sorted (take n a) \<and> mset (take n a) = mset (take n arr) \<and> t \<le> 2 * int n + 1"
proof -
  have "quicksort beg en arr (int n) = quick_loop arr (beg[0 := 0]) (en[0 := int n]) (int 0) 0"
    using assms(1,2) by (simp add: quicksort_def wr_def)
  moreover have "work (beg[0 := 0]) (en[0 := int n]) 0 = 2 * n + 1" using assms(1,2) by (simp add: work_def)
  ultimately show ?thesis
    using quick_loop_ok [OF assms(3) quick_inv_start [OF assms(1,2,4)], of 0] by auto
qed

theorem quicksort_sorts_witness:
  "\<exists>a t. quicksort (replicate 99 7) (replicate 99 (-1)) [3, 1, 2, 1] 4 = Some (Inr (a, 0, t)) \<and> sorted (take 4 a) \<and> mset (take 4 a) = {#3, 1, 2, 1#} \<and> t \<le> 9"
  using quicksort_sorts [of "replicate 99 7" "replicate 99 (-1)" 4 "[3, 1, 2, 1]"] by simp

text \<open>
  C34: \<^verbatim>\<open>mergeSort\<close> on an array whose first \<open>n\<close> elements are addresses of numbers the kernel keeps, none of them a NaN, returns and sorts the
  addresses stably by the numbers; the rest of the array is unchanged.
\<close>

theorem mergeSort_stable:
  assumes "\<forall>p \<in> set (take n arr). number F p" "n \<le> length arr"
  shows "mergeSort F arr 0 (int n - 1) = Inr (sort_key (fkey F) (take n arr) @ drop n arr)"
  using mergeSort_ok [of "take n arr" F "[]" "drop n arr"] assms by simp

theorem mergeSort_stable_witness:
  "mergeSort [16 \<mapsto> 0x40400000, 32 \<mapsto> 0xbf800000, 48 \<mapsto> 0x40400000] [16, 32, 48, 0] 0 2 = Inr [32, 16, 48, 0]"
proof -
  let ?F = "[16 \<mapsto> 0x40400000, 32 \<mapsto> 0xbf800000, 48 \<mapsto> 0x40400000] :: u32 \<Rightarrow> u32 option"
  have "fkey ?F 16 = 0x40400000" "fkey ?F 32 = - 0x3f800000" "fkey ?F 48 = 0x40400000"
    by (simp_all add: fkey_def f_key_def)
  moreover have "\<forall>p \<in> {16, 32, 48}. number ?F p" by (simp add: number_def f_nan_def)
  ultimately show ?thesis using mergeSort_stable [of 3 "[16, 32, 48, 0]" ?F] by (simp add: numeral_3_eq_3)
qed

end
