(* ===== verification/TestPrograms.thy ===== *)
theory TestPrograms
  imports UserIO
begin

text \<open>
  Further user programs: \<^verbatim>\<open>test/sort.c\<close> and \<^verbatim>\<open>test/matmult.c\<close> with the values they exit with, and the part of \<^verbatim>\<open>main\<close> in
  \<^verbatim>\<open>test/quicksort.c\<close> that turns a number into the text it writes. Arrays are lists, and every access is checked.
\<close>

section \<open>Counting loops\<close>

text \<open>\<^verbatim>\<open>for (i = a; i < b; i++)\<close>, and the rule for its invariants.\<close>

function for_loop :: "nat \<Rightarrow> nat \<Rightarrow> (nat \<Rightarrow> 's \<Rightarrow> 's result) \<Rightarrow> 's \<Rightarrow> 's result" where
  "for_loop i b f s = (if i < b then bindR (f i s) (for_loop (Suc i) b f) else Inr s)"
  by pat_completeness auto
termination by (relation "measure (\<lambda>(i, b, f, s). b - i)") auto

declare for_loop.simps [simp del]

lemma for_loop_rule:
  assumes "P i s" "i \<le> b"
    and "\<And>k s. i \<le> k \<Longrightarrow> k < b \<Longrightarrow> P k s \<Longrightarrow> \<exists>s'. f k s = Inr s' \<and> P (Suc k) s'"
  shows "\<exists>s'. for_loop i b f s = Inr s' \<and> P b s'"
  using assms
proof (induction i b f s rule: for_loop.induct)
  case (1 i b f s)
  show ?case
  proof (cases "i < b")
    case True
    then obtain s' where s': "f i s = Inr s'" "P (Suc i) s'" using "1.prems" by blast
    have "\<exists>t. for_loop (Suc i) b f s' = Inr t \<and> P b t" by (rule "1.IH" [OF True s'(1) s'(2)]) (use True "1.prems"(3) in auto)
    then show ?thesis using True s'(1) by (subst for_loop.simps) simp
  next
    case False
    then show ?thesis using "1.prems"(1,2) by (subst for_loop.simps) simp
  qed
qed

lemma for_loop_keeps:
  assumes "P s" "\<And>k s. i \<le> k \<Longrightarrow> k < b \<Longrightarrow> P s \<Longrightarrow> \<exists>s'. f k s = Inr s' \<and> P s'"
  shows "\<exists>s'. for_loop i b f s = Inr s' \<and> P s'"
proof (cases "i \<le> b")
  case True
  then show ?thesis using for_loop_rule [of "\<lambda>_. P" i s b f] assms by blast
next
  case False
  then show ?thesis using assms(1) by (subst for_loop.simps) simp
qed

section \<open>sort.c\<close>

text \<open>\<open>n\<close> is the number of elements, 1024 in the program.\<close>

definition sort_init :: "nat \<Rightarrow> int list \<Rightarrow> int list result" where
  "sort_init n = for_loop 0 n (\<lambda>i A. wr A (int i) (int n - int i))"

definition sort_swap :: "nat \<Rightarrow> int list \<Rightarrow> int list result" where
  "sort_swap j A = bindR (rd A (int j)) (\<lambda>x. bindR (rd A (int j + 1)) (\<lambda>y.
     if x > y then bindR (wr A (int j) y) (\<lambda>B. wr B (int j + 1) x) else Inr A))"

definition sort_pass :: "nat \<Rightarrow> nat \<Rightarrow> int list \<Rightarrow> int list result" where
  "sort_pass n i = for_loop i (n - 1 - i) sort_swap"

definition sort_main :: "nat \<Rightarrow> int result" where
  "sort_main n = bindR (sort_init n (replicate n 0)) (\<lambda>A. bindR (for_loop 0 (n - 1) (sort_pass n) A) (\<lambda>B. rd B 0))"

lemma sort_init_ok: "\<exists>A. sort_init n (replicate n 0) = Inr A \<and> length A = n \<and> (\<forall>k < n. A ! k = int n - int k)"
  unfolding sort_init_def
  by (rule for_loop_rule [where P = "\<lambda>i A. length A = n \<and> (\<forall>k < i. A ! k = int n - int k)"]) (auto simp: nth_list_update less_Suc_eq)

lemma sort_swap_eq:
  "Suc j < length A \<Longrightarrow> sort_swap j A = Inr (if A ! j > A ! Suc j then A[j := A ! Suc j, Suc j := A ! j] else A)"
proof -
  assume j: "Suc j < length A"
  have e: "int j + 1 = int (Suc j)" by simp
  show ?thesis unfolding sort_swap_def e using j by (simp del: of_nat_Suc)
qed

text \<open>A pass that starts behind the first element keeps it.\<close>

lemma sort_later:
  assumes "0 < i" "length A = n"
  shows "\<exists>B. for_loop i (n - 1 - k) sort_swap A = Inr B \<and> length B = n \<and> B ! 0 = A ! 0"
  by (rule for_loop_keeps [where P = "\<lambda>B. length B = n \<and> B ! 0 = A ! 0"]) (use assms in \<open>auto simp: sort_swap_eq\<close>)

lemma sort_rest:
  assumes "length B = n"
  shows "\<exists>C. for_loop (Suc 0) (n - 1) (sort_pass n) B = Inr C \<and> length C = n \<and> C ! 0 = B ! 0"
proof (rule for_loop_keeps [where P = "\<lambda>C. length C = n \<and> C ! 0 = B ! 0"])
  fix k A assume "Suc 0 \<le> k" "length A = n \<and> A ! 0 = B ! 0"
  then show "\<exists>C. sort_pass n k A = Inr C \<and> length C = n \<and> C ! 0 = B ! 0" using sort_later [of k A n k] by (simp add: sort_pass_def)
qed (simp add: assms)

lemma sort_main_exit:
  assumes "2 \<le> n"
  shows "sort_main n = Inr (int n - 1)"
proof -
  obtain A where A: "sort_init n (replicate n 0) = Inr A" "length A = n" "\<forall>k < n. A ! k = int n - int k" using sort_init_ok by blast
  define A1 where "A1 = A[0 := A ! 1, 1 := A ! 0]"
  have A1: "length A1 = n" "A1 ! 0 = int n - 1" using A assms by (simp_all add: A1_def)
  have "sort_swap 0 A = Inr A1" using A assms by (simp add: sort_swap_eq A1_def)
  then have "sort_pass n 0 A = for_loop (Suc 0) (n - 1 - 0) sort_swap A1" using assms unfolding sort_pass_def by (subst for_loop.simps) simp
  then obtain B where B: "sort_pass n 0 A = Inr B" "length B = n" "B ! 0 = int n - 1" using sort_later [of "Suc 0" A1 n 0] A1 by auto
  obtain C where C: "for_loop (Suc 0) (n - 1) (sort_pass n) B = Inr C" "length C = n" "C ! 0 = int n - 1" using sort_rest [OF B(2)] B(3) by auto
  have "for_loop 0 (n - 1) (sort_pass n) A = Inr C" using B(1) C(1) assms by (subst for_loop.simps) simp
  moreover have "rd C 0 = Inr (C ! 0)" using C(2) assms by (simp add: rd_def)
  ultimately show ?thesis using A(1) C(3) by (simp add: sort_main_def)
qed

section \<open>matmult.c\<close>

definition rd2 :: "int list list \<Rightarrow> nat \<Rightarrow> nat \<Rightarrow> int result" where
  "rd2 M i j = bindR (rd M (int i)) (\<lambda>r. rd r (int j))"

definition wr2 :: "int list list \<Rightarrow> nat \<Rightarrow> nat \<Rightarrow> int \<Rightarrow> int list list result" where
  "wr2 M i j v = bindR (rd M (int i)) (\<lambda>r. bindR (wr r (int j) v) (wr M (int i)))"

definition Dim :: nat where "Dim = 20"

type_synonym mats = "int list list \<times> int list list \<times> int list list"

definition mat_init :: "mats \<Rightarrow> mats result" where
  "mat_init = for_loop 0 Dim (\<lambda>i. for_loop 0 Dim (\<lambda>j (A, B, C).
     bindR (wr2 A i j (int i)) (\<lambda>A1. bindR (wr2 B i j (int j)) (\<lambda>B1. bindR (wr2 C i j 0) (\<lambda>C1. Inr (A1, B1, C1))))))"

definition mat_cell :: "int list list \<Rightarrow> int list list \<Rightarrow> nat \<Rightarrow> nat \<Rightarrow> int list list \<Rightarrow> int list list result" where
  "mat_cell A B i j = for_loop 0 Dim (\<lambda>k C. bindR (rd2 C i j) (\<lambda>c. bindR (rd2 A i k) (\<lambda>a. bindR (rd2 B k j) (\<lambda>b. wr2 C i j (c + a * b)))))"

definition mat_mult :: "mats \<Rightarrow> int list list result" where
  "mat_mult = (\<lambda>(A, B, C). for_loop 0 Dim (\<lambda>i. for_loop 0 Dim (\<lambda>j. mat_cell A B i j)) C)"

definition matmult_main :: "mats \<Rightarrow> int result" where
  "matmult_main M = bindR (mat_init M) (\<lambda>M1. bindR (mat_mult M1) (\<lambda>C. rd2 C (Dim - 1) (Dim - 1)))"

definition mat :: "int list list \<Rightarrow> bool" where
  "mat M \<longleftrightarrow> length M = Dim \<and> (\<forall>i < Dim. length (M ! i) = Dim)"

lemma rd2_ok [simp]: "mat M \<Longrightarrow> i < Dim \<Longrightarrow> j < Dim \<Longrightarrow> rd2 M i j = Inr (M ! i ! j)"
  by (simp add: rd2_def mat_def)

lemma wr2_ok [simp]: "mat M \<Longrightarrow> i < Dim \<Longrightarrow> j < Dim \<Longrightarrow> wr2 M i j v = Inr (M[i := (M ! i)[j := v]])"
  by (simp add: wr2_def mat_def)

lemma mat_upd [simp]: "mat M \<Longrightarrow> i < Dim \<Longrightarrow> mat (M[i := (M ! i)[j := v]])"
  by (auto simp: mat_def nth_list_update)

lemma mat_nth_upd:
  "mat M \<Longrightarrow> i < Dim \<Longrightarrow> j < Dim \<Longrightarrow> i' < Dim \<Longrightarrow> M[i := (M ! i)[j := v]] ! i' ! j' = (if i' = i \<and> j' = j then v else M ! i' ! j')"
  by (auto simp: mat_def nth_list_update)

text \<open>The places before \<open>(i, j)\<close> in the order of the loops.\<close>

definition before :: "nat \<Rightarrow> nat \<Rightarrow> nat \<Rightarrow> nat \<Rightarrow> bool" where
  "before i j i' j' \<longleftrightarrow> i' < Dim \<and> j' < Dim \<and> (i' < i \<or> (i' = i \<and> j' < j))"

lemma mat_nth_before: "mat M \<Longrightarrow> i < Dim \<Longrightarrow> j < Dim \<Longrightarrow> before i j i' j' \<Longrightarrow> M[i := (M ! i)[j := v]] ! i' ! j' = M ! i' ! j'"
  by (auto simp: mat_nth_upd before_def)

lemma before_Suc: "i < Dim \<Longrightarrow> j < Dim \<Longrightarrow> before i (Suc j) i' j' = (before i j i' j' \<or> (i' = i \<and> j' = j))"
  by (auto simp: before_def)

lemma before_row: "before i Dim i' j' = before (Suc i) 0 i' j'" and before_0 [simp]: "\<not> before 0 0 i' j'"
  by (auto simp: before_def)

lemma grid_rule:
  assumes "P 0 0 s" "\<And>i s. P i Dim s \<Longrightarrow> P (Suc i) 0 s"
    and "\<And>i j s. i < Dim \<Longrightarrow> j < Dim \<Longrightarrow> P i j s \<Longrightarrow> \<exists>s'. f i j s = Inr s' \<and> P i (Suc j) s'"
  shows "\<exists>s'. for_loop 0 Dim (\<lambda>i. for_loop 0 Dim (f i)) s = Inr s' \<and> P Dim 0 s'"
proof (rule for_loop_rule [where P = "\<lambda>i. P i 0"])
  fix i s assume i: "i < Dim" and p: "P i 0 s"
  have "\<exists>s'. for_loop 0 Dim (f i) s = Inr s' \<and> P i Dim s'" by (rule for_loop_rule [where P = "P i"]) (use p assms(3) i in auto)
  then show "\<exists>s'. for_loop 0 Dim (f i) s = Inr s' \<and> P (Suc i) 0 s'" using assms(2) by blast
qed (simp_all add: assms(1))

lemma mat_init_ok:
  assumes "mat A" "mat B" "mat C"
  shows "\<exists>A' B' C'. mat_init (A, B, C) = Inr (A', B', C') \<and> mat A' \<and> mat B' \<and> mat C' \<and>
    (\<forall>i < Dim. \<forall>j < Dim. A' ! i ! j = int i \<and> B' ! i ! j = int j \<and> C' ! i ! j = 0)"
proof -
  define P :: "nat \<Rightarrow> nat \<Rightarrow> mats \<Rightarrow> bool" where "P i j = (\<lambda>(A, B, C). mat A \<and> mat B \<and> mat C \<and>
    (\<forall>i' j'. before i j i' j' \<longrightarrow> A ! i' ! j' = int i' \<and> B ! i' ! j' = int j' \<and> C ! i' ! j' = 0))" for i j
  have "\<exists>s'. mat_init (A, B, C) = Inr s' \<and> P Dim 0 s'" unfolding mat_init_def
  proof (rule grid_rule [where P = P])
    show "P 0 0 (A, B, C)" using assms by (simp add: P_def)
    show "P (Suc i) 0 s" if "P i Dim s" for i s using that by (simp add: P_def before_row)
    fix i j s assume i: "i < Dim" "j < Dim" and p: "P i j s"
    show "\<exists>s'. (case s of (A, B, C) \<Rightarrow> bindR (wr2 A i j (int i)) (\<lambda>A1. bindR (wr2 B i j (int j)) (\<lambda>B1. bindR (wr2 C i j 0) (\<lambda>C1. Inr (A1, B1, C1))))) = Inr s' \<and> P i (Suc j) s'"
      using p i by (cases s) (auto simp: P_def before_Suc mat_nth_upd mat_nth_before)
  qed
  then show ?thesis by (auto simp: P_def before_def)
qed

lemma mat_cell_ok:
  assumes "mat A" "mat B" "mat C" "i < Dim" "j < Dim"
  shows "mat_cell A B i j C = Inr (C[i := (C ! i)[j := C ! i ! j + (\<Sum>k < Dim. A ! i ! k * B ! k ! j)]])"
proof -
  let ?S = "\<lambda>m. C[i := (C ! i)[j := C ! i ! j + (\<Sum>k < m. A ! i ! k * B ! k ! j)]]"
  have "\<exists>C'. mat_cell A B i j C = Inr C' \<and> C' = ?S Dim" unfolding mat_cell_def
  proof (rule for_loop_rule [where P = "\<lambda>m C'. C' = ?S m"])
    show "C = ?S 0" by simp
    fix k C' assume k: "k < Dim" and C': "C' = ?S k"
    have "mat C'" "C' ! i ! j = C ! i ! j + (\<Sum>k < k. A ! i ! k * B ! k ! j)" using assms C' by (simp_all add: mat_nth_upd)
    then show "\<exists>s'. bindR (rd2 C' i j) (\<lambda>c. bindR (rd2 A i k) (\<lambda>a. bindR (rd2 B k j) (\<lambda>b. wr2 C' i j (c + a * b)))) = Inr s' \<and> s' = ?S (Suc k)"
      using assms k C' by (simp add: mat_def add.assoc)
  qed simp
  then show ?thesis by blast
qed

text \<open>The program multiplies the two matrices.\<close>

lemma mat_mult_ok:
  assumes "mat A" "mat B" "mat C" "\<forall>i < Dim. \<forall>j < Dim. C ! i ! j = 0"
  shows "\<exists>C'. mat_mult (A, B, C) = Inr C' \<and> mat C' \<and> (\<forall>i < Dim. \<forall>j < Dim. C' ! i ! j = (\<Sum>k < Dim. A ! i ! k * B ! k ! j))"
proof -
  define P where "P i j C' \<longleftrightarrow> mat C' \<and> (\<forall>i' < Dim. \<forall>j' < Dim. C' ! i' ! j' = (if before i j i' j' then \<Sum>k < Dim. A ! i' ! k * B ! k ! j' else 0))"
    for i j C'
  have "\<exists>C'. for_loop 0 Dim (\<lambda>i. for_loop 0 Dim (\<lambda>j. mat_cell A B i j)) C = Inr C' \<and> P Dim 0 C'"
  proof (rule grid_rule [where P = P])
    show "P 0 0 C" using assms by (simp add: P_def)
    show "P (Suc i) 0 s" if "P i Dim s" for i s using that by (simp add: P_def before_row)
    fix i j s assume i: "i < Dim" "j < Dim" and p: "P i j s"
    have "\<not> before i j i j" by (simp add: before_def)
    then have "s ! i ! j = 0" "mat s" using p i by (auto simp: P_def)
    then show "\<exists>s'. mat_cell A B i j s = Inr s' \<and> P i (Suc j) s'" using p i assms(1,2) by (auto simp: P_def mat_cell_ok mat_nth_upd before_Suc)
  qed
  then show ?thesis by (auto simp: P_def before_def mat_mult_def)
qed

lemma matmult_exit:
  assumes "mat A" "mat B" "mat C"
  shows "matmult_main (A, B, C) = Inr 7220"
proof -
  obtain A' B' C' where I: "mat_init (A, B, C) = Inr (A', B', C')" "mat A'" "mat B'" "mat C'"
    "\<forall>i < Dim. \<forall>j < Dim. A' ! i ! j = int i \<and> B' ! i ! j = int j \<and> C' ! i ! j = 0" using mat_init_ok [OF assms] by blast
  then obtain D where D: "mat_mult (A', B', C') = Inr D" "mat D" "\<forall>i < Dim. \<forall>j < Dim. D ! i ! j = (\<Sum>k < Dim. A' ! i ! k * B' ! k ! j)"
    using mat_mult_ok [of A' B' C'] by blast
  have "D ! (Dim - 1) ! (Dim - 1) = (\<Sum>k < Dim. int (Dim - 1) * int (Dim - 1))"
    using D(3) I(5) by (auto simp: Dim_def intro!: sum.cong)
  then show ?thesis using I(1) D(1,2) by (simp add: matmult_main_def) (simp add: Dim_def)
qed

section \<open>The numbers quicksort.c writes\<close>

text \<open>\<^verbatim>\<open>while (i >= isNeg && tmp > 0) { strBuffer[i--] = (tmp % 10) + '0'; tmp /= 10; }\<close>\<close>

function fill_digits :: "byte list \<Rightarrow> int \<Rightarrow> int \<Rightarrow> int \<Rightarrow> byte list result" where
  "fill_digits b i isNeg tmp =
     (if i \<ge> isNeg \<and> tmp > 0 then bindR (wr b i (of_int (c_mod tmp 10 + 48))) (\<lambda>b'. fill_digits b' (i - 1) isNeg (c_div tmp 10)) else Inr b)"
  by pat_completeness auto
termination by (relation "measure (\<lambda>(b, i, isNeg, tmp). nat tmp)") auto

declare fill_digits.simps [simp del]

text \<open>The space between two numbers and the terminating zero.\<close>

definition end_text :: "byte list \<Rightarrow> int \<Rightarrow> bool \<Rightarrow> (byte list \<times> int) result" where
  "end_text b sz final =
     bindR (if \<not> final then bindR (wr b sz 32) (\<lambda>b2. Inr (b2, sz + 1)) else Inr (b, sz)) (\<lambda>(b2, size2).
     bindR (wr b2 size2 0) (\<lambda>b3. Inr (b3, size2)))"

text \<open>
  The body of the loop up to the \<^verbatim>\<open>Write\<close>, for the element \<open>x\<close>; \<open>final\<close> says that it is the last one. The result is the buffer and \<^verbatim>\<open>size\<close>. The loop
  that counts the digits is that of the kernel.
\<close>

definition number_text :: "byte list \<Rightarrow> int \<Rightarrow> bool \<Rightarrow> (byte list \<times> int) result" where
  "number_text strBuffer x final =
     bindR (if x < 0 then bindR (wr strBuffer 0 45) (\<lambda>b. Inr (b, 1, 1, c_int (- x)))
            else if x = 0 then bindR (wr strBuffer 0 48) (\<lambda>b. Inr (b, 1, 0, x))
            else Inr (strBuffer, 0, 0, x)) (\<lambda>(b, sz, isNeg, tmp).
     let size1 = count_digits tmp sz in
     bindR (fill_digits b (size1 + isNeg - 1) isNeg x) (\<lambda>b1. end_text b1 size1 final))"

lemma count_digits_dec: "0 < n \<Longrightarrow> count_digits (int n) l = l + int (length (dec n))"
proof (induction n arbitrary: l rule: dec.induct)
  case (1 n)
  show ?case
  proof (cases "n < 10")
    case True
    then have "count_digits (int n div 10) (l + 1) = l + 1" by (subst count_digits.simps) simp
    then show ?thesis using True 1 by (subst count_digits.simps, subst dec.simps) simp
  next
    case False
    then have "count_digits (int (n div 10)) (l + 1) = l + 1 + int (length (dec (n div 10)))" using 1(1) by simp
    then show ?thesis using False 1(2) by (subst count_digits.simps, subst dec.simps) (simp add: zdiv_int)
  qed
qed

lemma fill_digits_dec:
  "0 < n \<Longrightarrow> length (dec n) \<le> length b \<Longrightarrow> fill_digits b (int (length (dec n)) - 1) 0 (int n) = Inr (dec n @ drop (length (dec n)) b)"
proof (induction n arbitrary: b rule: dec.induct)
  case (1 n)
  have d: "(word_of_int (int n mod 10 + 48) :: byte) = of_nat (n mod 10 + 48)" using digit_byte [of "n mod 10"] by (simp add: zmod_int)
  show ?case
  proof (cases "n < 10")
    case True
    then have L: "dec n = [of_nat (n + 48)]" by (subst dec.simps) simp
    have "fill_digits c (- 1) 0 x = Inr c" for c x by (subst fill_digits.simps) simp
    then show ?thesis using 1(2,3) True d unfolding L by (subst fill_digits.simps) (cases b; simp add: wr_def)
  next
    case False
    define m where "m = length (dec (n div 10))"
    have L: "dec n = dec (n div 10) @ [of_nat (n mod 10 + 48)]" using False by (subst dec.simps) simp
    have b: "m < length b" using 1(3) by (simp add: L m_def)
    let ?b = "b[m := of_nat (n mod 10 + 48)]"
    have "fill_digits b (int m) 0 (int n) = fill_digits ?b (int m - 1) 0 (int (n div 10))"
      using 1(2) b d by (subst fill_digits.simps) (simp add: zdiv_int)
    also have "\<dots> = Inr (dec (n div 10) @ drop m ?b)" using 1(1) [OF False, of ?b] False b by (simp add: m_def)
    also have "drop m ?b = of_nat (n mod 10 + 48) # drop (Suc m) b" using b by (simp add: drop_update_swap Cons_nth_drop_Suc [symmetric])
    finally show ?thesis by (simp add: L m_def)
  qed
qed

definition written :: "bool \<Rightarrow> byte list \<Rightarrow> byte list" where
  "written final t = t @ (if final then [] else [32])"

lemma end_text_ok:
  assumes "length t + 2 \<le> length b" "take (length t) b = t"
  shows "\<exists>b3. end_text b (int (length t)) final = Inr (b3, int (length (written final t))) \<and> take (length (written final t)) b3 = written final t"
proof -
  have e: "int (length t) + 1 = int (Suc (length t))" by simp
  show ?thesis unfolding e end_text_def using assms by (simp add: written_def take_Suc_conv_app_nth take_update_swap list_update_beyond del: of_nat_Suc)
qed

text \<open>
  A number that is not negative is written in decimal. For a negative one only the sign is stored: the places of its digits keep what
  the buffer held, the text of the elements before.
\<close>

lemma number_text_ok:
  assumes b: "length buf = 20" and x: "- (2 ^ 31) < x" "x < 2 ^ 31"
    and t: "t = (if 0 \<le> x then dec (nat x) else 45 # take (length (dec (nat (- x)))) (drop 1 buf))"
  shows "\<exists>b'. number_text buf x final = Inr (b', int (length (written final t))) \<and> take (length (written final t)) b' = written final t"
proof -
  consider "x < 0" | "x = 0" | "0 < x" by linarith
  then show ?thesis
  proof cases
    case 1
    define m where "m = nat (- x)"
    have m: "0 < m" "length (dec m) \<le> 10" "- x = int m" using 1 x length_dec_int [of m] by (auto simp: m_def)
    have "c_int (- x) = int m" unfolding c_int_def m(3) [symmetric] by (rule sint_of_int_id) (use x 1 in \<open>simp add: in_int_def\<close>)
    moreover have "fill_digits c i 1 x = Inr c" for c i using 1 by (subst fill_digits.simps) simp
    moreover have tm: "t = 45 # take (length (dec m)) (drop 1 buf)" "length t = Suc (length (dec m))" using 1 t m(2) b by (simp_all add: m_def)
    moreover have "take (length t) (buf[0 := 45]) = t" unfolding tm(2) using b tm(1) by (cases buf) simp_all
    ultimately have "number_text buf x final = end_text (buf[0 := 45]) (int (length t)) final" "length t + 2 \<le> length (buf[0 := 45])"
      "take (length t) (buf[0 := 45]) = t"
      using 1 b m by (simp_all add: number_text_def wr_def count_digits_dec)
    then show ?thesis using end_text_ok by metis
  next
    case 2
    then have t0: "t = [48]" using t by (simp add: dec.simps)
    have "count_digits 0 1 = 1" "fill_digits c i 0 0 = Inr c" for c i by (subst count_digits.simps fill_digits.simps; simp)+
    then show ?thesis
      using end_text_ok [of t "buf[0 := 48]" final] 2 b t0 by (cases buf) (simp_all add: number_text_def wr_def Let_def)
  next
    case 3
    define m where "m = nat x"
    have m: "0 < m" "length (dec m) \<le> 10" "x = int m" "t = dec m" using 3 x t length_dec_int [of m] by (auto simp: m_def)
    show ?thesis
      using end_text_ok [of t "dec m @ drop (length (dec m)) buf" final] b m by (simp add: number_text_def count_digits_dec fill_digits_dec Let_def)
  qed
qed

end
