(* ===== verification/ObjectFiles.thy ===== *)
theory ObjectFiles
  imports AddrSpace Files
begin

text \<open>
  \<^verbatim>\<open>bin/coff2noff.c\<close>, which turns the COFF file of the linker into the NOFF file that the kernel loads, from the reading of the file header on. It is
  modelled for a host on which \<^verbatim>\<open>long\<close> has four bytes, as the layout of the structures of \<^verbatim>\<open>bin/coff.h\<close> requires, and which is little endian. \<^verbatim>\<open>malloc\<close> and
  \<^verbatim>\<open>write\<close> are taken to succeed.
\<close>

section \<open>The conversion\<close>

datatype coff_error = TooShort | NotMipsel | NotOmagic | BothData | BothBss | UnknownSegment
  | HostDefined  \<comment> \<open>a negative number of bytes is read, which is for the host to define\<close>

type_synonym 'a cres = "coff_error + 'a"

fun bindC :: "'a cres \<Rightarrow> ('a \<Rightarrow> 'b cres) \<Rightarrow> 'b cres" where
  "bindC (Inl e) f = Inl e"
| "bindC (Inr x) f = f x"

text \<open>The fields of the section header that the program uses.\<close>

record scnhdr =
  s_name :: "byte list"
  s_paddr :: int
  s_size :: int
  s_scnptr :: int

definition MIPSELMAGIC :: nat where "MIPSELMAGIC = 0x0162"
definition OMAGIC :: nat where "OMAGIC = 263"  \<comment> \<open>\<^verbatim>\<open>0407\<close>\<close>

definition short_at :: "byte list \<Rightarrow> nat \<Rightarrow> nat" where
  "short_at bs k = bytes_value (take 2 (drop k bs))"

definition scnhdr_at :: "byte list \<Rightarrow> nat \<Rightarrow> scnhdr" where
  "scnhdr_at bs k = \<lparr>s_name = take 8 (drop k bs), s_paddr = int_at bs (k + 8), s_size = int_at bs (k + 16), s_scnptr = int_at bs (k + 20)\<rparr>"

text \<open>\<open>read\<close> at a position, with the check of the program; \<open>lseek\<close> to a negative position fails and is not noticed.\<close>

definition coff_Read :: "byte list \<Rightarrow> int \<Rightarrow> int \<Rightarrow> byte list cres" where
  "coff_Read f pos n = (if n < 0 then Inl HostDefined
     else let bs = take (nat n) (drop (nat pos) f) in if int (length bs) \<noteq> n then Inl TooShort else Inr bs)"

definition seek_to :: "int \<Rightarrow> int \<Rightarrow> int" where
  "seek_to pos p = (if p < 0 then pos else p)"

text \<open>\<open>write\<close> at a position; a gap is filled with zeros.\<close>

definition fput :: "byte list \<Rightarrow> nat \<Rightarrow> byte list \<Rightarrow> byte list" where
  "fput f pos bs = take pos (f @ replicate (pos - length f) 0) @ bs @ drop (pos + length bs) f"

record conv =
  noffH :: NoffHeader
  inNoffFile :: int
  inPos :: int
  outFile :: "byte list"
  outPos :: nat

definition copy_section :: "byte list \<Rightarrow> scnhdr \<Rightarrow> conv \<Rightarrow> conv cres" where
  "copy_section f s st = (let p = seek_to (inPos st) (s_scnptr s) in
     bindC (coff_Read f p (s_size s)) (\<lambda>buffer.
     Inr (st\<lparr>inPos := p + s_size s, outFile := fput (outFile st) (outPos st) buffer, outPos := outPos st + length buffer,
             inNoffFile := inNoffFile st + s_size s\<rparr>)))"

text \<open>\<^verbatim>\<open>strcmp(s_name, lit) == 0\<close>; the literals have less than eight characters, so that the comparison ends within \<^verbatim>\<open>s_name\<close>.\<close>

definition name_is :: "scnhdr \<Rightarrow> string \<Rightarrow> bool" where
  "name_is s lit \<longleftrightarrow> take (length lit + 1) (s_name s) = map (of_nat \<circ> of_char) lit @ [0]"

definition section_seg :: "scnhdr \<Rightarrow> conv \<Rightarrow> Segment" where
  "section_seg s st = \<lparr>virtualAddr = s_paddr s, inFileAddr = inNoffFile st, seg_size = s_size s\<rparr>"

definition section_step :: "byte list \<Rightarrow> scnhdr \<Rightarrow> conv \<Rightarrow> conv cres" where
  "section_step f s st =
     (if s_size s = 0 then Inr st
      else if name_is s ''.text'' then copy_section f s (st\<lparr>noffH := (noffH st)\<lparr>code := section_seg s st\<rparr>\<rparr>)
      else if name_is s ''.data'' \<or> name_is s ''.rdata'' then
        if seg_size (initData (noffH st)) \<noteq> 0 then Inl BothData
        else copy_section f s (st\<lparr>noffH := (noffH st)\<lparr>initData := section_seg s st\<rparr>\<rparr>)
      else if name_is s ''.bss'' \<or> name_is s ''.sbss'' then
        let u = uninitData (noffH st) in
        if seg_size u \<noteq> 0 then
          if s_paddr s = virtualAddr u + seg_size u then Inl BothBss
          else Inr (st\<lparr>noffH := (noffH st)\<lparr>uninitData := u\<lparr>seg_size := seg_size u + s_size s\<rparr>\<rparr>\<rparr>)
        else Inr (st\<lparr>noffH := (noffH st)\<lparr>uninitData := u\<lparr>virtualAddr := s_paddr s, seg_size := s_size s\<rparr>\<rparr>\<rparr>)
      else Inl UnknownSegment)"

fun section_loop :: "byte list \<Rightarrow> scnhdr list \<Rightarrow> conv \<Rightarrow> conv cres" where
  "section_loop f [] st = Inr st"
| "section_loop f (s # ss) st = bindC (section_step f s st) (section_loop f ss)"

definition seg_bytes :: "Segment \<Rightarrow> byte list" where
  "seg_bytes s = int_bytes (virtualAddr s) @ int_bytes (inFileAddr s) @ int_bytes (seg_size s)"

definition noff_bytes :: "NoffHeader \<Rightarrow> byte list" where
  "noff_bytes h = int_bytes (noffMagic h) @ seg_bytes (code h) @ seg_bytes (initData h) @ seg_bytes (uninitData h)"

text \<open>The headers of the COFF file: 20 bytes of file header, 56 of system header, and 40 for each section.\<close>

definition coff_sections :: "byte list \<Rightarrow> scnhdr list cres" where
  "coff_sections f = bindC (coff_Read f 0 20) (\<lambda>fileh.
     if short_at fileh 0 \<noteq> MIPSELMAGIC then Inl NotMipsel
     else bindC (coff_Read f 20 56) (\<lambda>systemh.
       if short_at systemh 0 \<noteq> OMAGIC then Inl NotOmagic
       else let numsections = short_at fileh 2 in
         bindC (coff_Read f 76 (int numsections * 40)) (\<lambda>bs. Inr (map (\<lambda>i. scnhdr_at bs (40 * i)) [0..<numsections]))))"

text \<open>\<open>h0\<close> is what the uninitialised header holds.\<close>

definition conv_start :: "NoffHeader \<Rightarrow> nat \<Rightarrow> conv" where
  "conv_start h0 n = \<lparr>noffH = \<lparr>noffMagic = NOFFMAGIC, code = (code h0)\<lparr>seg_size := 0\<rparr>, initData = (initData h0)\<lparr>seg_size := 0\<rparr>,
       uninitData = (uninitData h0)\<lparr>seg_size := 0\<rparr>\<rparr>,
     inNoffFile = 40, inPos = 76 + 40 * int n, outFile = [], outPos = 40\<rparr>"

definition coff2noff :: "NoffHeader \<Rightarrow> byte list \<Rightarrow> byte list cres" where
  "coff2noff h0 f = bindC (coff_sections f) (\<lambda>sections.
     bindC (section_loop f sections (conv_start h0 (length sections))) (\<lambda>st.
     Inr (fput (outFile st) 0 (noff_bytes (noffH st)))))"

section \<open>What the steps do\<close>

lemma coff_sections_int: "coff_sections f = Inr ss \<Longrightarrow> s \<in> set ss \<Longrightarrow> in_int (s_paddr s) \<and> in_int (s_size s) \<and> in_int (s_scnptr s)"
proof -
  have b: "in_int (int_at bs k)" for bs k using sint_u32_bounds by (simp add: in_int_def int_at_def)
  assume "coff_sections f = Inr ss" "s \<in> set ss"
  then show ?thesis
    by (cases "coff_Read f 0 20"; cases "coff_Read f 20 56")
      (auto simp: coff_sections_def Let_def scnhdr_at_def b split: if_splits elim!: bindC.elims)
qed

lemma section_loop_filter: "section_loop f ss st = section_loop f (filter (\<lambda>s. s_size s \<noteq> 0) ss) st"
proof (induction ss arbitrary: st)
  case (Cons s ss)
  have "section_step f s st = Inr st" if "s_size s = 0" using that by (simp add: section_step_def)
  moreover have "bindC m (section_loop f ss) = bindC m (section_loop f (filter (\<lambda>s. s_size s \<noteq> 0) ss))" for m using Cons by (cases m) simp_all
  ultimately show ?case using Cons by simp
qed simp

text \<open>A section whose bytes are in the file.\<close>

definition sec_bytes :: "byte list \<Rightarrow> scnhdr \<Rightarrow> byte list" where
  "sec_bytes f s = take (nat (s_size s)) (drop (nat (s_scnptr s)) f)"

definition in_file :: "byte list \<Rightarrow> scnhdr \<Rightarrow> bool" where
  "in_file f s \<longleftrightarrow> 0 < s_size s \<and> 0 \<le> s_scnptr s \<and> s_scnptr s + s_size s \<le> int (length f)"

lemma length_sec_bytes: "in_file f s \<Longrightarrow> int (length (sec_bytes f s)) = s_size s"
  by (auto simp: in_file_def sec_bytes_def min_def)

lemma sec_bytes_nth: "in_file f s \<Longrightarrow> va < nat (s_size s) \<Longrightarrow> sec_bytes f s ! va = f ! (nat (s_scnptr s) + va)"
  by (auto simp: in_file_def sec_bytes_def intro!: nth_drop)

lemma copy_section_ok:
  "in_file f s \<Longrightarrow> copy_section f s st = Inr (st\<lparr>inPos := s_scnptr s + s_size s, outFile := fput (outFile st) (outPos st) (sec_bytes f s),
     outPos := outPos st + length (sec_bytes f s), inNoffFile := inNoffFile st + s_size s\<rparr>)"
proof -
  assume s: "in_file f s"
  have "coff_Read f (s_scnptr s) (s_size s) = Inr (sec_bytes f s)"
    using length_sec_bytes [OF s] s by (simp only: coff_Read_def Let_def sec_bytes_def [symmetric]) (simp add: in_file_def)
  then show ?thesis using s by (simp add: copy_section_def seek_to_def in_file_def)
qed

lemma fput_append: "length f = pos \<Longrightarrow> fput f pos bs = f @ bs"
  by (simp add: fput_def)

lemma fput_first: "fput [] 40 bs = replicate 40 0 @ bs"
  by (simp add: fput_def)

lemma length_noff_bytes [simp]: "length (noff_bytes h) = 40"
  by (simp add: noff_bytes_def seg_bytes_def)

lemma fput_header: "fput (replicate 40 0 @ bs) 0 (noff_bytes h) = noff_bytes h @ bs"
  by (simp add: fput_def)

text \<open>The kernel reads the header as it was written.\<close>

definition seg_int :: "Segment \<Rightarrow> bool" where
  "seg_int s \<longleftrightarrow> in_int (virtualAddr s) \<and> in_int (inFileAddr s) \<and> in_int (seg_size s)"

lemma segment_at_bytes: "seg_int s \<Longrightarrow> drop k bs = seg_bytes s @ r \<Longrightarrow> segment_at bs k = s"
proof -
  assume s: "seg_int s" and d: "drop k bs = seg_bytes s @ r"
  have "drop (k + 4) bs = drop 4 (drop k bs)" "drop (k + 8) bs = drop 8 (drop k bs)" by (simp_all add: add.commute)
  then show ?thesis using s d by (simp add: segment_at_def seg_int_def seg_bytes_def int_at_bytes)
qed

lemma read_noff_bytes:
  assumes "in_int (noffMagic h)" "seg_int (code h)" "seg_int (initData h)" "seg_int (uninitData h)"
  shows "read_header junk (noff_bytes h @ r) = h"
proof -
  let ?b = "noff_bytes h @ drop 40 junk"
  have "int_at ?b 0 = noffMagic h" "segment_at ?b 4 = code h" "segment_at ?b 16 = initData h" "segment_at ?b 28 = uninitData h"
    using assms by (auto intro!: int_at_bytes segment_at_bytes simp: noff_bytes_def seg_bytes_def)
  then show ?thesis by (simp add: read_header_def)
qed

section \<open>From the linker to the memory of the program\<close>

definition is_text :: "scnhdr \<Rightarrow> bool" where "is_text s \<longleftrightarrow> name_is s ''.text''"
definition is_data :: "scnhdr \<Rightarrow> bool" where "is_data s \<longleftrightarrow> name_is s ''.data'' \<or> name_is s ''.rdata''"
definition is_bss :: "scnhdr \<Rightarrow> bool" where "is_bss s \<longleftrightarrow> name_is s ''.bss'' \<or> name_is s ''.sbss''"

lemma name_second: "name_is s lit \<Longrightarrow> 1 < length lit \<Longrightarrow> s_name s ! 1 = of_nat (of_char (lit ! 1))"
proof -
  assume n: "name_is s lit" and l: "1 < length lit"
  have "s_name s ! 1 = take (length lit + 1) (s_name s) ! 1" by (rule nth_take [symmetric]) (use l in linarith)
  also have "\<dots> = of_nat (of_char (lit ! 1))" using n l by (simp add: name_is_def nth_append)
  finally show ?thesis .
qed

lemma kinds_distinct: "is_data s \<Longrightarrow> \<not> is_text s" "is_bss s \<Longrightarrow> \<not> is_text s \<and> \<not> is_data s"
  using name_second [of s "''.text''"] name_second [of s "''.data''"] name_second [of s "''.rdata''"] name_second [of s "''.bss''"] name_second [of s "''.sbss''"]
  by (auto simp: is_text_def is_data_def is_bss_def of_char_def)

lemma step_text: "is_text s \<Longrightarrow> in_file f s \<Longrightarrow> section_step f s st = copy_section f s (st\<lparr>noffH := (noffH st)\<lparr>code := section_seg s st\<rparr>\<rparr>)"
  by (simp add: section_step_def is_text_def in_file_def)

lemma step_data:
  "is_data s \<Longrightarrow> in_file f s \<Longrightarrow> section_step f s st =
     (if seg_size (initData (noffH st)) \<noteq> 0 then Inl BothData else copy_section f s (st\<lparr>noffH := (noffH st)\<lparr>initData := section_seg s st\<rparr>\<rparr>))"
  using kinds_distinct(1) [of s] by (auto simp: section_step_def is_text_def is_data_def in_file_def)

lemma step_bss:
  "is_bss s \<Longrightarrow> s_size s \<noteq> 0 \<Longrightarrow> section_step f s st = (let u = uninitData (noffH st) in
     if seg_size u \<noteq> 0 then
       if s_paddr s = virtualAddr u + seg_size u then Inl BothBss
       else Inr (st\<lparr>noffH := (noffH st)\<lparr>uninitData := u\<lparr>seg_size := seg_size u + s_size s\<rparr>\<rparr>\<rparr>)
     else Inr (st\<lparr>noffH := (noffH st)\<lparr>uninitData := u\<lparr>virtualAddr := s_paddr s, seg_size := s_size s\<rparr>\<rparr>\<rparr>))"
  using kinds_distinct(2) [of s] unfolding section_step_def is_text_def is_data_def is_bss_def by (simp only: if_False simp_thms) (simp add: Let_def)

text \<open>The header and the file after code and data, and possibly one section that is not initialised.\<close>

definition bss_of :: "Segment \<Rightarrow> scnhdr list \<Rightarrow> Segment" where
  "bss_of u bs = (case bs of [] \<Rightarrow> u\<lparr>seg_size := 0\<rparr> | b # _ \<Rightarrow> u\<lparr>virtualAddr := s_paddr b, seg_size := s_size b\<rparr>)"

definition noff_of :: "NoffHeader \<Rightarrow> scnhdr \<Rightarrow> scnhdr \<Rightarrow> scnhdr list \<Rightarrow> NoffHeader" where
  "noff_of h0 t d bs = \<lparr>noffMagic = NOFFMAGIC, code = \<lparr>virtualAddr = s_paddr t, inFileAddr = 40, seg_size = s_size t\<rparr>,
     initData = \<lparr>virtualAddr = s_paddr d, inFileAddr = 40 + s_size t, seg_size = s_size d\<rparr>, uninitData = bss_of (uninitData h0) bs\<rparr>"

lemma coff2noff_out:
  assumes ss: "coff_sections f = Inr ss" "filter (\<lambda>s. s_size s \<noteq> 0) ss = t # d # bs"
    and k: "is_text t" "in_file f t" "is_data d" "in_file f d" "bs = [] \<or> (\<exists>b. bs = [b] \<and> is_bss b)"
  shows "coff2noff h0 f = Inr (noff_bytes (noff_of h0 t d bs) @ sec_bytes f t @ sec_bytes f d)"
proof -
  have z: "s_size b \<noteq> 0" if "b \<in> set bs" for b
  proof -
    have "b \<in> set (filter (\<lambda>s. s_size s \<noteq> 0) ss)" using that ss(2) by simp
    then show ?thesis by simp
  qed
  define st where "st = conv_start h0 (length ss)"
  have st: "noffH st = \<lparr>noffMagic = NOFFMAGIC, code = (code h0)\<lparr>seg_size := 0\<rparr>, initData = (initData h0)\<lparr>seg_size := 0\<rparr>,
      uninitData = (uninitData h0)\<lparr>seg_size := 0\<rparr>\<rparr>" "inNoffFile st = 40" "outFile st = []" "outPos st = 40" by (simp_all add: st_def conv_start_def)
  have o: "fput (replicate 40 0 @ sec_bytes f t) (40 + length (sec_bytes f t)) (sec_bytes f d) = replicate 40 0 @ sec_bytes f t @ sec_bytes f d"
    by (simp add: fput_append)
  obtain st' where s': "section_loop f (t # d # bs) st = Inr st'" "noffH st' = noff_of h0 t d bs"
    "outFile st' = replicate 40 0 @ sec_bytes f t @ sec_bytes f d"
    using k(5) z by (auto simp: step_text [OF k(1,2)] step_data [OF k(3,4)] copy_section_ok k(2,4) st fput_first o step_bss section_seg_def noff_of_def bss_of_def Let_def)
  then show ?thesis unfolding coff2noff_def ss(1) bindC.simps st_def [symmetric]
    by (subst section_loop_filter) (simp add: ss(2) fput_header)
qed

lemma noff_of_int:
  assumes ss: "coff_sections f = Inr ss" "filter (\<lambda>s. s_size s \<noteq> 0) ss = t # d # bs"
    and k: "in_file f t" "in_file f d" "s_size t + s_size d < 2 ^ 31 - 40" and u: "seg_int (uninitData h0)"
  shows "seg_int (code (noff_of h0 t d bs))" "seg_int (initData (noff_of h0 t d bs))" "seg_int (uninitData (noff_of h0 t d bs))"
proof -
  have i: "in_int (s_paddr s) \<and> in_int (s_size s)" if "s \<in> set (t # d # bs)" for s
  proof -
    have "s \<in> set (filter (\<lambda>s. s_size s \<noteq> 0) ss)" using that ss(2) by simp
    then show ?thesis using coff_sections_int [OF ss(1), of s] by simp
  qed
  show "seg_int (code (noff_of h0 t d bs))" "seg_int (initData (noff_of h0 t d bs))"
    using i [of t] i [of d] k by (simp_all add: seg_int_def noff_of_def in_int_def in_file_def)
  show "seg_int (uninitData (noff_of h0 t d bs))"
    using u i [of "hd bs"] by (cases bs) (simp_all add: seg_int_def noff_of_def bss_of_def in_int_def)
qed


definition demo_scn :: "byte list \<Rightarrow> byte \<Rightarrow> byte \<Rightarrow> byte \<Rightarrow> byte list" where
  "demo_scn nm pa n ptr = nm @ [pa, 0, 0, 0, pa, 0, 0, 0, n, 0, 0, 0, ptr, 0, 0, 0] @ replicate 16 0"

definition demo_coff :: "byte list" where
  "demo_coff = [0x62, 1, 3, 0] @ replicate 16 0 @ [7, 1] @ replicate 54 0 @
     demo_scn [46, 116, 101, 120, 116, 0, 0, 0] 0 4 196 @ demo_scn [46, 100, 97, 116, 97, 0, 0, 0] 4 2 200 @
     demo_scn [46, 98, 115, 115, 0, 0, 0, 0] 8 8 0 @ [1, 2, 3, 4, 5, 6]"

definition demo_scns :: "scnhdr list" where
  "demo_scns = [\<lparr>s_name = [46, 116, 101, 120, 116, 0, 0, 0], s_paddr = 0, s_size = 4, s_scnptr = 196\<rparr>,
     \<lparr>s_name = [46, 100, 97, 116, 97, 0, 0, 0], s_paddr = 4, s_size = 2, s_scnptr = 200\<rparr>,
     \<lparr>s_name = [46, 98, 115, 115, 0, 0, 0, 0], s_paddr = 8, s_size = 8, s_scnptr = 0\<rparr>]"

lemma demo_coff_sections: "coff_sections demo_coff = Inr demo_scns"
proof -
  have "coff_Read demo_coff 0 20 = Inr ([0x62, 1, 3, 0] @ replicate 16 0)" "coff_Read demo_coff 20 56 = Inr ([7, 1] @ replicate 54 0)"
    by (simp_all add: coff_Read_def demo_coff_def demo_scn_def)
  moreover have "coff_Read demo_coff 76 120 = Inr (demo_scn [46, 116, 101, 120, 116, 0, 0, 0] 0 4 196 @ demo_scn [46, 100, 97, 116, 97, 0, 0, 0] 4 2 200 @
     demo_scn [46, 98, 115, 115, 0, 0, 0, 0] 8 8 0)"
    by (simp add: coff_Read_def demo_coff_def demo_scn_def)
  moreover have "[0..<3] = [0, 1, 2 :: nat]" by (simp add: upt_rec)
  ultimately show ?thesis
    by (simp add: coff_sections_def short_at_def MIPSELMAGIC_def OMAGIC_def scnhdr_at_def int_at_def demo_scn_def demo_scns_def)
qed


text \<open>
  Two sections that are not initialised: the program refuses those that are contiguous, and joins those that are not, contrary to its message and its comment.
\<close>

lemma bss_check_inverted:
  assumes "is_bss b" "s_size b \<noteq> 0" "seg_size (uninitData (noffH st)) \<noteq> 0"
  shows "section_step f b st = Inl BothBss \<longleftrightarrow> s_paddr b = virtualAddr (uninitData (noffH st)) + seg_size (uninitData (noffH st))"
  using assms by (simp add: step_bss Let_def)

end
