(* ===== verification/FsTest.thy ===== *)
theory FsTest
  imports FileSys
begin

text \<open>
  \<^verbatim>\<open>filesys/fstest.cc\<close>: the programs behind the options \<^verbatim>\<open>-cp\<close>, \<^verbatim>\<open>-p\<close> and \<^verbatim>\<open>-t\<close> of the kernel, over the file system. A UNIX file is the list of its bytes, or
  \<open>None\<close> if it cannot be opened; what is printed is part of the result.
\<close>

section \<open>Copying and printing\<close>

definition TransferSize :: nat where "TransferSize = 10"

datatype copy_end = NoInput | NoOutput | Copied

text \<open>\<^verbatim>\<open>while ((amountRead = fread(buffer, sizeof(char), TransferSize, fp)) > 0)\<close>; \<open>rest\<close> is what is left of the UNIX file.\<close>

function copy_loop :: "garbage \<Rightarrow> byte list \<Rightarrow> OpenFile \<Rightarrow> dsk \<Rightarrow> (OpenFile \<times> dsk) result" where
  "copy_loop g rest openFile d = (let buffer = take TransferSize rest in
     if length buffer > 0 then
       bindR (OpenFile_Write (g_byte g) openFile buffer (int (length buffer)) d) (\<lambda>(_, openFile', d'). copy_loop g (drop TransferSize rest) openFile' d')
     else Inr (openFile, d))"
  by pat_completeness auto
termination by (relation "measure (\<lambda>(g, rest, openFile, d). length rest)") (auto simp: TransferSize_def)

declare copy_loop.simps [simp del]

definition Copy :: "garbage \<Rightarrow> FileSystem \<Rightarrow> byte list option \<Rightarrow> byte list \<Rightarrow> dsk \<Rightarrow> (copy_end \<times> dsk) result" where
  "Copy g fs from to d = (case from of
     None \<Rightarrow> Inr (NoInput, d)
   | Some bs \<Rightarrow>
       bindR (FileSystem_Create g fs to (int (length bs)) d) (\<lambda>(ok, d1).
       if \<not> ok then Inr (NoOutput, d1)
       else bindR (FileSystem_Open1 g fs to d1) (\<lambda>f. case f of
         None \<Rightarrow> Inl AssertFailed
       | Some openFile \<Rightarrow> bindR (copy_loop g bs openFile d1) (\<lambda>(_, d2). Inr (Copied, d2)))))"

text \<open>A read that returns something moves the position towards the end of the file.\<close>

lemma OpenFile_Read_moves:
  "OpenFile_Read f n d = Inr (bs, f') \<Longrightarrow> bs \<noteq> [] \<Longrightarrow> hdr f' = hdr f \<and> seekPosition f < FileLength (hdr f) \<and> seekPosition f < seekPosition f'"
  by (auto simp: OpenFile_Read_def ReadAt_def Let_def bindR_eq_Inr split: if_splits)

function print_loop :: "OpenFile \<Rightarrow> dsk \<Rightarrow> byte list result" where
  "print_loop openFile d = bindR (OpenFile_Read openFile (int TransferSize) d) (\<lambda>(buffer, openFile').
     if buffer \<noteq> [] then bindR (print_loop openFile' d) (\<lambda>printed. Inr (buffer @ printed)) else Inr [])"
  by pat_completeness auto
termination
  by (relation "measure (\<lambda>(f, d). nat (FileLength (hdr f) - seekPosition f))") (auto dest!: OpenFile_Read_moves)

declare print_loop.simps [simp del]

text \<open>\<open>None\<close> is the message that the file cannot be opened.\<close>

definition Print :: "garbage \<Rightarrow> FileSystem \<Rightarrow> byte list \<Rightarrow> dsk \<Rightarrow> byte list option result" where
  "Print g fs name d = bindR (FileSystem_Open1 g fs name d) (\<lambda>f. case f of
     None \<Rightarrow> Inr None
   | Some openFile \<Rightarrow> bindR (print_loop openFile d) (\<lambda>printed. Inr (Some printed)))"

section \<open>The performance test\<close>

definition Contents :: "byte list" where "Contents = [49, 50, 51, 52, 53, 54, 55, 56, 57, 48]"
definition TestFile :: "byte list" where "TestFile = [84, 101, 115, 116, 70, 105, 108, 101]"
definition Chunks :: nat where "Chunks = 5000"  \<comment> \<open>\<^verbatim>\<open>FileSize / ContentSize\<close>\<close>

datatype perf_end = CantCreate | CantOpen | CantTransfer | Transferred

fun write_chunks :: "garbage \<Rightarrow> nat \<Rightarrow> OpenFile \<Rightarrow> dsk \<Rightarrow> (perf_end \<times> dsk) result" where
  "write_chunks g 0 openFile d = Inr (Transferred, d)"
| "write_chunks g (Suc n) openFile d =
     bindR (OpenFile_Write (g_byte g) openFile Contents (int (length Contents)) d) (\<lambda>(numBytes, openFile', d').
     if numBytes < 10 then Inr (CantTransfer, d') else write_chunks g n openFile' d')"

definition FileWrite :: "garbage \<Rightarrow> FileSystem \<Rightarrow> dsk \<Rightarrow> (perf_end \<times> dsk) result" where
  "FileWrite g fs d = bindR (FileSystem_Create g fs TestFile 0 d) (\<lambda>(ok, d1).
     if \<not> ok then Inr (CantCreate, d1)
     else bindR (FileSystem_Open1 g fs TestFile d1) (\<lambda>f. case f of
       None \<Rightarrow> Inr (CantOpen, d1)
     | Some openFile \<Rightarrow> write_chunks g Chunks openFile d1))"

fun read_chunks :: "nat \<Rightarrow> OpenFile \<Rightarrow> dsk \<Rightarrow> perf_end result" where
  "read_chunks 0 openFile d = Inr Transferred"
| "read_chunks (Suc n) openFile d = bindR (OpenFile_Read openFile (int (length Contents)) d) (\<lambda>(buffer, openFile').
     if length buffer < 10 \<or> take 10 buffer \<noteq> Contents then Inr CantTransfer else read_chunks n openFile' d)"

definition FileRead :: "garbage \<Rightarrow> FileSystem \<Rightarrow> dsk \<Rightarrow> perf_end result" where
  "FileRead g fs d = bindR (FileSystem_Open1 g fs TestFile d) (\<lambda>f. case f of
     None \<Rightarrow> Inr CantOpen
   | Some openFile \<Rightarrow> read_chunks Chunks openFile d)"

text \<open>The result says how the two halves ended and whether the file was removed.\<close>

definition PerformanceTest :: "garbage \<Rightarrow> FileSystem \<Rightarrow> dsk \<Rightarrow> (perf_end \<times> perf_end \<times> bool \<times> dsk) result" where
  "PerformanceTest g fs d = bindR (FileWrite g fs d) (\<lambda>(w, d1). bindR (FileRead g fs d1) (\<lambda>r.
     bindR (FileSystem_Remove g fs TestFile d1) (\<lambda>(ok, d2). Inr (w, r, ok, d2))))"

section \<open>What the loops do\<close>

lemma fs_Open1: "FileSystem_Open1 g fs name d = FileSystem_Open g fs name (g_type g) d"
  by (simp add: FileSystem_Open1_def FileSystem_Open_def)

lemma overwrite_next: "length bs \<le> length old \<Longrightarrow> overwrite (pre @ old) (length pre) bs = (pre @ bs) @ drop (length bs) old"
  by (simp add: overwrite_def)

lemma copy_loop_ok:
  assumes "fs_inv fs d" "dir_map (disk_dir fs d) nm = Some s" "hdr f = file_hdr d s" "seekPosition f = int (length pre)"
    and "content (file_hdr d s) d = pre @ old" "length rest = length old"
  shows "\<exists>f' d'. copy_loop g rest f d = Inr (f', d') \<and> fs_inv fs d' \<and> files fs d' = (files fs d)(nm \<mapsto> pre @ rest)"
  using assms
proof (induction g rest f d arbitrary: pre old rule: copy_loop.induct)
  case (1 g rest f d)
  note inv = "1.prems"(1) and had = "1.prems"(2)
  note h = fs_invD(2) [OF inv had] and w = sys_invD(1) [OF fs_invD(1) [OF inv]]
  have l: "length pre + length old = nat (numBytes (file_hdr d s))" using length_content [OF h w] "1.prems"(5) by simp
  let ?b = "take TransferSize rest"
  show ?case
  proof (cases "rest = []")
    case True
    have "files fs d = (files fs d)(nm \<mapsto> pre)" using had "1.prems"(5,6) True by (auto simp: files_def)
    then show ?thesis using True inv by (subst copy_loop.simps) simp
  next
    case False
    have ne: "length ?b \<noteq> 0" using False by (simp add: TransferSize_def)
    have b: "length ?b \<le> length old" "length pre < nat (numBytes (file_hdr d s))" using l "1.prems"(6) False by (simp, cases rest) simp_all
    have mb: "min (length ?b) (nat (numBytes (file_hdr d s)) - length pre) = length ?b" using b(1) l by linarith
    obtain d' where d': "WriteAt (g_byte g) (file_hdr d s) ?b (int (length ?b)) (int (length pre)) d = Inr (int (length ?b), d')" "wf_dsk d'"
      "content (file_hdr d s) d' = (pre @ ?b) @ drop (length ?b) old" "\<forall>i. i \<notin> set (secs (file_hdr d s)) \<longrightarrow> d' ! i = d ! i"
      using WriteAt_content [OF h w le_refl ne b(2)] unfolding mb "1.prems"(5) overwrite_next [OF b(1), unfolded take_all_iff]
      by (metis b(1) overwrite_next take_all order_refl)
    let ?f = "f\<lparr>seekPosition := int (length (pre @ ?b))\<rparr>"
    have r: "OpenFile_Write (g_byte g) f ?b (int (length ?b)) d = Inr (int (length ?b), ?f, d')"
      using d'(1) "1.prems"(3,4) by (simp add: OpenFile_Write_def)
    note same = write_file_same [OF inv had d'(4)] and inv' = write_file_inv [OF inv had d'(2,4)]
    have "\<exists>f' d''. copy_loop g (drop TransferSize rest) ?f d' = Inr (f', d'') \<and> fs_inv fs d'' \<and>
        files fs d'' = (files fs d')(nm \<mapsto> (pre @ ?b) @ drop TransferSize rest)"
      by (rule "1.IH" [OF refl _ r refl refl]) (use ne inv'(1) had same "1.prems"(3,6) d'(3) in \<open>auto simp: min_def\<close>)
    then show ?thesis using r ne inv'(2) by (subst copy_loop.simps) (auto simp: Let_def)
  qed
qed

lemma OpenFile_Read_ok:
  assumes "wf_hdr (hdr f)" "wf_dsk d" "seekPosition f = int p"
  shows "OpenFile_Read f (int n) d = Inr (take n (drop p (content (hdr f) d)), f\<lparr>seekPosition := int p + int (length (take n (drop p (content (hdr f) d))))\<rparr>)"
  using ReadAt_content [OF assms(1,2), of n p] assms(3) by (simp add: OpenFile_Read_def)

lemma print_loop_ok:
  assumes "wf_hdr (hdr f)" "wf_dsk d" "seekPosition f = int p"
  shows "print_loop f d = Inr (drop p (content (hdr f) d))"
  using assms
proof (induction f d arbitrary: p rule: print_loop.induct)
  case (1 f d)
  note r = OpenFile_Read_ok [OF "1.prems", of TransferSize]
  let ?b = "take TransferSize (drop p (content (hdr f) d))"
  show ?case
  proof (cases "?b = []")
    case True
    then have "drop p (content (hdr f) d) = []" by (simp add: TransferSize_def)
    then show ?thesis using r by (subst print_loop.simps) simp
  next
    case False
    have "print_loop (f\<lparr>seekPosition := int p + int (length ?b)\<rparr>) d = Inr (drop (p + length ?b) (content (hdr f) d))"
      using "1.IH" [OF r refl False, of "p + length ?b"] "1.prems"(1,2) by simp
    moreover have "?b @ drop (p + length ?b) (content (hdr f) d) = drop p (content (hdr f) d)"
      by (metis append_take_drop_id add.commute drop_drop length_take min_def take_all nat_le_linear drop_all append_Nil2)
    ultimately show ?thesis using r False by (subst print_loop.simps) simp
  qed
qed

lemma Print_file:
  assumes "fs_inv fs d" "wf_garbage g"
  shows "Print g fs name d = Inr (files fs d (dkey name))"
proof (cases "dir_map (disk_dir fs d) (dkey name)")
  case None
  then show ?thesis using fs_Open_ok [OF assms, of name] by (simp add: Print_def fs_Open1 files_def)
next
  case (Some s)
  let ?f = "\<lparr>hdr = file_hdr d s, fileID = s, ftype = g_type g, seekPosition = 0\<rparr>"
  have "print_loop ?f d = Inr (content (file_hdr d s) d)"
    using print_loop_ok [of ?f d 0] fs_invD(2) [OF assms(1) Some] sys_invD(1) [OF fs_invD(1) [OF assms(1)]] by simp
  then show ?thesis using fs_Open_ok [OF assms, of name] Some by (simp add: Print_def fs_Open1 files_def)
qed

lemma files_sector: "files fs d nm = Some c \<Longrightarrow> \<exists>s. dir_map (disk_dir fs d) nm = Some s \<and> content (file_hdr d s) d = c"
  by (auto simp: files_def)

lemma Create_new:
  assumes "fs_inv fs d" "wf_garbage g" "int N \<le> MaxFileSize"
    and "dkey name \<notin> dom (files fs d)" "card (dom (files fs d)) < 10" "needed N + card (marked (disk_map fs d)) \<le> 1024"
  shows "\<exists>d' c. FileSystem_Create g fs name (int N) d = Inr (True, d') \<and> fs_inv fs d' \<and> length c = N \<and> files fs d' = (files fs d)(dkey name \<mapsto> c)"
  using fs_Create_ok [OF assms(1,2) max_size [OF assms(3)], of name] files_room [OF assms(1)] assms(4-6) unfolding dom_files by blast

lemma Create_refused:
  assumes "fs_inv fs d" "wf_garbage g" "int N \<le> MaxFileSize"
    and "\<not> (dkey name \<notin> dom (files fs d) \<and> card (dom (files fs d)) < 10 \<and> needed N + card (marked (disk_map fs d)) \<le> 1024)"
  shows "FileSystem_Create g fs name (int N) d = Inr (False, d)"
  using files_room [OF assms(1)] assms(4) by (intro fs_Create_fails [OF assms(1,2)]) (auto simp: dom_files)

lemma Copy_ok:
  assumes inv: "fs_inv fs d" and g: "wf_garbage g" and fits: "int (length bs) \<le> MaxFileSize"
    and new: "dkey to \<notin> dom (files fs d)" "card (dom (files fs d)) < 10" "needed (length bs) + card (marked (disk_map fs d)) \<le> 1024"
  shows "\<exists>d'. Copy g fs (Some bs) to d = Inr (Copied, d') \<and> fs_inv fs d' \<and> files fs d' = (files fs d)(dkey to \<mapsto> bs)"
proof -
  obtain d1 c where d1: "FileSystem_Create g fs to (int (length bs)) d = Inr (True, d1)" "fs_inv fs d1" "length c = length bs"
    "files fs d1 = (files fs d)(dkey to \<mapsto> c)" using Create_new [OF inv g fits new] by blast
  then obtain s where s: "dir_map (disk_dir fs d1) (dkey to) = Some s" "content (file_hdr d1 s) d1 = c"
    using files_sector [of fs d1 "dkey to" c] by auto
  let ?f = "\<lparr>hdr = file_hdr d1 s, fileID = s, ftype = g_type g, seekPosition = 0\<rparr>"
  obtain f' d2 where "copy_loop g bs ?f d1 = Inr (f', d2)" "fs_inv fs d2" "files fs d2 = (files fs d1)(dkey to \<mapsto> bs)"
    using copy_loop_ok [OF d1(2) s(1), of ?f "[]" c bs g] s(2) d1(3) by auto
  then show ?thesis using d1(1,4) fs_Open_ok [OF d1(2) g, of to] s(1) by (simp add: Copy_def fs_Open1)
qed

text \<open>Nothing can be written to a file of size 0.\<close>

lemma empty_file_transfer:
  assumes "numBytes (hdr f) = 0" "seekPosition f = 0"
  shows "write_chunks g Chunks f d = Inr (CantTransfer, d)" "read_chunks Chunks f d = Inr CantTransfer"
proof -
  have c: "Chunks = Suc 4999" by (simp add: Chunks_def)
  have "write_chunks g (Suc n) f d = Inr (CantTransfer, d)" "read_chunks (Suc n) f d = Inr CantTransfer" for n
    using assms by (simp_all add: OpenFile_Write_def WriteAt_def OpenFile_Read_def ReadAt_def FileLength_def)
  then show "write_chunks g Chunks f d = Inr (CantTransfer, d)" "read_chunks Chunks f d = Inr CantTransfer" unfolding c by blast+
qed

section \<open>Properties\<close>

text \<open>
  Copying a UNIX file into a consistent file system succeeds exactly when the name is new, the directory has fewer than ten files and the disk
  has room. Then there is one more file, which holds the bytes of the UNIX file, and printing it gives exactly these bytes; otherwise nothing changes. The disk stays a
  consistent file system.
\<close>

lemma Copy_Print:
  assumes "fs_inv fs d" and "wf_garbage g" and "int (length bs) \<le> MaxFileSize"
  shows "\<exists>e d'. Copy g fs (Some bs) to d = Inr (e, d') \<and> fs_inv fs d' \<and>
    (if dkey to \<notin> dom (files fs d) \<and> card (dom (files fs d)) < 10 \<and> needed (length bs) + card (marked (disk_map fs d)) \<le> 1024
     then e = Copied \<and> files fs d' = (files fs d)(dkey to \<mapsto> bs) \<and> Print g fs to d' = Inr (Some bs)
     else e = NoOutput \<and> d' = d)"
proof (cases "dkey to \<notin> dom (files fs d) \<and> card (dom (files fs d)) < 10 \<and> needed (length bs) + card (marked (disk_map fs d)) \<le> 1024")
  case True
  then obtain d' where "Copy g fs (Some bs) to d = Inr (Copied, d')" "fs_inv fs d'" "files fs d' = (files fs d)(dkey to \<mapsto> bs)"
    using Copy_ok [OF assms, of to] by blast
  moreover from this have "Print g fs to d' = Inr (Some bs)" using Print_file [OF _ assms(2), of fs d' to] by simp
  ultimately show ?thesis using True by auto
next
  case False
  then show ?thesis using Create_refused [OF assms False] False assms(1) by (auto simp: Copy_def)
qed

text \<open>
  The performance test creates its file with size 0, and files do not grow: the first write fails, so does the first read, and the file is
  removed again. The files are what they were before.
\<close>

lemma PerformanceTest_fails:
  assumes inv: "fs_inv fs d" and g: "wf_garbage g"
    and new: "dkey TestFile \<notin> dom (files fs d)" "card (dom (files fs d)) < 10" "1 + card (marked (disk_map fs d)) \<le> 1024"
  shows "\<exists>d'. PerformanceTest g fs d = Inr (CantTransfer, CantTransfer, True, d') \<and> fs_inv fs d' \<and> files fs d' = files fs d"
proof -
  have n: "needed 0 = 1" "int 0 \<le> MaxFileSize" by (simp_all add: needed_def divRoundUp_def SectorSize_def c_div_def c_mod_def MaxFileSize_def NumDirect_def)
  obtain d1 c where d1: "FileSystem_Create g fs TestFile 0 d = Inr (True, d1)" "fs_inv fs d1" "length c = 0" "files fs d1 = (files fs d)(dkey TestFile \<mapsto> c)"
    using Create_new [OF inv g n(2) new(1,2)] new(3) n(1) by auto
  then obtain s where s: "dir_map (disk_dir fs d1) (dkey TestFile) = Some s" "content (file_hdr d1 s) d1 = c"
    using files_sector [of fs d1 "dkey TestFile" c] by auto
  have h: "wf_hdr (file_hdr d1 s)" "wf_dsk d1" using fs_invD(2) [OF d1(2) s(1)] sys_invD(1) [OF fs_invD(1) [OF d1(2)]] by auto
  then have "numBytes (file_hdr d1 s) = 0" using length_content [OF h] s(2) d1(3) by (auto simp: wf_hdr_def)
  note t = empty_file_transfer [of "\<lparr>hdr = file_hdr d1 s, fileID = s, ftype = g_type g, seekPosition = 0\<rparr>", simplified, OF this]
  obtain d2 where d2: "FileSystem_Remove g fs TestFile d1 = Inr (True, d2)" "fs_inv fs d2" "files fs d2 = (files fs d1)(dkey TestFile := None)"
    using fs_Remove_ok [OF d1(2) g s(1)] by blast
  have "files fs d2 = files fs d" using d2(3) d1(4) new(1) by auto
  then show ?thesis using d1(1) d2(1,2) t fs_Open_ok [OF d1(2) g, of TestFile] s(1) by (simp add: PerformanceTest_def FileWrite_def FileRead_def fs_Open1)
qed

end
