(* ===== verification/CommandLine.thy ===== *)
theory CommandLine
  imports FsTest
begin

text \<open>
  The command line of the kernel: the options that \<^verbatim>\<open>Initialize\<close> of \<^verbatim>\<open>threads/system.cc\<close> takes and the commands that \<^verbatim>\<open>main\<close> of \<^verbatim>\<open>threads/main.cc\<close> runs after it, for every
  set of compile time switches; the debug flags of \<^verbatim>\<open>threads/utility.cc\<close>; and the commands on the file system run one after the other. Arguments are
  byte sequences without the zero at the end, and the list of arguments is without the name of the program. Numbers (\<^verbatim>\<open>atoi\<close>, \<^verbatim>\<open>atof\<close>) are kept as they are written.
\<close>

definition opt :: "string \<Rightarrow> byte list" where "opt s = map (\<lambda>c. of_nat (of_char c)) s"

text \<open>The switches \<^verbatim>\<open>THREADS\<close>, \<^verbatim>\<open>USER_PROGRAM\<close>, \<^verbatim>\<open>FILESYS_NEEDED\<close>, \<^verbatim>\<open>FILESYS\<close> and \<^verbatim>\<open>NETWORK\<close> of the makefiles.\<close>

record build =
  THREADS :: bool
  USER_PROGRAM :: bool
  FILESYS_NEEDED :: bool
  FILESYS :: bool
  NETWORK :: bool

section \<open>Options\<close>

record options =
  debugArgs :: "byte list"
  randomYield :: "byte list option"  \<comment> \<open>with the argument of \<^verbatim>\<open>RandomInit\<close>\<close>
  debugUserProg :: bool
  formatDisk :: bool
  rely :: "byte list option"
  netname :: "byte list option"

definition no_options :: options where
  "no_options = \<lparr>debugArgs = [], randomYield = None, debugUserProg = False, formatDisk = False, rely = None, netname = None\<rparr>"

text \<open>A round of the loop: the number of arguments it takes and the options after it.\<close>

definition debug_option :: "byte list \<Rightarrow> byte list list \<Rightarrow> options \<Rightarrow> (nat \<times> options) result" where
  "debug_option a rest os =
     (if a = opt ''-d'' then (case rest of [] \<Rightarrow> Inr (1, os\<lparr>debugArgs := opt ''+''\<rparr>) | x # _ \<Rightarrow> Inr (2, os\<lparr>debugArgs := x\<rparr>))
      else if a = opt ''-rs'' then bindR (ASSERT (rest \<noteq> [])) (\<lambda>_. Inr (2, os\<lparr>randomYield := Some (hd rest)\<rparr>))
      else Inr (1, os))"

definition network_option :: "byte list \<Rightarrow> byte list list \<Rightarrow> nat \<Rightarrow> options \<Rightarrow> (nat \<times> options) result" where
  "network_option a rest n os =
     (if a = opt ''-l'' then bindR (ASSERT (rest \<noteq> [])) (\<lambda>_. Inr (2, os\<lparr>rely := Some (hd rest)\<rparr>))
      else if a = opt ''-m'' then bindR (ASSERT (rest \<noteq> [])) (\<lambda>_. Inr (2, os\<lparr>netname := Some (hd rest)\<rparr>))
      else Inr (n, os))"

definition option_round :: "build \<Rightarrow> byte list \<Rightarrow> byte list list \<Rightarrow> options \<Rightarrow> (nat \<times> options) result" where
  "option_round b a rest os =
     bindR (debug_option a rest os) (\<lambda>(n, o1).
     let o2 = (if USER_PROGRAM b \<and> a = opt ''-s'' then o1\<lparr>debugUserProg := True\<rparr> else o1);
         o3 = (if FILESYS_NEEDED b \<and> a = opt ''-f'' then o2\<lparr>formatDisk := True\<rparr> else o2) in
     if NETWORK b then network_option a rest n o3 else Inr (n, o3))"

lemma option_round_takes: "option_round b a rest os = Inr (n, o') \<Longrightarrow> 0 < n"
  by (auto simp: option_round_def debug_option_def network_option_def bindR_eq_Inr Let_def split: if_splits list.splits)

function parse_options :: "build \<Rightarrow> byte list list \<Rightarrow> options \<Rightarrow> options result" where
  "parse_options b [] os = Inr os"
| "parse_options b (a # rest) os = bindR (option_round b a rest os) (\<lambda>(n, o'). parse_options b (drop n (a # rest)) o')"
  by pat_completeness auto
termination
  by (relation "measure (\<lambda>(b, args, os). length args)") (auto dest: option_round_takes)

section \<open>Commands\<close>

datatype fs_command = CopyC "byte list" "byte list" | PrintC "byte list" | RemoveC "byte list" | ListC | DumpC | PerformanceC

datatype command = CopyrightC | StartProcessC "byte list" | ConsoleTestC "(byte list \<times> byte list) option" | HaltC | FsC fs_command | MailTestC "byte list"

definition user_command :: "byte list \<Rightarrow> byte list list \<Rightarrow> (nat \<times> command list) result" where
  "user_command a rest =
     (if a = opt ''-x'' then bindR (ASSERT (rest \<noteq> [])) (\<lambda>_. Inr (2, [StartProcessC (hd rest)]))
      else if a = opt ''-c'' then
        (if rest = [] then Inr (1, [ConsoleTestC None, HaltC])
         else bindR (ASSERT (length rest \<ge> 2)) (\<lambda>_. Inr (3, [ConsoleTestC (Some (rest ! 0, rest ! 1)), HaltC])))
      else Inr (1, []))"

definition filesys_command :: "byte list \<Rightarrow> byte list list \<Rightarrow> nat \<Rightarrow> (nat \<times> command list) result" where
  "filesys_command a rest n =
     (if a = opt ''-cp'' then bindR (ASSERT (length rest \<ge> 2)) (\<lambda>_. Inr (3, [FsC (CopyC (rest ! 0) (rest ! 1))]))
      else if a = opt ''-p'' then bindR (ASSERT (rest \<noteq> [])) (\<lambda>_. Inr (2, [FsC (PrintC (hd rest))]))
      else if a = opt ''-r'' then bindR (ASSERT (rest \<noteq> [])) (\<lambda>_. Inr (2, [FsC (RemoveC (hd rest))]))
      else if a = opt ''-l'' then Inr (n, [FsC ListC])
      else if a = opt ''-D'' then Inr (n, [FsC DumpC])
      else if a = opt ''-t'' then Inr (n, [FsC PerformanceC])
      else Inr (n, []))"

definition mail_command :: "byte list \<Rightarrow> byte list list \<Rightarrow> nat \<Rightarrow> (nat \<times> command list) result" where
  "mail_command a rest n = (if a = opt ''-o'' then bindR (ASSERT (rest \<noteq> [])) (\<lambda>_. Inr (2, [MailTestC (hd rest)])) else Inr (n, []))"

definition command_round :: "build \<Rightarrow> byte list \<Rightarrow> byte list list \<Rightarrow> (nat \<times> command list) result" where
  "command_round b a rest =
     bindR (if USER_PROGRAM b then user_command a rest else Inr (1, [])) (\<lambda>(n1, c1).
     bindR (if FILESYS b then filesys_command a rest n1 else Inr (n1, [])) (\<lambda>(n2, c2).
     bindR (if NETWORK b then mail_command a rest n2 else Inr (n2, [])) (\<lambda>(n3, c3).
     Inr (n3, (if a = opt ''-z'' then [CopyrightC] else []) @ c1 @ c2 @ c3))))"

lemma command_round_takes: "command_round b a rest = Inr (n, cs) \<Longrightarrow> 0 < n"
  by (auto simp: command_round_def user_command_def filesys_command_def mail_command_def bindR_eq_Inr split: if_splits)

function parse_commands :: "build \<Rightarrow> byte list list \<Rightarrow> command list result" where
  "parse_commands b [] = Inr []"
| "parse_commands b (a # rest) = bindR (command_round b a rest) (\<lambda>(n, cs). bindR (parse_commands b (drop n (a # rest))) (\<lambda>cs'. Inr (cs @ cs')))"
  by pat_completeness auto
termination
  by (relation "measure (\<lambda>(b, args). length args)") (auto dest: command_round_takes)

text \<open>
  The loop of the thread test, which looks at the second character of each argument; the result is the argument of \<^verbatim>\<open>-q\<close>, \<open>None\<close> for the test number 1. A string of
  length 0 has no second character, and after the last argument there is a null pointer.
\<close>

fun thread_options :: "byte list list \<Rightarrow> byte list option \<Rightarrow> byte list option result" where
  "thread_options [] t = Inr t"
| "thread_options (a # rest) t =
     (if a = [] then Inl OutOfBounds
      else if length a \<ge> 2 \<and> a ! 1 = 113 then (case rest of [] \<Rightarrow> Inl BadPointer | x # rest' \<Rightarrow> thread_options rest' (Some x))
      else thread_options rest None)"

text \<open>
  \<^verbatim>\<open>main\<close>: the options, the number of the thread test if there is one, and the commands. The loop of the thread test ends when no argument is left, and the loop over the
  commands goes on from there.
\<close>

definition kernel_main :: "build \<Rightarrow> byte list list \<Rightarrow> (options \<times> byte list option option \<times> command list) result" where
  "kernel_main b args =
     bindR (parse_options b args no_options) (\<lambda>os.
     if THREADS b then bindR (thread_options args None) (\<lambda>t. bindR (parse_commands b []) (\<lambda>cs. Inr (os, Some t, cs)))
     else bindR (parse_commands b args) (\<lambda>cs. Inr (os, None, cs)))"

section \<open>Debug flags\<close>

definition DebugInit :: "byte list \<Rightarrow> byte list option" where "DebugInit flagList = Some flagList"

text \<open>\<^verbatim>\<open>strchr\<close> finds the zero at the end of the string, too.\<close>

definition DebugIsEnabled :: "byte list option \<Rightarrow> byte \<Rightarrow> bool" where
  "DebugIsEnabled enableFlags flag = (case enableFlags of None \<Rightarrow> False | Some fs \<Rightarrow> flag \<in> set (fs @ [0]) \<or> 43 \<in> set (fs @ [0]))"

section \<open>The commands on the file system\<close>

datatype fs_output = CopyOut copy_end | PrintOut "byte list option" | RemoveOut bool | ListOut "byte list list"
  | DumpOut "(int \<times> int list \<times> string list) \<times> (int \<times> int list \<times> string list) \<times> int list \<times> (byte list \<times> int \<times> int \<times> int list \<times> string list) list"
  | PerformanceOut perf_end perf_end bool

text \<open>\<open>unix\<close> are the files of the host.\<close>

fun run_fs_command :: "garbage \<Rightarrow> FileSystem \<Rightarrow> (byte list \<rightharpoonup> byte list) \<Rightarrow> fs_command \<Rightarrow> dsk \<Rightarrow> (fs_output \<times> dsk) result" where
  "run_fs_command g fs unix (CopyC from to) d = bindR (Copy g fs (unix from) to d) (\<lambda>(e, d'). Inr (CopyOut e, d'))"
| "run_fs_command g fs unix (PrintC name) d = bindR (Print g fs name d) (\<lambda>p. Inr (PrintOut p, d))"
| "run_fs_command g fs unix (RemoveC name) d = bindR (FileSystem_Remove g fs name d) (\<lambda>(ok, d'). Inr (RemoveOut ok, d'))"
| "run_fs_command g fs unix ListC d = bindR (FileSystem_List g fs d) (\<lambda>l. Inr (ListOut l, d))"
| "run_fs_command g fs unix DumpC d = bindR (FileSystem_Print g fs d) (\<lambda>p. Inr (DumpOut p, d))"
| "run_fs_command g fs unix PerformanceC d = bindR (PerformanceTest g fs d) (\<lambda>(w, r, ok, d'). Inr (PerformanceOut w r ok, d'))"

fun run_fs_commands :: "garbage \<Rightarrow> FileSystem \<Rightarrow> (byte list \<rightharpoonup> byte list) \<Rightarrow> fs_command list \<Rightarrow> dsk \<Rightarrow> (fs_output list \<times> dsk) result" where
  "run_fs_commands g fs unix [] d = Inr ([], d)"
| "run_fs_commands g fs unix (c # cs) d = bindR (run_fs_command g fs unix c d) (\<lambda>(x, d1). bindR (run_fs_commands g fs unix cs d1) (\<lambda>(xs, d2). Inr (x # xs, d2)))"

section \<open>What the command line does\<close>

text \<open>The states of an abstract file system, a map from names to contents, before and after a command, with its output.\<close>

fun abs_command :: "(byte list \<rightharpoonup> byte list) \<Rightarrow> fs_command \<Rightarrow> fs_output \<Rightarrow> (byte list \<rightharpoonup> byte list) \<Rightarrow> (byte list \<rightharpoonup> byte list) \<Rightarrow> bool" where
  "abs_command unix (CopyC from to) x m m' = (case unix from of
     None \<Rightarrow> x = CopyOut NoInput \<and> m' = m
   | Some bs \<Rightarrow> x = CopyOut Copied \<and> dkey to \<notin> dom m \<and> m' = m(dkey to \<mapsto> bs) \<or> x = CopyOut NoOutput \<and> m' = m)"
| "abs_command unix (PrintC name) x m m' = (x = PrintOut (m (dkey name)) \<and> m' = m)"
| "abs_command unix (RemoveC name) x m m' = (x = RemoveOut (dkey name \<in> dom m) \<and> m' = m(dkey name := None))"
| "abs_command unix _ x m m' = False"

fun abs_commands :: "(byte list \<rightharpoonup> byte list) \<Rightarrow> fs_command list \<Rightarrow> fs_output list \<Rightarrow> (byte list \<rightharpoonup> byte list) \<Rightarrow> (byte list \<rightharpoonup> byte list) \<Rightarrow> bool" where
  "abs_commands unix [] xs m m' = (xs = [] \<and> m' = m)"
| "abs_commands unix (c # cs) xs m m' = (case xs of [] \<Rightarrow> False | x # xs' \<Rightarrow> \<exists>m1. abs_command unix c x m m1 \<and> abs_commands unix cs xs' m1 m')"

definition transfers :: "fs_command \<Rightarrow> bool" where
  "transfers c \<longleftrightarrow> (case c of CopyC _ _ \<Rightarrow> True | PrintC _ \<Rightarrow> True | RemoveC _ \<Rightarrow> True | _ \<Rightarrow> False)"

lemma run_command_ok:
  assumes inv: "fs_inv fs d" and g: "wf_garbage g" and u: "\<forall>f bs. unix f = Some bs \<longrightarrow> int (length bs) \<le> MaxFileSize" and c: "transfers c"
  shows "\<exists>x d'. run_fs_command g fs unix c d = Inr (x, d') \<and> fs_inv fs d' \<and> abs_command unix c x (files fs d) (files fs d')"
proof (cases c)
  case (CopyC src to)
  show ?thesis
  proof (cases "unix src")
    case None
    then show ?thesis using CopyC inv by (simp add: Copy_def)
  next
    case (Some bs)
    then have fits: "int (length bs) \<le> MaxFileSize" using u by blast
    show ?thesis
    proof (cases "dkey to \<notin> dom (files fs d) \<and> card (dom (files fs d)) < 10 \<and> needed (length bs) + card (marked (disk_map fs d)) \<le> 1024")
      case True
      then show ?thesis using Copy_ok [OF inv g fits, of to] CopyC Some by auto
    next
      case False
      then show ?thesis using Create_refused [OF inv g fits False] CopyC Some inv by (simp add: Copy_def)
    qed
  qed
next
  case (PrintC name)
  then show ?thesis using Print_file [OF inv g, of name] inv by simp
next
  case (RemoveC name)
  show ?thesis
  proof (cases "dir_map (disk_dir fs d) (dkey name)")
    case None
    then have "dkey name \<notin> dom (files fs d)" by (auto simp: dom_files)
    then show ?thesis using fs_Remove_fails [OF inv g None] RemoveC inv by (auto simp: fun_upd_idem_iff domIff)
  next
    case (Some s)
    then have "dkey name \<in> dom (files fs d)" by (auto simp: dom_files)
    then show ?thesis using fs_Remove_ok [OF inv g Some] RemoveC by auto
  qed
qed (use c in \<open>simp_all add: transfers_def\<close>)

lemma run_commands_ok:
  assumes "wf_garbage g" and "\<forall>f bs. unix f = Some bs \<longrightarrow> int (length bs) \<le> MaxFileSize"
  shows "fs_inv fs d \<Longrightarrow> \<forall>c \<in> set cs. transfers c \<Longrightarrow>
    \<exists>xs d'. run_fs_commands g fs unix cs d = Inr (xs, d') \<and> fs_inv fs d' \<and> abs_commands unix cs xs (files fs d) (files fs d')"
proof (induction cs arbitrary: d)
  case (Cons c cs)
  obtain x d1 where d1: "run_fs_command g fs unix c d = Inr (x, d1)" "fs_inv fs d1" "abs_command unix c x (files fs d) (files fs d1)"
    using run_command_ok [OF Cons.prems(1) assms, of c] Cons.prems(2) by fastforce
  obtain xs d2 where d2: "run_fs_commands g fs unix cs d1 = Inr (xs, d2)" "fs_inv fs d2" "abs_commands unix cs xs (files fs d1) (files fs d2)"
    using Cons.IH [OF d1(2)] Cons.prems(2) by auto
  then show ?case using d1 by auto
qed simp


lemma opt_inj [simp]: "opt s = opt t \<longleftrightarrow> s = t"
proof
  have "unat (of_nat (of_char c) :: byte) = of_char c" for c :: char by (simp add: unat_of_nat)
  then have i: "inj (\<lambda>c :: char. of_nat (of_char c) :: byte)" by (intro injI) (metis of_char_eq_iff)
  show "opt s = opt t \<Longrightarrow> s = t" unfolding opt_def using map_injective [OF _ i] .
qed simp

text \<open>A build with \<^verbatim>\<open>THREADS\<close>, as in \<^verbatim>\<open>filesys/Makefile\<close>, runs no command; in a build with the network, \<^verbatim>\<open>-l\<close> alone stops at an assertion instead of listing the directory.\<close>

lemma threads_no_commands: "THREADS b \<Longrightarrow> kernel_main b args = Inr (os, t, cs) \<Longrightarrow> cs = []"
  by (auto simp: kernel_main_def bindR_eq_Inr)

lemma network_no_list: "NETWORK b \<Longrightarrow> kernel_main b [opt ''-l''] = Inl AssertFailed"
  by (simp add: kernel_main_def option_round_def debug_option_def network_option_def ASSERT_def)

lemma copy_print_args: "FILESYS b \<Longrightarrow> parse_commands b [opt ''-cp'', from, to, opt ''-p'', to] = Inr (map FsC [CopyC from to, PrintC to])"
  by (simp add: command_round_def user_command_def filesys_command_def mail_command_def ASSERT_def)

lemma debug_flags: "DebugIsEnabled (DebugInit (opt ''+'')) c" "DebugIsEnabled (DebugInit (debugArgs no_options)) c \<longleftrightarrow> c = 0" "\<not> DebugIsEnabled None c"
  by (simp_all add: DebugIsEnabled_def DebugInit_def no_options_def opt_def)


end
