(* ===== verification/Interp.thy ===== *)
theory Interp
  imports MipsSim
begin

text \<open>
  The stand-alone MIPS interpreter of \<^verbatim>\<open>bin/execute.c\<close>, with the instruction formats of \<^verbatim>\<open>bin/instr.h\<close>, the opcodes of \<^verbatim>\<open>bin/encode.h\<close> and the memory of
  \<^verbatim>\<open>bin/int.h\<close>, and its comparison with the simulator of the kernel (theory \<open>MipsSim\<close>). Registers are 32-bit words, whose arithmetic wraps as on the hosts the program is for; the host is
  little endian. What C leaves to the host, a division by zero, a shift by 32 or more, an address that is not aligned or outside the memory, is the outcome \<open>Undef\<close>. The system calls
  (\<^verbatim>\<open>bin/system.c\<close>) are calls of the host: the interpreter stops there with \<open>Traps\<close>. Trace output is left out.
\<close>

section \<open>Formats and opcodes\<close>

definition f_rd :: "u32 \<Rightarrow> nat" where "f_rd i = unat (drop_bit 11 i AND 0x1f)"
definition f_rt :: "u32 \<Rightarrow> nat" where "f_rt i = unat (drop_bit 16 i AND 0x1f)"
definition f_rs :: "u32 \<Rightarrow> nat" where "f_rs i = unat (drop_bit 21 i AND 0x1f)"
definition shamt :: "u32 \<Rightarrow> nat" where "shamt i = unat (drop_bit 6 i AND 0x1f)"
definition immed :: "u32 \<Rightarrow> u32" where "immed i = (if i AND 0x8000 \<noteq> 0 then i OR (- 0x8000) else i AND 0x7fff)"

text \<open>The opcodes in octal in the source; \<open>SPECIAL\<close> and \<open>BCOND\<close> stand for \<^verbatim>\<open>I_SPECIAL\<close> and \<^verbatim>\<open>I_BCOND\<close>, \<open>OP_UNIMP\<close> for the coprocessor instructions, \<open>OP_RES\<close> for the rest.\<close>

definition normal_op :: "nat \<Rightarrow> mips_op" where
  "normal_op k =
     (if k = 0 then SPECIAL else if k = 1 then BCOND else if k = 2 then OP_J else if k = 3 then OP_JAL
      else if k = 4 then OP_BEQ else if k = 5 then OP_BNE else if k = 6 then OP_BLEZ else if k = 7 then OP_BGTZ
      else if k = 8 then OP_ADDI else if k = 9 then OP_ADDIU else if k = 10 then OP_SLTI else if k = 11 then OP_SLTIU
      else if k = 12 then OP_ANDI else if k = 13 then OP_ORI else if k = 14 then OP_XORI else if k = 15 then OP_LUI
      else if 16 \<le> k \<and> k \<le> 19 then OP_UNIMP
      else if k = 32 then OP_LB else if k = 33 then OP_LH else if k = 34 then OP_LWL else if k = 35 then OP_LW
      else if k = 36 then OP_LBU else if k = 37 then OP_LHU else if k = 38 then OP_LWR
      else if k = 40 then OP_SB else if k = 41 then OP_SH else if k = 42 then OP_SWL else if k = 43 then OP_SW else if k = 46 then OP_SWR
      else if 48 \<le> k \<and> k \<le> 51 then OP_UNIMP else if 56 \<le> k \<and> k \<le> 59 then OP_UNIMP
      else OP_RES)"

definition I_BREAK :: nat where "I_BREAK = 13"

definition special_op :: "nat \<Rightarrow> mips_op" where
  "special_op k =
     (if k = 0 then OP_SLL else if k = 2 then OP_SRL else if k = 3 then OP_SRA else if k = 4 then OP_SLLV
      else if k = 6 then OP_SRLV else if k = 7 then OP_SRAV else if k = 8 then OP_JR else if k = 9 then OP_JALR
      else if k = 12 then OP_SYSCALL
      else if k = 16 then OP_MFHI else if k = 17 then OP_MTHI else if k = 18 then OP_MFLO else if k = 19 then OP_MTLO
      else if k = 24 then OP_MULT else if k = 25 then OP_MULTU else if k = 26 then OP_DIV else if k = 27 then OP_DIVU
      else if k = 32 then OP_ADD else if k = 33 then OP_ADDU else if k = 34 then OP_SUB else if k = 35 then OP_SUBU
      else if k = 36 then OP_AND else if k = 37 then OP_OR else if k = 38 then OP_XOR else if k = 39 then OP_NOR
      else if k = 42 then OP_SLT else if k = 43 then OP_SLTU
      else OP_RES)"

definition bcond_op :: "nat \<Rightarrow> mips_op" where
  "bcond_op k = (if k = 0 then OP_BLTZ else if k = 1 then OP_BGEZ else if k = 16 then OP_BLTZAL else if k = 17 then OP_BGEZAL else OP_UNIMP)"

text \<open>The three nested switches; \<open>None\<close> is \<^verbatim>\<open>I_BREAK\<close>.\<close>

definition switch :: "u32 \<Rightarrow> mips_op option" where
  "switch instr = (let opc = unat (drop_bit 26 instr AND 0x3f); f = unat (instr AND 0x3f) in
     if normal_op opc = SPECIAL then (if f = I_BREAK then None else Some (special_op f))
     else if normal_op opc = BCOND then Some (bcond_op (f_rt instr))
     else Some (normal_op opc))"

section \<open>The state and memory\<close>

definition MEMSIZE :: nat where "MEMSIZE = 2 ^ 24"
definition memoffset :: u32 where "memoffset = 0x10000000"

record istate =
  Reg :: "u32 list"
  HI :: u32
  LO :: u32
  ipc :: u32
  inpc :: u32
  imem :: "byte list"

datatype iout = Next istate | Exits int | Traps istate | Undef

definition fetch_n :: "nat \<Rightarrow> byte list \<Rightarrow> u32 \<Rightarrow> nat result" where
  "fetch_n n mem addr = (if unat addr mod n \<noteq> 0 then Inl HostTrap
     else bindR (mem_read mem (unat (addr - memoffset)) n) (\<lambda>bs. Inr (bytes_value bs)))"

definition store_n :: "nat \<Rightarrow> byte list \<Rightarrow> u32 \<Rightarrow> u32 \<Rightarrow> byte list result" where
  "store_n n mem addr v = (if unat addr mod n \<noteq> 0 then Inl HostTrap
     else mem_write mem (unat (addr - memoffset)) (value_bytes n (unat v)))"

definition R :: "istate \<Rightarrow> nat \<Rightarrow> u32" where "R s r = Reg s ! r"

definition put :: "nat \<Rightarrow> u32 \<Rightarrow> istate \<Rightarrow> iout" where
  "put r v s = Next (s\<lparr>Reg := (Reg s)[r := v]\<rparr>)"

definition load_to :: "nat \<Rightarrow> nat \<Rightarrow> u32 \<Rightarrow> (nat \<Rightarrow> u32) \<Rightarrow> istate \<Rightarrow> iout" where
  "load_to r n addr conv s = (case fetch_n n (imem s) addr of Inl e \<Rightarrow> Undef | Inr v \<Rightarrow> put r (conv v) s)"

definition store_from :: "nat \<Rightarrow> u32 \<Rightarrow> u32 \<Rightarrow> istate \<Rightarrow> iout" where
  "store_from n addr v s = (case store_n n (imem s) addr v of Inl e \<Rightarrow> Undef | Inr mem \<Rightarrow> Next (s\<lparr>imem := mem\<rparr>))"

definition goto_if :: "bool \<Rightarrow> u32 \<Rightarrow> u32 \<Rightarrow> istate \<Rightarrow> iout" where
  "goto_if c xpc instr s = Next (if c then s\<lparr>inpc := xpc + 4 + push_bit 2 (immed instr)\<rparr> else s)"

definition link_to :: "nat \<Rightarrow> u32 \<Rightarrow> istate \<Rightarrow> istate" where
  "link_to r xpc s = s\<lparr>Reg := (Reg s)[r := xpc + 8]\<rparr>"

definition jump :: "u32 \<Rightarrow> u32 \<Rightarrow> istate \<Rightarrow> iout" where
  "jump xpc instr s = Next (s\<lparr>inpc := (xpc AND 0xf0000000) OR push_bit 2 (instr AND 0x03ffffff)\<rparr>)"

definition shifted :: "(nat \<Rightarrow> u32 \<Rightarrow> u32) \<Rightarrow> u32 \<Rightarrow> istate \<Rightarrow> iout" where
  "shifted sh instr s = (if unat (R s (f_rs instr)) < 32 then put (f_rd instr) (sh (unat (R s (f_rs instr))) (R s (f_rt instr))) s else Undef)"

section \<open>One instruction\<close>

text \<open>The high word of a product, from the four products of halves.\<close>

definition mul_hi :: "u32 \<Rightarrow> u32 \<Rightarrow> u32" where
  "mul_hi t1 t2 = (let t1l = t1 AND 0xffff; t1h = signed_drop_bit 16 t1 AND 0xffff; t2l = t2 AND 0xffff; t2h = signed_drop_bit 16 t2 AND 0xffff in
     t1h * t2h + signed_drop_bit 16 (t1h * t2l) + signed_drop_bit 16 (t2h * t1l))"

definition run_mult :: "u32 \<Rightarrow> istate \<Rightarrow> iout" where
  "run_mult instr s = (let a = R s (f_rs instr); b = R s (f_rt instr);
       t1 = (if sint a < 0 then - a else a); t2 = (if sint b < 0 then - b else b);
       neg = ((sint a < 0) \<noteq> (sint b < 0)); lo = t1 * t2; hi = mul_hi t1 t2 in
     if neg then let lo' = NOT lo + 1 in Next (s\<lparr>LO := lo', HI := (if lo' = 0 then NOT hi + 1 else NOT hi)\<rparr>)
     else Next (s\<lparr>LO := lo, HI := hi\<rparr>))"

definition run_multu :: "u32 \<Rightarrow> istate \<Rightarrow> iout" where
  "run_multu instr s = (let t1 = R s (f_rs instr); t2 = R s (f_rt instr) in Next (s\<lparr>LO := t1 * t2, HI := mul_hi t1 t2\<rparr>))"

definition run_div :: "u32 \<Rightarrow> istate \<Rightarrow> iout" where
  "run_div instr s = (let a = R s (f_rs instr); b = R s (f_rt instr) in
     if b = 0 \<or> sint a = - (2 ^ 31) \<and> sint b = -1 then Undef
     else Next (s\<lparr>LO := word_of_int (c_div (sint a) (sint b)), HI := word_of_int (c_mod (sint a) (sint b))\<rparr>))"

definition run_divu :: "u32 \<Rightarrow> istate \<Rightarrow> iout" where
  "run_divu instr s = (let a = R s (f_rs instr); b = R s (f_rt instr) in
     if b = 0 then Undef else Next (s\<lparr>LO := a div b, HI := a mod b\<rparr>))"

text \<open>\<^verbatim>\<open>-1 >> n\<close> is \<open>-1\<close> for every \<open>n\<close>.\<close>

definition run_lwl :: "u32 \<Rightarrow> istate \<Rightarrow> iout" where
  "run_lwl instr s = (let i = R s (f_rs instr) + immed instr; r = f_rt instr;
       old = R s r AND signed_drop_bit (8 * unat ((- i) AND 3)) (- 1) in
     load_to r 4 (i AND 0xfffffffc) (\<lambda>v. old OR push_bit (8 * unat (i AND 3)) (of_nat v)) s)"

definition run_lwr :: "u32 \<Rightarrow> istate \<Rightarrow> iout" where
  "run_lwr instr s = (let i = R s (f_rs instr) + immed instr; r = f_rt instr;
       old = (if i AND 3 = 0 then 0 else R s r AND push_bit (8 * unat (i AND 3)) (- 1)) in
     load_to r 4 (i AND 0xfffffffc) (\<lambda>v. old OR signed_drop_bit (8 * unat ((- i) AND 3)) (of_nat v)) s)"

primrec run_op :: "mips_op \<Rightarrow> u32 \<Rightarrow> u32 \<Rightarrow> istate \<Rightarrow> iout" where
  "run_op OP_SLL w xpc s = put (f_rd w) (push_bit (shamt w) (R s (f_rt w))) s"
| "run_op OP_SRL w xpc s = put (f_rd w) (drop_bit (shamt w) (R s (f_rt w))) s"
| "run_op OP_SRA w xpc s = put (f_rd w) (signed_drop_bit (shamt w) (R s (f_rt w))) s"
| "run_op OP_SLLV w xpc s = shifted push_bit w s"
| "run_op OP_SRLV w xpc s = shifted drop_bit w s"
| "run_op OP_SRAV w xpc s = shifted signed_drop_bit w s"
| "run_op OP_JR w xpc s = Next (s\<lparr>inpc := R s (f_rs w)\<rparr>)"
| "run_op OP_JALR w xpc s = Next (link_to (f_rd w) xpc (s\<lparr>inpc := R s (f_rs w)\<rparr>))"
| "run_op OP_SYSCALL w xpc s = Traps s"
| "run_op OP_MFHI w xpc s = put (f_rd w) (HI s) s"
| "run_op OP_MTHI w xpc s = Next (s\<lparr>HI := R s (f_rs w)\<rparr>)"
| "run_op OP_MFLO w xpc s = put (f_rd w) (LO s) s"
| "run_op OP_MTLO w xpc s = Next (s\<lparr>LO := R s (f_rs w)\<rparr>)"
| "run_op OP_MULT w xpc s = run_mult w s"
| "run_op OP_MULTU w xpc s = run_multu w s"
| "run_op OP_DIV w xpc s = run_div w s"
| "run_op OP_DIVU w xpc s = run_divu w s"
| "run_op OP_ADD w xpc s = put (f_rd w) (R s (f_rs w) + R s (f_rt w)) s"
| "run_op OP_ADDU w xpc s = put (f_rd w) (R s (f_rs w) + R s (f_rt w)) s"
| "run_op OP_SUB w xpc s = put (f_rd w) (R s (f_rs w) - R s (f_rt w)) s"
| "run_op OP_SUBU w xpc s = put (f_rd w) (R s (f_rs w) - R s (f_rt w)) s"
| "run_op OP_AND w xpc s = put (f_rd w) (R s (f_rs w) AND R s (f_rt w)) s"
| "run_op OP_OR w xpc s = put (f_rd w) (R s (f_rs w) OR R s (f_rt w)) s"
| "run_op OP_XOR w xpc s = put (f_rd w) (R s (f_rs w) XOR R s (f_rt w)) s"
| "run_op OP_NOR w xpc s = put (f_rd w) (NOT (R s (f_rs w) OR R s (f_rt w))) s"
| "run_op OP_SLT w xpc s = put (f_rd w) (bool_word (sint (R s (f_rs w)) < sint (R s (f_rt w)))) s"
| "run_op OP_SLTU w xpc s = put (f_rd w) (bool_word (R s (f_rs w) < R s (f_rt w))) s"
| "run_op OP_BLTZ w xpc s = goto_if (sint (R s (f_rs w)) < 0) xpc w s"
| "run_op OP_BGEZ w xpc s = goto_if (sint (R s (f_rs w)) \<ge> 0) xpc w s"
| "run_op OP_BLTZAL w xpc s = (let s' = link_to 31 xpc s in goto_if (sint (R s' (f_rs w)) < 0) xpc w s')"
| "run_op OP_BGEZAL w xpc s = (let s' = link_to 31 xpc s in goto_if (sint (R s' (f_rs w)) \<ge> 0) xpc w s')"
| "run_op OP_J w xpc s = jump xpc w s"
| "run_op OP_JAL w xpc s = jump xpc w (link_to 31 xpc s)"
| "run_op OP_BEQ w xpc s = goto_if (R s (f_rs w) = R s (f_rt w)) xpc w s"
| "run_op OP_BNE w xpc s = goto_if (R s (f_rs w) \<noteq> R s (f_rt w)) xpc w s"
| "run_op OP_BLEZ w xpc s = goto_if (sint (R s (f_rs w)) \<le> 0) xpc w s"
| "run_op OP_BGTZ w xpc s = goto_if (sint (R s (f_rs w)) > 0) xpc w s"
| "run_op OP_ADDI w xpc s = put (f_rt w) (R s (f_rs w) + immed w) s"
| "run_op OP_ADDIU w xpc s = put (f_rt w) (R s (f_rs w) + immed w) s"
| "run_op OP_SLTI w xpc s = put (f_rt w) (bool_word (sint (R s (f_rs w)) < sint (immed w))) s"
| "run_op OP_SLTIU w xpc s = put (f_rt w) (bool_word (R s (f_rs w) < immed w)) s"
| "run_op OP_ANDI w xpc s = put (f_rt w) (R s (f_rs w) AND immed w) s"
| "run_op OP_ORI w xpc s = put (f_rt w) (R s (f_rs w) OR immed w) s"
| "run_op OP_XORI w xpc s = put (f_rt w) (R s (f_rs w) XOR immed w) s"
| "run_op OP_LUI w xpc s = put (f_rt w) (push_bit 16 w) s"
| "run_op OP_LB w xpc s = load_to (f_rt w) 1 (R s (f_rs w) + immed w) (\<lambda>v. scast (of_nat v :: byte)) s"
| "run_op OP_LH w xpc s = load_to (f_rt w) 2 (R s (f_rs w) + immed w) (\<lambda>v. scast (of_nat v :: 16 word)) s"
| "run_op OP_LWL w xpc s = run_lwl w s"
| "run_op OP_LW w xpc s = load_to (f_rt w) 4 (R s (f_rs w) + immed w) of_nat s"
| "run_op OP_LBU w xpc s = load_to (f_rt w) 1 (R s (f_rs w) + immed w) of_nat s"
| "run_op OP_LHU w xpc s = load_to (f_rt w) 2 (R s (f_rs w) + immed w) of_nat s"
| "run_op OP_LWR w xpc s = run_lwr w s"
| "run_op OP_SB w xpc s = store_from 1 (R s (f_rs w) + immed w) (R s (f_rt w)) s"
| "run_op OP_SH w xpc s = store_from 2 (R s (f_rs w) + immed w) (R s (f_rt w)) s"
| "run_op OP_SWL w xpc s = Exits 2"
| "run_op OP_SW w xpc s = store_from 4 (R s (f_rs w) + immed w) (R s (f_rt w)) s"
| "run_op OP_SWR w xpc s = Exits 2"
| "run_op OP_UNIMP w xpc s = Exits 2"
| "run_op OP_RES w xpc s = Exits 2"
| "run_op OP_RFE w xpc s = Exits 2"
| "run_op SPECIAL w xpc s = Exits 2"
| "run_op BCOND w xpc s = Exits 2"

text \<open>A round of the loop of \<^verbatim>\<open>runprogram\<close>.\<close>

definition interp_step :: "istate \<Rightarrow> iout" where
  "interp_step s = (let xpc = ipc s in
     case fetch_n 4 (imem s) xpc of
       Inl e \<Rightarrow> Undef
     | Inr v \<Rightarrow>
         let instr = of_nat v :: u32; s1 = s\<lparr>ipc := inpc s, inpc := inpc s + 4, Reg := (Reg s)[0 := 0]\<rparr> in
         if instr = 0 then Next s1
         else case switch instr of None \<Rightarrow> Traps s1 | Some op \<Rightarrow> run_op op instr xpc s1)"

text \<open>The beginning of \<^verbatim>\<open>runprogram\<close>: the arguments go to the stack. \<open>None\<close> is a write outside the memory.\<close>

fun put_args :: "byte list list \<Rightarrow> u32 \<Rightarrow> u32 \<Rightarrow> byte list \<Rightarrow> byte list result" where
  "put_args [] aci ai mem = Inr mem"
| "put_args (a # as) aci ai mem = bindR (mem_write mem (unat (ai - memoffset)) (a @ [0])) (\<lambda>m1.
     bindR (store_n 4 m1 aci ai) (\<lambda>m2. put_args as (aci + 4) (ai + of_nat (length a) + 1) m2))"

definition runprogram_start :: "u32 \<Rightarrow> byte list list \<Rightarrow> istate \<Rightarrow> istate result" where
  "runprogram_start startpc argv s = (let i = of_nat MEMSIZE - 1024 + memoffset in
     bindR (store_n 4 (imem s) i (of_nat (length argv))) (\<lambda>m1.
     bindR (put_args argv (i + 4) (i + 4 + 32) m1) (\<lambda>m2.
     Inr (s\<lparr>ipc := startpc, inpc := startpc + 4, Reg := (Reg s)[29 := i], imem := m2\<rparr>))))"

section \<open>Both programs decode alike\<close>

lemma normal_ops: "map normal_op [0..<64] = map fst opTable"
  by (simp add: normal_op_def opTable_def upt_rec)

lemma special_ops: "map special_op [0..<64] = specialTable[I_BREAK := OP_RES]"
  by (simp add: special_op_def specialTable_def I_BREAK_def upt_rec)

lemma normal_op_table: "k < 64 \<Longrightarrow> normal_op k = fst (opTable ! k)"
  using arg_cong [OF normal_ops, of "\<lambda>l. l ! k"] by simp

lemma special_op_table: "k < 64 \<Longrightarrow> k \<noteq> I_BREAK \<Longrightarrow> special_op k = specialTable ! k"
  using arg_cong [OF special_ops, of "\<lambda>l. l ! k"] by simp

lemma bcond_mask: "v AND 0x1f0000 = push_bit 16 (drop_bit 16 v AND 0x1f)" for v :: u32
proof (rule bit_word_eqI)
  fix n assume "n < LENGTH(32)"
  have m: "(0x1f0000 :: u32) = push_bit 16 (mask 5)" "(0x1f :: u32) = mask 5" by (simp_all add: mask_eq_exp_minus_1)
  show "bit (v AND 0x1f0000) n = bit (push_bit 16 (drop_bit 16 v AND 0x1f)) n" unfolding m by (auto simp: bit_simps)
qed

lemma push_16_inj: "unat x < 32 \<Longrightarrow> unat y < 32 \<Longrightarrow> (push_bit 16 x = push_bit 16 y) = (x = y)" for x y :: u32
proof -
  assume "unat x < 32" "unat y < 32"
  then have "unat (push_bit 16 x) = unat x * 65536" "unat (push_bit 16 y) = unat y * 65536"
    by (simp_all add: push_bit_eq_mult unat_word_ariths)
  then show ?thesis by (metis mult_cancel2 unsigned_word_eqI zero_neq_numeral)
qed

lemma bcond_same: "decode_bcond v = bcond_op (f_rt v)"
proof -
  let ?x = "drop_bit 16 v AND 0x1f"
  have l: "unat ?x < 32" by (rule unat_and_1f)
  have e: "(v AND 0x1f0000 = push_bit 16 c) = (unat ?x = unat c)" if "unat c < 32" for c
    unfolding bcond_mask push_16_inj [OF l that] by (simp add: word_unat_eq_iff)
  have c: "(0 :: u32) = push_bit 16 0" "(0x10000 :: u32) = push_bit 16 1" "(0x100000 :: u32) = push_bit 16 16" "(0x110000 :: u32) = push_bit 16 17" by simp_all
  have k: "(v AND 0x1f0000 = 0) = (f_rt v = 0)" "(v AND 0x1f0000 = 0x10000) = (f_rt v = 1)" "(v AND 0x1f0000 = 0x100000) = (f_rt v = 16)"
    "(v AND 0x1f0000 = 0x110000) = (f_rt v = 17)"
    using e [of 0] e [of 1] e [of 16] e [of 17] unfolding f_rt_def by simp_all
  show ?thesis by (simp add: decode_bcond_def bcond_op_def Let_def k)
qed

lemma immed_same: "immed w = decode_extra IFMT w"
proof -
  have b: "(w AND 0x8000 \<noteq> 0) = bit w 15" using and_exp_eq_0_iff_not_bit [of w 15] by simp
  have b': "((w AND 0xffff) AND 0x8000 \<noteq> 0) = bit w 15"
    using and_exp_eq_0_iff_not_bit [of "w AND 0xffff" 15] bit_mask_iff [of 16 15, where ?'a = u32] by (simp add: bit_simps mask_eq_exp_minus_1)
  have m: "(0xffff :: u32) = mask 16" "(0x7fff :: u32) = mask 15" "(- 0x8000 :: u32) = NOT (mask 15)" "(0xffff0000 :: u32) = NOT (mask 16)"
    by (simp_all add: mask_eq_exp_minus_1 not_eq_complement)
  have l: "n < 16 \<longleftrightarrow> n < 15 \<or> n = 15" for n :: nat by auto
  have "w OR NOT (mask 15) = (w AND mask 16) OR NOT (mask 16)" if "bit w 15"
    by (rule bit_word_eqI) (use that in \<open>auto simp: bit_simps l\<close>)
  moreover have "w AND mask 15 = w AND mask 16" if "\<not> bit w 15"
    by (rule bit_word_eqI) (use that in \<open>auto simp: bit_simps l\<close>)
  ultimately show ?thesis unfolding immed_def decode_extra_def Let_def format.case b b' by (auto simp: m)
qed

definition shift_ops :: "mips_op set" where "shift_ops = {OP_SLL, OP_SRL, OP_SRA}"
definition imm_ops :: "mips_op set" where
  "imm_ops = {OP_BEQ, OP_BNE, OP_BLEZ, OP_BGTZ, OP_ADDI, OP_ADDIU, OP_SLTI, OP_SLTIU, OP_ANDI, OP_ORI, OP_XORI, OP_LUI, OP_BLTZ, OP_BGEZ, OP_BLTZAL, OP_BGEZAL}"

lemma table_formats:
  "\<forall>x \<in> set opTable. (fst x = SPECIAL \<longrightarrow> snd x = RFMT) \<and> (fst x \<in> insert BCOND imm_ops \<longrightarrow> snd x = IFMT) \<and> (fst x \<in> {OP_J, OP_JAL} \<longrightarrow> snd x = JFMT) \<and> fst x \<notin> shift_ops"
  "\<forall>x \<in> set specialTable. x \<notin> imm_ops \<and> x \<notin> {OP_J, OP_JAL}"
  by (simp_all add: opTable_def specialTable_def imm_ops_def shift_ops_def)

text \<open>The operation and its operands are the same in both programs.\<close>

lemma switch_Decode:
  assumes "switch w = Some op"
  shows "opCode (Decode w) = op" "op \<in> shift_ops \<Longrightarrow> unat (extra (Decode w)) = shamt w" "op \<in> imm_ops \<Longrightarrow> extra (Decode w) = immed w"
    "op \<in> {OP_J, OP_JAL} \<Longrightarrow> extra (Decode w) = w AND 0x3ffffff"
proof -
  let ?k = "unat (drop_bit 26 w AND 0x3f)" and ?f = "unat (w AND 0x3f)"
  have k: "?k < 64" "?f < 64" by (rule unat_and_3f)+
  have t: "opTable ! ?k \<in> set opTable" "specialTable ! ?f \<in> set specialTable" using k by simp_all
  have b: "bcond_op n \<notin> shift_ops \<and> bcond_op n \<notin> {OP_J, OP_JAL}" for n by (simp add: bcond_op_def shift_ops_def)
  note T = table_formats(1) [rule_format, OF t(1)] table_formats(2) [rule_format, OF t(2)] b [of "f_rt w"]
  consider (special) "normal_op ?k = SPECIAL" "op = special_op ?f" "?f \<noteq> I_BREAK"
    | (bcond) "normal_op ?k = BCOND" "op = bcond_op (f_rt w)"
    | (normal) "normal_op ?k \<noteq> SPECIAL" "normal_op ?k \<noteq> BCOND" "op = normal_op ?k"
    using assms by (auto simp: switch_def Let_def split: if_splits)
  then have "opCode (Decode w) = op \<and> (op \<in> shift_ops \<longrightarrow> unat (extra (Decode w)) = shamt w) \<and> (op \<in> imm_ops \<longrightarrow> extra (Decode w) = immed w) \<and>
    (op \<in> {OP_J, OP_JAL} \<longrightarrow> extra (Decode w) = w AND 0x3ffffff)"
  proof cases
    case special
    then show ?thesis using T special_op_table [OF k(2)] normal_op_table [OF k(1)] by (auto simp: Decode_def Let_def decode_extra_def shamt_def)
  next
    case bcond
    then show ?thesis using T normal_op_table [OF k(1)] by (auto simp: Decode_def Let_def immed_same bcond_same)
  next
    case normal
    then show ?thesis using T normal_op_table [OF k(1)] by (auto simp: Decode_def Let_def immed_same) (auto simp: decode_extra_def)
  qed
  then show "opCode (Decode w) = op" "op \<in> shift_ops \<Longrightarrow> unat (extra (Decode w)) = shamt w" "op \<in> imm_ops \<Longrightarrow> extra (Decode w) = immed w"
    "op \<in> {OP_J, OP_JAL} \<Longrightarrow> extra (Decode w) = w AND 0x3ffffff" by auto
qed

lemma Decode_fields: "irs (Decode w) = f_rs w" "irt (Decode w) = f_rt w" "ird (Decode w) = f_rd w"
  by (simp_all add: Decode_def Let_def f_rs_def f_rt_def f_rd_def)

lemma field_bounds [simp]: "f_rs w < 32" "f_rt w < 32" "f_rd w < 32"
  by (simp_all add: f_rs_def f_rt_def f_rd_def unat_and_1f)

section \<open>The states of the two programs\<close>

text \<open>The states between two instructions. Register 0 of the interpreter is cleared only when the next instruction starts.\<close>

definition same_state :: "istate \<Rightarrow> Machine \<Rightarrow> bool" where
  "same_state s m \<longleftrightarrow> length (Reg s) = 32 \<and> length (registers m) = 40 \<and> reg m 0 = 0 \<and> (\<forall>r. 0 < r \<longrightarrow> r < 32 \<longrightarrow> reg m r = R s r) \<and>
     reg m HiReg = HI s \<and> reg m LoReg = LO s \<and> reg m PCReg = ipc s \<and> reg m NextPCReg = inpc s \<and> reg m LoadReg = 0"

text \<open>After the instruction is fetched, and when it has been executed.\<close>

definition mid :: "istate \<Rightarrow> Machine \<Rightarrow> u32 \<Rightarrow> bool" where
  "mid s m xpc \<longleftrightarrow> length (Reg s) = 32 \<and> length (registers m) = 40 \<and> (\<forall>r < 32. reg m r = R s r) \<and> reg m HiReg = HI s \<and> reg m LoReg = LO s \<and>
     reg m NextPCReg = xpc + 4 \<and> ipc s = xpc + 4 \<and> inpc s = xpc + 8 \<and> reg m LoadReg = 0"

definition ends :: "istate \<Rightarrow> Machine \<Rightarrow> u32 \<Rightarrow> bool" where
  "ends s m pc \<longleftrightarrow> length (Reg s) = 32 \<and> length (registers m) = 40 \<and> (\<forall>r < 32. reg m r = R s r) \<and> reg m HiReg = HI s \<and> reg m LoReg = LO s \<and>
     reg m NextPCReg = ipc s \<and> pc = inpc s \<and> reg m LoadReg = 0"

definition matches :: "iout \<Rightarrow> exec result \<Rightarrow> bool" where
  "matches x y \<longleftrightarrow> (\<exists>s m pc. x = Next s \<and> y = cont m pc \<and> ends s m pc)"

lemma matchesI: "ends s m pc \<Longrightarrow> matches (Next s) (cont m pc)"
  by (auto simp: matches_def)

lemma same_mid:
  assumes "same_state s m" "inpc s = ipc s + 4"
  shows "mid (s\<lparr>ipc := inpc s, inpc := inpc s + 4, Reg := (Reg s)[0 := 0]\<rparr>) m (ipc s)"
  using assms by (auto simp: same_state_def mid_def R_def nth_list_update algebra_simps)

lemma ends_same: "ends s m pc \<Longrightarrow> same_state s (advance_pc (DelayedLoad m 0 0) pc)"
proof -
  assume e: "ends s m pc"
  then have l: "length (registers m) = 40" "unat (reg m LoadReg) < 32" "length (registers (DelayedLoad m 0 0)) = 40" by (simp_all add: ends_def)
  have "length (registers (advance_pc (DelayedLoad m 0 0) pc)) = 40" using l(3) by (simp add: advance_pc_def Let_def set_reg_def)
  then show ?thesis using e by (simp add: same_state_def reg_advance_pc [OF l(3)] reg_DelayedLoad [OF l(1,2)]) (simp add: ends_def)
qed

lemma mid_link: "mid s m xpc \<Longrightarrow> r < 32 \<Longrightarrow> mid (link_to r xpc s) (link r m) xpc"
  by (auto simp: mid_def link_to_def link_def reg_set_reg R_def nth_list_update set_reg_def reg_def algebra_simps)

lemma mid_reg: "mid s m xpc \<Longrightarrow> r < 32 \<Longrightarrow> reg m r = R s r"
  by (simp add: mid_def)

lemma matches_put:
  "mid s m xpc \<Longrightarrow> d < 32 \<Longrightarrow> v = v' \<Longrightarrow> pc = xpc + 8 \<Longrightarrow> matches (put d v s) (cont (set_reg m d v') pc)"
  unfolding put_def by (rule matchesI) (auto simp: mid_def ends_def R_def nth_list_update set_reg_def reg_def)

lemma matches_hilo:
  "mid s m xpc \<Longrightarrow> pc = xpc + 8 \<Longrightarrow> matches (Next (s\<lparr>LO := lo, HI := hi\<rparr>)) (cont (set_reg (set_reg m LoReg lo) HiReg hi) pc)"
  "mid s m xpc \<Longrightarrow> pc = xpc + 8 \<Longrightarrow> matches (Next (s\<lparr>HI := hi\<rparr>)) (cont (set_reg m HiReg hi) pc)"
  "mid s m xpc \<Longrightarrow> pc = xpc + 8 \<Longrightarrow> matches (Next (s\<lparr>LO := lo\<rparr>)) (cont (set_reg m LoReg lo) pc)"
  by (auto intro!: matchesI simp: mid_def ends_def R_def set_reg_def reg_def)

lemma matches_goto: "mid s m xpc \<Longrightarrow> matches (Next (s\<lparr>inpc := a\<rparr>)) (cont m a)"
  by (auto simp: matches_def mid_def ends_def R_def)

lemma matches_branch:
  "mid s m xpc \<Longrightarrow> c = c' \<Longrightarrow> pc = xpc + 8 \<Longrightarrow> extra i = immed w \<Longrightarrow> matches (goto_if c xpc w s) (branch c' i m pc)"
  by (auto simp: matches_def mid_def ends_def R_def goto_if_def branch_def IndexToAddr_def)

section \<open>Where the programs agree\<close>

text \<open>
  What an instruction has to satisfy for both to do the same. There is no condition for most. Additions that overflow trap in the kernel only. The kernel's \<open>OR\<close> reads one
  operand twice and its \<open>SRL\<close> and \<open>SRLV\<close> are arithmetic; the interpreter extends the sign of the operands of \<open>ANDI\<close>, \<open>ORI\<close> and \<open>XORI\<close> and does not mask shift amounts.
  \<open>MULT\<close> and \<open>MULTU\<close> are treated below; loads, stores and system calls are not compared.
\<close>

definition agree_on :: "mips_op \<Rightarrow> u32 \<Rightarrow> u32 \<Rightarrow> istate \<Rightarrow> bool" where
  "agree_on op w xpc s = (let a = R s (f_rs w); b = R s (f_rt w) in
     if op \<in> {OP_ADD} then fits (sint a + sint b)
     else if op = OP_ADDI then fits (sint a + sint (immed w))
     else if op = OP_SUB then fits (sint a - sint b)
     else if op = OP_OR then a OR b = a
     else if op = OP_SRL then sint b \<ge> 0
     else if op = OP_SRLV then unat a < 32 \<and> sint b \<ge> 0
     else if op \<in> {OP_SLLV, OP_SRAV} then unat a < 32
     else if op \<in> {OP_ANDI, OP_ORI, OP_XORI} then w AND 0x8000 = 0
     else if op = OP_DIV then b \<noteq> 0 \<and> \<not> (sint a = - (2 ^ 31) \<and> sint b = -1)
     else if op = OP_DIVU then b \<noteq> 0
     else if op = OP_JALR then f_rs w \<noteq> f_rd w
     else if op \<in> {OP_J, OP_JAL} then xpc AND 0xf0000000 = (xpc + 8) AND 0xf0000000
     else op \<in> imm_ops \<union> {OP_SLL, OP_SRA, OP_JR, OP_MFHI, OP_MTHI, OP_MFLO, OP_MTLO, OP_ADDU, OP_SUBU, OP_AND, OP_XOR, OP_NOR, OP_SLT, OP_SLTU})"

lemma signed_drop_nonneg: "sint b \<ge> 0 \<Longrightarrow> signed_drop_bit n b = drop_bit n b" for b :: u32
proof (rule bit_word_eqI)
  fix k assume b: "sint b \<ge> 0" and k: "k < LENGTH(32)"
  have "\<not> bit b 31" using b by (simp add: sint_uint signed_take_bit_nonnegative_iff bit_uint_iff)
  then show "bit (signed_drop_bit n b) k = bit (drop_bit n b) k" using k bit_imp_le_length [of b "n + k"] by (auto simp: bit_simps)
qed

lemma and_1f_small: "unat a < 32 \<Longrightarrow> a AND 0x1f = a" for a :: u32
proof -
  assume "unat a < 32"
  then have "take_bit 5 a = a" by (simp add: word_unat_eq_iff unsigned_take_bit_eq take_bit_nat_eq_self)
  then show ?thesis by (simp add: take_bit_eq_mask mask_eq_exp_minus_1)
qed

lemma immed_nonneg: "w AND 0x8000 = 0 \<Longrightarrow> immed w AND 0xffff = immed w"
proof -
  assume "w AND 0x8000 = 0"
  then have "immed w = w AND 0x7fff" by (simp add: immed_def)
  moreover have m: "(0x7fff :: u32) = mask 15" "(0xffff :: u32) = mask 16" by (simp_all add: mask_eq_exp_minus_1)
  moreover have "(w AND mask 15) AND mask 16 = w AND mask 15" by (rule bit_word_eqI) (auto simp: bit_simps)
  ultimately show ?thesis by (simp only: m)
qed

lemma lui_same: "push_bit 16 (immed w) = push_bit 16 w" for w :: u32
proof (rule bit_word_eqI)
  fix n assume n: "n < LENGTH(32)"
  have m: "(0xffff :: u32) = mask 16" "(0xffff0000 :: u32) = NOT (mask 16)" by (simp_all add: mask_eq_exp_minus_1 not_eq_complement)
  show "bit (push_bit 16 (immed w)) n = bit (push_bit 16 w) n"
    unfolding immed_same decode_extra_def Let_def format.case m using n by (auto simp: bit_simps)
qed

lemma sign_tests: "(a AND SIGN_BIT = 0) = (0 \<le> sint a)" "(a AND SIGN_BIT \<noteq> 0) = (sint a < 0)" for a :: u32
  using sign_bit_sint [of a] by auto

lemma agree_op:
  assumes m: "mid s m xpc" and sw: "switch w = Some op" and ok: "agree_on op w xpc s"
  shows "matches (run_op op w xpc s) (exec_op op (Decode w) m (reg m NextPCReg + 4))"
proof -
  note D = Decode_fields [of w] and X = switch_Decode(2-4) [OF sw]
  have r: "reg m (f_rs w) = R s (f_rs w)" "reg m (f_rt w) = R s (f_rt w)" using mid_reg [OF m] by simp_all
  have pc: "reg m 35 = 4 + xpc" "reg m 32 = HI s" "reg m 33 = LO s" using m by (simp_all add: mid_def)
  note l = mid_link [OF m]
  have r31: "reg (link 31 m) (f_rs w) = R (link_to 31 xpc s) (f_rs w)" using mid_reg [OF l, of 31 "f_rs w"] by simp
  have jalr: "reg (link (f_rd w) m) (f_rs w) = R s (f_rs w)" if "f_rs w \<noteq> f_rd w"
    using that r(1) by (simp add: link_def reg_def set_reg_def)
  have jm: "link_to k xpc (s\<lparr>inpc := v\<rparr>) = (link_to k xpc s)\<lparr>inpc := v\<rparr>" for k v by (simp add: link_to_def)
  note P = matches_put [OF m] and H = matches_hilo [OF m, unfolded HiReg_def LoReg_def] and B = matches_branch [OF m] and G = matches_goto [OF m]
  note BL = matches_branch [OF l] and GL = matches_goto [OF l]
  note defs = exec_defs exec_div_def Let_def r pc D IndexToAddr_def run_div_def run_divu_def shifted_def jump_def R31_def
  show ?thesis
  proof (cases "op \<in> imm_ops")
    case True
    then show ?thesis using ok X(2)
      by (auto simp: imm_ops_def defs sign_tests r31 agree_on_def addi_overflow immed_nonneg lui_same simp del: branch_def link_def
          intro!: P B BL)
  next
    case False
    then show ?thesis using ok X(1,3)
      by (cases op) (auto simp: imm_ops_def defs agree_on_def add_overflow sub_overflow and_1f_small signed_drop_nonneg shift_ops_def jalr jm add.commute [of 8 xpc] simp del: link_def
          intro!: P H G GL split: if_splits)
  qed
qed


text \<open>
  C17: from the same registers, outside a delay slot, a round of the interpreter of \<^verbatim>\<open>bin/\<close> and an instruction of the simulator of the kernel end with the same registers, for
  every instruction that does not access memory, trap or multiply, under the conditions of \<open>agree_on\<close>.
\<close>

theorem interpreter_agrees:
  assumes "ReadMem m (reg m PCReg) 4 = Inr (Inr (of_nat v), m1)" and "fetch_n 4 (imem s) (ipc s) = Inr v"
    and "same_state s m1" and "inpc s = ipc s + 4"
    and "switch (of_nat v) = Some op" and "agree_on op (of_nat v) (ipc s) (s\<lparr>Reg := (Reg s)[0 := 0]\<rparr>)"
  shows "\<exists>s' m'. interp_step s = Next s' \<and> OneInstruction m = Inr (None, m') \<and> same_state s' m'"
proof -
  let ?w = "of_nat v :: u32" and ?s = "s\<lparr>ipc := inpc s, inpc := inpc s + 4, Reg := (Reg s)[0 := 0]\<rparr>"
  have m: "mid ?s m1 (ipc s)" by (rule same_mid [OF assms(3,4)])
  have "agree_on op ?w (ipc s) ?s" using assms(6) by (simp add: agree_on_def R_def)
  from agree_op [OF m assms(5) this] obtain s' m2 pc where e: "run_op op ?w (ipc s) ?s = Next s'"
    "exec_op op (Decode ?w) m1 (reg m1 NextPCReg + 4) = cont m2 pc" "ends s' m2 pc" by (auto simp: matches_def)
  have "interp_step s = Next s'"
  proof (cases "?w = 0")
    case True
    then have "op = OP_SLL" using assms(5) by (simp add: switch_def normal_op_def special_op_def I_BREAK_def)
    then have "s' = ?s" using e(1) True by (auto simp: put_def shamt_def f_rt_def f_rd_def R_def)
    then show ?thesis using assms(2) True by (simp add: interp_step_def Let_def)
  next
    case False
    then show ?thesis using assms(2,5) e(1) by (simp add: interp_step_def Let_def)
  qed
  moreover have "OneInstruction m = Inr (None, advance_pc (DelayedLoad m2 0 0) pc)"
    using assms(1) e(2) switch_Decode(1) [OF assms(5)] by (simp add: OneInstruction_def Let_def cont_def)
  ultimately show ?thesis using ends_same [OF e(3)] by blast
qed

text \<open>Where the interpreter is wrong: immediate operands are extended with their sign, and the high word of a product lacks the carries of the partial products.\<close>

lemma interpreter_wrong:
  "run_op OP_ANDI 0x3022ffff xpc s = put 2 (R s 1) s"
  "mul_hi 0x1ffff 0x1ffff = 1" "uint (0x1ffff :: u32) * uint (0x1ffff :: u32) div 2 ^ 32 = 3"
  by (simp_all add: f_rt_def f_rs_def immed_def mul_hi_def Let_def)

text \<open>An \<open>ADDIU\<close> at the address where programs of the interpreter start, with the page in the translation buffer of the kernel's machine.\<close>

definition demo_regs :: "u32 list" where
  "demo_regs = (replicate 32 0)[1 := 7]"

definition demo_imachine :: Machine where
  "demo_imachine = \<lparr>registers = demo_regs @ [0, 0, 0x10000000, 0x10000004, 0, 0, 0, 0], mainMemory = [5, 0, 0x22, 0x24] @ replicate 65532 0,
     tlb = Some (\<lparr>virtualPage = 0x80000, physicalPage = 0, valid = True, readOnly = False, use = False, dirty = False\<rparr> #
       replicate 3 \<lparr>virtualPage = 0, physicalPage = 0, valid = False, readOnly = False, use = False, dirty = False\<rparr>),
     pageTable = None, pageTableSize = 0, singleStep = False, runUntilTime = 0\<rparr>"

definition demo_istate :: istate where
  "demo_istate = \<lparr>Reg = demo_regs, HI = 0, LO = 0, ipc = 0x10000000, inpc = 0x10000004, imem = [5, 0, 0x22, 0x24]\<rparr>"

lemma demo_ifetch: "\<exists>m1. ReadMem demo_imachine (reg demo_imachine PCReg) 4 = Inr (Inr 0x24220005, m1) \<and> registers m1 = registers demo_imachine"
proof -
  have pc: "reg demo_imachine PCReg = 0x10000000" by (simp add: demo_imachine_def reg_def demo_regs_def nth_append)
  have wf: "wf_machine demo_imachine"
    by (simp add: wf_machine_def demo_imachine_def demo_regs_def reg_def nth_append machine_consts TLBSize_def)
  have "tlb_find (e # es) vpn 0 4 = Some 0" if "valid e" "virtualPage e = vpn" for e es vpn
    using that tlb_find.simps(2) [of "e # es" vpn 0 3] by (simp add: numeral_eq_Suc)
  then have "entry_index demo_imachine 524288 = Some 0" by (simp add: entry_index_def demo_imachine_def TLBSize_def)
  then have "xlate demo_imachine (unat (0x10000000 :: u32)) 4 False = Inr 0"
    by (simp add: xlate_def aligned_def) (simp add: current_table_def demo_imachine_def)
  from ReadMem_value [OF wf _ this] obtain v m1 where "ReadMem demo_imachine 0x10000000 4 = Inr (Inr v, m1)" "same_memory demo_imachine m1"
    "load_value 4 (take 4 (drop 0 (mainMemory demo_imachine))) = Inr v" by auto
  then show ?thesis unfolding pc by (auto simp: demo_imachine_def load_value_def WordToHost_def same_memory_def)
qed

lemma interpreter_agrees_witness:
  "\<exists>s' m'. interp_step demo_istate = Next s' \<and> OneInstruction demo_imachine = Inr (None, m') \<and> same_state s' m'"
proof -
  obtain m1 where m1: "ReadMem demo_imachine (reg demo_imachine PCReg) 4 = Inr (Inr (of_nat 0x24220005), m1)" "registers m1 = registers demo_imachine"
    using demo_ifetch by auto
  have f: "fetch_n 4 (imem demo_istate) (ipc demo_istate) = Inr 0x24220005" by (simp add: fetch_n_def demo_istate_def memoffset_def mem_read_def)
  have "reg m1 r = reg demo_imachine r" for r by (simp add: reg_def m1(2))
  then have s: "same_state demo_istate m1" "inpc demo_istate = ipc demo_istate + 4"
    using m1(2) by (auto simp: same_state_def) (auto simp: demo_istate_def demo_imachine_def R_def reg_def demo_regs_def nth_append)
  have w: "switch (of_nat 0x24220005) = Some OP_ADDIU" by (simp add: switch_def normal_op_def Let_def)
  then have "agree_on OP_ADDIU (of_nat 0x24220005) a t" for a t by (simp add: agree_on_def imm_ops_def)
  from interpreter_agrees [OF m1(1) f s w this] show ?thesis .
qed

section \<open>The logarithm\<close>

text \<open>\<^verbatim>\<open>ilog2\<close>, one step of its search for the highest bit and the whole.\<close>

definition ilog2_step :: "u32 \<Rightarrow> nat \<Rightarrow> u32 \<times> nat \<Rightarrow> u32 \<times> nat" where
  "ilog2_step m k x = (case x of (i, l) \<Rightarrow> let j = i AND m in if j \<noteq> 0 then (j, l + k) else (i, l))"

definition ilog2 :: "u32 \<Rightarrow> nat" where
  "ilog2 i = (if i = 0 then 0
     else snd (ilog2_step 0xaaaaaaaa 1 (ilog2_step 0xcccccccc 2 (ilog2_step 0xf0f0f0f0 4 (ilog2_step 0xff00ff00 8 (ilog2_step 0xffff0000 16 (i, 1)))))))"

text \<open>The bits that are left agree with the highest one \<open>p\<close> in the upper digits of their positions.\<close>

definition ilog2_inv :: "nat \<Rightarrow> nat \<Rightarrow> u32 \<times> nat \<Rightarrow> bool" where
  "ilog2_inv p k x \<longleftrightarrow> bit (fst x) p \<and> (\<forall>n. bit (fst x) n \<longrightarrow> n \<le> p \<and> n div 2 ^ k = p div 2 ^ k) \<and> snd x = 1 + p div 2 ^ k * 2 ^ k"

lemma div_Suc_pow: "(n :: nat) div 2 ^ k = 2 * (n div 2 ^ Suc k) + of_bool (bit n k)"
proof -
  have "n div 2 ^ Suc k = n div 2 ^ k div 2" by (simp only: power_Suc2 div_mult2_eq)
  moreover have "q = 2 * (q div 2) + of_bool (odd q)" for q :: nat by (cases "even q") (auto elim: evenE oddE)
  ultimately show ?thesis by (simp add: bit_iff_odd)
qed

lemma ilog2_step_inv:
  assumes i: "ilog2_inv p (Suc k) x" and m: "\<And>n. n < 32 \<Longrightarrow> bit m n = bit n k"
  shows "ilog2_inv p k (ilog2_step m (2 ^ k) x)"
proof -
  obtain a l where x: "x = (a, l)" by (cases x)
  have i': "bit a p" "\<And>n. bit a n \<Longrightarrow> n \<le> p \<and> n div 2 ^ Suc k = p div 2 ^ Suc k" "l = 1 + p div 2 ^ Suc k * 2 ^ Suc k"
    using i unfolding ilog2_inv_def x fst_conv snd_conv by blast+
  have "n < 32" if "bit a n" for n using bit_imp_le_length [OF that] by simp
  with i' have a: "bit a p" "\<And>n. bit a n \<Longrightarrow> n < 32 \<and> n \<le> p" by blast+
  define q where "q = p div 2 ^ Suc k"
  have d: "n div 2 ^ k = 2 * q + of_bool (bit n k)" if "bit a n" for n using i'(2) [OF that] div_Suc_pow [of n k] by (simp only: q_def)
  have l: "l = 1 + 2 * q * 2 ^ k" using i'(3) by (simp add: q_def)
  show ?thesis
  proof (cases "bit p k")
    case True
    then have "bit (a AND m) p" using a(1,2) m by (auto simp: bit_simps)
    moreover from this have "a AND m \<noteq> 0" by auto
    then have st: "ilog2_step m (2 ^ k) x = (a AND m, l + 2 ^ k)" by (simp add: ilog2_step_def x Let_def)
    moreover have "n \<le> p \<and> n div 2 ^ k = p div 2 ^ k" if "bit (a AND m) n" for n
    proof -
      have n: "bit a n" "bit m n" using that by (simp_all add: bit_simps)
      then have "bit n k" using m a(2) by blast
      then show ?thesis using a(2) [OF n(1)] d [OF n(1)] d [OF a(1)] True by simp
    qed
    moreover have "l + 2 ^ k = 1 + p div 2 ^ k * 2 ^ k" unfolding l d [OF a(1)] using True by (simp add: algebra_simps)
    ultimately show ?thesis unfolding st ilog2_inv_def fst_conv snd_conv by blast
  next
    case False
    have nb: "\<not> bit n k" if "bit a n" for n
    proof
      assume "bit n k"
      then have "p div 2 ^ k < n div 2 ^ k" using d [OF that] d [OF a(1)] False by simp
      then have "p < n" using div_le_mono [of n p "2 ^ k"] by (meson not_le)
      then show False using a(2) [OF that] by simp
    qed
    have "a AND m = 0" by (rule bit_eqI) (use a(2) m nb in \<open>auto simp: bit_simps\<close>)
    then have st: "ilog2_step m (2 ^ k) x = (a, l)" by (simp add: ilog2_step_def x Let_def)
    have "l = 1 + p div 2 ^ k * 2 ^ k" unfolding l d [OF a(1)] using False by simp
    moreover have "n div 2 ^ k = p div 2 ^ k" if "bit a n" for n using d [OF that] d [OF a(1)] nb [OF that] False by simp
    ultimately show ?thesis using a unfolding st ilog2_inv_def fst_conv snd_conv by blast
  qed
qed

lemma ilog2_masks:
  "\<forall>n \<in> set [0..<32]. bit (0xffff0000 :: u32) n = bit n 4 \<and> bit (0xff00ff00 :: u32) n = bit n 3 \<and> bit (0xf0f0f0f0 :: u32) n = bit n 2 \<and>
     bit (0xcccccccc :: u32) n = bit n 1 \<and> bit (0xaaaaaaaa :: u32) n = bit n 0"
  by code_simp

text \<open>The result is the number of binary digits: one more than the position of the highest bit.\<close>

lemma ilog2_digits:
  assumes "bit i p" "\<And>n. bit i n \<Longrightarrow> n \<le> p"
  shows "ilog2 i = p + 1"
proof -
  have m: "bit (0xffff0000 :: u32) n = bit n 4" "bit (0xff00ff00 :: u32) n = bit n 3" "bit (0xf0f0f0f0 :: u32) n = bit n 2"
    "bit (0xcccccccc :: u32) n = bit n 1" "bit (0xaaaaaaaa :: u32) n = bit n 0" if "n < 32" for n using ilog2_masks that by simp_all
  have "p < 32" using assms(1) by (auto dest: bit_imp_le_length)
  then have "ilog2_inv p 5 (i, 1)" using assms by (auto simp: ilog2_inv_def dest: bit_imp_le_length)
  then have "ilog2_inv p 4 (ilog2_step 0xffff0000 16 (i, 1))" using ilog2_step_inv [of p 4 "(i, 1)", OF _ m(1)] by simp
  then have "ilog2_inv p 3 (ilog2_step 0xff00ff00 8 (ilog2_step 0xffff0000 16 (i, 1)))" using ilog2_step_inv [of p 3, OF _ m(2)] by simp
  then have "ilog2_inv p 2 (ilog2_step 0xf0f0f0f0 4 (ilog2_step 0xff00ff00 8 (ilog2_step 0xffff0000 16 (i, 1))))" using ilog2_step_inv [of p 2, OF _ m(3)] by simp
  then have "ilog2_inv p 1 (ilog2_step 0xcccccccc 2 (ilog2_step 0xf0f0f0f0 4 (ilog2_step 0xff00ff00 8 (ilog2_step 0xffff0000 16 (i, 1)))))"
    using ilog2_step_inv [of p 1, OF _ m(4)] by (simp add: numeral_2_eq_2)
  then have "ilog2_inv p 0 (ilog2_step 0xaaaaaaaa 1 (ilog2_step 0xcccccccc 2 (ilog2_step 0xf0f0f0f0 4 (ilog2_step 0xff00ff00 8 (ilog2_step 0xffff0000 16 (i, 1))))))"
    using ilog2_step_inv [of p 0, OF _ m(5)] by simp
  moreover have "i \<noteq> 0" using assms(1) by auto
  ultimately show ?thesis by (simp add: ilog2_def ilog2_inv_def)
qed

text \<open>The comment of the source has a table in which 2 and 3 have the logarithms 1 and 2.\<close>

lemma ilog2_comment: "ilog2 1 = 1" "ilog2 2 = 2" "ilog2 3 = 2" "ilog2 4 = 3" "ilog2 7 = 3" "ilog2 8 = 4"
  by (simp_all add: ilog2_def ilog2_step_def)

end
