(* ===== verification/Disasm.thy ===== *)
theory Disasm
  imports Interp
begin

text \<open>
  The disassembler of \<^verbatim>\<open>bin/\<close>: \<^verbatim>\<open>d.c\<close> with the names of \<^verbatim>\<open>opstrings.c\<close>, the part of \<^verbatim>\<open>disasm.c\<close> and \<^verbatim>\<open>main.c\<close> that loads a section, and the loop over the text section. What is printed is a
  string. The proofs show which instructions a line of the disassembly determines: all that the interpreter of theory \<open>Interp\<close> executes, but for five whose operands are
  printed wrongly or not at all.
\<close>

section \<open>Printing\<close>

definition TAB :: char where "TAB = CHR 0x09"
definition NL :: char where "NL = CHR 0x0A"

text \<open>The conversions \<^verbatim>\<open>%x\<close> and \<^verbatim>\<open>%08x\<close> of \<^verbatim>\<open>printf\<close>.\<close>

definition hexdigit :: "nat \<Rightarrow> char" where "hexdigit n = ''0123456789abcdef'' ! n"

fun hex :: "nat \<Rightarrow> string" where
  "hex n = (if n < 16 then [hexdigit n] else hex (n div 16) @ [hexdigit (n mod 16)])"

declare hex.simps [simp del]

definition hex_x :: "u32 \<Rightarrow> string" where "hex_x w = hex (unat w)"
definition hex_08x :: "u32 \<Rightarrow> string" where "hex_08x w = (let h = hex (unat w) in replicate (8 - length h) CHR ''0'' @ h)"

section \<open>The names\<close>

definition regstrings :: "string list" where
  "regstrings =
  [''0'', ''r1'', ''r2'', ''r3'', ''r4'', ''r5'', ''r6'', ''r7'', ''r8'', ''r9'', ''r10'', ''r11'', ''r12'', ''r13'', ''r14'', ''r15'', ''r16'',
   ''r17'', ''r18'', ''r19'', ''r20'', ''r21'', ''r22'', ''r23'', ''r24'', ''r25'', ''r26'', ''r27'', ''gp'', ''sp'', ''r30'', ''r31'']"

definition normalops :: "string list" where
  "normalops =
  [''special'', ''bcond'', ''j'', ''jal'', ''beq'', ''bne'', ''blez'', ''bgtz'', ''addi'', ''addiu'', ''slti'', ''sltiu'', ''andi'', ''ori'',
   ''xori'', ''lui'', ''cop0'', ''cop1'', ''cop2'', ''cop3'', ''024'', ''025'', ''026'', ''027'', ''030'', ''031'', ''032'', ''033'', ''034'',
   ''035'', ''036'', ''037'', ''lb'', ''lh'', ''lwl'', ''lw'', ''lbu'', ''lhu'', ''lwr'', ''047'', ''sb'', ''sh'', ''swl'', ''sw'', ''054'', ''055'',
   ''swr'', ''057'', ''lwc0'', ''lwc1'', ''lwc2'', ''lwc3'', ''064'', ''065'', ''066'', ''067'', ''swc0'', ''swc1'', ''swc2'', ''swc3'', ''074'',
   ''075'', ''076'', ''077'']"

definition specialops :: "string list" where
  "specialops =
  [''sll'', ''001'', ''srl'', ''sra'', ''sllv'', ''005'', ''srlv'', ''srav'', ''jr'', ''jalr'', ''012'', ''013'', ''syscall'', ''break'', ''016'',
   ''017'', ''mfhi'', ''mthi'', ''mflo'', ''mtlo'', ''024'', ''025'', ''026'', ''027'', ''mult'', ''multu'', ''div'', ''divu'', ''034'', ''035'',
   ''036'', ''037'', ''add'', ''addu'', ''sub'', ''subu'', ''and'', ''or'', ''xor'', ''nor'', ''050'', ''051'', ''slt'', ''sltu'', ''054'', ''055'',
   ''056'', ''057'', ''060'', ''061'', ''062'', ''063'', ''064'', ''065'', ''066'', ''067'', ''070'', ''071'', ''072'', ''073'', ''074'', ''075'',
   ''076'', ''077'']"

definition Rs :: "nat \<Rightarrow> string" where "Rs i = regstrings ! i"

section \<open>One instruction\<close>

definition off26 :: "u32 \<Rightarrow> u32" where "off26 i = push_bit 2 (i AND (push_bit 26 1 - 1))"
definition top4 :: "u32 \<Rightarrow> u32" where "top4 i = i AND NOT (push_bit 28 1 - 1)"
definition off16 :: "u32 \<Rightarrow> u32" where "off16 i = push_bit 2 (immed i)"

text \<open>The operands of an instruction under \<^verbatim>\<open>I_SPECIAL\<close>, of a branch under \<^verbatim>\<open>I_BCOND\<close> and of the others; a case that is not listed prints nothing.\<close>

definition special_args :: "mips_op \<Rightarrow> u32 \<Rightarrow> string" where
  "special_args op w =
     (if op \<in> {OP_SLL, OP_SRL, OP_SRA} then Rs (f_rd w) @ '','' @ Rs (f_rt w) @ '',0x'' @ hex_x (of_nat (shamt w))
      else if op \<in> {OP_SLLV, OP_SRLV, OP_SRAV} then Rs (f_rd w) @ '','' @ Rs (f_rt w) @ '','' @ Rs (f_rs w)
      else if op \<in> {OP_JR, OP_JALR, OP_MFLO, OP_MTLO} then Rs (f_rs w)
      else if op \<in> {OP_MFHI, OP_MTHI} then Rs (f_rd w)
      else if op \<in> {OP_MULT, OP_MULTU, OP_DIV, OP_DIVU} then Rs (f_rs w) @ '','' @ Rs (f_rt w)
      else if op \<in> {OP_ADD, OP_ADDU, OP_SUB, OP_SUBU, OP_AND, OP_OR, OP_XOR, OP_NOR, OP_SLT, OP_SLTU}
        then Rs (f_rd w) @ '','' @ Rs (f_rs w) @ '','' @ Rs (f_rt w)
      else [])"

definition bcond_name :: "nat \<Rightarrow> string" where
  "bcond_name k = (if bcond_op k = OP_BLTZ then ''bltz'' else if bcond_op k = OP_BGEZ then ''bgez''
     else if bcond_op k = OP_BLTZAL then ''bltzal'' else if bcond_op k = OP_BGEZAL then ''bgezal'' else ''BCOND'')"

definition normal_args :: "nat \<Rightarrow> u32 \<Rightarrow> u32 \<Rightarrow> string" where
  "normal_args k w pc = (let op = normal_op k in
     if op \<in> {OP_J, OP_JAL} then hex_08x (top4 pc OR off26 w)
     else if op \<in> {OP_BEQ, OP_BNE} then Rs (f_rt w) @ '','' @ Rs (f_rs w) @ '','' @ hex_08x (off16 w + pc + 4)
     else if op \<in> {OP_ADDI, OP_ADDIU, OP_SLTI, OP_SLTIU, OP_ANDI, OP_ORI, OP_XORI} then Rs (f_rt w) @ '','' @ Rs (f_rs w) @ '',0x'' @ hex_x (immed w)
     else if op = OP_LUI then Rs (f_rt w) @ '',0x'' @ hex_x (immed w)
     else if op \<in> {OP_LB, OP_LH, OP_LWL, OP_LW, OP_LBU, OP_LHU, OP_LWR, OP_SB, OP_SH, OP_SWL, OP_SW, OP_SWR} \<or> 48 \<le> k \<and> k \<le> 51 \<or> 56 \<le> k \<and> k \<le> 59
       then Rs (f_rt w) @ '',0x'' @ hex_x (immed w) @ ''('' @ Rs (f_rs w) @ '')''
     else [])"

definition dump_ascii :: "bool \<Rightarrow> u32 \<Rightarrow> u32 \<Rightarrow> string" where
  "dump_ascii longdis w pc = (if longdis then hex_08x pc @ '': '' @ hex_08x w @ ''  '' else []) @ [TAB] @
     (let opcode = unat (drop_bit 26 w) in
      if w = 0 then ''nop''
      else if opcode = 0 then let f = unat (w AND 0x3f) in specialops ! f @ [TAB] @ special_args (special_op f) w
      else if opcode = 1 then bcond_name (f_rt w) @ [TAB] @ Rs (f_rs w) @ '','' @ hex_08x (off16 w + pc + 4)
      else normalops ! opcode @ [TAB] @ normal_args opcode w pc)"

section \<open>Reading a line back\<close>

lemma append_sep: "c \<notin> set a \<Longrightarrow> c \<notin> set b \<Longrightarrow> a @ c # x = b @ c # y \<longleftrightarrow> a = b \<and> x = y"
proof (induction a arbitrary: b)
  case Nil
  then show ?case by (cases b) auto
next
  case (Cons d a)
  then show ?case by (cases b) auto
qed

definition hexval :: "char \<Rightarrow> nat" where "hexval c = length (takeWhile (\<lambda>d. d \<noteq> c) ''0123456789abcdef'')"

definition unhex :: "string \<Rightarrow> nat" where "unhex s = foldl (\<lambda>a c. 16 * a + hexval c) 0 s"

lemma hexdigits: "\<forall>n \<in> set [0..<16]. hexval (hexdigit n) = n \<and> hexdigit n \<notin> {CHR '','', CHR ''('', CHR '')'', TAB}"
  by code_simp

lemma hexval_hexdigit [simp]: "n < 16 \<Longrightarrow> hexval (hexdigit n) = n"
  using hexdigits by simp

lemma unhex_hex [simp]: "unhex (hex n) = n"
proof (induction n rule: hex.induct)
  case (1 n)
  then show ?case by (subst hex.simps) (auto simp: unhex_def)
qed

lemma hex_chars: "c \<in> {CHR '','', CHR ''('', CHR '')'', TAB} \<Longrightarrow> c \<notin> set (hex n)"
proof (induction n rule: hex.induct)
  case (1 n)
  have "c \<noteq> hexdigit m" if "m < 16" for m using hexdigits "1.prems" that by auto
  then show ?case using 1 by (subst hex.simps) auto
qed

lemma unhex_zeros: "unhex (replicate k CHR ''0'' @ s) = unhex s"
proof -
  have "hexval CHR ''0'' = 0" by code_simp
  then have "foldl (\<lambda>a c. 16 * a + hexval c) 0 (replicate k CHR ''0'') = 0" by (induction k) simp_all
  then show ?thesis by (simp add: unhex_def)
qed

lemma hex_inj [simp]: "hex_x v = hex_x w \<longleftrightarrow> v = w" "hex_08x v = hex_08x w \<longleftrightarrow> v = w"
proof -
  have "unhex (hex_x v) = unat v" "unhex (hex_08x v) = unat v" for v by (simp_all add: hex_x_def hex_08x_def Let_def unhex_zeros)
  then show "hex_x v = hex_x w \<longleftrightarrow> v = w" "hex_08x v = hex_08x w \<longleftrightarrow> v = w" by (metis word_unat_eq_iff)+
qed

lemma hex_no_paren: "CHR ''('' \<notin> set (hex_x w)"
  using hex_chars [of "CHR ''(''"] by (simp add: hex_x_def)

lemma reg_names: "distinct regstrings \<and> length regstrings = 32 \<and> (\<forall>s \<in> set regstrings. CHR '','' \<notin> set s)"
  by code_simp

lemma Rs_inj [simp]: "i < 32 \<Longrightarrow> j < 32 \<Longrightarrow> Rs i = Rs j \<longleftrightarrow> i = j"
  using reg_names by (simp add: Rs_def nth_eq_iff_index_eq)

lemma Rs_no_comma [simp]: "i < 32 \<Longrightarrow> CHR '','' \<notin> set (Rs i)"
  using reg_names by (simp add: Rs_def)

lemma Rs_sep [simp]: "i < 32 \<Longrightarrow> j < 32 \<Longrightarrow> Rs i @ CHR '','' # x = Rs j @ CHR '','' # y \<longleftrightarrow> i = j \<and> x = y"
  by (simp add: append_sep)

lemma fields_lt [simp]: "f_rd w < 32" "f_rt w < 32" "f_rs w < 32" "shamt w < 32"
  using unat_and_1f by (simp_all add: f_rd_def f_rt_def f_rs_def shamt_def)

section \<open>The mnemonics\<close>

text \<open>The instructions the interpreter executes, and the five of which the line does not show what they do.\<close>

definition executed :: "mips_op list" where
  "executed = [OP_SLL, OP_SRL, OP_SRA, OP_SLLV, OP_SRLV, OP_SRAV, OP_JR, OP_JALR, OP_SYSCALL, OP_MFHI, OP_MTHI, OP_MFLO, OP_MTLO, OP_MULT, OP_MULTU, OP_DIV, OP_DIVU,
     OP_ADD, OP_ADDU, OP_SUB, OP_SUBU, OP_AND, OP_OR, OP_XOR, OP_NOR, OP_SLT, OP_SLTU, OP_BLTZ, OP_BGEZ, OP_BLTZAL, OP_BGEZAL, OP_J, OP_JAL, OP_BEQ, OP_BNE, OP_BLEZ, OP_BGTZ,
     OP_ADDI, OP_ADDIU, OP_SLTI, OP_SLTIU, OP_ANDI, OP_ORI, OP_XORI, OP_LUI, OP_LB, OP_LH, OP_LWL, OP_LW, OP_LBU, OP_LHU, OP_LWR, OP_SB, OP_SH, OP_SW]"

definition misprinted :: "mips_op set" where "misprinted = {OP_JALR, OP_MFLO, OP_MTHI, OP_BLEZ, OP_BGTZ}"

primrec (nonexhaustive) mnemonic :: "mips_op \<Rightarrow> string" where
  "mnemonic OP_SLL = ''sll''" | "mnemonic OP_SRL = ''srl''" | "mnemonic OP_SRA = ''sra''" | "mnemonic OP_SLLV = ''sllv''" | "mnemonic OP_SRLV = ''srlv''"
| "mnemonic OP_SRAV = ''srav''" | "mnemonic OP_JR = ''jr''" | "mnemonic OP_JALR = ''jalr''" | "mnemonic OP_SYSCALL = ''syscall''"
| "mnemonic OP_MFHI = ''mfhi''" | "mnemonic OP_MTHI = ''mthi''" | "mnemonic OP_MFLO = ''mflo''" | "mnemonic OP_MTLO = ''mtlo''"
| "mnemonic OP_MULT = ''mult''" | "mnemonic OP_MULTU = ''multu''" | "mnemonic OP_DIV = ''div''" | "mnemonic OP_DIVU = ''divu''"
| "mnemonic OP_ADD = ''add''" | "mnemonic OP_ADDU = ''addu''" | "mnemonic OP_SUB = ''sub''" | "mnemonic OP_SUBU = ''subu''" | "mnemonic OP_AND = ''and''"
| "mnemonic OP_OR = ''or''" | "mnemonic OP_XOR = ''xor''" | "mnemonic OP_NOR = ''nor''" | "mnemonic OP_SLT = ''slt''" | "mnemonic OP_SLTU = ''sltu''"
| "mnemonic OP_BLTZ = ''bltz''" | "mnemonic OP_BGEZ = ''bgez''" | "mnemonic OP_BLTZAL = ''bltzal''" | "mnemonic OP_BGEZAL = ''bgezal''"
| "mnemonic OP_J = ''j''" | "mnemonic OP_JAL = ''jal''" | "mnemonic OP_BEQ = ''beq''" | "mnemonic OP_BNE = ''bne''" | "mnemonic OP_BLEZ = ''blez''"
| "mnemonic OP_BGTZ = ''bgtz''" | "mnemonic OP_ADDI = ''addi''" | "mnemonic OP_ADDIU = ''addiu''" | "mnemonic OP_SLTI = ''slti''"
| "mnemonic OP_SLTIU = ''sltiu''" | "mnemonic OP_ANDI = ''andi''" | "mnemonic OP_ORI = ''ori''" | "mnemonic OP_XORI = ''xori''"
| "mnemonic OP_LUI = ''lui''" | "mnemonic OP_LB = ''lb''" | "mnemonic OP_LH = ''lh''" | "mnemonic OP_LWL = ''lwl''" | "mnemonic OP_LW = ''lw''"
| "mnemonic OP_LBU = ''lbu''" | "mnemonic OP_LHU = ''lhu''" | "mnemonic OP_LWR = ''lwr''" | "mnemonic OP_SB = ''sb''" | "mnemonic OP_SH = ''sh''"
| "mnemonic OP_SW = ''sw''"

lemma mnemonics_ok: "distinct (map mnemonic executed) \<and> (\<forall>s \<in> set (map mnemonic executed). TAB \<notin> set s)"
  unfolding executed_def list.map mnemonic.simps by code_simp

lemma special_names: "f < 64 \<Longrightarrow> special_op f \<in> set executed \<Longrightarrow> specialops ! f = mnemonic (special_op f)"
proof -
  assume f: "f < 64" "special_op f \<in> set executed"
  have "list_all2 (\<lambda>op n. n = mnemonic op \<or> op \<in> {OP_RES, OP_UNIMP}) specialTable specialops" by (simp add: specialTable_def specialops_def)
  moreover have "length specialTable = 64" by (simp add: specialTable_def)
  ultimately have "specialops ! f = mnemonic (specialTable ! f) \<or> specialTable ! f \<in> {OP_RES, OP_UNIMP}" using f(1) by (simp add: list_all2_conv_all_nth)
  moreover have "f \<noteq> I_BREAK" using f(2) by (auto simp: I_BREAK_def special_op_def executed_def)
  ultimately show ?thesis using f special_op_table [OF f(1)] by (auto simp: executed_def)
qed

lemma normal_names: "k < 64 \<Longrightarrow> normal_op k \<in> set executed \<Longrightarrow> normalops ! k = mnemonic (normal_op k)"
proof -
  assume k: "k < 64" "normal_op k \<in> set executed"
  have "list_all2 (\<lambda>op n. n = mnemonic (fst op) \<or> fst op \<in> {SPECIAL, BCOND, OP_UNIMP, OP_RES, OP_SWL, OP_SWR}) opTable normalops" by (simp add: opTable_def normalops_def)
  moreover have "length opTable = 64" by (simp add: opTable_def)
  ultimately have "normalops ! k = mnemonic (fst (opTable ! k)) \<or> fst (opTable ! k) \<in> {SPECIAL, BCOND, OP_UNIMP, OP_RES, OP_SWL, OP_SWR}"
    using k(1) by (simp add: list_all2_conv_all_nth)
  then show ?thesis using k normal_op_table [OF k(1)] by (auto simp: executed_def)
qed

lemma bcond_names: "\<forall>k \<in> set [0..<32]. bcond_op k \<in> set executed \<longrightarrow> bcond_name k = mnemonic (bcond_op k)"
  by (simp add: bcond_op_def bcond_name_def executed_def)

lemma mnemonic_inj: "op \<in> set executed \<Longrightarrow> op' \<in> set executed \<Longrightarrow> mnemonic op = mnemonic op' \<longleftrightarrow> op = op'"
  and mnemonic_no_tab: "op \<in> set executed \<Longrightarrow> TAB \<notin> set (mnemonic op)"
  using mnemonics_ok by (auto simp: distinct_map inj_on_def)

section \<open>What a line determines\<close>

definition special_ops :: "mips_op set" where "special_ops = set (take 27 executed)"
definition bcond_ops :: "mips_op set" where "bcond_ops = {OP_BLTZ, OP_BGEZ, OP_BLTZAL, OP_BGEZAL}"

definition op_args :: "mips_op \<Rightarrow> u32 \<Rightarrow> u32 \<Rightarrow> string" where
  "op_args op w pc = (if op \<in> bcond_ops then Rs (f_rs w) @ '','' @ hex_08x (off16 w + pc + 4)
     else if op \<in> special_ops then special_args op w else normal_args (unat (drop_bit 26 w)) w pc)"

lemma special_ops_iff: "special_ops = {OP_SLL, OP_SRL, OP_SRA, OP_SLLV, OP_SRLV, OP_SRAV, OP_JR, OP_JALR, OP_SYSCALL, OP_MFHI, OP_MTHI, OP_MFLO, OP_MTLO, OP_MULT, OP_MULTU,
    OP_DIV, OP_DIVU, OP_ADD, OP_ADDU, OP_SUB, OP_SUBU, OP_AND, OP_OR, OP_XOR, OP_NOR, OP_SLT, OP_SLTU}"
  by (simp add: special_ops_def executed_def)

lemma opcode_bits: "drop_bit 26 w AND 0x3f = drop_bit 26 w" "unat (drop_bit 26 w) < 64" for w :: u32
proof -
  have m: "(0x3f :: u32) = mask 6" by (simp add: mask_eq_exp_minus_1)
  show e: "drop_bit 26 w AND 0x3f = drop_bit 26 w" unfolding m by (rule bit_word_eqI) (auto simp: bit_simps dest: bit_imp_le_length)
  show "unat (drop_bit 26 w) < 64" using unat_and_3f [of "drop_bit 26 w"] unfolding e .
qed

lemma op_classes: "k < 64 \<Longrightarrow> normal_op k \<notin> special_ops \<union> bcond_ops" "k < 64 \<Longrightarrow> special_op k \<in> set executed \<Longrightarrow> special_op k \<in> special_ops - bcond_ops"
proof -
  assume k: "k < 64"
  have "list_all (\<lambda>p. fst p \<notin> special_ops \<union> bcond_ops) opTable" by (simp add: opTable_def special_ops_iff bcond_ops_def)
  moreover have l: "length opTable = 64" "length specialTable = 64" by (simp_all add: opTable_def specialTable_def)
  ultimately show "normal_op k \<notin> special_ops \<union> bcond_ops" using k normal_op_table [OF k] by (simp add: list_all_length)
  assume e: "special_op k \<in> set executed"
  have "list_all (\<lambda>op. op \<in> {OP_RES, OP_UNIMP} \<or> op \<in> special_ops - bcond_ops) specialTable" by (simp add: specialTable_def special_ops_iff bcond_ops_def)
  moreover have "k \<noteq> I_BREAK" using e by (auto simp: I_BREAK_def special_op_def executed_def)
  ultimately have "special_op k \<in> {OP_RES, OP_UNIMP} \<or> special_op k \<in> special_ops - bcond_ops" using k l special_op_table [OF k] by (simp add: list_all_length)
  then show "special_op k \<in> special_ops - bcond_ops" using e by (auto simp: executed_def)
qed

lemma dump_line:
  assumes "switch w = Some op" "op \<in> set executed" "w \<noteq> 0"
  shows "dump_ascii False w pc = TAB # mnemonic op @ TAB # op_args op w pc"
    and "op \<notin> bcond_ops \<Longrightarrow> op \<notin> special_ops \<Longrightarrow> normal_op (unat (drop_bit 26 w)) = op"
proof -
  let ?k = "unat (drop_bit 26 w)" and ?f = "unat (w AND 0x3f)"
  have sp: "(normal_op ?k = SPECIAL) = (?k = 0)" "(normal_op ?k = BCOND) = (?k = 1)" by (simp_all add: normal_op_def)
  have f: "?f < 64" using unat_and_3f by blast
  consider (special) "?k = 0" "op = special_op ?f" | (bcond) "?k = 1" "op = bcond_op (f_rt w)" | (normal) "?k \<noteq> 0" "?k \<noteq> 1" "op = normal_op ?k"
    using assms(1) sp by (auto simp: switch_def Let_def opcode_bits split: if_splits)
  then have "dump_ascii False w pc = TAB # mnemonic op @ TAB # op_args op w pc \<and> (op \<notin> bcond_ops \<longrightarrow> op \<notin> special_ops \<longrightarrow> normal_op ?k = op)"
  proof cases
    case special
    have "op \<in> special_ops" "op \<notin> bcond_ops" using op_classes(2) [OF f] special(2) assms(2) by auto
    then show ?thesis using special assms(2,3) special_names [OF f] by (simp add: dump_ascii_def op_args_def Let_def)
  next
    case bcond
    have "bcond_op (f_rt w) \<in> insert OP_UNIMP bcond_ops" by (simp add: bcond_op_def bcond_ops_def)
    then have "op \<in> bcond_ops" using bcond(2) assms(2) by (auto simp: executed_def)
    moreover have "bcond_name (f_rt w) = mnemonic op" using bcond_names bcond(2) assms(2) by simp
    ultimately show ?thesis using bcond(1) assms(3) by (simp add: dump_ascii_def op_args_def)
  next
    case normal
    have "op \<notin> special_ops" "op \<notin> bcond_ops" using op_classes(1) [OF opcode_bits(2) [of w]] normal(3) by auto
    then show ?thesis using normal assms(2,3) normal_names [OF opcode_bits(2)] by (simp add: dump_ascii_def op_args_def Let_def)
  qed
  then show "dump_ascii False w pc = TAB # mnemonic op @ TAB # op_args op w pc"
    "op \<notin> bcond_ops \<Longrightarrow> op \<notin> special_ops \<Longrightarrow> normal_op ?k = op" by auto
qed

lemma unat_small: "n < 32 \<Longrightarrow> unat (of_nat n :: u32) = n"
  by (simp add: unat_of_nat)

lemma special_args_run:
  assumes "special_args op w = special_args op w'" "op \<in> special_ops" "op \<notin> misprinted"
  shows "run_op op w pc s = run_op op w' pc s"
proof -
  have sh: "(of_nat (shamt w) :: u32) = of_nat (shamt w') \<longleftrightarrow> shamt w = shamt w'"
    by (metis fields_lt(4) unat_small)
  show ?thesis using assms unfolding special_ops_iff
    by (auto simp: special_args_def misprinted_def sh shifted_def run_mult_def run_multu_def run_div_def run_divu_def)
qed

lemma jump_target: "jump pc w s = Next (s\<lparr>inpc := top4 pc OR off26 w\<rparr>)"
proof -
  have c: "NOT (push_bit 28 1 - 1) = (0xf0000000 :: u32)" "push_bit 26 1 - 1 = (0x3ffffff :: u32)" by (simp_all add: push_bit_eq_mult)
  show ?thesis unfolding jump_def top4_def off26_def c by (rule refl)
qed

lemma normal_args_run:
  assumes "normal_args k w pc = normal_args k' w' pc" "normal_op k = op" "normal_op k' = op" "op \<in> set executed" "op \<notin> bcond_ops \<union> special_ops \<union> misprinted"
  shows "run_op op w pc s = run_op op w' pc s"
proof -
  have lui: "immed w = immed w' \<Longrightarrow> push_bit 16 w = push_bit 16 w'" using lui_same by metis
  consider (jumps) "op \<in> {OP_J, OP_JAL}" | (branches) "op \<in> {OP_BEQ, OP_BNE}" | (imms) "op \<in> {OP_ADDI, OP_ADDIU, OP_SLTI, OP_SLTIU, OP_ANDI, OP_ORI, OP_XORI}" | (lui) "op = OP_LUI"
    | (mems) "op \<in> {OP_LB, OP_LH, OP_LWL, OP_LW, OP_LBU, OP_LHU, OP_LWR, OP_SB, OP_SH, OP_SW}"
    by (cases op) (use assms(4,5) in \<open>simp_all add: executed_def bcond_ops_def special_ops_iff misprinted_def\<close>)
  then show ?thesis
  proof cases
    case jumps
    then show ?thesis using assms(1-3) by (auto simp: normal_args_def Let_def jump_target link_to_def)
  next
    case branches
    then show ?thesis using assms(1-3) by (auto simp: normal_args_def Let_def off16_def goto_if_def)
  next
    case imms
    then show ?thesis using assms(1-3) by (auto simp: normal_args_def Let_def)
  next
    case lui
    then show ?thesis using assms(1-3) \<open>immed w = immed w' \<Longrightarrow> push_bit 16 w = push_bit 16 w'\<close> by (auto simp: normal_args_def Let_def)
  next
    case mems
    then show ?thesis using assms(1-3) by (auto simp: normal_args_def Let_def append_sep [OF hex_no_paren hex_no_paren] run_lwl_def run_lwr_def)
  qed
qed

lemma run_nop: "run_op OP_SLL 0 pc s = put 0 (R s 0) s"
  by (simp add: put_def shamt_def f_rt_def f_rd_def)

text \<open>
  C18: a line of the disassembly, without the address and the instruction in hexadecimal, says what the instruction does: two instructions at the same address with the
  same line have the same effect in the interpreter. This holds for all that the interpreter executes except for \<^verbatim>\<open>jalr\<close>, \<^verbatim>\<open>mflo\<close>, \<^verbatim>\<open>mthi\<close>, \<^verbatim>\<open>blez\<close> and \<^verbatim>\<open>bgtz\<close>.
\<close>

theorem disassembly_determines:
  assumes "dump_ascii False w pc = dump_ascii False w' pc" and "switch w = Some op" and "switch w' = Some op'"
    and "op \<in> set executed - misprinted" and "op' \<in> set executed - misprinted"
  shows "op = op' \<and> run_op op w pc s = run_op op' w' pc s"
proof (cases "w = 0 \<or> w' = 0")
  case True
  have "dump_ascii False 0 pc = TAB # ''nop''" by (simp add: dump_ascii_def Let_def)
  moreover have "TAB \<in> set (tl (dump_ascii False v pc))" if "switch v = Some o1" "o1 \<in> set executed" "v \<noteq> 0" for v o1
    using dump_line(1) [OF that] by simp
  moreover have "TAB \<notin> set ''nop''" by code_simp
  ultimately have "w = 0" "w' = 0" using True assms by (metis DiffD1 list.sel(3))+
  then show ?thesis using assms(2,3) by simp
next
  case False
  have line: "dump_ascii False w pc = TAB # mnemonic op @ TAB # op_args op w pc" "dump_ascii False w' pc = TAB # mnemonic op' @ TAB # op_args op' w' pc"
    using dump_line(1) assms(2-5) False by auto
  have "TAB \<notin> set (mnemonic op)" "TAB \<notin> set (mnemonic op')" using mnemonic_no_tab assms(4,5) by auto
  then have "mnemonic op = mnemonic op' \<and> op_args op w pc = op_args op' w' pc" using line assms(1) by (simp add: append_sep)
  then have op: "op = op'" "op_args op w pc = op_args op w' pc" using mnemonic_inj assms(4,5) by auto
  consider (bcond) "op \<in> bcond_ops" | (special) "op \<notin> bcond_ops" "op \<in> special_ops" | (normal) "op \<notin> bcond_ops" "op \<notin> special_ops" by blast
  then have "run_op op w pc s = run_op op w' pc s"
  proof cases
    case bcond
    then show ?thesis using op(2) by (auto simp: bcond_ops_def op_args_def goto_if_def off16_def Let_def)
  next
    case special
    then show ?thesis using op(2) special_args_run [of op w w'] assms(4) by (simp add: op_args_def)
  next
    case normal
    have "normal_op (unat (drop_bit 26 w)) = op" "normal_op (unat (drop_bit 26 w')) = op" using dump_line(2) normal assms(2-5) False op(1) by auto
    then show ?thesis using normal_args_run [of "unat (drop_bit 26 w)" w pc "unat (drop_bit 26 w')" w' op] op(2) assms(4) normal by (simp add: op_args_def)
  qed
  then show ?thesis using op(1) by simp
qed

text \<open>The five others: \<^verbatim>\<open>mflo r2\<close> and \<^verbatim>\<open>mflo r3\<close> are printed alike, and so on.\<close>

lemma misprints:
  "dump_ascii False 0x00001012 pc = TAB # ''mflo'' @ TAB # ''0''" "dump_ascii False 0x00001812 pc = TAB # ''mflo'' @ TAB # ''0''"
  "dump_ascii False 0x00400011 pc = TAB # ''mthi'' @ TAB # ''0''" "dump_ascii False 0x0080f809 pc = dump_ascii False 0x00801009 pc"
  "dump_ascii False 0x18400001 pc = TAB # ''blez'' @ TAB # []" "dump_ascii False 0x1c600002 pc = TAB # ''bgtz'' @ TAB # []"
  by (simp_all add: dump_ascii_def Let_def specialops_def normalops_def special_op_def normal_op_def special_args_def normal_args_def f_rs_def f_rd_def Rs_def regstrings_def)

lemma disassembly_determines_witness:
  "dump_ascii False 0x00221820 0x10000000 = TAB # ''add'' @ TAB # ''r3,r1,r2'' \<and>
   run_op OP_ADD 0x00221820 0x10000000 demo_istate = run_op OP_ADD 0x00221860 0x10000000 demo_istate"
proof -
  have d: "dump_ascii False 0x00221820 0x10000000 = TAB # ''add'' @ TAB # ''r3,r1,r2''" "dump_ascii False 0x00221860 0x10000000 = TAB # ''add'' @ TAB # ''r3,r1,r2''"
    by (simp_all add: dump_ascii_def Let_def specialops_def special_op_def special_args_def f_rs_def f_rd_def f_rt_def Rs_def regstrings_def)
  have "switch 0x00221820 = Some OP_ADD" "switch 0x00221860 = Some OP_ADD" "OP_ADD \<in> set executed - misprinted"
    by (simp_all add: switch_def normal_op_def special_op_def I_BREAK_def executed_def misprinted_def)
  then show ?thesis using disassembly_determines [of "0x00221820" "0x10000000" "0x00221860" OP_ADD OP_ADD demo_istate] d by simp
qed

end
