(* ===== verification/ObjectDump.thy ===== *)
theory ObjectDump
  imports Disasm
begin

text \<open>
  The programs of \<^verbatim>\<open>bin/\<close> around the disassembler: loading the sections of an object file and the loop over the text section (\<^verbatim>\<open>disasm.c\<close>), the loader of the interpreter
  (\<^verbatim>\<open>main.c\<close>) and the listing of sections, relocations and symbols (\<^verbatim>\<open>out.c\<close>). The headers of sections, relocations and symbols come from libraries of the host: the records have
  the fields that are used. \<open>file\<close> is the contents of the object file, which the programs read through the stream that \<^verbatim>\<open>ldopen\<close> positions.
\<close>

section \<open>Loading\<close>

record SCNHDR =
  sh_vaddr :: u32
  sh_size :: nat
  sh_scnptr :: nat

text \<open>\<^verbatim>\<open>getc\<close> at the end of the file is -1.\<close>

definition getc_at :: "byte list \<Rightarrow> nat \<Rightarrow> byte" where "getc_at file p = (if p < length file then file ! p else - 1)"

text \<open>The loop of \<^verbatim>\<open>disasm.c\<close>; \<open>Inr None\<close> is the end with a message that the memory is too small.\<close>

fun load_loop :: "byte list \<Rightarrow> nat \<Rightarrow> nat \<Rightarrow> u32 \<Rightarrow> byte list \<Rightarrow> byte list option result" where
  "load_loop file p 0 pc mem = Inr (Some mem)"
| "load_loop file p (Suc n) pc mem =
     (if sint (pc - memoffset) \<ge> int MEMSIZE then Inr None
      else bindR (wr mem (sint (pc - memoffset)) (getc_at file p)) (\<lambda>m. load_loop file (p + 1) n (pc + 1) m))"

definition load_section :: "byte list \<Rightarrow> SCNHDR \<Rightarrow> byte list \<Rightarrow> byte list option result" where
  "load_section file h mem = (if sh_scnptr h \<noteq> 0 then load_loop file (sh_scnptr h) (sh_size h) (sh_vaddr h) mem else Inr (Some mem))"

text \<open>The sections in the order in which they are loaded; \<open>None\<close> is a section without a header, for which there is a message.\<close>

fun load_program :: "byte list \<Rightarrow> SCNHDR option list \<Rightarrow> byte list \<Rightarrow> byte list option result" where
  "load_program file [] mem = Inr (Some mem)"
| "load_program file (None # hs) mem = load_program file hs mem"
| "load_program file (Some h # hs) mem = bindR (load_section file h mem) (\<lambda>r. case r of None \<Rightarrow> Inr None | Some m \<Rightarrow> load_program file hs m)"

text \<open>The macro \<^verbatim>\<open>LOADSECTION\<close> of \<^verbatim>\<open>main.c\<close> makes the test after the loop.\<close>

fun store_loop :: "byte list \<Rightarrow> nat \<Rightarrow> nat \<Rightarrow> u32 \<Rightarrow> byte list \<Rightarrow> (byte list \<times> u32) result" where
  "store_loop file p 0 pc mem = Inr (mem, pc)"
| "store_loop file p (Suc n) pc mem = bindR (wr mem (sint (pc - memoffset)) (getc_at file p)) (\<lambda>m. store_loop file (p + 1) n (pc + 1) m)"

definition LOADSECTION :: "byte list \<Rightarrow> SCNHDR \<Rightarrow> byte list \<Rightarrow> byte list option result" where
  "LOADSECTION file h mem = (if sh_scnptr h \<noteq> 0 then
     bindR (store_loop file (sh_scnptr h) (sh_size h) (sh_vaddr h) mem) (\<lambda>(m, pc). Inr (if sint (pc - memoffset) \<ge> int MEMSIZE then None else Some m))
     else Inr (Some mem))"

section \<open>The loop of the disassembler\<close>

definition dis1 :: "byte list \<Rightarrow> u32 \<Rightarrow> string result" where
  "dis1 mem pc = bindR (fetch_n 4 mem pc) (\<lambda>v. Inr (dump_ascii True (of_nat v) pc @ [NL]))"

function disasm_loop :: "nat \<Rightarrow> nat \<Rightarrow> u32 \<Rightarrow> byte list \<Rightarrow> string result" where
  "disasm_loop i sz pc mem = (if i < sz
     then bindR (dis1 mem pc) (\<lambda>l. bindR (disasm_loop (i + 4) sz (pc + 4) mem) (\<lambda>r. Inr (l @ r))) else Inr [])"
  by pat_completeness auto
termination
  by (relation "measure (\<lambda>(i, sz, pc, mem). sz - i)") auto

declare disasm_loop.simps [simp del]

definition disasm :: "nat \<Rightarrow> byte list \<Rightarrow> string result" where "disasm sz mem = disasm_loop 0 sz memoffset mem"

section \<open>Output in columns\<close>

record outst =
  column :: nat
  outp :: string

definition put_column :: "nat \<Rightarrow> char \<Rightarrow> nat" where
  "put_column c ch = (if ch = NL then 1 else if ch = TAB then (c + 7) div 8 * 8 + 1 else c + 1)"

text \<open>\<^verbatim>\<open>myprintf\<close> formats into an array of 100 characters. The lines of \<^verbatim>\<open>dump_ascii\<close> are written in pieces that are shorter.\<close>

definition out_string :: "string \<Rightarrow> outst \<Rightarrow> outst" where
  "out_string s st = st\<lparr>column := foldl put_column (column st) s, outp := outp st @ s\<rparr>"

definition myprintf :: "string \<Rightarrow> outst \<Rightarrow> outst result" where
  "myprintf s st = (if length s < 100 then Inr (out_string s st) else Inl OutOfBounds)"

function mytab :: "nat \<Rightarrow> outst \<Rightarrow> outst" where
  "mytab n st = (if column st < n then mytab n (st\<lparr>column := column st + 1, outp := outp st @ '' ''\<rparr>) else st)"
  by pat_completeness auto
termination
  by (relation "measure (\<lambda>(n, st). n - column st)") auto

declare mytab.simps [simp del]

text \<open>The conversion \<^verbatim>\<open>%d\<close>.\<close>

fun decimal :: "nat \<Rightarrow> string" where
  "decimal n = (if n < 10 then [hexdigit n] else decimal (n div 10) @ [hexdigit (n mod 10)])"

declare decimal.simps [simp del]

definition signed_decimal :: "int \<Rightarrow> string" where "signed_decimal i = (if i < 0 then CHR ''-'' # decimal (nat (- i)) else decimal (nat i))"

section \<open>Relocations, sections and symbols\<close>

record reloc =
  r_vaddr :: u32
  r_symndx :: int
  r_extern :: bool
  r_type :: int

record SYMR =
  sym_sc :: int
  sym_st :: int
  sym_value :: u32
  sym_iss :: int

definition MAXSYMS :: nat where "MAXSYMS = 300"

definition section_name :: "string list" where
  "section_name = [''(null)'', ''.text'', ''.rdata'', ''.data'', ''.sdata'', ''.sbss'', ''.bss'', ''.init'', ''.lit8'', ''.lit4'']"
definition reloc_type :: "string list" where
  "reloc_type = [''abs'', ''16'', ''32'', ''26'', ''hi16'', ''lo16'', ''gpdata'', ''gplit'']"
definition symbol_type :: "string list" where
  "symbol_type = [''Nil'', ''Global'', ''Static'', ''Param'', ''Local'', ''Label'', ''Proc'', ''Block'', ''End'', ''Member'', ''Type'', ''File'', ''Register'', ''Forward'', ''StaticProc'',
     ''Constant'']"
definition storage_class :: "string list" where
  "storage_class = [''Nil'', ''Text'', ''Data'', ''Bss'', ''Register'', ''Abs'', ''Undefined'', ''CdbLocal'', ''Bits'', ''CdbSystem'', ''RegImage'', ''Info'', ''UserStruct'', ''SData'', ''SBss'',
     ''RData'', ''Var'', ''Common'', ''SCommon'', ''VarRegister'', ''Variant'', ''SUndefined'', ''Init'']"

text \<open>The string that starts at the index \<open>i\<close> of \<^verbatim>\<open>sspace\<close>.\<close>

definition c_string :: "string \<Rightarrow> int \<Rightarrow> string result" where
  "c_string sspace i = (if 0 \<le> i \<and> CHR 0x00 \<in> set (drop (nat i) sspace) then Inr (takeWhile (\<lambda>c. c \<noteq> CHR 0x00) (drop (nat i) sspace)) else Inl OutOfBounds)"

definition reloc_name :: "SYMR list \<Rightarrow> string \<Rightarrow> reloc \<Rightarrow> string result" where
  "reloc_name symbols sspace r =
     (if r_extern r then
        (if r_symndx r \<ge> int MAXSYMS then Inr (''sym $'' @ signed_decimal (r_symndx r))
         else bindR (rd symbols (r_symndx r)) (\<lambda>s. bindR (c_string sspace (sym_iss s)) (\<lambda>n. Inr (CHR 0x22 # n @ [CHR 0x22]))))
      else rd section_name (r_symndx r))"

definition print_reloc :: "SYMR list \<Rightarrow> string \<Rightarrow> reloc list \<Rightarrow> u32 \<Rightarrow> outst \<Rightarrow> outst result" where
  "print_reloc symbols sspace relocs vaddr st =
     (case find (\<lambda>r. r_vaddr r = vaddr) relocs of
        None \<Rightarrow> myprintf [NL] st
      | Some r \<Rightarrow> bindR (reloc_name symbols sspace r) (\<lambda>n. bindR (myprintf n (mytab 57 st)) (\<lambda>st1.
          bindR (rd reloc_type (r_type r)) (\<lambda>t. bindR (myprintf ('' '' @ t) st1) (myprintf [NL])))))"

definition data_chars :: "u32 \<Rightarrow> string" where
  "data_chars w = map (\<lambda>b :: byte. if 32 \<le> sint b \<and> sint b < 127 then char_of (unat b) else CHR ''.'') (value_bytes 4 (unat w))"

fun print_words :: "SYMR list \<Rightarrow> string \<Rightarrow> reloc list \<Rightarrow> bool \<Rightarrow> u32 \<Rightarrow> u32 list \<Rightarrow> outst \<Rightarrow> outst result" where
  "print_words symbols sspace relocs is_text pc [] st = Inr st"
| "print_words symbols sspace relocs is_text pc (w # ws) st =
     bindR (print_reloc symbols sspace relocs pc
       (out_string (if is_text then dump_ascii True w pc else hex_08x pc @ '': '' @ hex_08x w @ ''  '' @ data_chars w @ [TAB] @ signed_decimal (sint w)) st))
     (\<lambda>st1. print_words symbols sspace relocs is_text (pc + 4) ws st1)"

definition print_section :: "SYMR list \<Rightarrow> string \<Rightarrow> string \<Rightarrow> int \<Rightarrow> u32 \<Rightarrow> u32 list \<Rightarrow> reloc list \<Rightarrow> outst \<Rightarrow> outst result" where
  "print_section symbols sspace name sz vaddr ws relocs st =
     bindR (myprintf (''Section: '' @ name @ [TAB] @ signed_decimal sz @ ''/'' @ decimal (length relocs) @ [NL]) st) (\<lambda>st1.
       print_words symbols sspace relocs (take 5 name = ''.text'') vaddr ws st1)"

definition print_symbol :: "int \<Rightarrow> string \<Rightarrow> SYMR \<Rightarrow> outst \<Rightarrow> outst result" where
  "print_symbol scUndefined sspace s st =
     bindR (myprintf (if sym_sc s = scUndefined then [TAB] @ '' '' else hex_08x (sym_value s) @ '' '') st) (\<lambda>st1.
     bindR (rd symbol_type (sym_st s)) (\<lambda>t. bindR (myprintf t st1) (\<lambda>st2.
     bindR (rd storage_class (sym_sc s)) (\<lambda>c. bindR (myprintf c (mytab 25 st2)) (\<lambda>st3.
     bindR (c_string sspace (sym_iss s)) (\<lambda>n. myprintf (n @ [NL]) (mytab 41 st3)))))))"

section \<open>What is loaded and listed\<close>

lemma MEMSIZE_int: "n < 2 ^ 31 \<Longrightarrow> sint (memoffset + of_nat n - memoffset) = int n"
  by (simp add: sint_of_nat_small)

lemma load_loop_ok:
  "a + n \<le> MEMSIZE \<Longrightarrow> length mem = MEMSIZE \<Longrightarrow> p + n \<le> length file \<Longrightarrow>
   load_loop file p n (memoffset + of_nat a) mem = Inr (Some (take a mem @ take n (drop p file) @ drop (a + n) mem))"
proof (induction n arbitrary: a p mem)
  case (Suc n)
  have a: "a < MEMSIZE" "MEMSIZE < 2 ^ 31" "p < length file" using Suc.prems by (simp_all add: MEMSIZE_def)
  have s: "sint (memoffset + of_nat a - memoffset) = int a" by (rule MEMSIZE_int) (use a in linarith)
  have pc: "memoffset + of_nat a + 1 = memoffset + of_nat (a + 1)" by simp
  have "load_loop file p (Suc n) (memoffset + of_nat a) mem = load_loop file (p + 1) n (memoffset + of_nat (a + 1)) (mem[a := file ! p])"
    using a Suc.prems by (simp only: load_loop.simps s pc) (simp add: getc_at_def)
  also have "\<dots> = Inr (Some (take (a + 1) (mem[a := file ! p]) @ take n (drop (p + 1) file) @ drop (a + 1 + n) (mem[a := file ! p])))"
    by (rule Suc.IH) (use Suc.prems in auto)
  also have "take (a + 1) (mem[a := file ! p]) = take a mem @ [file ! p]" using a Suc.prems by (simp add: take_Suc_conv_app_nth)
  also have "drop (a + 1 + n) (mem[a := file ! p]) = drop (a + Suc n) mem" by simp
  also have "(take a mem @ [file ! p]) @ take n (drop (p + 1) file) @ drop (a + Suc n) mem = take a mem @ take (Suc n) (drop p file) @ drop (a + Suc n) mem"
    using a(3) by (simp add: Cons_nth_drop_Suc [symmetric])
  finally show ?case .
qed simp

lemma store_loop_ok:
  "a + n \<le> MEMSIZE \<Longrightarrow> length mem = MEMSIZE \<Longrightarrow> load_loop file p n (memoffset + of_nat a) mem = Inr (Some m) \<Longrightarrow>
   store_loop file p n (memoffset + of_nat a) mem = Inr (m, memoffset + of_nat (a + n))"
proof (induction n arbitrary: a p mem)
  case (Suc n)
  have a: "a < MEMSIZE" "MEMSIZE < 2 ^ 31" using Suc.prems by (simp_all add: MEMSIZE_def)
  have s: "sint (memoffset + of_nat a - memoffset) = int a" by (rule MEMSIZE_int) (use a in linarith)
  have pc: "memoffset + of_nat a + 1 = memoffset + of_nat (a + 1)" by simp
  have l: "load_loop file (p + 1) n (memoffset + of_nat (a + 1)) (mem[a := getc_at file p]) = Inr (Some m)"
    using Suc.prems(3) a Suc.prems(2) by (simp only: load_loop.simps s pc) simp
  have "store_loop file p (Suc n) (memoffset + of_nat a) mem = store_loop file (p + 1) n (memoffset + of_nat (a + 1)) (mem[a := getc_at file p])"
    using a Suc.prems(2) by (simp only: store_loop.simps s pc) simp
  then show ?case using Suc.IH [OF _ _ l] Suc.prems(1,2) by simp
qed simp

text \<open>
  Both loaders put a section that fits at its place; that of \<^verbatim>\<open>main.c\<close> refuses a section which ends exactly at the end of the memory.
\<close>

lemma load_section_ok:
  assumes "sh_vaddr h = memoffset + of_nat a" "a + sh_size h \<le> MEMSIZE" "length mem = MEMSIZE" "sh_scnptr h + sh_size h \<le> length file" "sh_scnptr h \<noteq> 0"
  defines "m \<equiv> take a mem @ take (sh_size h) (drop (sh_scnptr h) file) @ drop (a + sh_size h) mem"
  shows "load_section file h mem = Inr (Some m)" and "LOADSECTION file h mem = Inr (if a + sh_size h = MEMSIZE then None else Some m)"
proof -
  have l: "load_loop file (sh_scnptr h) (sh_size h) (memoffset + of_nat a) mem = Inr (Some m)" unfolding m_def by (rule load_loop_ok) (use assms in auto)
  then show "load_section file h mem = Inr (Some m)" using assms(1,5) by (simp add: load_section_def)
  have "sint (memoffset + of_nat (a + sh_size h) - memoffset) = int (a + sh_size h)" by (rule MEMSIZE_int) (use assms(2) in \<open>simp add: MEMSIZE_def\<close>)
  then show "LOADSECTION file h mem = Inr (if a + sh_size h = MEMSIZE then None else Some m)"
    using store_loop_ok [OF assms(2,3) l] assms(1,2,5) by (simp add: LOADSECTION_def)
qed

definition file_word :: "byte list \<Rightarrow> nat \<Rightarrow> u32" where "file_word file p = of_nat (bytes_value (take 4 (drop p file)))"

lemma disasm_loop_ok:
  assumes "4 * n \<le> length mem" "length mem = MEMSIZE" "i \<le> n"
  shows "disasm_loop (4 * i) (4 * n) (memoffset + of_nat (4 * i)) mem =
    Inr (concat (map (\<lambda>j. dump_ascii True (file_word mem (4 * j)) (memoffset + of_nat (4 * j)) @ [NL]) [i..<n]))"
  using assms(3)
proof (induction "n - i" arbitrary: i)
  case 0
  then show ?case by (subst disasm_loop.simps) simp
next
  case (Suc k)
  then have i: "i < n" by simp
  have b: "4 * i < 2 ^ 24" using i assms(1,2) by (simp add: MEMSIZE_def)
  have u: "unat (memoffset + of_nat (4 * i) - memoffset) = 4 * i" using b unat_of_nat [of "4 * i", where ?'a = 32] by (simp del: of_nat_mult)
  have al: "unat (memoffset + of_nat (4 * i)) mod 4 = 0"
    using b by (simp add: memoffset_def unat_word_ariths unat_of_nat)
  have f: "dis1 mem (memoffset + of_nat (4 * i)) = Inr (dump_ascii True (file_word mem (4 * i)) (memoffset + of_nat (4 * i)) @ [NL])"
    using i assms(1) unfolding dis1_def fetch_n_def u al mem_read_def file_word_def by simp
  have pc: "memoffset + of_nat (4 * i) + 4 = memoffset + of_nat (4 * (i + 1))" by simp
  have "disasm_loop (4 * (i + 1)) (4 * n) (memoffset + of_nat (4 * (i + 1))) mem =
    Inr (concat (map (\<lambda>j. dump_ascii True (file_word mem (4 * j)) (memoffset + of_nat (4 * j)) @ [NL]) [i + 1..<n]))"
    by (rule Suc.hyps(1)) (use Suc.hyps(2) in auto)
  then show ?case using i f pc by (subst disasm_loop.simps) (simp add: upt_conv_Cons [OF i] ac_simps)
qed

text \<open>The disassembler prints a line for each word of the text section of the file, in order.\<close>

lemma disasm_text:
  assumes "sh_vaddr h = memoffset" "sh_size h = 4 * n" "sh_size h \<le> MEMSIZE" "length mem = MEMSIZE" "sh_scnptr h + sh_size h \<le> length file" "sh_scnptr h \<noteq> 0"
  shows "\<exists>m. load_section file h mem = Inr (Some m) \<and>
    disasm (sh_size h) m = Inr (concat (map (\<lambda>j. dump_ascii True (file_word file (sh_scnptr h + 4 * j)) (memoffset + of_nat (4 * j)) @ [NL]) [0..<n]))"
proof -
  let ?m = "take (sh_size h) (drop (sh_scnptr h) file) @ drop (sh_size h) mem"
  have l: "load_section file h mem = Inr (Some ?m)" using load_section_ok(1) [of h 0 mem "file"] assms by simp
  have "length ?m = MEMSIZE" using assms by simp
  then have "disasm (sh_size h) ?m = Inr (concat (map (\<lambda>j. dump_ascii True (file_word ?m (4 * j)) (memoffset + of_nat (4 * j)) @ [NL]) [0..<n]))"
    using disasm_loop_ok [of n ?m 0] assms by (simp add: disasm_def)
  moreover have "file_word ?m (4 * j) = file_word file (sh_scnptr h + 4 * j)" if "j < n" for j
    using that assms(2,5) by (simp add: file_word_def drop_take min_def add.commute)
  ultimately show ?thesis using l by (intro exI [of _ ?m]) (auto intro!: arg_cong [of _ _ concat])
qed

section \<open>Columns\<close>

text \<open>The column is what the output says, with a tab stop every eight characters.\<close>

definition column_ok :: "outst \<Rightarrow> bool" where "column_ok st \<longleftrightarrow> column st = foldl put_column 1 (outp st)"

lemma out_string_ok: "column_ok st \<Longrightarrow> column_ok (out_string s st)"
  by (simp add: column_ok_def out_string_def)

lemma myprintf_ok: "myprintf s st = Inr st' \<Longrightarrow> column_ok st \<Longrightarrow> column_ok st'"
  by (auto simp: myprintf_def out_string_ok split: if_splits)

lemma mytab_eq: "mytab n st = st\<lparr>column := max n (column st), outp := outp st @ replicate (n - column st) CHR '' ''\<rparr>"
proof (induction "n - column st" arbitrary: st)
  case 0
  then show ?case by (subst mytab.simps) (auto simp: max_def)
next
  case (Suc k)
  then have "column st < n" "n - column st = Suc (n - (column st + 1))" by simp_all
  then show ?case using Suc.hyps(1) [of "st\<lparr>column := column st + 1, outp := outp st @ '' ''\<rparr>"] Suc.hyps(2)
    by (subst mytab.simps) (simp add: max_def)
qed

lemma put_column_spaces: "foldl put_column c (replicate k CHR '' '') = c + k"
  by (induction k arbitrary: c) (simp_all add: put_column_def NL_def TAB_def)

lemma mytab_ok: "column_ok st \<Longrightarrow> column_ok (mytab n st)"
  by (auto simp: column_ok_def mytab_eq put_column_spaces max_def)

lemma print_reloc_ok: "print_reloc symbols sspace relocs v st = Inr st' \<Longrightarrow> column_ok st \<Longrightarrow> column_ok st' \<and> column st' = 1"
proof -
  have nl: "column t' = 1" if "myprintf [NL] t = Inr t'" for t t' using that by (auto simp: myprintf_def out_string_def put_column_def split: if_splits)
  show "print_reloc symbols sspace relocs v st = Inr st' \<Longrightarrow> column_ok st \<Longrightarrow> column_ok st' \<and> column st' = 1"
    by (auto simp: print_reloc_def bindR_eq_Inr nl split: option.splits dest: myprintf_ok mytab_ok) (meson mytab_ok myprintf_ok)+
qed

text \<open>Every line of a listing starts in the first column, and the columns are right all through.\<close>

lemma print_words_ok:
  "print_words symbols sspace relocs is_text pc ws st = Inr st' \<Longrightarrow> column_ok st \<Longrightarrow> column st = 1 \<Longrightarrow> column_ok st' \<and> column st' = 1"
proof (induction ws arbitrary: pc st)
  case (Cons w ws)
  then show ?case using print_reloc_ok out_string_ok by (fastforce simp: bindR_eq_Inr)
qed simp

text \<open>A relocation is printed in column 57, after blanks, unless the line is longer already.\<close>

lemma print_reloc_at:
  assumes "find (\<lambda>r. r_vaddr r = v) relocs = Some r" "reloc_name symbols sspace r = Inr n" "length n < 100" "rd reloc_type (r_type r) = Inr t" "length t < 99"
  shows "\<exists>st'. print_reloc symbols sspace relocs v st = Inr st' \<and> outp st' = outp st @ replicate (57 - column st) CHR '' '' @ n @ '' '' @ t @ [NL]"
  using assms by (simp add: print_reloc_def myprintf_def out_string_def mytab_eq)

text \<open>Without relocations, the listing of a text section is its header and the disassembly of its words.\<close>

lemma print_words_text:
  "\<exists>st'. print_words symbols sspace [] True pc ws st = Inr st' \<and>
     outp st' = outp st @ concat (map (\<lambda>j. dump_ascii True (ws ! j) (pc + of_nat (4 * j)) @ [NL]) [0..<length ws])"
proof (induction ws arbitrary: pc st)
  case (Cons w ws)
  let ?st = "out_string [NL] (out_string (dump_ascii True w pc) st)"
  obtain st' where st': "print_words symbols sspace [] True (pc + 4) ws ?st = Inr st'"
    "outp st' = outp ?st @ concat (map (\<lambda>j. dump_ascii True (ws ! j) (pc + 4 + of_nat (4 * j)) @ [NL]) [0..<length ws])" using Cons.IH by blast
  have "map (\<lambda>j. dump_ascii True ((w # ws) ! j) (pc + of_nat (4 * j)) @ [NL]) [0..<length (w # ws)] =
    (dump_ascii True w pc @ [NL]) # map (\<lambda>j. dump_ascii True (ws ! j) (pc + 4 + of_nat (4 * j)) @ [NL]) [0..<length ws]"
    by (simp add: upt_conv_Cons map_Suc_upt [symmetric] algebra_simps del: upt_Suc)
  then show ?case using st' by (simp add: print_reloc_def myprintf_def out_string_def)
qed simp

text \<open>A name of a symbol that does not fit the array of \<^verbatim>\<open>myprintf\<close> overruns it.\<close>

lemma long_symbol: "c_string sspace (sym_iss s) = Inr n \<Longrightarrow> 99 \<le> length n \<Longrightarrow> print_symbol u sspace s st \<noteq> Inr st'"
  by (auto simp: print_symbol_def bindR_eq_Inr myprintf_def)

end
