(* ===== verification/Debugger.thy ===== *)
theory Debugger
  imports ObjectDump
begin

text \<open>
  The debugging aids of the simulated machine: the trace of instructions (\<^verbatim>\<open>opStrings\<close> of \<^verbatim>\<open>machine/mipssim.h\<close> and its use in \<^verbatim>\<open>Machine::OneInstruction\<close>), and the debugger
  of \<^verbatim>\<open>machine/machine.cc\<close>, which changes when the machine stops next.
\<close>

section \<open>The trace\<close>

datatype (plugins only: size) RegType = NoReg | RS | RT | RD | EXTRA

text \<open>The entry of \<^verbatim>\<open>opStrings\<close> for an operation; \<open>NoReg\<close> is \<^verbatim>\<open>NONE\<close>. The entries for numbers that no operation has are left out.\<close>

primrec (nonexhaustive) opString :: "mips_op \<Rightarrow> string \<times> RegType list" where
  "opString OP_ADD = (''ADD r%d,r%d,r%d'', [RD, RS, RT])"
| "opString OP_ADDI = (''ADDI r%d,r%d,%d'', [RT, RS, EXTRA])"
| "opString OP_ADDIU = (''ADDIU r%d,r%d,%d'', [RT, RS, EXTRA])"
| "opString OP_ADDU = (''ADDU r%d,r%d,r%d'', [RD, RS, RT])"
| "opString OP_AND = (''AND r%d,r%d,r%d'', [RD, RS, RT])"
| "opString OP_ANDI = (''ANDI r%d,r%d,%d'', [RT, RS, EXTRA])"
| "opString OP_BEQ = (''BEQ r%d,r%d,%d'', [RS, RT, EXTRA])"
| "opString OP_BGEZ = (''BGEZ r%d,%d'', [RS, EXTRA, NoReg])"
| "opString OP_BGEZAL = (''BGEZAL r%d,%d'', [RS, EXTRA, NoReg])"
| "opString OP_BGTZ = (''BGTZ r%d,%d'', [RS, EXTRA, NoReg])"
| "opString OP_BLEZ = (''BLEZ r%d,%d'', [RS, EXTRA, NoReg])"
| "opString OP_BLTZ = (''BLTZ r%d,%d'', [RS, EXTRA, NoReg])"
| "opString OP_BLTZAL = (''BLTZAL r%d,%d'', [RS, EXTRA, NoReg])"
| "opString OP_BNE = (''BNE r%d,r%d,%d'', [RS, RT, EXTRA])"
| "opString OP_DIV = (''DIV r%d,r%d'', [RS, RT, NoReg])"
| "opString OP_DIVU = (''DIVU r%d,r%d'', [RS, RT, NoReg])"
| "opString OP_J = (''J %d'', [EXTRA, NoReg, NoReg])"
| "opString OP_JAL = (''JAL %d'', [EXTRA, NoReg, NoReg])"
| "opString OP_JALR = (''JALR r%d,r%d'', [RD, RS, NoReg])"
| "opString OP_JR = (''JR r%d,r%d'', [RD, RS, NoReg])"
| "opString OP_LB = (''LB r%d,%d(r%d)'', [RT, EXTRA, RS])"
| "opString OP_LBU = (''LBU r%d,%d(r%d)'', [RT, EXTRA, RS])"
| "opString OP_LH = (''LH r%d,%d(r%d)'', [RT, EXTRA, RS])"
| "opString OP_LHU = (''LHU r%d,%d(r%d)'', [RT, EXTRA, RS])"
| "opString OP_LUI = (''LUI r%d,%d'', [RT, EXTRA, NoReg])"
| "opString OP_LW = (''LW r%d,%d(r%d)'', [RT, EXTRA, RS])"
| "opString OP_LWL = (''LWL r%d,%d(r%d)'', [RT, EXTRA, RS])"
| "opString OP_LWR = (''LWR r%d,%d(r%d)'', [RT, EXTRA, RS])"
| "opString OP_MFHI = (''MFHI r%d'', [RD, NoReg, NoReg])"
| "opString OP_MFLO = (''MFLO r%d'', [RD, NoReg, NoReg])"
| "opString OP_MTHI = (''MTHI r%d'', [RS, NoReg, NoReg])"
| "opString OP_MTLO = (''MTLO r%d'', [RS, NoReg, NoReg])"
| "opString OP_MULT = (''MULT r%d,r%d'', [RS, RT, NoReg])"
| "opString OP_MULTU = (''MULTU r%d,r%d'', [RS, RT, NoReg])"
| "opString OP_NOR = (''NOR r%d,r%d,r%d'', [RD, RS, RT])"
| "opString OP_OR = (''OR r%d,r%d,r%d'', [RD, RS, RT])"
| "opString OP_ORI = (''ORI r%d,r%d,%d'', [RT, RS, EXTRA])"
| "opString OP_RFE = (''RFE'', [NoReg, NoReg, NoReg])"
| "opString OP_SB = (''SB r%d,%d(r%d)'', [RT, EXTRA, RS])"
| "opString OP_SH = (''SH r%d,%d(r%d)'', [RT, EXTRA, RS])"
| "opString OP_SLL = (''SLL r%d,r%d,%d'', [RD, RT, EXTRA])"
| "opString OP_SLLV = (''SLLV r%d,r%d,r%d'', [RD, RT, RS])"
| "opString OP_SLT = (''SLT r%d,r%d,r%d'', [RD, RS, RT])"
| "opString OP_SLTI = (''SLTI r%d,r%d,%d'', [RT, RS, EXTRA])"
| "opString OP_SLTIU = (''SLTIU r%d,r%d,%d'', [RT, RS, EXTRA])"
| "opString OP_SLTU = (''SLTU r%d,r%d,r%d'', [RD, RS, RT])"
| "opString OP_SRA = (''SRA r%d,r%d,%d'', [RD, RT, EXTRA])"
| "opString OP_SRAV = (''SRAV r%d,r%d,r%d'', [RD, RT, RS])"
| "opString OP_SRL = (''SRL r%d,r%d,%d'', [RD, RT, EXTRA])"
| "opString OP_SRLV = (''SRLV r%d,r%d,r%d'', [RD, RT, RS])"
| "opString OP_SUB = (''SUB r%d,r%d,r%d'', [RD, RS, RT])"
| "opString OP_SUBU = (''SUBU r%d,r%d,r%d'', [RD, RS, RT])"
| "opString OP_SW = (''SW r%d,%d(r%d)'', [RT, EXTRA, RS])"
| "opString OP_SWL = (''SWL r%d,%d(r%d)'', [RT, EXTRA, RS])"
| "opString OP_SWR = (''SWR r%d,%d(r%d)'', [RT, EXTRA, RS])"
| "opString OP_XOR = (''XOR r%d,r%d,r%d'', [RD, RS, RT])"
| "opString OP_XORI = (''XORI r%d,r%d,%d'', [RT, RS, EXTRA])"
| "opString OP_SYSCALL = (''SYSCALL'', [NoReg, NoReg, NoReg])"
| "opString OP_UNIMP = (''Unimplemented'', [NoReg, NoReg, NoReg])"
| "opString OP_RES = (''Reserved'', [NoReg, NoReg, NoReg])"

primrec TypeToReg :: "RegType \<Rightarrow> Instruction \<Rightarrow> int" where
  "TypeToReg RS i = int (irs i)"
| "TypeToReg RT i = int (irt i)"
| "TypeToReg RD i = int (ird i)"
| "TypeToReg EXTRA i = sint (extra i)"
| "TypeToReg NoReg i = -1"

text \<open>\<^verbatim>\<open>printf\<close> with the conversion \<^verbatim>\<open>%d\<close> only.\<close>

fun printf_d :: "string \<Rightarrow> int list \<Rightarrow> string" where
  "printf_d [] xs = []"
| "printf_d [c] xs = [c]"
| "printf_d (c # c' # cs) xs = (if c = CHR ''%'' \<and> c' = CHR ''d'' then (case xs of [] \<Rightarrow> [] | x # xs' \<Rightarrow> signed_decimal x @ printf_d cs xs') else c # printf_d (c' # cs) xs)"

definition trace_line :: "u32 \<Rightarrow> Instruction \<Rightarrow> string" where
  "trace_line pc i = ''At PC = 0x'' @ hex_x pc @ '': '' @ printf_d (fst (opString (opCode i))) (map (\<lambda>r. TypeToReg r i) (snd (opString (opCode i)))) @ [NL]"

section \<open>The state of the machine\<close>

definition dump_reg :: "u32 list \<Rightarrow> nat \<Rightarrow> string" where
  "dump_reg regs i = (if i = 29 then [TAB] @ ''SP('' @ decimal i @ ''):'' else if i = 31 then [TAB] @ ''RA('' @ decimal i @ ''):'' else [TAB] @ decimal i @ '':'') @
     [TAB] @ ''0x'' @ hex_x (regs ! i) @ (if i mod 4 = 3 then [NL] else [])"

definition Machine_DumpState :: "Machine \<Rightarrow> string" where
  "Machine_DumpState m = (let r = (\<lambda>i. ''0x'' @ hex_x (registers m ! i)) in
     ''Machine registers:'' @ [NL] @ concat (map (dump_reg (registers m)) [0..<32]) @
     [TAB] @ ''Hi:'' @ [TAB] @ r HiReg @ [TAB] @ ''Lo:'' @ [TAB] @ r LoReg @ [NL] @
     [TAB] @ ''PC:'' @ [TAB] @ r PCReg @ [TAB] @ ''NextPC:'' @ [TAB] @ r NextPCReg @ [TAB] @ ''PrevPC:'' @ [TAB] @ r PrevPCReg @ [NL] @
     [TAB] @ ''Load:'' @ [TAB] @ r LoadReg @ [TAB] @ ''LoadV:'' @ [TAB] @ r LoadValueReg @ [NL] @ [NL])"

section \<open>The debugger\<close>

definition is_space :: "char \<Rightarrow> bool" where "is_space c \<longleftrightarrow> c \<in> {CHR '' '', CHR 0x09, CHR 0x0A, CHR 0x0B, CHR 0x0C, CHR 0x0D}"
definition is_digit :: "char \<Rightarrow> bool" where "is_digit c \<longleftrightarrow> 48 \<le> (of_char c :: nat) \<and> (of_char c :: nat) \<le> 57"

text \<open>\<^verbatim>\<open>sscanf(buf, "%d", &num)\<close>: white space, a sign, digits; \<open>None\<close> if there is no number.\<close>

definition scan_digits :: "string \<Rightarrow> int option" where
  "scan_digits s = (let ds = takeWhile is_digit s in if ds = [] then None else Some (foldl (\<lambda>a c. 10 * a + (int (of_char c) - 48)) 0 ds))"

definition sscanf_d :: "string \<Rightarrow> int option" where
  "sscanf_d s = (case dropWhile is_space s of
     [] \<Rightarrow> None
   | c # cs \<Rightarrow> if c = CHR ''-'' then map_option uminus (scan_digits cs) else if c = CHR ''+'' then scan_digits cs else scan_digits (c # cs))"

definition help_text :: string where
  "help_text = ''Machine commands:'' @ [NL] @ ''    <return>  execute one instruction'' @ [NL] @ ''    <number>  run until the given timer tick'' @ [NL] @
     ''    c         run until completion'' @ [NL] @ ''    ?         print help message'' @ [NL]"

text \<open>
  \<^verbatim>\<open>Machine::Debugger\<close> after it has printed the state: \<open>buf\<close> is the line read, or what the new array holds when there is no more input. The second result is what it prints.
  A number that is too large for an \<^verbatim>\<open>int\<close> is one that C leaves undefined.
\<close>

definition Debugger :: "string \<Rightarrow> Machine \<Rightarrow> Machine \<times> string" where
  "Debugger buf m = (case sscanf_d buf of
     Some num \<Rightarrow> (m\<lparr>runUntilTime := num\<rparr>, [])
   | None \<Rightarrow> let m1 = m\<lparr>runUntilTime := 0\<rparr> in
       (case buf of
          [] \<Rightarrow> (m1, [])
        | c # _ \<Rightarrow> if c = CHR ''c'' then (m1\<lparr>singleStep := False\<rparr>, []) else if c = CHR ''?'' then (m1, help_text) else (m1, [])))"

text \<open>The end of a round of \<^verbatim>\<open>Machine::Run\<close>: \<open>read\<close> is what the debugger would read.\<close>

definition debug_stop :: "string \<Rightarrow> int \<Rightarrow> Machine \<Rightarrow> Machine" where
  "debug_stop read totalTicks m = (if singleStep m \<and> runUntilTime m \<le> totalTicks then fst (Debugger read m) else m)"

section \<open>What they do\<close>

text \<open>The names in the trace are those of the disassembler, in capital letters.\<close>

definition to_upper :: "char \<Rightarrow> char" where "to_upper c = (if 97 \<le> (of_char c :: nat) \<and> (of_char c :: nat) \<le> 122 then char_of (of_char c - 32 :: nat) else c)"

lemma trace_names: "op \<in> set executed \<Longrightarrow> takeWhile (\<lambda>c. c \<noteq> CHR '' '') (fst (opString op)) = map to_upper (mnemonic op)"
proof -
  have "map (\<lambda>op. takeWhile (\<lambda>c. c \<noteq> CHR '' '') (fst (opString op))) executed = map (\<lambda>op. map to_upper (mnemonic op)) executed"
    unfolding executed_def list.map opString.simps mnemonic.simps fst_conv by code_simp
  then have "\<forall>op \<in> set executed. takeWhile (\<lambda>c. c \<noteq> CHR '' '') (fst (opString op)) = map to_upper (mnemonic op)" by (simp only: map_eq_conv)
  then show "op \<in> set executed \<Longrightarrow> takeWhile (\<lambda>c. c \<noteq> CHR '' '') (fst (opString op)) = map to_upper (mnemonic op)" by blast
qed

text \<open>The debugger touches the two fields that say when to stop, and nothing else. A number lets the machine run until that tick; \<^verbatim>\<open>c\<close> lets it run on for good.\<close>

lemma Debugger_keeps: "(\<exists>t. fst (Debugger buf m) = m\<lparr>runUntilTime := t\<rparr>) \<or> fst (Debugger buf m) = m\<lparr>runUntilTime := 0, singleStep := False\<rparr>"
proof (cases "sscanf_d buf")
  case None
  then have "fst (Debugger buf m) \<in> {m\<lparr>runUntilTime := 0\<rparr>, m\<lparr>runUntilTime := 0, singleStep := False\<rparr>}" by (simp add: Debugger_def Let_def split: list.split)
  then show ?thesis by blast
next
  case (Some num)
  then have "fst (Debugger buf m) = m\<lparr>runUntilTime := num\<rparr>" by (simp add: Debugger_def)
  then show ?thesis by blast
qed

lemma debug_stop_once: "sscanf_d read = Some t \<Longrightarrow> now < t \<Longrightarrow> debug_stop other now (debug_stop read now m) = (if singleStep m \<and> runUntilTime m \<le> now then m\<lparr>runUntilTime := t\<rparr> else debug_stop other now m)"
  by (simp add: debug_stop_def Debugger_def)

lemma debug_continue: "debug_stop r' t' (debug_stop (CHR ''c'' # r) t m) = (if singleStep m \<and> runUntilTime m \<le> t then m\<lparr>runUntilTime := 0, singleStep := False\<rparr> else debug_stop r' t' m)"
  by (simp add: debug_stop_def Debugger_def sscanf_d_def scan_digits_def is_space_def is_digit_def)

end
