(* ===== verification/Stacks.thy ===== *)
theory Stacks
  imports Prelude
begin

text \<open>
  The stacks of \<^verbatim>\<open>c++example/\<close>: the array stack of \<^verbatim>\<open>stack.cc\<close> and \<^verbatim>\<open>templatestack.cc\<close>, which \<^verbatim>\<open>inheritstack.cc\<close> has again as \<^verbatim>\<open>ArrayStack\<close>, and \<^verbatim>\<open>ListStack\<close> over the
  linked list of \<^verbatim>\<open>list.cc\<close>. The abstract class \<^verbatim>\<open>Stack\<close> of \<^verbatim>\<open>inheritstack.h\<close> is the locale \<open>stack_class\<close>: what its method \<^verbatim>\<open>SelfTest\<close> does is proved there once, for
  every class that implements it. What is printed is a list of events.
\<close>

section \<open>The self tests\<close>

datatype 'a event = Pushing 'a | Popping 'a

text \<open>\<^verbatim>\<open>Stack::SelfTest(int numToPush)\<close>, over the virtual methods of the class; \<open>succ\<close> is \<^verbatim>\<open>count++\<close>.\<close>

fun push_n :: "('s \<Rightarrow> 'a \<Rightarrow> 's result) \<Rightarrow> ('s \<Rightarrow> bool) \<Rightarrow> ('a \<Rightarrow> 'a) \<Rightarrow> nat \<Rightarrow> 'a \<Rightarrow> 's \<Rightarrow> ('a event list \<times> 's) result" where
  "push_n push full succ 0 cnt s = Inr ([], s)"
| "push_n push full succ (Suc n) cnt s = bindR (ASSERT (\<not> full s)) (\<lambda>_. bindR (push s cnt) (\<lambda>s1.
     bindR (push_n push full succ n (succ cnt) s1) (\<lambda>(es, s2). Inr (Pushing cnt # es, s2))))"

text \<open>\<^verbatim>\<open>while (!Empty()) cout << "popping " << Pop() << "\n";\<close>; \<open>None\<close> is a run that does not end.\<close>

partial_function (option) pop_all :: "('s \<Rightarrow> ('a \<times> 's) result) \<Rightarrow> ('s \<Rightarrow> bool) \<Rightarrow> 's \<Rightarrow> 'a event list \<Rightarrow> ('a event list \<times> 's) result option" where
  "pop_all pop emp s printed =
     (if \<not> emp s then
        (case pop s of Inl e \<Rightarrow> Some (Inl e) | Inr (v, s1) \<Rightarrow> pop_all pop emp s1 (printed @ [Popping v]))
      else Some (Inr (printed, s)))"

definition SelfTest :: "('s \<Rightarrow> 'a \<Rightarrow> 's result) \<Rightarrow> ('s \<Rightarrow> ('a \<times> 's) result) \<Rightarrow> ('s \<Rightarrow> bool) \<Rightarrow> ('s \<Rightarrow> bool) \<Rightarrow> ('a \<Rightarrow> 'a) \<Rightarrow> 'a \<Rightarrow> nat \<Rightarrow> 's \<Rightarrow>
    ('a event list \<times> 's) result option" where
  "SelfTest push pop full emp succ start numToPush s = (case push_n push full succ numToPush start s of
     Inl e \<Rightarrow> Some (Inl e)
   | Inr (printed, s1) \<Rightarrow> pop_all pop emp s1 printed)"

section \<open>The array stack\<close>

record 'a AStack =
  asize :: int
  atop :: int
  astack :: "'a list"

text \<open>\<open>junk\<close> is what the new array holds.\<close>

definition Stack_Stack :: "(nat \<Rightarrow> 'a) \<Rightarrow> int \<Rightarrow> 'a AStack result" where
  "Stack_Stack junk sz = bindR (ASSERT (sz \<ge> 1)) (\<lambda>_. Inr \<lparr>asize = sz, atop = 0, astack = map junk [0..<nat sz]\<rparr>)"

definition Stack_Full :: "'a AStack \<Rightarrow> bool" where "Stack_Full s \<longleftrightarrow> atop s = asize s"
definition Stack_Empty :: "'a AStack \<Rightarrow> bool" where "Stack_Empty s \<longleftrightarrow> atop s = 0"

definition Stack_Push :: "'a AStack \<Rightarrow> 'a \<Rightarrow> 'a AStack result" where
  "Stack_Push s v = bindR (ASSERT (\<not> Stack_Full s)) (\<lambda>_. bindR (wr (astack s) (atop s) v) (\<lambda>xs. Inr (s\<lparr>astack := xs, atop := atop s + 1\<rparr>)))"

definition Stack_Pop :: "'a AStack \<Rightarrow> ('a \<times> 'a AStack) result" where
  "Stack_Pop s = bindR (ASSERT (\<not> Stack_Empty s)) (\<lambda>_. bindR (rd (astack s) (atop s - 1)) (\<lambda>v. Inr (v, s\<lparr>atop := atop s - 1\<rparr>)))"

lemma Stack_Push_top: "Stack_Push s v = Inr s' \<Longrightarrow> nat (int (length (astack s')) - atop s') < nat (int (length (astack s)) - atop s)"
  by (auto simp: Stack_Push_def bindR_eq_Inr wr_def split: if_splits)

text \<open>The first loop of the \<^verbatim>\<open>SelfTest\<close> of \<^verbatim>\<open>stack.cc\<close> and \<^verbatim>\<open>templatestack.cc\<close>: \<^verbatim>\<open>while (!Full())\<close>.\<close>

function fill_stack :: "('a \<Rightarrow> 'a) \<Rightarrow> 'a \<Rightarrow> 'a AStack \<Rightarrow> ('a event list \<times> 'a AStack) result" where
  "fill_stack succ cnt s = (if \<not> Stack_Full s then
     bindR (Stack_Push s cnt) (\<lambda>s1. bindR (fill_stack succ (succ cnt) s1) (\<lambda>(es, s2). Inr (Pushing cnt # es, s2)))
     else Inr ([], s))"
  by pat_completeness auto
termination
  by (relation "measure (\<lambda>(succ, cnt, s). nat (int (length (astack s)) - atop s))") (auto dest: Stack_Push_top)

declare fill_stack.simps [simp del]

definition Stack_SelfTest :: "('a \<Rightarrow> 'a) \<Rightarrow> 'a \<Rightarrow> 'a AStack \<Rightarrow> ('a event list \<times> 'a AStack) result option" where
  "Stack_SelfTest succ start s = (case fill_stack succ start s of
     Inl e \<Rightarrow> Some (Inl e)
   | Inr (printed, s1) \<Rightarrow> pop_all Stack_Pop Stack_Empty s1 printed)"

section \<open>The linked list and its stack\<close>

record IElement =
  inext :: "nat option"
  iitem :: int

record IList =
  ifirst :: "nat option"
  ilast :: "nat option"

text \<open>The heap of cells with the address the next \<^verbatim>\<open>new\<close> returns; addresses are not used again.\<close>

record LStack =
  icells :: "nat \<rightharpoonup> IElement"
  inew :: nat
  ilist :: IList

definition IList_Empty :: "LStack \<Rightarrow> bool" where "IList_Empty s \<longleftrightarrow> ifirst (ilist s) = None"

definition IList_Prepend :: "LStack \<Rightarrow> int \<Rightarrow> LStack result" where
  "IList_Prepend s v = (let a = inew s in
     if IList_Empty s then
       Inr (s\<lparr>icells := (icells s)(a \<mapsto> \<lparr>inext = None, iitem = v\<rparr>), inew := a + 1, ilist := \<lparr>ifirst = Some a, ilast = Some a\<rparr>\<rparr>)
     else Inr (s\<lparr>icells := (icells s)(a \<mapsto> \<lparr>inext = ifirst (ilist s), iitem = v\<rparr>), inew := a + 1, ilist := (ilist s)\<lparr>ifirst := Some a\<rparr>\<rparr>))"

definition ideref :: "(nat \<rightharpoonup> IElement) \<Rightarrow> nat option \<Rightarrow> IElement result" where
  "ideref h p = (case p of None \<Rightarrow> Inl BadPointer | Some a \<Rightarrow> (case h a of None \<Rightarrow> Inl BadPointer | Some e \<Rightarrow> Inr e))"

definition IList_Remove :: "LStack \<Rightarrow> (int \<times> LStack) result" where
  "IList_Remove s = bindR (ASSERT (\<not> IList_Empty s)) (\<lambda>_. let l = ilist s in
     bindR (ideref (icells s) (ifirst l)) (\<lambda>e.
     let l' = (if ifirst l = ilast l then \<lparr>ifirst = None, ilast = None\<rparr> else l\<lparr>ifirst := inext e\<rparr>) in
     Inr (iitem e, s\<lparr>icells := (icells s)(the (ifirst l) := None), ilist := l'\<rparr>)))"

text \<open>The destructor of the list; \<open>None\<close> is a run that does not end.\<close>

partial_function (option) IList_delete :: "LStack \<Rightarrow> LStack result option" where
  "IList_delete s = (if \<not> IList_Empty s then (case IList_Remove s of Inl e \<Rightarrow> Some (Inl e) | Inr (_, s1) \<Rightarrow> IList_delete s1) else Some (Inr s))"

text \<open>The methods of \<^verbatim>\<open>ListStack\<close>, for a list allocated by its constructor in a heap whose addresses from \<open>a\<close> on are free.\<close>

definition ListStack_ListStack :: "(nat \<rightharpoonup> IElement) \<Rightarrow> nat \<Rightarrow> LStack" where
  "ListStack_ListStack h a = \<lparr>icells = h, inew = a, ilist = \<lparr>ifirst = None, ilast = None\<rparr>\<rparr>"

definition ListStack_Push :: "LStack \<Rightarrow> int \<Rightarrow> LStack result" where "ListStack_Push s v = IList_Prepend s v"
definition ListStack_Full :: "LStack \<Rightarrow> bool" where "ListStack_Full s = False"
definition ListStack_Empty :: "LStack \<Rightarrow> bool" where "ListStack_Empty s = IList_Empty s"

definition ListStack_Pop :: "LStack \<Rightarrow> (int \<times> LStack) result" where
  "ListStack_Pop s = bindR (ASSERT (\<not> ListStack_Empty s)) (\<lambda>_. IList_Remove s)"

text \<open>\<^verbatim>\<open>delete stack;\<close> in its destructor runs the one of the list.\<close>

definition ListStack_delete :: "LStack \<Rightarrow> LStack result option" where "ListStack_delete s = IList_delete s"

section \<open>The abstract class\<close>

text \<open>\<open>items\<close> is what is on the stack, the last one pushed first; \<open>room s n\<close> says that \<open>n\<close> more can be pushed.\<close>

locale stack_class =
  fixes push :: "'s \<Rightarrow> 'a \<Rightarrow> 's result" and pop :: "'s \<Rightarrow> ('a \<times> 's) result" and full :: "'s \<Rightarrow> bool" and emp :: "'s \<Rightarrow> bool"
    and inv :: "'s \<Rightarrow> bool" and items :: "'s \<Rightarrow> 'a list" and room :: "'s \<Rightarrow> nat \<Rightarrow> bool"
  assumes push_law: "inv s \<Longrightarrow> \<not> full s \<Longrightarrow> \<exists>s'. push s v = Inr s' \<and> inv s' \<and> items s' = v # items s \<and> (\<forall>n. room s (Suc n) \<longrightarrow> room s' n)"
    and pop_law: "inv s \<Longrightarrow> items s = v # vs \<Longrightarrow> \<exists>s'. pop s = Inr (v, s') \<and> inv s' \<and> items s' = vs"
    and emp_law: "inv s \<Longrightarrow> emp s = (items s = [])"
    and full_law: "inv s \<Longrightarrow> room s (Suc n) \<Longrightarrow> \<not> full s"
begin

text \<open>Whatever is on the stack comes off in order, and the loop ends.\<close>

lemma pop_all_ok: "inv s \<Longrightarrow> \<exists>s'. pop_all pop emp s printed = Some (Inr (printed @ map Popping (items s), s')) \<and> inv s' \<and> items s' = []"
proof (induction "items s" arbitrary: s printed)
  case Nil
  then show ?case using emp_law by (subst pop_all.simps) simp
next
  case (Cons v vs)
  then obtain s1 where s1: "pop s = Inr (v, s1)" "inv s1" "items s1 = vs" using pop_law [of s v vs] by auto
  have "\<not> emp s" using emp_law [OF Cons.prems] Cons.hyps(2) [symmetric] by simp
  then show ?case using Cons.hyps(1) [of s1 "printed @ [Popping v]"] s1 Cons.hyps(2) [symmetric] by (subst pop_all.simps) simp
qed

lemma push_n_ok:
  "inv s \<Longrightarrow> room s n \<Longrightarrow> \<exists>s'. push_n push full succ n c s = Inr (map (\<lambda>i. Pushing ((succ ^^ i) c)) [0..<n], s') \<and> inv s' \<and>
     items s' = rev (map (\<lambda>i. (succ ^^ i) c) [0..<n]) @ items s"
proof (induction n arbitrary: s c)
  case (Suc n)
  have nf: "\<not> full s" using full_law [OF Suc.prems] .
  obtain s1 where s1: "push s c = Inr s1" "inv s1" "items s1 = c # items s" "room s1 n" using push_law [OF Suc.prems(1) nf, of c] Suc.prems(2) by blast
  obtain s2 where s2: "push_n push full succ n (succ c) s1 = Inr (map (\<lambda>i. Pushing ((succ ^^ i) (succ c))) [0..<n], s2)" "inv s2"
    "items s2 = rev (map (\<lambda>i. (succ ^^ i) (succ c)) [0..<n]) @ items s1" using Suc.IH [OF s1(2,4)] by blast
  have sh: "map f [0..<Suc n] = f 0 # map (\<lambda>i. f (Suc i)) [0..<n]" for f :: "nat \<Rightarrow> 'b" by (simp add: upt_conv_Cons map_Suc_upt [symmetric] del: upt_Suc)
  show ?case using nf s1(1,3) s2 unfolding sh by (simp add: funpow_swap1)
qed simp

lemma self_test:
  assumes "inv s" "items s = []" "room s n"
  shows "\<exists>s'. SelfTest push pop full emp succ c n s = Some (Inr (map (\<lambda>i. Pushing ((succ ^^ i) c)) [0..<n] @ map Popping (rev (map (\<lambda>i. (succ ^^ i) c) [0..<n])), s')) \<and>
    inv s' \<and> items s' = []"
proof -
  obtain s1 where s1: "push_n push full succ n c s = Inr (map (\<lambda>i. Pushing ((succ ^^ i) c)) [0..<n], s1)" "inv s1"
    "items s1 = rev (map (\<lambda>i. (succ ^^ i) c) [0..<n])" using push_n_ok [OF assms(1,3)] assms(2) by auto
  then show ?thesis using pop_all_ok [OF s1(2)] by (auto simp: SelfTest_def)
qed

end

section \<open>The array stack implements the class\<close>

definition astack_inv :: "'a AStack \<Rightarrow> bool" where
  "astack_inv s \<longleftrightarrow> 0 \<le> atop s \<and> atop s \<le> asize s \<and> int (length (astack s)) = asize s"

definition astack_items :: "'a AStack \<Rightarrow> 'a list" where
  "astack_items s = rev (take (nat (atop s)) (astack s))"

definition astack_room :: "'a AStack \<Rightarrow> nat \<Rightarrow> bool" where
  "astack_room s n \<longleftrightarrow> atop s + int n \<le> asize s"

lemma take_push: "k < length xs \<Longrightarrow> take (Suc k) (xs[k := v]) = take k xs @ [v]"
  by (simp add: take_Suc_conv_app_nth)

interpretation arrays: stack_class Stack_Push Stack_Pop Stack_Full Stack_Empty astack_inv astack_items astack_room
proof unfold_locales
  fix s :: "'a AStack" and v
  assume i: "astack_inv s" "\<not> Stack_Full s"
  define k where "k = nat (atop s)"
  have k: "atop s = int k" "k < length (astack s)" using i by (auto simp: k_def astack_inv_def Stack_Full_def)
  let ?s = "s\<lparr>astack := (astack s)[k := v], atop := atop s + 1\<rparr>"
  have "Stack_Push s v = Inr ?s" using i(2) k by (simp add: Stack_Push_def)
  moreover have "astack_items ?s = v # astack_items s" using k take_push [of k "astack s" v] by (simp add: astack_items_def nat_add_distrib)
  moreover have "astack_inv ?s" "\<forall>n. astack_room s (Suc n) \<longrightarrow> astack_room ?s n" using i k by (auto simp: astack_inv_def astack_room_def Stack_Full_def)
  ultimately show "\<exists>s'. Stack_Push s v = Inr s' \<and> astack_inv s' \<and> astack_items s' = v # astack_items s \<and> (\<forall>n. astack_room s (Suc n) \<longrightarrow> astack_room s' n)"
    by blast
next
  fix s :: "'a AStack" and v vs
  assume i: "astack_inv s" "astack_items s = v # vs"
  then have t: "take (nat (atop s)) (astack s) = rev vs @ [v]" by (simp add: astack_items_def)
  then have "nat (atop s) \<noteq> 0" by (metis append_is_Nil_conv list.discI take_0)
  then obtain k where k: "atop s = int (Suc k)" using i(1) by (metis astack_inv_def int_nat_eq not0_implies_Suc)
  have l: "k < length (astack s)" using i(1) k by (simp add: astack_inv_def)
  moreover have "nat (atop s) = Suc k" using k by simp
  ultimately have "take k (astack s) @ [astack s ! k] = rev vs @ [v]" using t by (simp only: take_Suc_conv_app_nth)
  then have e: "take k (astack s) = rev vs" "astack s ! k = v" by simp_all
  have "Stack_Pop s = Inr (v, s\<lparr>atop := int k\<rparr>)" using k e l by (simp add: Stack_Pop_def Stack_Empty_def)
  then show "\<exists>s'. Stack_Pop s = Inr (v, s') \<and> astack_inv s' \<and> astack_items s' = vs" using i(1) k e by (auto simp: astack_inv_def astack_items_def)
next
  fix s :: "'a AStack"
  assume "astack_inv s"
  then show "Stack_Empty s = (astack_items s = [])" by (auto simp: astack_inv_def astack_items_def Stack_Empty_def)
next
  fix s :: "'a AStack" and n
  assume "astack_inv s" "astack_room s (Suc n)"
  then show "\<not> Stack_Full s" by (auto simp: astack_room_def Stack_Full_def)
qed

text \<open>The self test of \<^verbatim>\<open>stack.cc\<close> fills the stack: it is the other one with as many elements as there is room.\<close>

lemma fill_push_n:
  "astack_inv s \<Longrightarrow> n = nat (asize s - atop s) \<Longrightarrow> fill_stack succ c s = push_n Stack_Push Stack_Full succ n c s"
proof (induction n arbitrary: s c)
  case 0
  then have "Stack_Full s" by (auto simp: astack_inv_def Stack_Full_def)
  then show ?case by (subst fill_stack.simps) simp
next
  case (Suc n)
  then have nf: "\<not> Stack_Full s" by (auto simp: Stack_Full_def)
  obtain s1 where s1: "Stack_Push s c = Inr s1" "astack_inv s1" using arrays.push_law [OF Suc.prems(1) nf] by blast
  have "n = nat (asize s1 - atop s1)" using s1(1) Suc.prems(2) by (auto simp: Stack_Push_def bindR_eq_Inr)
  then show ?case using Suc.IH [OF s1(2)] nf s1(1) by (subst fill_stack.simps) simp
qed

section \<open>The list stack implements the class\<close>

fun ichain :: "(nat \<rightharpoonup> IElement) \<Rightarrow> nat option \<Rightarrow> nat list \<Rightarrow> bool" where
  "ichain h p [] = (p = None)"
| "ichain h p (a # as) = (p = Some a \<and> (\<exists>e. h a = Some e \<and> ichain h (inext e) as))"

text \<open>The items from the cell \<open>p\<close> on, at most \<open>n\<close>.\<close>

fun iwalk :: "(nat \<rightharpoonup> IElement) \<Rightarrow> nat \<Rightarrow> nat option \<Rightarrow> int list" where
  "iwalk h 0 p = []"
| "iwalk h (Suc n) p = (case p of None \<Rightarrow> [] | Some a \<Rightarrow> (case h a of None \<Rightarrow> [] | Some e \<Rightarrow> iitem e # iwalk h n (inext e)))"

definition lstack_rep :: "LStack \<Rightarrow> nat list \<Rightarrow> bool" where
  "lstack_rep s as \<longleftrightarrow> ichain (icells s) (ifirst (ilist s)) as \<and> distinct as \<and> (as \<noteq> [] \<longrightarrow> ilast (ilist s) = Some (last as)) \<and> (\<forall>a \<in> set as. a < inew s)"

definition lstack_inv :: "LStack \<Rightarrow> bool" where "lstack_inv s \<longleftrightarrow> (\<exists>as. lstack_rep s as)"
definition lstack_items :: "LStack \<Rightarrow> int list" where "lstack_items s = iwalk (icells s) (inew s) (ifirst (ilist s))"

lemma iwalk_chain: "ichain h p as \<Longrightarrow> length as \<le> n \<Longrightarrow> iwalk h n p = map (\<lambda>a. iitem (the (h a))) as"
proof (induction as arbitrary: p n)
  case Nil
  then show ?case by (cases n) simp_all
next
  case (Cons a as)
  then show ?case by (cases n) auto
qed

lemma rep_items: "lstack_rep s as \<Longrightarrow> lstack_items s = map (\<lambda>a. iitem (the (icells s a))) as"
proof -
  assume r: "lstack_rep s as"
  have "set as \<subseteq> {..<inew s}" using r by (auto simp: lstack_rep_def)
  then have "card (set as) \<le> inew s" using card_mono [of "{..<inew s}" "set as"] by simp
  then have "length as \<le> inew s" using r by (simp add: lstack_rep_def distinct_card)
  then show ?thesis using r by (simp add: lstack_items_def lstack_rep_def iwalk_chain)
qed

lemma ichain_upd: "b \<notin> set as \<Longrightarrow> ichain (h(b := x)) p as = ichain h p as"
  by (induction as arbitrary: p) auto

lemma ichain_Nil: "ichain h p as \<Longrightarrow> (p = None) = (as = [])"
  by (cases as) auto

lemma push_rep:
  assumes "lstack_rep s as"
  shows "\<exists>s'. ListStack_Push s v = Inr s' \<and> lstack_rep s' (inew s # as) \<and> lstack_items s' = v # lstack_items s"
proof -
  have n: "inew s \<notin> set as" "ichain (icells s) (ifirst (ilist s)) as" using assms by (auto simp: lstack_rep_def)
  define s' where "s' = (case ListStack_Push s v of Inl e \<Rightarrow> s | Inr t \<Rightarrow> t)"
  have s': "ListStack_Push s v = Inr s'" "icells s' = (icells s)(inew s \<mapsto> \<lparr>inext = ifirst (ilist s), iitem = v\<rparr>)" "inew s' = inew s + 1"
    "ifirst (ilist s') = Some (inew s)" "ilast (ilist s') = (if as = [] then Some (inew s) else ilast (ilist s))"
    using ichain_Nil [OF n(2)] by (auto simp: s'_def ListStack_Push_def IList_Prepend_def IList_Empty_def Let_def)
  have r: "lstack_rep s' (inew s # as)" unfolding lstack_rep_def using s' assms n by (auto simp: ichain_upd lstack_rep_def)
  have "map (\<lambda>a. iitem (the (icells s' a))) as = map (\<lambda>a. iitem (the (icells s a))) as" using n(1) s'(2) by auto
  then have "lstack_items s' = v # lstack_items s" using rep_items [OF r] rep_items [OF assms] s'(2) by simp
  with s'(1) r show ?thesis by blast
qed

lemma pop_rep:
  assumes "lstack_rep s (a # as)"
  shows "\<exists>s'. ListStack_Pop s = Inr (iitem (the (icells s a)), s') \<and> lstack_rep s' as \<and> icells s' = (icells s)(a := None) \<and> lstack_items s' = map (\<lambda>a. iitem (the (icells s a))) as"
proof -
  obtain e where e: "icells s a = Some e" "ichain (icells s) (inext e) as" "ifirst (ilist s) = Some a" using assms by (auto simp: lstack_rep_def)
  have d: "a \<notin> set as" "ilast (ilist s) = Some (last (a # as))" using assms by (simp_all add: lstack_rep_def)
  have eq: "(ifirst (ilist s) = ilast (ilist s)) = (as = [])" using d e(3) by (cases as rule: rev_cases) auto
  let ?l = "if as = [] then \<lparr>ifirst = None, ilast = None\<rparr> else (ilist s)\<lparr>ifirst := inext e\<rparr>"
  let ?s = "s\<lparr>icells := (icells s)(a := None), ilist := ?l\<rparr>"
  have "ListStack_Pop s = Inr (iitem e, ?s)"
    using e(1,3) eq by (simp add: ListStack_Pop_def ListStack_Empty_def IList_Empty_def IList_Remove_def ideref_def Let_def)
  moreover have r: "lstack_rep ?s as" using assms e(2) d by (auto simp: lstack_rep_def ichain_upd)
  moreover have "map (\<lambda>x. iitem (the (((icells s)(a := None)) x))) as = map (\<lambda>x. iitem (the (icells s x))) as" using d(1) by auto
  ultimately show ?thesis using rep_items [OF r] e(1) by auto
qed

interpretation lists: stack_class ListStack_Push ListStack_Pop ListStack_Full ListStack_Empty lstack_inv lstack_items "\<lambda>s n. True"
proof unfold_locales
  fix s v
  assume "lstack_inv s"
  then show "\<exists>s'. ListStack_Push s v = Inr s' \<and> lstack_inv s' \<and> lstack_items s' = v # lstack_items s \<and> (\<forall>n. True \<longrightarrow> True)"
    using push_rep unfolding lstack_inv_def by blast
next
  fix s v vs
  assume i: "lstack_inv s" "lstack_items s = v # vs"
  then obtain as where r: "lstack_rep s as" by (auto simp: lstack_inv_def)
  then have "map (\<lambda>a. iitem (the (icells s a))) as = v # vs" using i(2) rep_items by simp
  then obtain a as' where a: "as = a # as'" "iitem (the (icells s a)) = v" "map (\<lambda>a. iitem (the (icells s a))) as' = vs" by (cases as) auto
  then show "\<exists>s'. ListStack_Pop s = Inr (v, s') \<and> lstack_inv s' \<and> lstack_items s' = vs" using pop_rep [of s a as'] r by (auto simp: lstack_inv_def)
next
  fix s
  assume "lstack_inv s"
  then obtain as where r: "lstack_rep s as" by (auto simp: lstack_inv_def)
  then show "ListStack_Empty s = (lstack_items s = [])"
    using rep_items [OF r] ichain_Nil [of "icells s" "ifirst (ilist s)" as] by (simp add: ListStack_Empty_def IList_Empty_def lstack_rep_def)
next
  fix s n
  show "\<not> ListStack_Full s" by (simp add: ListStack_Full_def)
qed

text \<open>The destructor ends and gives back every cell of the list, and no other.\<close>

lemma delete_rep: "lstack_rep s as \<Longrightarrow> \<exists>s'. ListStack_delete s = Some (Inr s') \<and> lstack_rep s' [] \<and> icells s' = (icells s) |` (- set as)"
proof (induction as arbitrary: s)
  case Nil
  then show ?case by (subst ListStack_delete_def, subst IList_delete.simps) (auto simp: lstack_rep_def IList_Empty_def restrict_map_def)
next
  case (Cons a as)
  then obtain s1 where s1: "ListStack_Pop s = Inr (iitem (the (icells s a)), s1)" "lstack_rep s1 as" "icells s1 = (icells s)(a := None)" using pop_rep by blast
  have ne: "\<not> IList_Empty s" using Cons.prems by (simp add: lstack_rep_def IList_Empty_def)
  then have "IList_Remove s = Inr (iitem (the (icells s a)), s1)" using s1(1) by (simp add: ListStack_Pop_def ListStack_Empty_def)
  then have "ListStack_delete s = ListStack_delete s1" using ne by (simp add: ListStack_delete_def IList_delete.simps [of s])
  moreover have "(icells s1) |` (- set as) = (icells s) |` (- set (a # as))" using s1(3) by (auto simp: restrict_map_def)
  ultimately show ?case using Cons.IH [OF s1(2)] by simp
qed

section \<open>What the programs print\<close>

text \<open>\<^verbatim>\<open>main\<close> of \<^verbatim>\<open>stack.cc\<close>, of \<^verbatim>\<open>templatestack.cc\<close> (what it prints for the stack of integers and the one of characters) and of \<^verbatim>\<open>inheritstack.cc\<close>.\<close>

definition stack_main :: "(nat \<Rightarrow> int) \<Rightarrow> int event list result option" where
  "stack_main junk = (case Stack_Stack junk 10 of
     Inl e \<Rightarrow> Some (Inl e)
   | Inr s \<Rightarrow> map_option (map_sum id fst) (Stack_SelfTest (\<lambda>n. n + 1) 17 s))"

definition template_main :: "(nat \<Rightarrow> int) \<Rightarrow> (nat \<Rightarrow> 8 word) \<Rightarrow> (int event list \<times> 8 word event list) result option" where
  "template_main junk junk' = (case bindR (Stack_Stack junk 10) (\<lambda>s1. bindR (Stack_Stack junk' 10) (\<lambda>s2. Inr (s1, s2))) of
     Inl e \<Rightarrow> Some (Inl e)
   | Inr (s1, s2) \<Rightarrow> (case Stack_SelfTest (\<lambda>n. n + 1) 17 s1 of
       None \<Rightarrow> None
     | Some (Inl e) \<Rightarrow> Some (Inl e)
     | Some (Inr (p1, _)) \<Rightarrow> map_option (map_sum id (\<lambda>(p2, _). (p1, p2))) (Stack_SelfTest (\<lambda>n. n + 1) 97 s2)))"

definition inherit_main :: "(nat \<Rightarrow> int) \<Rightarrow> (nat \<rightharpoonup> IElement) \<Rightarrow> nat \<Rightarrow> (int event list \<times> int event list) result option" where
  "inherit_main junk h a = (case Stack_Stack junk 10 of
     Inl e \<Rightarrow> Some (Inl e)
   | Inr s1 \<Rightarrow> (let s2 = ListStack_ListStack h a in
       case SelfTest Stack_Push Stack_Pop Stack_Full Stack_Empty (\<lambda>n. n + 1) 17 10 s1 of
         None \<Rightarrow> None
       | Some (Inl e) \<Rightarrow> Some (Inl e)
       | Some (Inr (p1, _)) \<Rightarrow> (case SelfTest ListStack_Push ListStack_Pop ListStack_Full ListStack_Empty (\<lambda>n. n + 1) 17 10 s2 of
           None \<Rightarrow> None
         | Some (Inl e) \<Rightarrow> Some (Inl e)
         | Some (Inr (p2, s2')) \<Rightarrow> map_option (map_sum id (\<lambda>_. (p1, p2))) (ListStack_delete s2'))))"


definition test_output :: "('a \<Rightarrow> 'a) \<Rightarrow> 'a \<Rightarrow> nat \<Rightarrow> 'a event list" where
  "test_output succ c n = map (\<lambda>i. Pushing ((succ ^^ i) c)) [0..<n] @ map Popping (rev (map (\<lambda>i. (succ ^^ i) c) [0..<n]))"

lemma Stack_new: "1 \<le> sz \<Longrightarrow> \<exists>s. Stack_Stack junk sz = Inr s \<and> astack_inv s \<and> astack_items s = [] \<and> asize s = sz \<and> atop s = 0"
  by (simp add: Stack_Stack_def astack_inv_def astack_items_def)

lemma lstack_new: "lstack_inv (ListStack_ListStack h a)" "lstack_items (ListStack_ListStack h a) = []"
proof -
  have "lstack_rep (ListStack_ListStack h a) []" by (simp add: lstack_rep_def ListStack_ListStack_def)
  then show "lstack_inv (ListStack_ListStack h a)" "lstack_items (ListStack_ListStack h a) = []" using rep_items by (auto simp: lstack_inv_def)
qed

text \<open>Every class prints the same, as long as it has room; and so does the test of \<^verbatim>\<open>stack.cc\<close>, which fills the stack.\<close>

lemma array_self_test:
  assumes "Stack_Stack junk sz = Inr s" "int n \<le> sz"
  shows "\<exists>s'. SelfTest Stack_Push Stack_Pop Stack_Full Stack_Empty succ c n s = Some (Inr (test_output succ c n, s'))"
proof -
  have "1 \<le> sz" using assms(1) by (simp add: Stack_Stack_def bindR_eq_Inr)
  then have s: "astack_inv s" "astack_items s = []" "asize s = sz" "atop s = 0" using Stack_new [of sz junk] assms(1) by auto
  then have "astack_room s n" using assms(2) by (simp add: astack_room_def)
  then show ?thesis using arrays.self_test [OF s(1,2)] unfolding test_output_def by blast
qed

lemma stack_self_test:
  assumes "Stack_Stack junk sz = Inr s"
  shows "\<exists>s'. Stack_SelfTest succ c s = Some (Inr (test_output succ c (nat sz), s'))"
proof -
  have z: "1 \<le> sz" using assms(1) by (simp add: Stack_Stack_def bindR_eq_Inr)
  then have s: "astack_inv s" "asize s = sz" "atop s = 0" using Stack_new [of sz junk] assms(1) by auto
  have "Stack_SelfTest succ c s = SelfTest Stack_Push Stack_Pop Stack_Full Stack_Empty succ c (nat sz) s"
    using fill_push_n [OF s(1) refl, of succ c] s(2,3) by (simp add: Stack_SelfTest_def SelfTest_def)
  then show ?thesis using array_self_test [OF assms(1), of "nat sz"] z by simp
qed

lemma list_self_test:
  "\<exists>s'. SelfTest ListStack_Push ListStack_Pop ListStack_Full ListStack_Empty succ c n (ListStack_ListStack h a) = Some (Inr (test_output succ c n, s')) \<and> lstack_inv s'"
  using lists.self_test [OF lstack_new TrueI] unfolding test_output_def by metis

text \<open>The three programs print the numbers from 17 to 26 (the letters from a to j for the stack of characters) going in, and the same in the opposite order coming out.\<close>

lemma mains:
  "stack_main junk = Some (Inr (test_output (\<lambda>n. n + 1) 17 10))"
  "template_main junk junk' = Some (Inr (test_output (\<lambda>n. n + 1) 17 10, test_output (\<lambda>n. n + 1) 97 10))"
  "inherit_main junk h a = Some (Inr (test_output (\<lambda>n. n + 1) 17 10, test_output (\<lambda>n. n + 1) 17 10))"
proof -
  obtain s :: "int AStack" and t :: "8 word AStack" where st: "Stack_Stack junk 10 = Inr s" "Stack_Stack junk' 10 = Inr t"
    using Stack_new [of 10 junk] Stack_new [of 10 junk'] by auto
  obtain s1 t1 where ft: "Stack_SelfTest (\<lambda>n. n + 1) 17 s = Some (Inr (test_output (\<lambda>n. n + 1) 17 10, s1))"
    "Stack_SelfTest (\<lambda>n. n + 1) 97 t = Some (Inr (test_output (\<lambda>n. n + 1) 97 10, t1))"
    using stack_self_test [OF st(1)] stack_self_test [OF st(2)] by fastforce
  obtain s2 where f2: "SelfTest Stack_Push Stack_Pop Stack_Full Stack_Empty (\<lambda>n. n + 1) 17 10 s = Some (Inr (test_output (\<lambda>n. n + 1) 17 10, s2))"
    using array_self_test [OF st(1), of 10] by fastforce
  obtain l where f3: "SelfTest ListStack_Push ListStack_Pop ListStack_Full ListStack_Empty (\<lambda>n. n + 1) 17 10 (ListStack_ListStack h a) = Some (Inr (test_output (\<lambda>n. n + 1) 17 10, l))"
    "lstack_inv l" using list_self_test by blast
  obtain l' where "ListStack_delete l = Some (Inr l')" using f3(2) delete_rep unfolding lstack_inv_def by blast
  then show "stack_main junk = Some (Inr (test_output (\<lambda>n. n + 1) 17 10))"
    "template_main junk junk' = Some (Inr (test_output (\<lambda>n. n + 1) 17 10, test_output (\<lambda>n. n + 1) 97 10))"
    "inherit_main junk h a = Some (Inr (test_output (\<lambda>n. n + 1) 17 10, test_output (\<lambda>n. n + 1) 17 10))"
    using st ft f2 f3(1) by (simp_all add: stack_main_def template_main_def inherit_main_def Let_def)
qed

lemma test_output_17: "test_output (\<lambda>n. n + 1) 17 10 = map Pushing [17..26] @ map Popping (rev [17..26])"
  by code_simp

end
