(* ===== verification/UserMains.thy ===== *)
theory UserMains
  imports Prelude
begin

text \<open>
  Whole programs of \<^verbatim>\<open>test/\<close>: \<^verbatim>\<open>Ping.c\<close> and \<^verbatim>\<open>Pong.c\<close>, two processes that \<^verbatim>\<open>PingPong.c\<close> starts and that take turns through two semaphores; the line that
  \<^verbatim>\<open>shell.c\<close> reads; the table that \<^verbatim>\<open>ascii.c\<close> writes. The semaphores are those of the map that theory \<open>UserSems\<close> shows the table of the kernel to be.
\<close>

section \<open>Ping and Pong\<close>

datatype loc = AtDown | AtPrint | AtUp

text \<open>The semaphores \<^verbatim>\<open>First\<close> and \<^verbatim>\<open>Second\<close>, the counter \<^verbatim>\<open>i\<close> and the place of each process, and what has been printed.\<close>

record pingpong =
  First :: nat
  Second :: nat
  ping_i :: nat
  ping_at :: loc
  pong_i :: nat
  pong_at :: loc
  screen :: string

definition rounds :: nat where "rounds = 1000"

definition pingpong_start :: pingpong where
  "pingpong_start = \<lparr>First = 1, Second = 0, ping_i = 0, ping_at = AtDown, pong_i = 0, pong_at = AtDown, screen = []\<rparr>"

text \<open>One system call of either process; \<^verbatim>\<open>Down\<close> on a semaphore that is zero waits.\<close>

inductive ping_step :: "pingpong \<Rightarrow> pingpong \<Rightarrow> bool" where
  ping_down: "ping_i s < rounds \<Longrightarrow> ping_at s = AtDown \<Longrightarrow> 0 < First s \<Longrightarrow> ping_step s (s\<lparr>First := First s - 1, ping_at := AtPrint\<rparr>)"
| ping_print: "ping_at s = AtPrint \<Longrightarrow> ping_step s (s\<lparr>screen := screen s @ ''A'', ping_at := AtUp\<rparr>)"
| ping_up: "ping_at s = AtUp \<Longrightarrow> ping_step s (s\<lparr>Second := Second s + 1, ping_i := ping_i s + 1, ping_at := AtDown\<rparr>)"

inductive pong_step :: "pingpong \<Rightarrow> pingpong \<Rightarrow> bool" where
  pong_down: "pong_i s < rounds \<Longrightarrow> pong_at s = AtDown \<Longrightarrow> 0 < Second s \<Longrightarrow> pong_step s (s\<lparr>Second := Second s - 1, pong_at := AtPrint\<rparr>)"
| pong_print: "pong_at s = AtPrint \<Longrightarrow> pong_step s (s\<lparr>screen := screen s @ ''B'', pong_at := AtUp\<rparr>)"
| pong_up: "pong_at s = AtUp \<Longrightarrow> pong_step s (s\<lparr>First := First s + 1, pong_i := pong_i s + 1, pong_at := AtDown\<rparr>)"

inductive_simps ping_step_iff: "ping_step s s'"
inductive_simps pong_step_iff: "pong_step s s'"

text \<open>Whichever process the kernel lets run.\<close>

inductive turns :: "nat \<Rightarrow> pingpong \<Rightarrow> bool" where
  turns_start: "turns 0 pingpong_start"
| turns_ping: "turns k s \<Longrightarrow> ping_step s s' \<Longrightarrow> turns (k + 1) s'"
| turns_pong: "turns k s \<Longrightarrow> pong_step s s' \<Longrightarrow> turns (k + 1) s'"

text \<open>The state after \<open>6 * n + k\<close> steps.\<close>

definition turn_state :: "nat \<Rightarrow> nat \<Rightarrow> pingpong" where
  "turn_state n k = \<lparr>First = of_bool (k = 0), Second = of_bool (k = 3), ping_i = n + of_bool (k \<ge> 3),
     ping_at = (if k = 1 then AtPrint else if k = 2 then AtUp else AtDown), pong_i = n, pong_at = (if k = 4 then AtPrint else if k = 5 then AtUp else AtDown),
     screen = concat (replicate n ''AB'') @ (if k \<le> 1 then [] else if k \<le> 4 then ''A'' else ''AB'')\<rparr>"

definition next_turn :: "nat \<Rightarrow> nat \<Rightarrow> pingpong" where
  "next_turn n k = (if k = 5 then turn_state (n + 1) 0 else turn_state n (k + 1))"

lemma replicate_end: "concat (replicate n xs) @ xs = xs @ concat (replicate n xs)"
  by (induction n) simp_all

lemma turn_step:
  assumes "k < 6" "n \<le> rounds"
  shows "ping_step (turn_state n k) s' \<or> pong_step (turn_state n k) s' \<longleftrightarrow> s' = next_turn n k \<and> (n < rounds \<or> 0 < k \<and> (k = 3 \<longrightarrow> n < rounds))"
proof -
  have e: "concat (replicate n ''AB'') @ ''AB'' = ''AB'' @ concat (replicate n ''AB'')" by (rule replicate_end)
  have "k = 0 \<or> k = 1 \<or> k = 2 \<or> k = 3 \<or> k = 4 \<or> k = 5" using assms(1) by auto
  then show ?thesis using assms(2) e by (elim disjE) (auto simp: ping_step_iff pong_step_iff turn_state_def next_turn_def)
qed

lemma turn_next:
  assumes "\<exists>n k. t = 6 * n + k \<and> k < 6 \<and> s = turn_state n k \<and> (n < rounds \<or> n = rounds \<and> k = 0)" "ping_step s s' \<or> pong_step s s'"
  shows "\<exists>n k. t + 1 = 6 * n + k \<and> k < 6 \<and> s' = turn_state n k \<and> (n < rounds \<or> n = rounds \<and> k = 0)"
proof -
  obtain n k where nk: "t = 6 * n + k" "k < 6" "s = turn_state n k" "n < rounds \<or> n = rounds \<and> k = 0" using assms(1) by blast
  then have s': "s' = next_turn n k" "n < rounds" using turn_step [of k n s'] assms(2) by auto
  show ?thesis
  proof (cases "k = 5")
    case True
    then show ?thesis using nk(1) s' by (intro exI [of _ "n + 1"] exI [of _ 0]) (auto simp: next_turn_def)
  next
    case False
    then show ?thesis using nk(1,2) s' by (intro exI [of _ n] exI [of _ "k + 1"]) (auto simp: next_turn_def)
  qed
qed

lemma turns_state:
  assumes "turns t s"
  shows "\<exists>n k. t = 6 * n + k \<and> k < 6 \<and> s = turn_state n k \<and> (n < rounds \<or> n = rounds \<and> k = 0)"
  using assms
proof (induction rule: turns.induct)
  case turns_start
  have "pingpong_start = turn_state 0 0" by (simp add: pingpong_start_def turn_state_def)
  then show ?case by (intro exI [of _ 0]) (simp add: rounds_def)
next
  case (turns_ping t s s')
  then show ?case using turn_next by blast
next
  case (turns_pong t s s')
  then show ?case using turn_next by blast
qed

lemma turns_exist: "t \<le> 6 * rounds \<Longrightarrow> \<exists>s. turns t s"
proof (induction t)
  case 0
  then show ?case using turns_start by blast
next
  case (Suc t)
  then obtain s where s: "turns t s" by auto
  obtain n k where nk: "t = 6 * n + k" "k < 6" "s = turn_state n k" "n < rounds \<or> n = rounds \<and> k = 0" using turns_state [OF s] by blast
  then have "n < rounds" using Suc.prems by auto
  then show ?case using turn_step [of k n "next_turn n k"] nk s turns_ping turns_pong by (metis Suc_eq_plus1 less_imp_le)
qed



section \<open>The line of the shell\<close>

text \<open>
  The inner loop of \<^verbatim>\<open>shell.c\<close> and what follows it: \<open>input\<close> are the bytes that the calls of \<^verbatim>\<open>Read\<close> store, and \<open>Inr None\<close> means that the shell waits for more. The result is the argument of
  \<^verbatim>\<open>Exec\<close>, if there is one, and the rest of the input. The array has 60 places.
\<close>

fun shell_line :: "byte list \<Rightarrow> nat \<Rightarrow> byte list \<Rightarrow> (byte list option \<times> byte list) option result" where
  "shell_line [] i buffer = Inr None"
| "shell_line (c # input) i buffer = bindR (wr buffer (int i) c) (\<lambda>b.
     if c \<noteq> 10 then shell_line input (i + 1) b
     else Inr (Some (if i > 0 then Some (takeWhile (\<lambda>x. x \<noteq> 0) (b[i := 0])) else None, input)))"

lemma takeWhile_prefix: "0 \<notin> set (take i xs) \<Longrightarrow> i < length xs \<Longrightarrow> takeWhile (\<lambda>x. x \<noteq> (0 :: byte)) (xs[i := 0]) = take i xs"
proof -
  assume a: "0 \<notin> set (take i xs)" "i < length xs"
  have "xs[i := 0] = take i xs @ 0 # drop (Suc i) xs" using a(2) by (simp add: upd_conv_take_nth_drop)
  moreover have "takeWhile (\<lambda>x. x \<noteq> 0) (take i xs @ 0 # drop (Suc i) xs) = take i xs" using a(1) by (subst takeWhile_append2) auto
  ultimately show ?thesis by simp
qed

lemma shell_line_gen:
  "10 \<notin> set l \<Longrightarrow> 0 \<notin> set (take i buffer @ l) \<Longrightarrow> i + length l < length buffer \<Longrightarrow>
   shell_line (l @ 10 # rest) i buffer = Inr (Some (if i + length l > 0 then Some (take i buffer @ l) else None, rest))"
proof (induction l arbitrary: i buffer)
  case Nil
  then show ?case using takeWhile_prefix [of i "buffer[i := 10]"] by simp
next
  case (Cons c l)
  have "take (Suc i) (buffer[i := c]) = take i buffer @ [c]" using Cons.prems(3) by (simp add: take_Suc_conv_app_nth)
  then show ?case using Cons.IH [of "i + 1" "buffer[i := c]"] Cons.prems by simp
qed

lemma shell_line_overrun: "10 \<notin> set l \<Longrightarrow> i \<le> length buffer \<Longrightarrow> length buffer \<le> i + length l \<Longrightarrow> shell_line (l @ 10 # rest) i buffer = Inl OutOfBounds"
proof (induction l arbitrary: i buffer)
  case Nil
  then show ?case by (simp add: wr_def)
next
  case (Cons c l)
  then show ?case by (cases "i < length buffer") (auto simp: wr_def)
qed

text \<open>A line of fewer than 60 characters is the program to run, an empty one is skipped; a longer one overruns the array.\<close>

lemma shell_line_60:
  assumes "length buffer = 60" "10 \<notin> set l" "0 \<notin> set l"
  shows "shell_line (l @ 10 # rest) 0 buffer = (if length l < 60 then Inr (Some (if l = [] then None else Some l, rest)) else Inl OutOfBounds)"
  using shell_line_gen [of l 0 buffer rest] shell_line_overrun [of l 0 buffer rest] assms by auto

section \<open>The table of characters\<close>

text \<open>The bytes that \<^verbatim>\<open>ascii.c\<close> hands to \<^verbatim>\<open>Write\<close> for one character, for one line of eight, and in all.\<close>

definition ascii_cell :: "nat \<Rightarrow> byte list" where
  "ascii_cell v = (if v < 100 then [of_nat (v div 10 + 48), of_nat (v mod 10 + 48)] @ replicate 3 32
     else [49, of_nat ((v - 100) div 10 + 48), of_nat ((v - 100) mod 10 + 48)] @ replicate 2 32) @ [of_nat v] @ replicate 5 32"

function ascii_rows :: "nat \<Rightarrow> byte list" where
  "ascii_rows i = (if i \<le> 127 then concat (map (\<lambda>j. ascii_cell (i + j)) [0..<8]) @ [10] @ ascii_rows (i + 8) else [])"
  by pat_completeness auto
termination
  by (relation "measure (\<lambda>i. 128 - i)") auto

declare ascii_rows.simps [simp del]

definition ascii_header :: "byte list" where "ascii_header = [68, 101, 99, 32, 32, 67, 104, 97, 114, 32, 32]"

definition ascii_table :: "byte list" where "ascii_table = concat (replicate 8 ascii_header) @ [10] @ ascii_rows 32"

lemma ascii_cell_length: "length (ascii_cell v) = length ascii_header"
  by (simp add: ascii_cell_def ascii_header_def)

lemma ascii_rows_length: "length (ascii_rows i) = (if i \<le> 127 then 89 * ((135 - i) div 8) else 0)"
proof (induction i rule: ascii_rows.induct)
  case (1 i)
  have c: "length (concat (map (\<lambda>j. ascii_cell (i + j)) [0..<8])) = 88" by (simp add: length_concat o_def ascii_cell_length ascii_header_def upt_conv_Cons)
  have "135 - i = 127 - i + 8" if "i \<le> 127" using that by simp
  then have d: "(135 - i) div 8 = Suc ((127 - i) div 8)" if "i \<le> 127" using that by simp
  then show ?case using c 1 by (subst ascii_rows.simps) auto
qed

text \<open>The columns are aligned: every cell is as wide as its heading, and the table has 13 lines of the same length.\<close>

lemma ascii_table_length: "length ascii_table = 13 * 89"
  by (simp add: ascii_table_def ascii_rows_length ascii_header_def length_concat sum_list_replicate)

end
