(* ===== verification/Spec2Isabelle.thy ===== *)
theory Spec2Isabelle
  imports Bitmap LinkedList MipsSim AddrSpace FileSys UserSems UserIO FileFormat Post UserPrograms TestPrograms ObjectFiles CommandLine Interp Disasm ObjectDump Debugger Stacks UserMains
begin

text \<open>
  NachOS 3.4 with the system calls, processes and user semaphores of this repository: an operating system kernel that runs as one
  UNIX process together with the workstation it is the kernel of. File names are relative to \<^verbatim>\<open>src/nachos/nachos-3.4/code\<close>.

  \<^bold>\<open>The program and the theories.\<close> A simulated MIPS processor with its memory and devices (\<^verbatim>\<open>machine/\<close>) calls the kernel through exceptions and
  interrupts; the kernel has threads and synchronisation (\<^verbatim>\<open>threads/\<close>), user processes and system calls (\<^verbatim>\<open>userprog/\<close>), a file system on the
  simulated disk (\<^verbatim>\<open>filesys/\<close>) and a post office on the simulated network (\<^verbatim>\<open>network/\<close>).

  \<^item> \<open>Prelude\<close>: results, checked arrays, C division, the macros of \<^verbatim>\<open>threads/utility.h\<close>. An \<^verbatim>\<open>ASSERT\<close> that fails, an access outside an array, a
    dangling pointer or a trap of the host is the left value of \<open>'a result\<close>.
  \<^item> \<open>Allocator\<close>, \<open>Bitmap\<close>: the locale \<open>slot_allocator\<close>, what the loops that allocate many slots rely on, and \<^verbatim>\<open>userprog/bitmap.cc\<close> on words, which
    interprets it. \<open>LinkedList\<close>: \<^verbatim>\<open>threads/list.cc\<close> on a heap of cells, with the locale \<open>item_list\<close> of its refinement to sequences.
  \<^item> \<open>Machine\<close>, \<open>MipsSim\<close>: \<^verbatim>\<open>machine/machine.cc\<close>, \<^verbatim>\<open>translate.cc\<close> and \<^verbatim>\<open>mipssim.cc\<close>. Registers are 32-bit words. \<open>OneInstruction\<close> is one instruction with its
    exception, if it raises one. The proofs are about decoding, delayed loads and branches, precise traps, multiplication, overflow, translation.
  \<^item> \<open>Interrupt\<close>: \<^verbatim>\<open>machine/interrupt.cc\<close> and \<^verbatim>\<open>stats.cc\<close> for any set of handlers; the locale \<open>device_handlers\<close> is the contract of these.
  \<^item> \<open>AddrSpace\<close>: \<^verbatim>\<open>userprog/addrspace.cc\<close>, both loaders, registers and page table of a program.
  \<^item> \<open>Threads\<close>, \<open>KernelInv\<close>: \<^verbatim>\<open>threads/thread.cc\<close>, \<^verbatim>\<open>scheduler.cc\<close> and \<^verbatim>\<open>synch.cc\<close>. The calls a thread is in are frames of its kernel stack, so that a switch in
    the middle of a call, or an interrupt, is a step; \<open>kstep\<close> is one step of the current thread and \<open>kreach\<close> the reachable states. The invariant \<open>kinv\<close> and its preservation
    are proved once in the locale \<open>kernel_handlers\<close>.
  \<^item> \<open>Devices\<close>: timer, disk, console (\<^verbatim>\<open>machine/timer.cc\<close>, \<^verbatim>\<open>disk.cc\<close>, \<^verbatim>\<open>console.cc\<close>) with the handlers and operations above them (\<^verbatim>\<open>filesys/synchdisk.cc\<close>,
    \<^verbatim>\<open>threads/synchcons.cc\<close>) and the start of the kernel (\<^verbatim>\<open>threads/system.cc\<close>). They interpret \<open>kernel_handlers\<close>.
  \<^item> \<open>Post\<close>: \<^verbatim>\<open>machine/network.cc\<close>, \<^verbatim>\<open>network/post.cc\<close> and \<^verbatim>\<open>threads/synchlist.cc\<close>. The network handlers interpret \<open>device_handlers\<close>; \<open>mail_run\<close> are the executions of
    a machine that receives mail.
  \<^item> \<open>Files\<close>, \<open>NameTable\<close>, \<open>Directories\<close>, \<open>FileSys\<close>: \<^verbatim>\<open>filesys/filehdr.cc\<close>, \<^verbatim>\<open>openfile.cc\<close>, \<^verbatim>\<open>directory.cc\<close> and \<^verbatim>\<open>filesys.cc\<close>, from sectors up to a map from names to byte
    sequences. The locale \<open>name_table\<close> is what the file system uses of its directory.
  \<^item> \<open>Processes\<close>, \<open>UserSems\<close>: \<^verbatim>\<open>userprog/pcb.cc\<close> and \<^verbatim>\<open>table.cc\<close>. An operation ends in one of the ways of the type \<open>out\<close>: it returns, waits at a semaphore, needs input,
    yields, or halts the machine. The part of a call after a wait is a definition of its own.
  \<^item> \<open>Syscalls\<close>, \<open>SyscallProps\<close>, \<open>UserIO\<close>, \<open>FileFormat\<close>: \<^verbatim>\<open>userprog/exception.cc\<close>, every case of its switch; the record \<open>os\<close> puts the components together and \<open>run_step\<close> is a
    round of \<^verbatim>\<open>Machine::Run\<close>. The lemmas \<open>kept_\<dots>\<close> follow a call through its definitions and show what it keeps.
  \<^item> \<open>UserPrograms\<close>, \<open>TestPrograms\<close>: programs of \<^verbatim>\<open>test/\<close> that compute. The sorting functions of \<^verbatim>\<open>quicksort.c\<close> and \<^verbatim>\<open>mergesort.c\<close>, the latter over the system call
    \<^verbatim>\<open>CompareFloat\<close>; \<^verbatim>\<open>sort.c\<close>, \<^verbatim>\<open>matmult.c\<close> and the conversion of numbers in \<^verbatim>\<open>quicksort.c\<close>.
  \<^item> \<open>ObjectFiles\<close>: \<^verbatim>\<open>bin/coff2noff.c\<close>, the converter that makes the files which the loader of \<open>AddrSpace\<close> reads.
  \<^item> \<open>FsTest\<close>, \<open>CommandLine\<close>: \<^verbatim>\<open>filesys/fstest.cc\<close>, the programs behind the options \<^verbatim>\<open>-cp\<close>, \<^verbatim>\<open>-p\<close> and \<^verbatim>\<open>-t\<close>; the options of \<^verbatim>\<open>threads/system.cc\<close> and the commands of \<^verbatim>\<open>threads/main.cc\<close>, for
    all compile time switches, and sequences of commands on the file system.
  \<^item> \<open>Debugger\<close>: the trace of instructions and the debugger of the machine. \<open>UserMains\<close>: \<^verbatim>\<open>Ping.c\<close> and \<^verbatim>\<open>Pong.c\<close> as two processes under every interleaving, the line of \<^verbatim>\<open>shell.c\<close>, the table of \<^verbatim>\<open>ascii.c\<close>.
  \<^item> \<open>Interp\<close>: \<^verbatim>\<open>bin/execute.c\<close>, a MIPS interpreter that runs on the host, and its comparison with \<open>MipsSim\<close>: a simulation between the two states, one instruction at a time.
  \<^item> \<open>Disasm\<close>, \<open>ObjectDump\<close>: \<^verbatim>\<open>bin/d.c\<close> and \<^verbatim>\<open>opstrings.c\<close>, the line of an instruction as a string; around it the loading of sections and the listings of \<^verbatim>\<open>disasm.c\<close> and \<^verbatim>\<open>out.c\<close>.
  \<^item> \<open>Stacks\<close>: \<^verbatim>\<open>../c++example/\<close>. The abstract class \<^verbatim>\<open>Stack\<close> is the locale \<open>stack_class\<close>, with the array stack and the list stack as its interpretations.
  \<^item> This theory: the properties that span the machine, the system calls and the processes.

  \<^bold>\<open>What is shown.\<close> For the processor: an instruction completes or traps precisely, arithmetic is exact, translation isolates address spaces. For the kernel: after start-up
  it is never stuck, a thread is in exactly one place, semaphores are balanced, a switch gives a program its registers back, the clock fires exactly what is due. For the
  file system: any sequence of operations keeps the disk consistent and implements a finite map; formatting establishes this. For processes: exec, join and exit on every branch, user
  semaphores as a map. For the system calls: the calling convention, the types of the state, numbers and strings between console, memory and files. For the network: ordered delivery
  without loss once a datagram has arrived. For the user programs: quicksort and merge sort sort, stably
  in the second case, and within their arrays; \<^verbatim>\<open>sort.c\<close> does not; the converter hands on code and data of the linker to the loader unchanged. For the programs beside the kernel: commands on the command line do to the disk what they would do to a map, Ping and Pong alternate, the interpreter computes what the simulator
  computes under stated conditions, a line of the disassembler determines what the instruction does, every stack gives back what was pushed. Some properties show how the code fails: they say so, and the findings of the manifest name them.

  \<^bold>\<open>Loops.\<close> Loops that end are functions with a measure. \<open>check_loop\<close> (interrupts that are due), \<open>insert_walk\<close> (a list that may be cyclic), the loops of \<^verbatim>\<open>SC_ReadFileFormat\<close>, \<open>pop_all\<close> and \<open>IList_delete\<close> (stacks) and
  the main loop of \<^verbatim>\<open>quicksort\<close> are \<^theory_text>\<open>partial_function (option)\<close>, where \<open>None\<close> is a run that does not end; that they end is part of what is proved about them. No fuel is used.

  \<^bold>\<open>Parameters.\<close> The random numbers of the host, the contents of new memory and of uninitialised variables, the addresses of new objects, what is typed, the datagrams on the socket, and
  \<^verbatim>\<open>atof\<close> and \<^verbatim>\<open>sprintf("%f")\<close> of the C library are arguments or part of the state, about which nothing is assumed unless a property says it.

  \<^bold>\<open>Not modelled.\<close> \<^verbatim>\<open>machine/sysdep.cc\<close> only calls UNIX. \<^verbatim>\<open>threads/switch.s\<close> and \<^verbatim>\<open>switch.c\<close> are assembly code; their effect is the change of the current thread.
  The printing of debug messages and statistics is left out. The tests (\<^verbatim>\<open>threadtest.cc\<close>, \<^verbatim>\<open>nettest.cc\<close>, the console test of \<^verbatim>\<open>progtest.cc\<close>) and the other programs of \<^verbatim>\<open>test/\<close>, with the
  \<^verbatim>\<open>main\<close> functions of the sorting programs, are drivers. Of the tools of \<^verbatim>\<open>bin/\<close>, the command lines, the reading of headers
  through libraries of the host, the trace and the histograms of the interpreter and its system calls (\<^verbatim>\<open>system.c\<close>, which calls UNIX) are left out, and so is \<^verbatim>\<open>coff2flat.c\<close>, which
  needs headers of the host. The classes of
  \<^verbatim>\<open>filesys/\<close> for \<^verbatim>\<open>FILESYS_STUB\<close> call UNIX. In the theories \<open>Processes\<close> and \<open>Syscalls\<close> a call runs up to the point where its thread waits; interrupts inside such a piece are those of the
  theory \<open>KernelInv\<close>, which treats them at every step.
\<close>

section \<open>One instruction of a user program and the kernel behind it\<close>

fun out_state :: "('a, 's) out \<Rightarrow> 's" where
  "out_state (Ret x s) = s"
| "out_state (WaitsAt sm s) = s"
| "out_state (NeedsInput s) = s"
| "out_state (Yields s) = s"
| "out_state (Halts s) = s"

lemma kept_out: "kept s0 (Inr r) \<Longrightarrow> os_ok (out_state r)"
  by (cases r) (auto simp: kept_def keeps_def)

lemma os_ok_IncPCReg:
  assumes "os_ok s"
  shows "os_ok (s\<lparr>mach := pc_advanced (mach s) (mach s)\<rparr>)"
  using assms by (auto simp: os_ok_def table_sizes_def pc_advanced_def intro!: wf_set_reg)

lemma bindW_Ret: "bindW c f = Inr (Ret y s') \<longleftrightarrow> (\<exists>x s. c = Inr (Ret x s) \<and> f x s = Inr (Ret y s'))"
  by (cases c rule: sum.exhaust [case_product]; simp; cases "projr c"; simp)

lemma syscall_Ret:
  assumes ok: "os_ok s" and e: "ExceptionHandler h SyscallException s = Some (Inr (Ret () s'))"
  shows "\<exists>s1. syscall h (sint (reg (mach s) 2)) s = Some (Inr (Ret () s1)) \<and> keeps s s1 \<and> s' = s1\<lparr>mach := pc_advanced (mach s1) (mach s1)\<rparr>"
proof -
  obtain c where c: "syscall h (sint (reg (mach s) 2)) s = Some c" "bindW c (\<lambda>_ s1. IncPCReg s1) = Inr (Ret () s')"
    using e int_reg_args(1) [OF ok] by (auto simp: ExceptionHandler_def)
  obtain s1 where s1: "c = Inr (Ret () s1)" "IncPCReg s1 = Inr (Ret () s')" using c(2) unfolding bindW_Ret by auto
  have "keeps s s1" using kept_syscall [OF ok c(1)] s1(1) by (simp add: kept_def)
  then show ?thesis using c(1) s1 IncPCReg_eq [OF keeps_ok] by (auto simp: ret_def)
qed

lemma handler_ok:
  assumes ok: "os_ok s" and e: "ExceptionHandler h w s = Some (Inr r)"
  shows "os_ok (out_state r)"
proof (cases "w = SyscallException")
  case True
  then obtain c where c: "syscall h (sint (reg (mach s) 2)) s = Some c" "bindW c (\<lambda>_ s1. IncPCReg s1) = Inr r"
    using e int_reg_args(1) [OF ok] by (auto simp: ExceptionHandler_def)
  have k: "kept s c" using kept_syscall [OF ok c(1)] .
  obtain r' where r': "c = Inr r'" using c(2) by (cases c) auto
  show ?thesis
  proof (cases r')
    case (Ret x s1)
    then have "os_ok s1" using k r' by (simp add: kept_def keeps_def)
    then show ?thesis using c(2) r' Ret IncPCReg_eq os_ok_IncPCReg by (auto simp: ret_def)
  qed (use c(2) r' kept_out [OF k [unfolded r']] in auto)
next
  case False
  then show ?thesis using e ok int_reg_args(1) [OF ok] by (cases w) (auto simp: ExceptionHandler_def ret_def)
qed

lemma reg_pc_advanced:
  assumes "os_ok s"
  shows "reg (pc_advanced (mach s) (mach s)) q = (if q = NextPCReg then reg (mach s) NextPCReg + 4 else if q = PCReg then reg (mach s) NextPCReg
    else if q = PrevPCReg then reg (mach s) PCReg else reg (mach s) q)"
  using wf_machine_regs [of "mach s"] assms by (simp add: os_ok_def pc_advanced_def reg_set_reg)

section \<open>Properties across components\<close>

text \<open>
  C4: every system call that returns to the program keeps the calling convention: the program goes on with the next
  instruction, exactly once, and finds all its registers as they were, except register 2 with the result, and
  the same address translation.
\<close>

theorem syscall_convention:
  assumes "os_ok s" and "ExceptionHandler h SyscallException s = Some (Inr (Ret () s'))"
  shows "reg (mach s') PCReg = reg (mach s) NextPCReg \<and> reg (mach s') NextPCReg = reg (mach s) NextPCReg + 4 \<and>
    reg (mach s') PrevPCReg = reg (mach s) PCReg \<and>
    (\<forall>r. r \<notin> {2, PCReg, NextPCReg, PrevPCReg} \<longrightarrow> reg (mach s') r = reg (mach s) r) \<and> xlate (mach s') = xlate (mach s)"
proof -
  obtain s1 where s1: "keeps s s1" "s' = s1\<lparr>mach := pc_advanced (mach s1) (mach s1)\<rparr>" using syscall_Ret [OF assms] by blast
  have "xlate (pc_advanced (mach s1) (mach s1)) = xlate (mach s1)" by (simp add: pc_advanced_def)
  then show ?thesis using s1 reg_pc_advanced [OF keeps_ok [OF s1(1)]] by (auto simp: keeps_def)
qed

lemma syscall_convention_witness:
  "\<exists>s'. ExceptionHandler demo_host SyscallException ((demo_os [65] [])\<lparr>mach := set_reg (mach (demo_os [65] [])) 2 16\<rparr>) = Some (Inr (Ret () s')) \<and>
     conout s' = [65] \<and> reg (mach s') NextPCReg = 4 \<and> reg (mach s') 4 = 65"
proof -
  let ?s = "(demo_os [65] [])\<lparr>mach := set_reg (mach (demo_os [65] [])) 2 16\<rparr>"
  have ok0: "os_ok (demo_os [65] [])" using demo_os_machine(1) by simp
  have lr: "length (registers (mach (demo_os [65] []))) = 40" using wf_machine_regs ok0 by (auto simp: os_ok_def)
  have ok: "os_ok ?s" using ok0 by (auto simp: os_ok_def table_sizes_def intro!: wf_set_reg)
  have r: "reg (mach ?s) 2 = 16" "reg (mach ?s) 4 = 65" "reg (mach ?s) 35 = 0" "conout ?s = []"
    using lr demo_os_machine(2) [of "[65]" 0] by (simp_all add: reg_set_reg) (simp_all add: demo_os_def reg_def nth_append)
  have rr: "ReadRegister (mach ?s) 4 = Inr 65" using ReadRegister_ok [of "mach ?s" 4] ok r(2) by (simp add: os_ok_def)
  have "sys_PrintChar ?s = ret () (?s\<lparr>conout := [65]\<rparr>)" (is "_ = ret () ?t")
    using SynchConsole_Write_all [of "[65]" ?s] rr r(4) by (simp add: sys_PrintChar_def)
  moreover have n: "sint (reg (mach ?s) 2) = 16" unfolding r(1) by simp
  ultimately have c: "syscall demo_host (sint (reg (mach ?s) 2)) ?s = Some (ret () ?t)" unfolding n by (simp add: syscall_def sc_numbers)
  have okt: "os_ok ?t" using ok by (simp add: os_ok_def table_sizes_def)
  have e: "ExceptionHandler demo_host SyscallException ?s = Some (Inr (Ret () (?t\<lparr>mach := pc_advanced (mach ?t) (mach ?t)\<rparr>)))"
    using int_reg_args(1) [OF ok] c IncPCReg_eq [OF okt] by (simp add: ExceptionHandler_def) (simp add: ret_def)
  from syscall_convention [OF ok e] show ?thesis using e r(2,3) by auto
qed



text \<open>\<^verbatim>\<open>ExitUpdate\<close> of a process nobody has joined.\<close>

lemma exit_unjoined:
  assumes inv: "pt_inv s" and n: "0 < n" "n < 10" "live s n = Some p" "JoinStatus p = -1"
    and x: "threads (kn s) (currentThread (kn s)) = Some x" "threadID x = int n"
  shows "\<exists>s'. ExitUpdate ec s = ret ec s' \<and> IsExist s' (int n) = Inr False \<and> live s' = (live s)(n := None) \<and>
    threads (kn s') = threads (kn s) \<and> currentThread (kn s') = currentThread (kn s) \<and> readyList (kn s') = readyList (kn s)"
proof -
  have l: "n < length (pt_pcb (processTab s))" "pt_pcb (processTab s) ! n = PLive p" using live_nth [OF n(3)] by simp_all
  define a where "a = with_pcb n (SetExitCode ec p) s"
  have u: "upd_pcb (int n) (SetExitCode ec) s = Inr a" using l by (simp add: upd_pcb_def get_pcb_live set_pcb_ok a_def with_pcb_def)
  have g: "get_pcb a (int n) = Inr (SetExitCode ec p)" using l(1) by (simp add: a_def with_pcb_def get_pcb_def)
  from Remove_process [OF inv n(2,3), of a "SetExitCode ec p"] obtain s' where
    "PTable_Remove (int n) a = Inr s'" "IsExist s' (int n) = Inr False" "live s' = (live s)(n := None)" "threads (kn s') = threads (kn a)"
    "currentThread (kn s') = currentThread (kn a)" "readyList (kn s') = readyList (kn a)" by (auto simp: a_def)
  moreover have "GetProcessID s = Inr (int n)" using GetProcessID_ok [OF x(1)] x(2) by simp
  moreover have "IsExist s (int n) = Inr True" using IsExist_ok [OF inv n(2)] n(3) by simp
  ultimately show ?thesis using n(1,4) u g
    by (intro exI [of _ s']) (simp add: ExitUpdate_def exit_rest_def SetExitCode_def a_def)
qed

text \<open>
  C38: \<^verbatim>\<open>SC_Exit\<close> of a process that nobody has joined removes the process from the table, but it does not end the
  thread: the call returns, and the program of the process that no longer exists goes on with its next instruction.
\<close>

theorem Exit_returns:
  assumes ok: "os_ok s" and inv: "pt_inv s" and n: "0 < n" "n < 10" "live s n = Some p" "JoinStatus p = -1"
    and x: "threads (kn s) (currentThread (kn s)) = Some x" "threadID x = int n" and sc: "sint (reg (mach s) 2) = SC_Exit"
  shows "\<exists>s'. ExceptionHandler h SyscallException s = Some (Inr (Ret () s')) \<and> IsExist s' (int n) = Inr False \<and> live s' = (live s)(n := None) \<and>
    threads (kn s') = threads (kn s) \<and> currentThread (kn s') = currentThread (kn s) \<and> reg (mach s') PCReg = reg (mach s) NextPCReg"
proof -
  obtain s1 where s1: "ExitUpdate (sint (reg (mach s) 4)) s = ret (sint (reg (mach s) 4)) s1" "IsExist s1 (int n) = Inr False"
    "live s1 = (live s)(n := None)" "threads (kn s1) = threads (kn s)" "currentThread (kn s1) = currentThread (kn s)"
    using exit_unjoined [OF inv n x] by blast
  have "kept s (ExitUpdate (sint (reg (mach s) 4)) s)" by (rule kept_ExitUpdate) (rule os_keeps_refl [OF ok])
  then have k: "keeps s s1" unfolding s1(1) by (simp add: kept_def ret_def)
  define s2 where "s2 = s1\<lparr>mach := set_reg (mach s1) 2 (of_int (sint (reg (mach s) 4)))\<rparr>"
  have "kept s1 (result2 (sint (reg (mach s) 4)) s1)" by (rule kept_result2) (rule os_keeps_refl [OF keeps_ok [OF k]])
  moreover have r: "result2 (sint (reg (mach s) 4)) s1 = ret () s2" using result2_eq [OF keeps_ok [OF k]] by (simp add: s2_def)
  ultimately have "keeps s1 s2" by (simp add: kept_def ret_def)
  then have k2: "keeps s s2" using keeps_trans [OF k] by blast
  define s3 where "s3 = s2\<lparr>mach := pc_advanced (mach s2) (mach s2)\<rparr>"
  have "sys_Exit s = ret () s2" using int_reg_args(2) [OF ok] s1(1) r by (simp add: sys_Exit_def)
  then have "syscall h (sint (reg (mach s) 2)) s = Some (ret () s2)" unfolding sc by (simp add: syscall_def sc_numbers)
  then have e: "ExceptionHandler h SyscallException s = Some (Inr (Ret () s3))"
    using int_reg_args(1) [OF ok] IncPCReg_eq [OF keeps_ok [OF k2]] by (simp add: ExceptionHandler_def s3_def) (simp add: ret_def)
  have "kn s3 = kn s1" "processTab s3 = processTab s1" by (simp_all add: s3_def s2_def)
  moreover have "reg (mach s3) PCReg = reg (mach s) NextPCReg" using reg_pc_advanced [OF keeps_ok [OF k2]] k2 by (simp add: s3_def keeps_def)
  moreover have "live s3 = live s1" "IsExist s3 (int n) = IsExist s1 (int n)" using calculation(2) by (simp_all add: live_def IsExist_def fun_eq_iff)
  ultimately show ?thesis using e s1(2-5) by (intro exI [of _ s3]) simp
qed

lemma Exit_returns_witness:
  "\<exists>n s s'. live s n \<noteq> None \<and> ExceptionHandler demo_host SyscallException s = Some (Inr (Ret () s')) \<and> live s' n = None \<and>
     reg (mach s') PCReg = reg (mach s) NextPCReg"
proof -
  obtain n and q :: procs where c: "can_join q 0 7 n (new_pcb (5, 6, 7) 7 (int n) 0)" using demo_child by blast
  then obtain x where q: "pt_inv q" "0 < n" "n < 10" "live q n = Some (new_pcb (5, 6, 7) 7 (int n) 0)" "threads (kn q) 7 = Some x" "threadID x = int n"
    unfolding can_join_def by blast
  define s where "s = (demo_os [3] [])\<lparr>kn := (kn q)\<lparr>currentThread := 7\<rparr>, processTab := processTab q, mach := set_reg (mach (demo_os [3] [])) 2 1\<rparr>"
  have ok0: "os_ok (demo_os [3] [])" using demo_os_machine(1) by simp
  have lr: "length (registers (mach (demo_os [3] []))) = 40" using wf_machine_regs ok0 by (auto simp: os_ok_def)
  have ok: "os_ok s" using ok0 pt_invD(3) [OF q(1)] by (auto simp: os_ok_def table_sizes_def s_def intro!: wf_set_reg)
  have inv: "pt_inv s" using q(1) by (rule pt_inv_kn) (simp_all add: s_def)
  have "live s n = live q n" by (simp add: live_def s_def)
  then have l: "live s n = Some (new_pcb (5, 6, 7) 7 (int n) 0)" using q(4) by simp
  have j: "JoinStatus (new_pcb (5, 6, 7) 7 (int n) 0) = -1" by (simp add: new_pcb_def)
  have t: "threads (kn s) (currentThread (kn s)) = Some x" using q(5) by (simp add: s_def)
  have sc: "sint (reg (mach s) 2) = SC_Exit" using lr by (simp add: s_def reg_set_reg SC_Exit_def)
  from Exit_returns [OF ok inv q(2,3) l j t q(6) sc, of demo_host] obtain s' where
    "ExceptionHandler demo_host SyscallException s = Some (Inr (Ret () s'))" "live s' = (live s)(n := None)" "reg (mach s') PCReg = reg (mach s) NextPCReg" by blast
  then show ?thesis using l by (intro exI [of _ n] exI [of _ s] exI [of _ s']) simp
qed

end
